(* ===== verification/GoStrings.thy ===== *)
theory GoStrings
  imports Prelude "HOL-Library.List_Lexorder" "HOL-Library.Char_ord"
begin

text \<open>
  The parts of Go's standard library the modelled code computes with, over strings as byte
  lists (a Go string is a byte sequence, and \<open>char\<close> is a byte): \<open>strings.TrimSpace\<close>,
  \<open>Fields\<close>, \<open>Split\<close>, \<open>Cut\<close> and \<open>Join\<close>, \<open>strconv.Atoi\<close> and \<open>Itoa\<close>, \<open>path.Clean\<close>,
  \<open>Dir\<close>, \<open>Base\<close> and \<open>Join\<close>, \<open>io/fs.ValidPath\<close>. Byte-wise comparison of strings
  (\<open>strings.Compare\<close>) is the lexicographic order of lists of characters.
\<close>

section \<open>White space\<close>

text \<open>
  \<open>unicode.IsSpace\<close> on a UTF-8 string: the ASCII spaces, and the encodings of U+0085, U+00A0,
  U+1680, U+2000 to U+200A, U+2028, U+2029, U+202F, U+205F and U+3000. \<open>space_len s\<close> is the
  number of bytes of the space \<open>s\<close> starts with, 0 when it starts with none. UTF-8 lead bytes
  never occur inside another encoding, so a byte-wise scan finds exactly the runes Go's rune
  loop finds.
\<close>

definition ascii_space :: "char \<Rightarrow> bool" where
  "ascii_space c \<longleftrightarrow> c \<in> {CHR 0x09, CHR 0x0A, CHR 0x0B, CHR 0x0C, CHR 0x0D, CHR '' ''}"

definition space2 :: "char \<Rightarrow> char \<Rightarrow> bool" where
  "space2 a b \<longleftrightarrow> a = CHR 0xC2 \<and> (b = CHR 0x85 \<or> b = CHR 0xA0)"

definition space3 :: "char \<Rightarrow> char \<Rightarrow> char \<Rightarrow> bool" where
  "space3 a b c \<longleftrightarrow>
     a = CHR 0xE1 \<and> b = CHR 0x9A \<and> c = CHR 0x80 \<or>
     a = CHR 0xE2 \<and> b = CHR 0x80 \<and>
       c \<in> {CHR 0x80, CHR 0x81, CHR 0x82, CHR 0x83, CHR 0x84, CHR 0x85, CHR 0x86, CHR 0x87,
             CHR 0x88, CHR 0x89, CHR 0x8A, CHR 0xA8, CHR 0xA9, CHR 0xAF} \<or>
     a = CHR 0xE2 \<and> b = CHR 0x81 \<and> c = CHR 0x9F \<or>
     a = CHR 0xE3 \<and> b = CHR 0x80 \<and> c = CHR 0x80"

fun space_len :: "string \<Rightarrow> nat" where
  "space_len [] = 0"
| "space_len [a] = (if ascii_space a then 1 else 0)"
| "space_len [a, b] = (if ascii_space a then 1 else if space2 a b then 2 else 0)"
| "space_len (a # b # c # s) =
     (if ascii_space a then 1 else if space2 a b then 2 else if space3 a b c then 3 else 0)"

text \<open>The same for the space a string ends with, read from its reversal.\<close>

fun rspace_len :: "string \<Rightarrow> nat" where
  "rspace_len [] = 0"
| "rspace_len [a] = (if ascii_space a then 1 else 0)"
| "rspace_len [b, a] = (if ascii_space b then 1 else if space2 a b then 2 else 0)"
| "rspace_len (c # b # a # s) =
     (if ascii_space c then 1 else if space2 b c then 2 else if space3 a b c then 3 else 0)"

lemma space_len_le: "space_len s \<le> length s"
  by (induction s rule: space_len.induct) auto

lemma rspace_len_le: "rspace_len s \<le> length s"
  by (induction s rule: rspace_len.induct) auto

text \<open>\<open>strings.TrimSpace\<close>.\<close>

function trim_left :: "string \<Rightarrow> string" where
  "trim_left s = (if space_len s = 0 then s else trim_left (drop (space_len s) s))"
  by pat_completeness auto
termination
  by (relation "measure length") (use space_len_le in \<open>auto intro: diff_less\<close>)

declare trim_left.simps [simp del]

function trim_rev :: "string \<Rightarrow> string" where
  "trim_rev s = (if rspace_len s = 0 then s else trim_rev (drop (rspace_len s) s))"
  by pat_completeness auto
termination
  by (relation "measure length") (use rspace_len_le in \<open>auto intro: diff_less\<close>)

declare trim_rev.simps [simp del]

definition TrimSpace :: "string \<Rightarrow> string" where
  "TrimSpace s = rev (trim_rev (rev (trim_left s)))"

lemma trim_left_unspaced [simp]: "space_len s = 0 \<Longrightarrow> trim_left s = s"
  by (simp add: trim_left.simps)

lemma trim_rev_unspaced [simp]: "rspace_len s = 0 \<Longrightarrow> trim_rev s = s"
  by (simp add: trim_rev.simps)

lemma space_len_trim_left [simp]: "space_len (trim_left s) = 0"
proof (induction s rule: trim_left.induct)
  case (1 s)
  then show ?case by (cases "space_len s = 0") (auto simp: trim_left.simps [of s])
qed

lemma rspace_len_trim_rev [simp]: "rspace_len (trim_rev s) = 0"
proof (induction s rule: trim_rev.induct)
  case (1 s)
  then show ?case by (cases "rspace_len s = 0") (auto simp: trim_rev.simps [of s])
qed

lemma trim_rev_suffix: "suffix (trim_rev s) s"
proof (induction s rule: trim_rev.induct)
  case (1 s)
  show ?case
  proof (cases "rspace_len s = 0")
    case False
    with 1 have "suffix (trim_rev (drop (rspace_len s) s)) (drop (rspace_len s) s)" by simp
    then have "suffix (trim_rev (drop (rspace_len s) s)) s"
      using suffix_drop suffix_order.trans by blast
    with False show ?thesis by (simp add: trim_rev.simps [of s])
  qed simp
qed

lemma trim_left_suffix: "suffix (trim_left s) s"
proof (induction s rule: trim_left.induct)
  case (1 s)
  show ?case
  proof (cases "space_len s = 0")
    case False
    with 1 have "suffix (trim_left (drop (space_len s) s)) (drop (space_len s) s)" by simp
    then have "suffix (trim_left (drop (space_len s) s)) s"
      using suffix_drop suffix_order.trans by blast
    with False show ?thesis by (simp add: trim_left.simps [of s])
  qed simp
qed

lemma TrimSpace_prefix: "prefix (TrimSpace s) (trim_left s)"
  using trim_rev_suffix [of "rev (trim_left s)"]
  by (simp add: TrimSpace_def suffix_to_prefix)

text \<open>A prefix of a string that starts with no space starts with none either, so trimming is
  idempotent.\<close>

lemma space_len_zero_iff:
  "space_len s = 0 \<longleftrightarrow>
     (\<forall>a t. s = a # t \<longrightarrow> \<not> ascii_space a) \<and>
     (\<forall>a b t. s = a # b # t \<longrightarrow> \<not> space2 a b) \<and>
     (\<forall>a b c t. s = a # b # c # t \<longrightarrow> \<not> space3 a b c)"
  by (cases s rule: space_len.cases) auto

lemma space_len_prefix: "prefix t s \<Longrightarrow> space_len s = 0 \<Longrightarrow> space_len t = 0"
  unfolding space_len_zero_iff prefix_def by fastforce

lemma TrimSpace_trimmed:
  "space_len (TrimSpace s) = 0" "rspace_len (rev (TrimSpace s)) = 0"
proof -
  show "space_len (TrimSpace s) = 0"
    by (rule space_len_prefix [OF TrimSpace_prefix]) simp
  show "rspace_len (rev (TrimSpace s)) = 0" by (simp add: TrimSpace_def)
qed

lemma TrimSpace_idem [simp]: "TrimSpace (TrimSpace s) = TrimSpace s"
  by (subst TrimSpace_def) (simp add: TrimSpace_trimmed)

lemma TrimSpace_set: "set (TrimSpace s) \<subseteq> set s"
  using TrimSpace_prefix [of s] trim_left_suffix [of s]
  by (meson set_mono_prefix set_mono_suffix subset_trans)

text \<open>\<open>strings.Fields\<close>: the fields between runs of white space.\<close>

definition flush_field :: "string \<Rightarrow> string list" where
  "flush_field cur = (if cur = [] then [] else [rev cur])"

function fields_from :: "string \<Rightarrow> string \<Rightarrow> string list" where
  "fields_from cur [] = flush_field cur"
| "fields_from cur (c # s) =
     (if space_len (c # s) > 0
      then flush_field cur @ fields_from [] (drop (space_len (c # s)) (c # s))
      else fields_from (c # cur) s)"
  by pat_completeness auto
termination
  by (relation "measure (\<lambda>(cur, s). length s)") auto

definition Fields :: "string \<Rightarrow> string list" where
  "Fields s = fields_from [] s"

text \<open>\<open>strings.ContainsFunc(s, unicode.IsSpace)\<close>.\<close>

fun contains_space :: "string \<Rightarrow> bool" where
  "contains_space [] = False"
| "contains_space (c # s) = (space_len (c # s) > 0 \<or> contains_space s)"

section \<open>Splitting\<close>

text \<open>\<open>strings.Split\<close> by a one-byte separator, and its inverse \<open>strings.Join\<close>.\<close>

fun split_on :: "char \<Rightarrow> string \<Rightarrow> string list" where
  "split_on c [] = [[]]"
| "split_on c (x # s) =
     (if x = c then [] # split_on c s
      else (case split_on c s of [] \<Rightarrow> [[x]] | p # ps \<Rightarrow> (x # p) # ps))"

fun join_with :: "char \<Rightarrow> string list \<Rightarrow> string" where
  "join_with c [] = []"
| "join_with c [p] = p"
| "join_with c (p # q # ps) = p @ c # join_with c (q # ps)"

text \<open>\<open>strings.Join\<close> with a separator of any length.\<close>

fun join_strings :: "string \<Rightarrow> string list \<Rightarrow> string" where
  "join_strings sep [] = []"
| "join_strings sep [p] = p"
| "join_strings sep (p # q # ps) = p @ sep @ join_strings sep (q # ps)"

lemma split_on_nonempty [simp]: "split_on c s \<noteq> []"
  by (induction s) (auto split: list.splits)

lemma join_split [simp]: "join_with c (split_on c s) = s"
proof (induction s)
  case Nil
  then show ?case by simp
next
  case (Cons x s)
  then obtain p ps where "split_on c s = p # ps"
    using split_on_nonempty by (metis list.exhaust)
  with Cons show ?case by (cases ps) auto
qed

lemma split_on_parts: "p \<in> set (split_on c s) \<Longrightarrow> c \<notin> set p"
  by (induction s arbitrary: p) (fastforce split: list.splits if_splits)+

lemma split_on_parts_subset: "p \<in> set (split_on c s) \<Longrightarrow> set p \<subseteq> set s"
proof (induction s arbitrary: p)
  case Nil
  then show ?case by simp
next
  case (Cons x s)
  then show ?case by (fastforce split: list.splits if_splits)
qed

lemma split_on_no_sep: "c \<notin> set p \<Longrightarrow> split_on c p = [p]"
  by (induction p) auto

lemma split_on_append: "c \<notin> set p \<Longrightarrow> split_on c (p @ c # s) = p # split_on c s"
  by (induction p) auto

lemma split_join: "ps \<noteq> [] \<Longrightarrow> (\<forall>p \<in> set ps. c \<notin> set p) \<Longrightarrow> split_on c (join_with c ps) = ps"
  by (induction c ps rule: join_with.induct) (auto simp: split_on_no_sep split_on_append)

text \<open>\<open>strings.Cut\<close> by a one-byte separator: what is before it, what is after it, whether it is
  there.\<close>

fun cut_at :: "char \<Rightarrow> string \<Rightarrow> string \<times> string \<times> bool" where
  "cut_at c [] = ([], [], False)"
| "cut_at c (x # s) =
     (if x = c then ([], s, True)
      else (case cut_at c s of (a, b, ok) \<Rightarrow> (x # a, b, ok)))"

lemma cut_at_found: "c \<notin> set a \<Longrightarrow> cut_at c (a @ c # b) = (a, b, True)"
  by (induction a) auto

lemma cut_at_missing: "c \<notin> set s \<Longrightarrow> cut_at c s = (s, [], False)"
  by (induction s) auto

text \<open>\<open>strings.CutPrefix\<close> and \<open>strings.TrimSuffix\<close>.\<close>

definition cut_prefix :: "string \<Rightarrow> string \<Rightarrow> string option" where
  "cut_prefix p s = (if prefix p s then Some (drop (length p) s) else None)"

definition TrimSuffix :: "string \<Rightarrow> string \<Rightarrow> string" where
  "TrimSuffix s x = (if suffix x s then take (length s - length x) s else s)"

lemma cut_prefix_append [simp]: "cut_prefix p (p @ s) = Some s"
  by (simp add: cut_prefix_def)

lemma cut_prefix_Some: "cut_prefix p s = Some t \<longleftrightarrow> s = p @ t"
  by (auto simp: cut_prefix_def prefix_def)

text \<open>\<open>strings.LastIndex\<close> of a one-byte separator, as the two parts around the last one.\<close>

definition cut_last :: "char \<Rightarrow> string \<Rightarrow> (string \<times> string) option" where
  "cut_last c s = (case cut_at c (rev s) of (a, b, ok) \<Rightarrow> if ok then Some (rev b, rev a) else None)"

lemma cut_last_found: "c \<notin> set b \<Longrightarrow> cut_last c (a @ c # b) = Some (a, b)"
  by (simp add: cut_last_def cut_at_found)

lemma cut_last_None: "c \<notin> set s \<Longrightarrow> cut_last c s = None"
  by (simp add: cut_last_def cut_at_missing)

lemma cut_at_True: "cut_at c s = (a, b, True) \<Longrightarrow> s = a @ c # b \<and> c \<notin> set a"
proof (induction s arbitrary: a)
  case Nil
  then show ?case by simp
next
  case (Cons x s)
  show ?case
  proof (cases "x = c")
    case True
    with Cons.prems show ?thesis by simp
  next
    case False
    with Cons.prems obtain a' where "cut_at c s = (a', b, True)" and "a = x # a'"
      by (auto split: prod.splits)
    with Cons.IH False show ?thesis by simp
  qed
qed

lemma cut_at_True_iff: "cut_at c s = (a, b, True) \<longleftrightarrow> s = a @ c # b \<and> c \<notin> set a"
  using cut_at_True cut_at_found by blast

lemma cut_last_Some_iff: "cut_last c s = Some (a, b) \<longleftrightarrow> s = a @ c # b \<and> c \<notin> set b"
proof
  assume "cut_last c s = Some (a, b)"
  then have "cut_at c (rev s) = (rev b, rev a, True)"
    by (auto simp: cut_last_def split: prod.splits if_splits)
  then have "rev s = rev b @ c # rev a \<and> c \<notin> set b"
    by (simp add: cut_at_True_iff)
  then show "s = a @ c # b \<and> c \<notin> set b"
    by (metis append.assoc append_Cons append_Nil rev.simps(2) rev_append rev_rev_ident)
next
  assume "s = a @ c # b \<and> c \<notin> set b"
  then show "cut_last c s = Some (a, b)" by (simp add: cut_last_found)
qed

section \<open>Decimal integers\<close>

definition is_digit :: "char \<Rightarrow> bool" where
  "is_digit c \<longleftrightarrow> 48 \<le> (of_char c :: nat) \<and> (of_char c :: nat) \<le> 57"

definition digit_val :: "char \<Rightarrow> nat" where
  "digit_val c = of_char c - 48"

fun parse_digits :: "nat \<Rightarrow> string \<Rightarrow> nat option" where
  "parse_digits acc [] = Some acc"
| "parse_digits acc (c # s) =
     (if is_digit c then parse_digits (10 * acc + digit_val c) s else None)"

text \<open>\<open>strconv.Atoi\<close>: an optional sign, at least one digit, and a value an \<open>int\<close> holds.\<close>

definition Atoi :: "string \<Rightarrow> int option" where
  "Atoi s =
     (let (neg, ds) = (case s of [] \<Rightarrow> (False, [])
                       | c # t \<Rightarrow> if c = CHR ''-'' then (True, t)
                                 else if c = CHR ''+'' then (False, t) else (False, s))
      in if ds = [] then None
         else (case parse_digits 0 ds of None \<Rightarrow> None
               | Some n \<Rightarrow> let v = (if neg then - int n else int n)
                          in if in_int64 v then Some v else None))"

fun show_nat :: "nat \<Rightarrow> string" where
  "show_nat n = (if n < 10 then [char_of (48 + n)] else show_nat (n div 10) @ [char_of (48 + n mod 10)])"

declare show_nat.simps [simp del]

definition Itoa :: "int \<Rightarrow> string" where
  "Itoa v = (if v < 0 then CHR ''-'' # show_nat (nat (- v)) else show_nat (nat v))"

lemma digit_char [simp]: "(n::nat) < 10 \<Longrightarrow> is_digit (char_of (48 + n))"
  by (simp add: is_digit_def of_char_of take_bit_eq_mod)

lemma digit_val_char [simp]: "(n::nat) < 10 \<Longrightarrow> digit_val (char_of (48 + n)) = n"
  by (simp add: digit_val_def of_char_of take_bit_eq_mod)

lemma parse_digits_append:
  "parse_digits acc (s @ t) = (case parse_digits acc s of None \<Rightarrow> None | Some n \<Rightarrow> parse_digits n t)"
  by (induction s arbitrary: acc) auto

lemma parse_show_nat [simp]: "parse_digits 0 (show_nat n) = Some n"
proof (induction n rule: show_nat.induct)
  case (1 n)
  show ?case
  proof (cases "n < 10")
    case True
    then show ?thesis by (simp add: show_nat.simps [of n])
  next
    case False
    with 1 show ?thesis by (simp add: show_nat.simps [of n] parse_digits_append)
  qed
qed

lemma show_nat_nonempty [simp]: "show_nat n \<noteq> []"
  by (subst show_nat.simps) simp

lemma show_nat_digits: "c \<in> set (show_nat n) \<Longrightarrow> is_digit c"
proof (induction n rule: show_nat.induct)
  case (1 n)
  then show ?case by (cases "n < 10") (auto simp: show_nat.simps [of n])
qed

lemma is_digit_not_sign: "is_digit c \<Longrightarrow> c \<noteq> CHR ''-'' \<and> c \<noteq> CHR ''+''"
  by (auto simp: is_digit_def)

lemma Atoi_digits:
  assumes "ds \<noteq> []" and "\<forall>c \<in> set ds. is_digit c"
  shows "Atoi ds = (case parse_digits 0 ds of None \<Rightarrow> None
           | Some n \<Rightarrow> if in_int64 (int n) then Some (int n) else None)"
proof -
  obtain c t where ds: "ds = c # t" using assms(1) by (cases ds) auto
  with assms(2) have "c \<noteq> CHR ''-''" "c \<noteq> CHR ''+''"
    using is_digit_not_sign by auto
  with ds show ?thesis by (simp add: Atoi_def split: option.splits)
qed

lemma Atoi_Itoa: "in_int64 v \<Longrightarrow> Atoi (Itoa v) = Some v"
proof (cases "v < 0")
  case True
  assume "in_int64 v"
  with True show ?thesis by (simp add: Itoa_def Atoi_def)
next
  case False
  assume "in_int64 v"
  moreover have "\<forall>c \<in> set (show_nat (nat v)). is_digit c" using show_nat_digits by blast
  ultimately show ?thesis
    using False Atoi_digits [OF show_nat_nonempty, of "nat v"] by (simp add: Itoa_def)
qed

section \<open>Slash-separated paths\<close>

text \<open>
  \<open>path.Clean\<close> (and \<open>filepath.Clean\<close> on Unix): empty elements and "." go, ".." removes the
  element before it, or is dropped at the root of a rooted path.
\<close>

definition clean_step :: "bool \<Rightarrow> string list \<Rightarrow> string \<Rightarrow> string list" where
  "clean_step rooted out e =
     (if e = [] \<or> e = ''.'' then out
      else if e = ''..'' then
        (if out \<noteq> [] \<and> last out \<noteq> ''..'' then butlast out
         else if rooted then out else out @ [''..''])
      else out @ [e])"

definition is_rooted :: "string \<Rightarrow> bool" where
  "is_rooted s \<longleftrightarrow> (case s of [] \<Rightarrow> False | c # _ \<Rightarrow> c = CHR ''/'')"

definition clean_elems :: "string \<Rightarrow> string list" where
  "clean_elems s = foldl (clean_step (is_rooted s)) [] (split_on CHR ''/'' s)"

definition Clean :: "string \<Rightarrow> string" where
  "Clean s =
     (let out = (if is_rooted s then ''/'' else []) @ join_with CHR ''/'' (clean_elems s)
      in if out = [] then ''.'' else out)"

text \<open>\<open>path.Join\<close> of two elements, and \<open>path.Dir\<close>.\<close>

definition Join2 :: "string \<Rightarrow> string \<Rightarrow> string" where
  "Join2 a b =
     (if a = [] \<and> b = [] then []
      else if a = [] then Clean b
      else if b = [] then Clean a
      else Clean (a @ ''/'' @ b))"

definition path_Dir :: "string \<Rightarrow> string" where
  "path_Dir s = Clean (case cut_last CHR ''/'' s of None \<Rightarrow> [] | Some (d, _) \<Rightarrow> d @ ''/'')"

text \<open>\<open>utf8.ValidString\<close>: no surrogate, no overlong and no out-of-range encoding.\<close>

definition byte_in :: "nat \<Rightarrow> nat \<Rightarrow> char \<Rightarrow> bool" where
  "byte_in lo hi c \<longleftrightarrow> lo \<le> (of_char c :: nat) \<and> (of_char c :: nat) \<le> hi"

fun utf8_valid :: "string \<Rightarrow> bool" where
  "utf8_valid [] = True"
| "utf8_valid (a # s) =
     (if byte_in 0 0x7F a then utf8_valid s
      else if byte_in 0xC2 0xDF a then
        (case s of b # s' \<Rightarrow> byte_in 0x80 0xBF b \<and> utf8_valid s' | _ \<Rightarrow> False)
      else if byte_in 0xE0 0xEF a then
        (case s of b # c # s' \<Rightarrow>
           byte_in (if a = CHR 0xE0 then 0xA0 else 0x80) (if a = CHR 0xED then 0x9F else 0xBF) b \<and>
           byte_in 0x80 0xBF c \<and> utf8_valid s' | _ \<Rightarrow> False)
      else if byte_in 0xF0 0xF4 a then
        (case s of b # c # d # s' \<Rightarrow>
           byte_in (if a = CHR 0xF0 then 0x90 else 0x80) (if a = CHR 0xF4 then 0x8F else 0xBF) b \<and>
           byte_in 0x80 0xBF c \<and> byte_in 0x80 0xBF d \<and> utf8_valid s' | _ \<Rightarrow> False)
      else False)"

text \<open>\<open>io/fs.ValidPath\<close>: valid UTF-8, and "." or slash-separated elements, none of them empty,
  "." or "..".\<close>

definition valid_elem :: "string \<Rightarrow> bool" where
  "valid_elem e \<longleftrightarrow> e \<noteq> [] \<and> e \<noteq> ''.'' \<and> e \<noteq> ''..''"

definition valid_elems :: "string \<Rightarrow> bool" where
  "valid_elems name \<longleftrightarrow> list_all valid_elem (split_on CHR ''/'' name)"

definition ValidPath :: "string \<Rightarrow> bool" where
  "ValidPath name \<longleftrightarrow> utf8_valid name \<and> (name = ''.'' \<or> valid_elems name)"

lemma clean_fold_valid:
  "list_all valid_elem es \<Longrightarrow> foldl (clean_step r) out es = out @ es"
  by (induction es arbitrary: out) (auto simp: clean_step_def valid_elem_def)

lemma valid_elems_not_rooted: "valid_elems s \<Longrightarrow> \<not> is_rooted s"
  by (cases s) (auto simp: valid_elems_def is_rooted_def valid_elem_def)

lemma clean_elems_valid: "valid_elems s \<Longrightarrow> clean_elems s = split_on CHR ''/'' s"
  by (simp add: clean_elems_def valid_elems_def clean_fold_valid)

lemma valid_elems_nonempty: "valid_elems s \<Longrightarrow> s \<noteq> []"
  by (auto simp: valid_elems_def valid_elem_def)

lemma Clean_valid [simp]: "valid_elems s \<Longrightarrow> Clean s = s"
  by (simp add: Clean_def Let_def valid_elems_not_rooted clean_elems_valid valid_elems_nonempty)

text \<open>The elements a cleaned path keeps are never empty or "."; a rooted path keeps no "..".\<close>

lemma clean_step_valid:
  assumes "list_all valid_elem out"
  shows "list_all valid_elem (clean_step True out e)"
proof -
  have "list_all valid_elem (butlast out)"
    using assms by (induction out) auto
  with assms show ?thesis by (auto simp: clean_step_def valid_elem_def)
qed

lemma clean_elems_rooted: "is_rooted s \<Longrightarrow> list_all valid_elem (clean_elems s)"
proof -
  have "list_all valid_elem out \<Longrightarrow> list_all valid_elem (foldl (clean_step True) out es)" for out es
    by (induction es arbitrary: out) (auto intro: clean_step_valid)
  then show "is_rooted s \<Longrightarrow> list_all valid_elem (clean_elems s)"
    by (simp add: clean_elems_def)
qed

lemma clean_step_no_sep:
  assumes "\<forall>p \<in> set out. c \<notin> set p" and "c \<notin> set e" and "c \<noteq> CHR ''.''"
  shows "\<forall>p \<in> set (clean_step r out e). c \<notin> set p"
  using assms by (auto simp: clean_step_def dest: in_set_butlastD)

lemma clean_elems_no_sep: "p \<in> set (clean_elems s) \<Longrightarrow> CHR ''/'' \<notin> set p"
proof -
  have "\<forall>p \<in> set out. CHR ''/'' \<notin> set p \<Longrightarrow> \<forall>e \<in> set es. CHR ''/'' \<notin> set e \<Longrightarrow>
      \<forall>p \<in> set (foldl (clean_step r) out es). CHR ''/'' \<notin> set p" for out es r
  proof (induction es arbitrary: out)
    case Nil
    then show ?case by simp
  next
    case (Cons e es)
    have "\<forall>p \<in> set (clean_step r out e). CHR ''/'' \<notin> set p"
      by (rule clean_step_no_sep) (use Cons.prems in auto)
    with Cons show ?case by simp
  qed
  from this [of "[]" "split_on CHR ''/'' s" "is_rooted s"]
  have "\<forall>p \<in> set (clean_elems s). CHR ''/'' \<notin> set p"
    using split_on_parts by (auto simp: clean_elems_def)
  then show "p \<in> set (clean_elems s) \<Longrightarrow> CHR ''/'' \<notin> set p" by blast
qed

lemma split_on_butlast_join:
  assumes "split_on c s = ps @ [p]" and "ps \<noteq> []"
  shows "s = join_with c ps @ c # p"
proof -
  have "join_with c (ps @ [p]) = join_with c ps @ c # p" using assms(2)
    by (induction c ps rule: join_with.induct) auto
  with assms(1) show ?thesis by (metis join_split)
qed

lemma valid_elems_join: "ps \<noteq> [] \<Longrightarrow> list_all valid_elem ps \<Longrightarrow> \<forall>p \<in> set ps. CHR ''/'' \<notin> set p \<Longrightarrow>
  valid_elems (join_with CHR ''/'' ps)"
  by (simp add: valid_elems_def split_join)

text \<open>\<open>path.Dir\<close> of a valid path drops its last element.\<close>

lemma Clean_trailing_slash:
  assumes "valid_elems d"
  shows "Clean (d @ ''/'') = d"
proof -
  have ne: "d \<noteq> []" using assms by (rule valid_elems_nonempty)
  have r: "\<not> is_rooted (d @ ''/'')"
    using valid_elems_not_rooted [OF assms] ne by (cases d) (auto simp: is_rooted_def)
  have split: "split_on CHR ''/'' (join_with CHR ''/'' ps @ ''/'') = ps @ [[]]"
    if "ps \<noteq> []" "\<forall>p \<in> set ps. CHR ''/'' \<notin> set p" for ps
    using that by (induction "CHR ''/''" ps rule: join_with.induct) (auto simp: split_on_append)
  have "split_on CHR ''/'' (d @ ''/'') = split_on CHR ''/'' d @ [[]]"
    using split [of "split_on CHR ''/'' d"] split_on_parts by simp
  then have "clean_elems (d @ ''/'') = split_on CHR ''/'' d"
    using assms by (simp add: clean_elems_def clean_fold_valid valid_elems_def clean_step_def)
  with r ne show ?thesis by (simp add: Clean_def)
qed

lemma path_Dir_single: "valid_elems s \<Longrightarrow> CHR ''/'' \<notin> set s \<Longrightarrow> path_Dir s = ''.''"
  by (simp add: path_Dir_def cut_last_None Clean_def clean_elems_def is_rooted_def clean_step_def)

lemma path_Dir_nested:
  assumes "valid_elems s" and "split_on CHR ''/'' s = ps @ [p]" and "ps \<noteq> []"
  shows "path_Dir s = join_with CHR ''/'' ps" and "valid_elems (path_Dir s)"
proof -
  have s: "s = join_with CHR ''/'' ps @ CHR ''/'' # p"
    using assms(2,3) by (rule split_on_butlast_join)
  have nosep: "\<forall>q \<in> set (ps @ [p]). CHR ''/'' \<notin> set q"
    using split_on_parts assms(2) by metis
  then have "cut_last CHR ''/'' s = Some (join_with CHR ''/'' ps, p)"
    by (simp add: s cut_last_found)
  moreover have v: "valid_elems (join_with CHR ''/'' ps)"
    using assms nosep by (intro valid_elems_join) (auto simp: valid_elems_def)
  ultimately show "path_Dir s = join_with CHR ''/'' ps"
    by (simp add: path_Dir_def Clean_trailing_slash)
  with v show "valid_elems (path_Dir s)" by simp
qed

lemma path_Dir_valid:
  assumes "valid_elems s"
  shows "path_Dir s = ''.'' \<or> valid_elems (path_Dir s) \<and> length (path_Dir s) < length s"
proof -
  obtain ps p where sp: "split_on CHR ''/'' s = ps @ [p]"
    by (meson rev_exhaust split_on_nonempty)
  show ?thesis
  proof (cases "ps = []")
    case True
    with sp have "s = p" using join_split [of "CHR ''/''" s] by simp
    with sp True have "CHR ''/'' \<notin> set s" using split_on_parts [of p "CHR ''/''" p] by simp
    with assms show ?thesis by (simp add: path_Dir_single)
  next
    case False
    then have "s = join_with CHR ''/'' ps @ CHR ''/'' # p"
      using sp split_on_butlast_join by blast
    then have "length (join_with CHR ''/'' ps) < length s" by simp
    with path_Dir_nested [OF assms sp False] show ?thesis by simp
  qed
qed

lemma path_Dir_split:
  assumes "valid_elems s"
  shows "path_Dir s = ''.'' \<or> (\<exists>p. s = path_Dir s @ CHR ''/'' # p)"
proof -
  obtain ps p where sp: "split_on CHR ''/'' s = ps @ [p]"
    using split_on_nonempty by (metis rev_exhaust)
  show ?thesis
  proof (cases "ps = []")
    case True
    with sp have "s = p" using join_split [of "CHR ''/''" s] by simp
    moreover have "CHR ''/'' \<notin> set p" using sp by (metis in_set_conv_decomp split_on_parts)
    ultimately show ?thesis using assms path_Dir_single by blast
  next
    case False
    have "join_with CHR ''/'' (ps @ [p]) = join_with CHR ''/'' ps @ CHR ''/'' # p"
      using False by (induction ps rule: induct_list012) auto
    with sp have "s = join_with CHR ''/'' ps @ CHR ''/'' # p" using join_split [of "CHR ''/''" s] by simp
    with path_Dir_nested [OF assms sp False] show ?thesis by auto
  qed
qed

text \<open>What stands before a slash in valid UTF-8 is valid UTF-8.\<close>

lemma byte_in_slash [simp]: "\<not> byte_in 128 191 CHR ''/''" "\<not> byte_in 160 191 CHR ''/''"
  "\<not> byte_in 128 159 CHR ''/''" "\<not> byte_in 144 191 CHR ''/''" "\<not> byte_in 128 143 CHR ''/''"
  by (simp_all add: byte_in_def)

lemma utf8_valid_cut: "utf8_valid (a @ CHR ''/'' # b) \<Longrightarrow> utf8_valid a"
proof (induction a rule: length_induct)
  case (1 a)
  have IH: "utf8_valid (t @ CHR ''/'' # b) \<Longrightarrow> utf8_valid t" if "length t < length a" for t
    using 1 that by blast
  note v = 1(2)
  consider "a = []" | x where "a = [x]" | x y where "a = [x, y]" | x y z where "a = [x, y, z]"
    | x y z u t where "a = x # y # z # u # t"
    by (metis list.exhaust)
  then show ?case
  proof cases
    case 2
    with v show ?thesis by (auto split: if_splits list.splits)
  next
    case 3
    with v IH [of "[y]"] show ?thesis by (auto split: if_splits list.splits)
  next
    case 4
    with v IH [of "[y, z]"] IH [of "[z]"] show ?thesis by (auto split: if_splits list.splits)
  next
    case 5
    with v IH [of "y # z # u # t"] IH [of "z # u # t"] IH [of "u # t"] IH [of t] show ?thesis
      by (cases "byte_in 0 127 x"; cases "byte_in 194 223 x"; cases "byte_in 224 239 x";
          cases "byte_in 240 244 x")
        (simp_all add: utf8_valid.simps(2) [of x] del: utf8_valid.simps split del: if_split)
  qed simp
qed

end
