(* ===== verification/Entry.thy ===== *)
theory Entry
  imports GoStrings "HOL-Library.Word"
begin

unbundle bit_operations_syntax

text \<open>
  \<open>internal/sharesync/entry.go\<close>: the synced state of one path, its identity, and the checks an
  entry and a path from a side must pass. Modes are 32-bit words (Go's \<open>fs.FileMode\<close>), sizes
  and times are \<open>int64\<close> values as integers, hashes and targets are byte strings.
\<close>

section \<open>Data\<close>

datatype kind = Gone | File | Dir | Symlink | OtherKind nat

text \<open>The number a kind has in Go, by which \<open>newer\<close> compares kinds.\<close>

fun kind_num :: "kind \<Rightarrow> nat" where
  "kind_num Gone = 0"
| "kind_num File = 1"
| "kind_num Dir = 2"
| "kind_num Symlink = 3"
| "kind_num (OtherKind n) = n + 4"

record growth =
  g_size :: int
  g_hash :: string

record entry =
  e_kind :: kind
  e_mode :: "32 word"
  e_size :: int
  e_mtime :: int
  e_hash :: string
  e_target :: string
  e_grew :: "growth list"

definition gone_entry :: entry where
  "gone_entry = \<lparr>e_kind = Gone, e_mode = 0, e_size = 0, e_mtime = 0, e_hash = [], e_target = [],
     e_grew = []\<rparr>"

definition maxGrew :: nat where "maxGrew = 16"

definition maxTarget :: nat where "maxTarget = 4096"

definition ModePerm :: "32 word" where "ModePerm = 511"

definition ModeSticky :: "32 word" where "ModeSticky = 1048576"

section \<open>Operations\<close>

definition Live :: "entry \<Rightarrow> bool" where
  "Live e \<longleftrightarrow> e_kind e \<noteq> Gone"

definition Same :: "entry \<Rightarrow> entry \<Rightarrow> bool" where
  "Same e d \<longleftrightarrow>
     (if e_kind e \<noteq> e_kind d then False
      else case e_kind e of
        Gone \<Rightarrow> True
      | File \<Rightarrow> e_mode e = e_mode d \<and> e_hash e = e_hash d \<and> e_size e = e_size d
      | Dir \<Rightarrow> e_mode e = e_mode d
      | Symlink \<Rightarrow> e_target e = e_target d
      | OtherKind n \<Rightarrow> False)"

fun find_growth :: "growth list \<Rightarrow> entry \<Rightarrow> int" where
  "find_growth [] held = -1"
| "find_growth (p # ps) held =
     (if g_size p = e_size held \<and> g_hash p = e_hash held then g_size p else find_growth ps held)"

definition extends :: "entry \<Rightarrow> entry \<Rightarrow> int" where
  "extends e held =
     (if e_kind e \<noteq> File \<or> e_kind held \<noteq> File \<or> e_size held \<ge> e_size e then -1
      else find_growth (e_grew e) held)"

definition grownFrom :: "entry \<Rightarrow> entry \<Rightarrow> entry" where
  "grownFrom e prev =
     (let grew = e_grew prev @ [\<lparr>g_size = e_size prev, g_hash = e_hash prev\<rparr>]
      in e\<lparr>e_grew := (if length grew > maxGrew then drop (length grew - maxGrew) grew else grew)\<rparr>)"

definition tombstone :: "entry \<Rightarrow> entry" where
  "tombstone e = (if e_kind e \<noteq> Dir then gone_entry else gone_entry\<lparr>e_mode := e_mode e\<rparr>)"

definition fileMode :: "kind \<Rightarrow> 32 word \<Rightarrow> 32 word" where
  "fileMode k mode =
     (case k of File \<Rightarrow> mode AND ModePerm
      | Dir \<Rightarrow> mode AND (ModePerm OR ModeSticky)
      | _ \<Rightarrow> 0)"

definition is_hex :: "char \<Rightarrow> bool" where
  "is_hex c \<longleftrightarrow> byte_in 48 57 c \<or> byte_in 97 102 c \<or> byte_in 65 70 c"

definition ascii_lower :: "char \<Rightarrow> char" where
  "ascii_lower c = (if byte_in 65 90 c then char_of ((of_char c :: nat) + 32) else c)"

text \<open>\<open>hex.DecodeString\<close> takes hex digits of either case; \<open>strings.ToLower\<close> of hex digits is
  ASCII lower case.\<close>

definition validHash :: "string \<Rightarrow> bool" where
  "validHash h \<longleftrightarrow> length h = 64 \<and> list_all is_hex h \<and> map ascii_lower h = h"

datatype check_error = DeleteMode | FileModeBits | FileSize | FileHash | ManyPrefixes | BadPrefix
  | DirMode | SymlinkTarget | UnknownKind

definition bad_growth :: "entry \<Rightarrow> growth \<Rightarrow> bool" where
  "bad_growth e p \<longleftrightarrow> g_size p < 0 \<or> g_size p \<ge> e_size e \<or> \<not> validHash (g_hash p)"

text \<open>\<open>Entry.check\<close>: \<open>None\<close> is a nil error.\<close>

definition check :: "entry \<Rightarrow> check_error option" where
  "check e =
     (case e_kind e of
        Gone \<Rightarrow> if e_mode e AND NOT (ModePerm OR ModeSticky) \<noteq> 0 then Some DeleteMode else None
      | File \<Rightarrow>
          if e_mode e \<noteq> fileMode File (e_mode e) then Some FileModeBits
          else if e_size e < 0 then Some FileSize
          else if \<not> validHash (e_hash e) then Some FileHash
          else if length (e_grew e) > maxGrew then Some ManyPrefixes
          else if list_ex (bad_growth e) (e_grew e) then Some BadPrefix
          else None
      | Dir \<Rightarrow> if e_mode e \<noteq> fileMode Dir (e_mode e) then Some DirMode else None
      | Symlink \<Rightarrow>
          if e_target e = [] \<or> length (e_target e) > maxTarget \<or> CHR 0x00 \<in> set (e_target e)
          then Some SymlinkTarget else None
      | OtherKind n \<Rightarrow> Some UnknownKind)"

definition validPath :: "string \<Rightarrow> bool" where
  "validPath name \<longleftrightarrow> name \<noteq> ''.'' \<and> ValidPath name \<and> CHR 0x00 \<notin> set name"

text \<open>The loop of \<open>ancestors\<close> goes up with \<open>path.Dir\<close> until ".". It ends on a valid path after
  fewer rounds than the path has bytes (\<open>dirs_up_enough\<close>), which is the fuel it is given.\<close>

fun dirs_up :: "nat \<Rightarrow> string \<Rightarrow> string list" where
  "dirs_up 0 p = []"
| "dirs_up (Suc n) p = (let d = path_Dir p in if d = ''.'' then [] else d # dirs_up n d)"

definition ancestors :: "string \<Rightarrow> string list" where
  "ancestors name = rev (dirs_up (length name) name)"

definition within :: "string \<Rightarrow> string \<Rightarrow> bool" where
  "within name folder \<longleftrightarrow> folder = ''.'' \<or> name = folder \<or> prefix (folder @ ''/'') name"

section \<open>Identity\<close>

lemma Live_simps [simp]: "\<not> Live gone_entry" "\<not> Live (tombstone e)"
  by (auto simp: Live_def gone_entry_def tombstone_def)

lemma Same_Live: "Same e d \<Longrightarrow> Live e \<longleftrightarrow> Live d"
  by (auto simp: Same_def Live_def split: if_splits)

lemma Same_refl: "check e = None \<Longrightarrow> Same e e"
  by (auto simp: Same_def check_def split: kind.splits)

lemma Same_sym: "Same e d \<Longrightarrow> Same d e"
  by (auto simp: Same_def split: kind.splits if_splits)

lemma Same_trans: "Same e d \<Longrightarrow> Same d f \<Longrightarrow> Same e f"
  by (auto simp: Same_def split: kind.splits if_splits)

section \<open>Growth\<close>

lemma find_growth_result:
  "find_growth ps held = -1 \<or>
   (\<exists>p \<in> set ps. find_growth ps held = e_size held \<and> g_size p = e_size held \<and> g_hash p = e_hash held)"
  by (induction ps) auto

lemma grownFrom_length: "length (e_grew (grownFrom e prev)) \<le> maxGrew"
  by (simp add: grownFrom_def Let_def maxGrew_def)

lemma grownFrom_last:
  "last (e_grew (grownFrom e prev)) = \<lparr>g_size = e_size prev, g_hash = e_hash prev\<rparr>"
  by (simp add: grownFrom_def Let_def maxGrew_def last_drop)

lemma grownFrom_fields [simp]:
  "e_kind (grownFrom e p) = e_kind e" "e_mode (grownFrom e p) = e_mode e"
  "e_size (grownFrom e p) = e_size e" "e_hash (grownFrom e p) = e_hash e"
  "e_mtime (grownFrom e p) = e_mtime e" "e_target (grownFrom e p) = e_target e"
  by (simp_all add: grownFrom_def Let_def)

lemma find_growth_present:
  "p \<in> set ps \<Longrightarrow> g_size p = e_size held \<Longrightarrow> g_hash p = e_hash held \<Longrightarrow>
   find_growth ps held = e_size held"
  by (induction ps) auto

lemma grownFrom_nonempty: "e_grew (grownFrom e prev) \<noteq> []"
  by (simp add: grownFrom_def Let_def maxGrew_def)

lemma extends_grownFrom:
  assumes "e_kind e = File" "e_kind prev = File" "e_size prev < e_size e"
  shows "extends (grownFrom e prev) prev = e_size prev"
proof -
  have "\<lparr>g_size = e_size prev, g_hash = e_hash prev\<rparr> \<in> set (e_grew (grownFrom e prev))"
    using grownFrom_last grownFrom_nonempty by (metis last_in_set)
  with assms show ?thesis
    by (simp add: extends_def find_growth_present)
qed

section \<open>Paths\<close>

lemma validPath_elems: "validPath p \<Longrightarrow> valid_elems p"
  by (auto simp: validPath_def ValidPath_def)

lemma dirs_up_step:
  "valid_elems p \<Longrightarrow> path_Dir p = ''.'' \<or> valid_elems (path_Dir p) \<and> length (path_Dir p) < length p"
  by (rule path_Dir_valid)

text \<open>More fuel than the path has bytes changes nothing: the loop has ended.\<close>

lemma dirs_up_enough: "valid_elems p \<Longrightarrow> length p \<le> n \<Longrightarrow> dirs_up n p = dirs_up (length p) p"
proof (induction n arbitrary: p rule: less_induct)
  case (less n)
  from less.prems have "p \<noteq> []" using valid_elems_nonempty by blast
  then obtain m where m: "length p = Suc m" by (cases p) auto
  with less.prems obtain k where k: "n = Suc k" by (cases n) auto
  show ?case
  proof (cases "path_Dir p = ''.''")
    case True
    with m k show ?thesis by simp
  next
    case False
    with less.prems path_Dir_valid have d: "valid_elems (path_Dir p)" "length (path_Dir p) < length p"
      by blast+
    with m k less.prems have le: "length (path_Dir p) \<le> m" "length (path_Dir p) \<le> k" "k < n" "m \<le> k"
      by auto
    then have "dirs_up k (path_Dir p) = dirs_up (length (path_Dir p)) (path_Dir p)"
      using less.IH d by blast
    moreover have "dirs_up m (path_Dir p) = dirs_up (length (path_Dir p)) (path_Dir p)"
      using less.IH [of m] le d by auto
    ultimately show ?thesis using False m k by (simp add: Let_def)
  qed
qed

lemma ancestors_rec:
  assumes "valid_elems p"
  shows "ancestors p = (if path_Dir p = ''.'' then [] else ancestors (path_Dir p) @ [path_Dir p])"
proof -
  have "p \<noteq> []" using assms valid_elems_nonempty by blast
  then obtain m where m: "length p = Suc m" by (cases p) auto
  show ?thesis
  proof (cases "path_Dir p = ''.''")
    case True
    with m show ?thesis by (simp add: ancestors_def)
  next
    case False
    with assms path_Dir_valid m have "valid_elems (path_Dir p)" "length (path_Dir p) \<le> m"
      by fastforce+
    then have "dirs_up m (path_Dir p) = dirs_up (length (path_Dir p)) (path_Dir p)"
      by (rule dirs_up_enough)
    with False m show ?thesis by (simp add: ancestors_def Let_def)
  qed
qed

lemma ancestors_valid:
  "valid_elems p \<Longrightarrow> a \<in> set (ancestors p) \<Longrightarrow> valid_elems a \<and> length a < length p"
proof (induction "length p" arbitrary: p rule: less_induct)
  case less
  show ?case
  proof (cases "path_Dir p = ''.''")
    case True
    with less.prems show ?thesis by (simp add: ancestors_rec [of p])
  next
    case False
    with less.prems(1) path_Dir_valid
    have d: "valid_elems (path_Dir p)" "length (path_Dir p) < length p" by blast+
    from less.prems(2) False less.prems(1) consider
      "a = path_Dir p" | "a \<in> set (ancestors (path_Dir p))"
      by (auto simp: ancestors_rec [of p])
    then show ?thesis
    proof cases
      case 1
      with d show ?thesis by simp
    next
      case 2
      with less.hyps [of "path_Dir p"] d show ?thesis by fastforce
    qed
  qed
qed

lemma validPath_Dir: "validPath p \<Longrightarrow> path_Dir p = ''.'' \<or> validPath (path_Dir p)"
proof -
  assume v: "validPath p"
  then have e: "valid_elems p" by (rule validPath_elems)
  show ?thesis
  proof (cases "path_Dir p = ''.''")
    case False
    with path_Dir_split [OF e] obtain q where q: "p = path_Dir p @ CHR ''/'' # q" by blast
    have "utf8_valid (path_Dir p)"
      using v q utf8_valid_cut by (metis ValidPath_def validPath_def)
    moreover have "CHR 0x00 \<notin> set (path_Dir p)"
      using v q by (metis UnI1 set_append validPath_def)
    moreover have "valid_elems (path_Dir p)" using path_Dir_valid [OF e] False by blast
    ultimately show ?thesis using False by (simp add: validPath_def ValidPath_def)
  qed simp
qed

text \<open>The folders above a path, outermost first: each is a valid path whose own parent comes
  before it.\<close>

lemma ancestors_chain:
  "validPath p \<Longrightarrow> list_all validPath (ancestors p) \<and>
   (\<forall>xs a ys. ancestors p = xs @ a # ys \<longrightarrow> path_Dir a = ''.'' \<or> path_Dir a \<in> set xs) \<and>
   (path_Dir p = ''.'' \<or> path_Dir p \<in> set (ancestors p)) \<and> distinct (ancestors p) \<and> p \<notin> set (ancestors p)"
proof (induction "length p" arbitrary: p rule: less_induct)
  case less
  then have e: "valid_elems p" by (simp add: validPath_elems)
  show ?case
  proof (cases "path_Dir p = ''.''")
    case True
    then show ?thesis by (simp add: ancestors_rec [OF e])
  next
    case False
    let ?d = "path_Dir p"
    have d: "validPath ?d" "length ?d < length p"
      using False validPath_Dir [OF less.prems] path_Dir_valid [OF e] by auto
    note IH = less.hyps [OF d(2,1)]
    have a: "ancestors p = ancestors ?d @ [?d]" using False by (simp add: ancestors_rec [OF e])
    have "path_Dir x = ''.'' \<or> path_Dir x \<in> set xs" if "ancestors p = xs @ x # ys" for xs x ys
    proof (cases ys rule: rev_cases)
      case Nil
      with that a IH show ?thesis by auto
    next
      case (snoc zs z)
      have "ancestors ?d @ [?d] = (xs @ x # zs) @ [z]"
        unfolding a [symmetric] that snoc by simp
      then have "ancestors ?d = xs @ x # zs" by blast
      with IH show ?thesis by blast
    qed
    moreover have "p \<notin> set (ancestors p)" using ancestors_valid [OF e] by blast
    moreover have "list_all validPath (ancestors p)" using IH d(1) a by simp
    moreover have "distinct (ancestors p)" using IH a by simp
    ultimately show ?thesis using a by auto
  qed
qed

end
