(* ===== verification/Messages.thy ===== *)
theory Messages
  imports Entry
begin

text \<open>
  \<open>internal/sharesync/messages.go\<close> and \<open>errors.go\<close>: the plain data a side and the hub exchange,
  and the errors of the sync. Revs are \<open>uint64\<close> values as naturals below \<open>2 ^ 64\<close>; a nil slice
  and an empty one are both the empty list.
\<close>

record side_info =
  s_id :: string
  s_location :: string
  s_loginsOnly :: bool

record change =
  c_path :: string
  c_base :: nat
  c_entry :: entry

record report =
  rp_root :: string
  rp_epoch :: string
  rp_changes :: "change list"

datatype ack_status = Accepted | Superseded | Deferred | Ignored

record ack =
  a_path :: string
  a_rev :: nat
  a_status :: ack_status
  a_entry :: entry

record reply =
  ry_epoch :: string
  ry_acks :: "ack list"

record held =
  h_path :: string
  h_rev :: nat
  h_entry :: entry

record root_hello =
  rh_root :: string
  rh_epoch :: string
  rh_held :: "held list"

type_synonym hello = "root_hello list"

type_synonym welcome_msg = "(string \<times> string) list"

datatype lane = LaneAuto | LanePriority | LaneNormal | LaneBulk

definition lane_String :: "lane \<Rightarrow> string" where
  "lane_String l =
     (case l of LanePriority \<Rightarrow> ''priority'' | LaneNormal \<Rightarrow> ''normal'' | LaneBulk \<Rightarrow> ''bulk''
      | LaneAuto \<Rightarrow> ''auto'')"

definition BulkSize :: int where "BulkSize = 1048576"

record sync_op =
  op_path :: string
  op_rev :: nat
  op_entry :: entry

record batch =
  b_root :: string
  b_epoch :: string
  b_lane :: lane
  b_ops :: "sync_op list"

datatype result_status = Applied | Changed | Stale | NoSpace | Refused | Failed

record op_result =
  rs_path :: string
  rs_rev :: nat
  rs_status :: result_status
  rs_reason :: string

text \<open>Errors: the package's sentinel errors, those of the safe file layer and the system calls
  that \<open>classify\<close> tells apart, and any other, by its text. An error that wraps another is the
  wrapped one with its message.\<close>

datatype sync_error =
    ErrStale | ErrNotAttached | ErrNewerState | ErrTooLarge | ErrClosed | ErrNoSource
  | ErrIncomplete string | ErrNoSpaceLeft | ErrENOSPC | ErrEDQUOT | ErrReserved | ErrLocalChange
  | ErrSafeChanged | ErrSymlink | ErrNotDir | ErrNotRegular | ErrENOTEMPTY | ErrExist | ErrNotExist
  | ErrOther string

text \<open>\<open>classify\<close>, with the error's text as the parameter \<open>msg\<close>.\<close>

definition classify :: "(sync_error \<Rightarrow> string) \<Rightarrow> sync_error option \<Rightarrow> result_status \<times> string" where
  "classify msg err =
     (case err of
        None \<Rightarrow> (Applied, [])
      | Some e \<Rightarrow>
          if e \<in> {ErrNoSpaceLeft, ErrENOSPC, ErrEDQUOT} then (NoSpace, [])
          else if e = ErrReserved then (Refused, msg e)
          else if e = ErrStale then (Stale, msg e)
          else if e \<in> {ErrLocalChange, ErrSafeChanged, ErrSymlink, ErrNotDir, ErrNotRegular,
                       ErrENOTEMPTY, ErrExist} then (Changed, msg e)
          else (Failed, msg e))"

end
