(* ===== verification/SyncPolicy.thy ===== *)
theory SyncPolicy
  imports GoStrings
begin

text \<open>
  \<open>internal/mounts/syncpolicy\<close>: the table that gives every path of a fleet's shared folders its
  sync policy. Roots, rules and the default table are data, as in \<open>defaults.go\<close>; \<open>match\<close> and
  the lookups are those of \<open>table.go\<close>.
\<close>

section \<open>Data\<close>

datatype policy = Unset | Mirror | Credential | JSON3 | TOML3 | AppendUnion | LocationLocal

record rule =
  r_pattern :: string
  r_policy :: policy

record size_warning =
  w_pattern :: string
  w_size :: int

record root =
  rt_path :: string
  rt_tool :: string
  rt_rules :: "rule list"
  rt_default :: policy
  rt_cap :: int
  rt_warnings :: "size_warning list"

type_synonym table = "root list"

section \<open>Matching\<close>

text \<open>\<open>path.Match\<close> on one path element, for patterns of plain bytes and \<open>*\<close>, the only ones the
  table holds: a \<open>*\<close> matches any run of bytes.\<close>

fun path_Match :: "string \<Rightarrow> string \<Rightarrow> bool" where
  "path_Match [] [] = True"
| "path_Match [] (c # s) = False"
| "path_Match (p # ps) [] = (p = CHR ''*'' \<and> path_Match ps [])"
| "path_Match (p # ps) (c # s) =
     (if p = CHR ''*'' then path_Match ps (c # s) \<or> path_Match (p # ps) s
      else p = c \<and> path_Match ps s)"

text \<open>\<open>match\<close>: the loop over the pattern's elements; a \<open>**\<close> element tries every number of path
  elements to skip, none first.\<close>

fun match_elems :: "string list \<Rightarrow> string list \<Rightarrow> bool" where
  "match_elems [] elems = (elems = [])"
| "match_elems (p # ps) elems =
     (if p = ''**'' then list_ex (\<lambda>skip. match_elems ps (drop skip elems)) [0..<Suc (length elems)]
      else (case elems of [] \<Rightarrow> False
            | e # es \<Rightarrow> path_Match p e \<and> match_elems ps es))"

definition hasMeta :: "string \<Rightarrow> bool" where
  "hasMeta pattern \<longleftrightarrow> list_ex (\<lambda>c. c \<in> set ''*?['' \<or> c = CHR 0x5C) pattern"

definition warning_Matches :: "size_warning \<Rightarrow> string \<Rightarrow> bool" where
  "warning_Matches w name \<longleftrightarrow>
     (if name = ''.'' \<or> name = [] then False
      else match_elems (split_on CHR ''/'' (w_pattern w)) (split_on CHR ''/'' name))"

section \<open>Lookup\<close>

definition RuleFor :: "root \<Rightarrow> string \<Rightarrow> rule option" where
  "RuleFor r name =
     (if name = ''.'' \<or> name = [] then None
      else find (\<lambda>rl. match_elems (split_on CHR ''/'' (r_pattern rl)) (split_on CHR ''/'' name))
             (rt_rules r))"

definition root_PolicyFor :: "root \<Rightarrow> string \<Rightarrow> policy" where
  "root_PolicyFor r name = (case RuleFor r name of Some rl \<Rightarrow> r_policy rl | None \<Rightarrow> rt_default r)"

text \<open>The package's \<open>within\<close> returns the name relative to the folder.\<close>

definition relative_to :: "string \<Rightarrow> string \<Rightarrow> string option" where
  "relative_to name folder =
     (if name = folder then Some ''.'' else cut_prefix (folder @ ''/'') name)"

text \<open>\<open>Table.Root\<close>: the loop keeps a covering root unless a later one has a longer path.\<close>

definition deeper_root :: "string \<Rightarrow> (root \<times> string) option \<Rightarrow> root \<Rightarrow> (root \<times> string) option" where
  "deeper_root name best cand =
     (case relative_to name (rt_path cand) of
        None \<Rightarrow> best
      | Some rest \<Rightarrow>
          (case best of
             None \<Rightarrow> Some (cand, rest)
           | Some (r, _) \<Rightarrow> if length (rt_path cand) > length (rt_path r) then Some (cand, rest)
                           else best))"

definition table_Root :: "table \<Rightarrow> string \<Rightarrow> (root \<times> string) option" where
  "table_Root t name = foldl (deeper_root name) None t"

definition table_PolicyFor :: "table \<Rightarrow> string \<Rightarrow> policy option" where
  "table_PolicyFor t name =
     (case table_Root t name of None \<Rightarrow> None | Some (r, rest) \<Rightarrow> Some (root_PolicyFor r rest))"

definition Credentials :: "table \<Rightarrow> string list" where
  "Credentials t =
     concat (map (\<lambda>r. map (\<lambda>rl. Join2 (rt_path r) (r_pattern rl))
       (filter (\<lambda>rl. r_policy rl = Credential \<and> \<not> hasMeta (r_pattern rl)) (rt_rules r))) t)"

section \<open>The default table\<close>

definition mib :: int where "mib = 1048576"

definition gib :: int where "gib = 1073741824"

abbreviation mk_rule :: "string \<Rightarrow> policy \<Rightarrow> rule" where
  "mk_rule p pol \<equiv> \<lparr>r_pattern = p, r_policy = pol\<rparr>"

definition agentLocal :: "rule list" where
  "agentLocal =
     [mk_rule ''downloads/**'' LocationLocal, mk_rule ''sessions/**'' LocationLocal,
      mk_rule ''daemon/**'' LocationLocal, mk_rule ''packages/**'' LocationLocal,
      mk_rule ''**/*.lock'' LocationLocal]"

definition agentRules :: "rule list \<Rightarrow> rule list" where
  "agentRules own = own @ agentLocal"

definition defaultRoots :: table where
  "defaultRoots =
     [\<lparr>rt_path = ''.claude'', rt_tool = ''Claude Code'',
        rt_rules = agentRules
          [mk_rule ''.credentials.json'' Credential, mk_rule ''settings.json'' JSON3,
           mk_rule ''history.jsonl'' AppendUnion, mk_rule ''projects/**'' Mirror],
        rt_default = Mirror, rt_cap = 8 * gib,
        rt_warnings = [\<lparr>w_pattern = ''projects/**'', w_size = 2 * gib\<rparr>]\<rparr>,
      \<lparr>rt_path = ''.codex'', rt_tool = ''Codex'',
        rt_rules = agentRules
          [mk_rule ''auth.json'' Credential, mk_rule ''config.toml'' TOML3,
           mk_rule ''history.jsonl'' AppendUnion, mk_rule ''**/*.sqlite*'' LocationLocal,
           mk_rule ''**/app-server-*'' LocationLocal],
        rt_default = Mirror, rt_cap = 4 * gib, rt_warnings = []\<rparr>,
      \<lparr>rt_path = ''.config/gh'', rt_tool = ''GitHub CLI'',
        rt_rules = agentRules [mk_rule ''hosts.yml'' Credential],
        rt_default = Mirror, rt_cap = 64 * mib, rt_warnings = []\<rparr>,
      \<lparr>rt_path = ''.augment'', rt_tool = ''Auggie'',
        rt_rules = agentRules [mk_rule ''session.json'' Credential],
        rt_default = Mirror, rt_cap = 2 * gib, rt_warnings = []\<rparr>,
      \<lparr>rt_path = ''files'', rt_tool = [],
        rt_rules = [mk_rule ''.claude.json'' JSON3, mk_rule ''claude-settings.local.json'' JSON3],
        rt_default = Mirror, rt_cap = 64 * mib, rt_warnings = []\<rparr>,
      \<lparr>rt_path = ''.mnt'', rt_tool = [], rt_rules = [], rt_default = Mirror, rt_cap = 0,
        rt_warnings = []\<rparr>,
      \<lparr>rt_path = ''.hostbind'', rt_tool = [], rt_rules = [], rt_default = Mirror, rt_cap = 0,
        rt_warnings = []\<rparr>]"

section \<open>What matching means\<close>

text \<open>The specification of \<open>match\<close>: a pattern matches path elements when they can be cut into
  one element per plain pattern element and any number per \<open>**\<close>.\<close>

inductive glob :: "string list \<Rightarrow> string list \<Rightarrow> bool" where
  glob_nil: "glob [] []"
| glob_elem: "p \<noteq> ''**'' \<Longrightarrow> path_Match p e \<Longrightarrow> glob ps es \<Longrightarrow> glob (p # ps) (e # es)"
| glob_skip: "glob ps es \<Longrightarrow> glob (''**'' # ps) (skipped @ es)"

inductive_cases glob_nilE: "glob [] es"
inductive_cases glob_consE: "glob (p # ps) es"

lemma match_elems_glob: "match_elems ps es \<Longrightarrow> glob ps es"
proof (induction ps arbitrary: es)
  case Nil
  then show ?case by (simp add: glob_nil)
next
  case (Cons p ps)
  show ?case
  proof (cases "p = ''**''")
    case True
    with Cons.prems have "\<exists>skip \<in> set [0..<Suc (length es)]. match_elems ps (drop skip es)"
      by (simp only: match_elems.simps if_True list_ex_iff)
    then obtain skip where "match_elems ps (drop skip es)" by blast
    then have "glob ps (drop skip es)" by (rule Cons.IH)
    then have "glob (''**'' # ps) (take skip es @ drop skip es)" by (rule glob_skip)
    with True show ?thesis by simp
  next
    case False
    with Cons show ?thesis by (auto split: list.splits intro: glob_elem)
  qed
qed

lemma glob_match_elems: "glob ps es \<Longrightarrow> match_elems ps es"
proof (induction rule: glob.induct)
  case glob_nil
  show ?case by simp
next
  case (glob_elem p e ps es)
  then show ?case by simp
next
  case (glob_skip ps es skipped)
  then have "match_elems ps (drop (length skipped) (skipped @ es))" by simp
  moreover have "length skipped \<in> set [0..<Suc (length (skipped @ es))]" by auto
  ultimately have "list_ex (\<lambda>skip. match_elems ps (drop skip (skipped @ es)))
      [0..<Suc (length (skipped @ es))]"
    unfolding list_ex_iff by blast
  then show ?case by simp
qed

lemma path_Match_star [simp]: "path_Match ''*'' s"
  by (induction s) auto

text \<open>Elements of plain bytes match themselves only.\<close>

lemma path_Match_plain: "CHR ''*'' \<notin> set p \<Longrightarrow> path_Match p s \<longleftrightarrow> p = s"
  by (induction p s rule: path_Match.induct) auto

section \<open>The deepest root\<close>

definition covers_name :: "string \<Rightarrow> root \<Rightarrow> bool" where
  "covers_name name r \<longleftrightarrow> relative_to name (rt_path r) \<noteq> None"

lemma deeper_root_Some:
  "best = Some (r, rest) \<Longrightarrow> \<exists>r' rest'. deeper_root name best cand = Some (r', rest') \<and>
     length (rt_path r) \<le> length (rt_path r')"
  by (auto simp: deeper_root_def split: option.splits)

lemma table_Root_fold:
  assumes "\<And>r rest. best = Some (r, rest) \<Longrightarrow> relative_to name (rt_path r) = Some rest"
  shows "(foldl (deeper_root name) best t = None \<longleftrightarrow>
      best = None \<and> (\<forall>c \<in> set t. \<not> covers_name name c)) \<and>
    (\<forall>r rest. foldl (deeper_root name) best t = Some (r, rest) \<longrightarrow>
       relative_to name (rt_path r) = Some rest \<and> (r \<in> set t \<or> best = Some (r, rest)) \<and>
       (\<forall>c \<in> set t. covers_name name c \<longrightarrow> length (rt_path c) \<le> length (rt_path r)) \<and>
       (\<forall>b b'. best = Some (b, b') \<longrightarrow> length (rt_path b) \<le> length (rt_path r)))"
  using assms
proof (induction t arbitrary: best)
  case Nil
  then show ?case by (cases best) auto
next
  case (Cons c t)
  let ?b = "deeper_root name best c"
  have inv: "\<And>r rest. ?b = Some (r, rest) \<Longrightarrow> relative_to name (rt_path r) = Some rest"
    using Cons.prems by (auto simp: deeper_root_def split: option.splits if_splits)
  have none: "?b = None \<longleftrightarrow> best = None \<and> \<not> covers_name name c"
    by (auto simp: deeper_root_def covers_name_def split: option.splits)
  have origin: "\<And>r rest. ?b = Some (r, rest) \<Longrightarrow> r = c \<or> best = Some (r, rest)"
    by (auto simp: deeper_root_def split: option.splits if_splits)
  have le: "\<And>r rest. ?b = Some (r, rest) \<Longrightarrow>
      (covers_name name c \<longrightarrow> length (rt_path c) \<le> length (rt_path r)) \<and>
      (\<forall>b b'. best = Some (b, b') \<longrightarrow> length (rt_path b) \<le> length (rt_path r))"
    by (auto simp: deeper_root_def covers_name_def split: option.splits if_splits)
  note IH = Cons.IH [of ?b, OF inv]
  show ?case
  proof (cases ?b)
    case None
    with IH none show ?thesis by auto
  next
    case (Some p)
    obtain b b' where p: "p = (b, b')" by (cases p)
    with Some IH have "foldl (deeper_root name) ?b t \<noteq> None" by auto
    then obtain r rest where r: "foldl (deeper_root name) ?b t = Some (r, rest)" by auto
    with IH Some p have out: "relative_to name (rt_path r) = Some rest"
      "r \<in> set t \<or> r = b \<and> rest = b'" "length (rt_path b) \<le> length (rt_path r)"
      "\<forall>c \<in> set t. covers_name name c \<longrightarrow> length (rt_path c) \<le> length (rt_path r)"
      by auto
    have b: "b = c \<or> best = Some (b, b')" using origin Some p by blast
    have "covers_name name c \<Longrightarrow> length (rt_path c) \<le> length (rt_path r)"
      and "\<And>x y. best = Some (x, y) \<Longrightarrow> length (rt_path x) \<le> length (rt_path r)"
      using le [of b b'] Some p out(3) by fastforce+
    moreover have "\<not> (best = None \<and> \<not> covers_name name c)" using none Some by simp
    ultimately show ?thesis using r out b by auto
  qed
qed

lemmas table_Root_spec =
  table_Root_fold [where best = None, simplified, folded table_Root_def]

section \<open>Properties\<close>

lemma match_elems_iff: "match_elems ps es \<longleftrightarrow> glob ps es"
  using match_elems_glob glob_match_elems by blast

lemma find_first:
  "find P xs = Some x \<longleftrightarrow> (\<exists>before after. xs = before @ x # after \<and> P x \<and> (\<forall>b \<in> set before. \<not> P b))"
proof (induction xs)
  case (Cons a xs)
  show ?case
  proof (cases "P a")
    case True
    then show ?thesis by (auto simp: Cons_eq_append_conv)
  next
    case False
    have "(\<exists>before after. a # xs = before @ x # after \<and> P x \<and> (\<forall>b \<in> set before. \<not> P b))"
      if "xs = before @ x # after" "P x" "\<forall>b \<in> set before. \<not> P b" for before after
      using that False by (intro exI [of _ "a # before"] exI [of _ after]) auto
    moreover have "(\<exists>before after. xs = before @ x # after \<and> P x \<and> (\<forall>b \<in> set before. \<not> P b))"
      if "a # xs = before @ x # after" "P x" "\<forall>b \<in> set before. \<not> P b" for before after
      using that False by (auto simp: Cons_eq_append_conv)
    ultimately show ?thesis using False Cons.IH by auto
  qed
qed simp


definition lock_root :: root where
  "lock_root = \<lparr>rt_path = ''r'', rt_tool = [], rt_rules = [mk_rule ''a'' JSON3, mk_rule ''**/*.lock'' LocationLocal],
     rt_default = Mirror, rt_cap = 0, rt_warnings = []\<rparr>"


text \<open>\<open>Table.Root\<close> finds the deepest root covering a path, with the path relative to it, and
  finds none only when no root covers it.\<close>

theorem table_root_is_deepest:
  "(table_Root t name = None \<longleftrightarrow> \<not> list_ex (covers_name name) t) \<and>
   (case table_Root t name of None \<Rightarrow> True
    | Some (r, rest) \<Rightarrow> r \<in> set t \<and> relative_to name (rt_path r) = Some rest \<and>
        list_all (\<lambda>c. length (rt_path c) \<le> length (rt_path r)) (filter (covers_name name) t))"
  using table_Root_spec [of t name]
  by (auto simp: list_ex_iff list_all_iff split: option.splits)

text \<open>The login files of the default table are those the agents keep, and the lookup gives each
  the \<open>Credential\<close> policy: no other root and no earlier rule takes one over.\<close>

theorem default_logins_are_credentials:
  "Credentials defaultRoots =
     [''.claude/.credentials.json'', ''.codex/auth.json'', ''.config/gh/hosts.yml'', ''.augment/session.json''] \<and>
   list_all (\<lambda>f. table_PolicyFor defaultRoots f = Some Credential) (Credentials defaultRoots)"
  by code_simp

end
