(* ===== verification/Merge3.thy ===== *)
theory Merge3
  imports GoStrings "HOL-Library.List_Lexorder" "HOL-Library.Char_ord"
begin

text \<open>
  \<open>internal/sharesync/merge3.go\<close>: the three-way merge of parsed settings files. A document value
  is a scalar, an object or an array. Objects are association lists in key order; each key has
  its spelling (the Go \<open>rawKeys\<close>, empty when it has none) and its value. A scalar keeps its
  token, what the TOML parser made of it, and the string its identity is computed from. The
  SHA-256 identities of \<open>seal\<close> are taken as collision-free: \<open>value_id\<close> is what is hashed.
\<close>

section \<open>Data\<close>

datatype 'n jvalue =
    JScalar string 'n string
  | JObject "(string \<times> (string \<times> 'n jvalue)) list"
  | JArray "'n jvalue list"

type_synonym 'n fields = "(string \<times> (string \<times> 'n jvalue)) list"

datatype ident = SId string | OId "(string \<times> ident) list" | AId "ident list"

text \<open>\<open>set\<close> of an object: a key keeps its place, and its spelling when the new one is empty.\<close>

definition set_field :: "string \<Rightarrow> string \<Rightarrow> 'n jvalue \<Rightarrow> 'n fields \<Rightarrow> 'n fields" where
  "set_field k raw field fs =
     AList.update k
       (if raw \<noteq> [] then raw else case map_of fs k of Some (r, _) \<Rightarrow> r | None \<Rightarrow> [], field) fs"

lemma size_field: "(k, (r, v)) \<in> set fs \<Longrightarrow> size v < size (JObject fs)"
  by (induction fs) auto

text \<open>\<open>seal\<close>: a scalar is identified by its identity string, an object by its members in key
  order, an array by its elements.\<close>

fun value_id :: "'n jvalue \<Rightarrow> ident" where
  "value_id (JScalar txt native scalar) = SId scalar"
| "value_id (JObject fs) = OId (sort_key fst (map (\<lambda>(k, r, v). (k, value_id v)) fs))"
| "value_id (JArray es) = AId (map value_id es)"

definition same_value :: "'n jvalue option \<Rightarrow> 'n jvalue option \<Rightarrow> bool" where
  "same_value a b =
     (case (a, b) of (Some x, Some y) \<Rightarrow> value_id x = value_id y
      | (None, None) \<Rightarrow> True | _ \<Rightarrow> False)"

definition isEmptyObject :: "'n jvalue option \<Rightarrow> bool" where
  "isEmptyObject v \<longleftrightarrow> (case v of Some (JObject fs) \<Rightarrow> fs = [] | _ \<Rightarrow> False)"

record merger3 =
  incomingWins :: bool
  conflicts :: "string list"

definition joinPath :: "string \<Rightarrow> string \<Rightarrow> string" where
  "joinPath at k = (if at = [] then k else at @ ''.'' @ k)"

section \<open>Arrays\<close>

definition array_ids :: "'n jvalue option \<Rightarrow> ident list" where
  "array_ids v = (case v of Some (JArray es) \<Rightarrow> map value_id es | _ \<Rightarrow> [])"

definition keep_elem :: "ident list \<Rightarrow> ident list \<Rightarrow> ident list \<Rightarrow> ident \<Rightarrow> bool" where
  "keep_elem inBase inCur inInc i =
     (if (i \<in> set inCur) = (i \<in> set inInc) then i \<in> set inCur else i \<notin> set inBase)"

fun take_unseen :: "(ident \<Rightarrow> bool) \<Rightarrow> ident list \<Rightarrow> 'n jvalue list \<Rightarrow> 'n jvalue list" where
  "take_unseen keep seen [] = []"
| "take_unseen keep seen (e # es) =
     (if value_id e \<in> set seen \<or> \<not> keep (value_id e) then take_unseen keep seen es
      else e # take_unseen keep (value_id e # seen) es)"

definition mergeSets ::
    "'n jvalue option \<Rightarrow> 'n jvalue list \<Rightarrow> 'n jvalue list \<Rightarrow> 'n jvalue" where
  "mergeSets base cur inc =
     JArray (take_unseen
       (keep_elem (array_ids base) (map value_id cur) (map value_id inc)) [] (cur @ inc))"

section \<open>Objects\<close>

definition field_of :: "'n jvalue option \<Rightarrow> string \<Rightarrow> 'n jvalue option" where
  "field_of v k = (case v of Some (JObject fs) \<Rightarrow> map_option snd (map_of fs k) | _ \<Rightarrow> None)"

definition raw_of :: "'n fields \<Rightarrow> string \<Rightarrow> string" where
  "raw_of fs k = (case map_of fs k of Some (r, _) \<Rightarrow> r | None \<Rightarrow> [])"

definition raw_key :: "'n fields \<Rightarrow> 'n fields \<Rightarrow> string \<Rightarrow> string" where
  "raw_key cur inc k = (case map_of cur k of None \<Rightarrow> raw_of inc k | Some _ \<Rightarrow> raw_of cur k)"

definition only_object :: "'n jvalue option \<Rightarrow> 'n jvalue option" where
  "only_object b = (case b of Some (JObject fs) \<Rightarrow> b | _ \<Rightarrow> None)"

definition only_array :: "'n jvalue option \<Rightarrow> 'n jvalue option" where
  "only_array b = (case b of Some (JArray es) \<Rightarrow> b | _ \<Rightarrow> None)"

lemma size_field_of [termination_simp]:
  "field_of (Some (JObject fs)) k = Some v \<Longrightarrow> size v < size (JObject fs)"
  by (auto simp: field_of_def simp del: jvalue.size dest!: map_of_SomeD intro: size_field)

abbreviation opt_size :: "'n jvalue option \<Rightarrow> nat" where
  "opt_size v \<equiv> (case v of None \<Rightarrow> 0 | Some x \<Rightarrow> size x)"

lemma opt_size_field: "opt_size (field_of (Some (JObject fs)) k) < size (JObject fs)"
  by (auto split: option.splits dest: size_field_of)

text \<open>\<open>merge\<close> and \<open>mergeObjects\<close>: the closure \<open>add\<close> is run over the current copy's keys and then
  the incoming one's; the merger is threaded through as Go's pointer is.\<close>

function merger3_merge :: "merger3 \<Rightarrow> 'n jvalue option \<Rightarrow> 'n jvalue option \<Rightarrow> 'n jvalue option \<Rightarrow>
    string \<Rightarrow> 'n jvalue option \<times> merger3"
  and mergeObjects :: "merger3 \<Rightarrow> 'n jvalue option \<Rightarrow> 'n fields \<Rightarrow> 'n fields \<Rightarrow> string \<Rightarrow>
    'n jvalue \<times> merger3" where
  "merger3_merge m base cur inc at =
     (if same_value cur inc then (cur, m)
      else if same_value base cur then (inc, m)
      else if same_value base inc then (cur, m)
      else case (cur, inc) of
        (None, _) \<Rightarrow> (inc, m)
      | (_, None) \<Rightarrow> (cur, m)
      | (Some (JObject cf), Some (JObject nf)) \<Rightarrow>
          (let (out, m') = mergeObjects m (only_object base) cf nf at in (Some out, m'))
      | (Some (JArray cs), Some (JArray ns)) \<Rightarrow> (Some (mergeSets (only_array base) cs ns), m)
      | _ \<Rightarrow> (if incomingWins m then inc else cur, m\<lparr>conflicts := conflicts m @ [at]\<rparr>))"
| "mergeObjects m base cf nf at =
     (let (out, m') = fold (\<lambda>k (out, m).
            if map_of out k \<noteq> None then (out, m)
            else (let (merged, m') = merger3_merge m (field_of base k)
                      (field_of (Some (JObject cf)) k) (field_of (Some (JObject nf)) k) (joinPath at k)
                  in case merged of
                       None \<Rightarrow> (out, m')
                     | Some v \<Rightarrow> (set_field k (raw_key cf nf k) v out, m')))
          (map fst cf @ map fst nf) ([], m)
      in (JObject out, m'))"
  by pat_completeness auto
termination
proof (relation "measure (\<lambda>x. case x of
    Inl (m, b, c, i, a) \<Rightarrow> 2 * (opt_size c + opt_size i) + 1
  | Inr (m, b, cf, nf, a) \<Rightarrow> 2 * (size (JObject cf) + size (JObject nf)))", goal_cases)
  case 1
  show ?case by simp
next
  case 2
  then show ?case by auto
next
  case (3 m base cf nf at k out m')
  show ?case using opt_size_field [of cf k] opt_size_field [of nf k] by simp
qed

text \<open>\<open>conflictNote\<close>: at most five names are spelled out.\<close>

definition conflictNote :: "string list \<Rightarrow> string" where
  "conflictNote cs =
     (if cs = [] then []
      else let names = take 5 cs; more = length cs - length names
           in ''; the newer change'' @ [CHR 0x27] @ ''s '' @ join_strings '', '' names
              @ (if more > 0 then '' and '' @ show_nat more @ '' more'' else []) @ '' kept'')"

section \<open>Well-formed documents\<close>

text \<open>\<open>set\<close> is the only way a key enters an object, so no object has a key twice.\<close>

fun wf_value :: "'n jvalue \<Rightarrow> bool" where
  "wf_value (JScalar txt native scalar) = True"
| "wf_value (JObject fs) = (distinct (map fst fs) \<and> list_all (\<lambda>(k, r, v). wf_value v) fs)"
| "wf_value (JArray es) = list_all wf_value es"

abbreviation wf_opt :: "'n jvalue option \<Rightarrow> bool" where
  "wf_opt v \<equiv> (case v of None \<Rightarrow> True | Some x \<Rightarrow> wf_value x)"

lemma wf_field: "wf_value (JObject fs) \<Longrightarrow> field_of (Some (JObject fs)) k = Some v \<Longrightarrow> wf_value v"
  by (auto simp: field_of_def list_all_iff dest!: map_of_SomeD)

lemma wf_field_opt: "wf_value (JObject fs) \<Longrightarrow> wf_opt (field_of (Some (JObject fs)) k)"
  by (auto simp del: wf_value.simps split: option.splits dest: wf_field)

section \<open>The reference merge\<close>

text \<open>What a merge computes, without the merger: the keys of both objects, each once, the
  current copy's first, each with the merge of its three values. The paths in conflict are
  collected apart and do not depend on which side is the newer.\<close>

definition merged_keys :: "'n fields \<Rightarrow> 'n fields \<Rightarrow> string list" where
  "merged_keys cf nf = map fst cf @ filter (\<lambda>k. k \<notin> set (map fst cf)) (map fst nf)"

function merge_ref :: "bool \<Rightarrow> 'n jvalue option \<Rightarrow> 'n jvalue option \<Rightarrow> 'n jvalue option \<Rightarrow>
    'n jvalue option" where
  "merge_ref w base cur inc =
     (if same_value cur inc then cur
      else if same_value base cur then inc
      else if same_value base inc then cur
      else case (cur, inc) of
        (None, _) \<Rightarrow> inc
      | (_, None) \<Rightarrow> cur
      | (Some (JObject cf), Some (JObject nf)) \<Rightarrow>
          Some (JObject (concat (map (\<lambda>k.
            case merge_ref w (field_of (only_object base) k) (field_of (Some (JObject cf)) k)
                   (field_of (Some (JObject nf)) k) of
              None \<Rightarrow> [] | Some v \<Rightarrow> [(k, (raw_key cf nf k, v))]) (merged_keys cf nf))))
      | (Some (JArray cs), Some (JArray ns)) \<Rightarrow> Some (mergeSets (only_array base) cs ns)
      | _ \<Rightarrow> if w then inc else cur)"
  by pat_completeness auto
termination
proof (relation "measure (\<lambda>(w, b, c, i). opt_size c + opt_size i)", goal_cases)
  case 1
  show ?case by simp
next
  case (2 w base cur inc x x' y cf y' nf k)
  then show ?case using opt_size_field [of cf k] opt_size_field [of nf k] by auto
qed

function conflict_ref :: "'n jvalue option \<Rightarrow> 'n jvalue option \<Rightarrow> 'n jvalue option \<Rightarrow> string \<Rightarrow>
    string list" where
  "conflict_ref base cur inc at =
     (if same_value cur inc \<or> same_value base cur \<or> same_value base inc then []
      else case (cur, inc) of
        (None, _) \<Rightarrow> []
      | (_, None) \<Rightarrow> []
      | (Some (JObject cf), Some (JObject nf)) \<Rightarrow>
          concat (map (\<lambda>k. conflict_ref (field_of (only_object base) k)
            (field_of (Some (JObject cf)) k) (field_of (Some (JObject nf)) k) (joinPath at k))
            (merged_keys cf nf))
      | (Some (JArray cs), Some (JArray ns)) \<Rightarrow> []
      | _ \<Rightarrow> [at])"
  by pat_completeness auto
termination
proof (relation "measure (\<lambda>(b, c, i, a). opt_size c + opt_size i)", goal_cases)
  case 1
  show ?case by simp
next
  case (2 base cur inc at x x' y cf y' nf k)
  then show ?case using opt_size_field [of cf k] opt_size_field [of nf k] by auto
qed

declare merger3_merge.simps [simp del] mergeObjects.simps [simp del]
  merge_ref.simps [simp del] conflict_ref.simps [simp del]

lemma merge_ref_both: "c \<noteq> None \<Longrightarrow> i \<noteq> None \<Longrightarrow> merge_ref w b c i \<noteq> None"
  by (subst merge_ref.simps) (auto split: jvalue.splits)

section \<open>The loop over the keys\<close>

lemma update_fresh: "map_of fs k = None \<Longrightarrow> AList.update k v fs = fs @ [(k, v)]"
  by (induction fs) (auto split: if_splits)

lemma set_field_fresh: "map_of fs k = None \<Longrightarrow> set_field k raw v fs = fs @ [(k, (raw, v))]"
  by (simp add: set_field_def update_fresh)

definition add_step :: "(string \<Rightarrow> 'n jvalue option) \<Rightarrow> (string \<Rightarrow> string list) \<Rightarrow> (string \<Rightarrow> string) \<Rightarrow>
    string \<Rightarrow> 'n fields \<times> merger3 \<Rightarrow> 'n fields \<times> merger3" where
  "add_step g h raw k = (\<lambda>(out, m).
     if map_of out k \<noteq> None then (out, m)
     else case g k of
        None \<Rightarrow> (out, m\<lparr>conflicts := conflicts m @ h k\<rparr>)
      | Some v \<Rightarrow> (set_field k (raw k) v out, m\<lparr>conflicts := conflicts m @ h k\<rparr>))"

definition picked :: "(string \<Rightarrow> 'n jvalue option) \<Rightarrow> (string \<Rightarrow> string) \<Rightarrow> string list \<Rightarrow> 'n fields" where
  "picked g raw ks =
     concat (map (\<lambda>k. case g k of None \<Rightarrow> [] | Some v \<Rightarrow> [(k, (raw k, v))]) ks)"

lemma picked_simps [simp]:
  "picked g raw [] = []"
  "picked g raw (k # ks) =
     (case g k of None \<Rightarrow> [] | Some v \<Rightarrow> [(k, (raw k, v))]) @ picked g raw ks"
  "picked g raw (ks @ ls) = picked g raw ks @ picked g raw ls"
  by (simp_all add: picked_def)

lemma fold_add_step:
  "distinct ks \<Longrightarrow> fold (add_step g h raw) ks (out, m) =
     (out @ picked g raw (filter (\<lambda>k. map_of out k = None) ks),
      m\<lparr>conflicts := conflicts m @ concat (map h (filter (\<lambda>k. map_of out k = None) ks))\<rparr>)"
proof (induction ks arbitrary: out m)
  case Nil
  then show ?case by simp
next
  case (Cons k ks)
  have keep: "filter (\<lambda>x. map_of (out @ [(k, y)]) x = None) ks = filter (\<lambda>x. map_of out x = None) ks"
    for y using Cons.prems by (intro filter_cong) (auto simp: map_add_def split: option.splits)
  from Cons keep show ?case
    by (cases "map_of out k"; cases "g k")
      (simp_all add: add_step_def set_field_fresh del: map_of_append)
qed

lemma map_of_picked:
  "map_of (picked g raw ks) k = (if k \<in> set ks then map_option (Pair (raw k)) (g k) else None)"
  by (induction ks) (auto split: option.splits simp: map_add_def)

lemma fst_picked: "map fst (picked g raw ks) = filter (\<lambda>k. g k \<noteq> None) ks"
  by (induction ks) (auto split: option.splits)

lemma field_of_None: "field_of (Some (JObject fs)) k = None \<longleftrightarrow> k \<notin> set (map fst fs)"
  by (simp add: field_of_def map_of_eq_None_iff)

lemma fold_both:
  assumes "distinct (map fst cf)" "distinct (map fst nf)"
    and both: "\<And>k. k \<in> set (map fst cf) \<Longrightarrow> k \<in> set (map fst nf) \<Longrightarrow> g k \<noteq> None"
  shows "fold (add_step g h raw) (map fst cf @ map fst nf) ([], m) =
    (picked g raw (merged_keys cf nf),
     m\<lparr>conflicts := conflicts m @ concat (map h (merged_keys cf nf))\<rparr>)"
proof -
  have "filter (\<lambda>k. map_of (picked g raw (map fst cf)) k = None) (map fst nf) =
      filter (\<lambda>k. k \<notin> set (map fst cf)) (map fst nf)"
    by (intro filter_cong refl) (use both in \<open>auto simp: map_of_picked\<close>)
  then show ?thesis
    using assms(1,2) by (simp add: fold_add_step merged_keys_def)
qed

text \<open>The loop keeps which side wins, so a loop body that agrees with \<open>add_step\<close> for that
  side is that loop.\<close>

lemma add_step_wins: "incomingWins (snd (add_step g h raw k (out, m))) = incomingWins m"
  by (auto simp: add_step_def split: option.splits)

lemma fold_agree:
  assumes "\<And>k out m'. k \<in> set ks \<Longrightarrow> incomingWins m' = w \<Longrightarrow>
      f k (out, m') = add_step g h raw k (out, m')"
    and "incomingWins m = w"
  shows "fold f ks (out, m) = fold (add_step g h raw) ks (out, m)"
  using assms
proof (induction ks arbitrary: out m)
  case Nil
  then show ?case by simp
next
  case (Cons k ks)
  obtain out' m' where st: "add_step g h raw k (out, m) = (out', m')" by fastforce
  with add_step_wins [of g h raw k out m] Cons.prems(2) have "incomingWins m' = w" by simp
  with Cons.IH [of m' out'] Cons.prems have
    "fold f ks (out', m') = fold (add_step g h raw) ks (out', m')" by auto
  moreover have "f k (out, m) = (out', m')" using Cons.prems st by auto
  ultimately show ?case using st by simp
qed

section \<open>The merger computes the reference merge\<close>

abbreviation ref_fields :: "bool \<Rightarrow> 'n jvalue option \<Rightarrow> 'n fields \<Rightarrow> 'n fields \<Rightarrow> string \<Rightarrow>
    'n jvalue option" where
  "ref_fields w ob cf nf k \<equiv> merge_ref w (field_of ob k) (field_of (Some (JObject cf)) k)
     (field_of (Some (JObject nf)) k)"

abbreviation ref_conflicts :: "'n jvalue option \<Rightarrow> 'n fields \<Rightarrow> 'n fields \<Rightarrow> string \<Rightarrow> string \<Rightarrow>
    string list" where
  "ref_conflicts ob cf nf at k \<equiv> conflict_ref (field_of ob k) (field_of (Some (JObject cf)) k)
     (field_of (Some (JObject nf)) k) (joinPath at k)"

lemma merger3_refines:
  fixes base cur inc ob :: "'n jvalue option" and cf nf :: "'n fields"
  shows "wf_opt cur \<Longrightarrow> wf_opt inc \<Longrightarrow> merger3_merge m base cur inc at =
      (merge_ref (incomingWins m) base cur inc,
       m\<lparr>conflicts := conflicts m @ conflict_ref base cur inc at\<rparr>)"
    and "wf_value (JObject cf) \<Longrightarrow> wf_value (JObject nf) \<Longrightarrow> mergeObjects m2 ob cf nf at2 =
      (JObject (picked (ref_fields (incomingWins m2) ob cf nf) (raw_key cf nf) (merged_keys cf nf)),
       m2\<lparr>conflicts := conflicts m2 @ concat (map (ref_conflicts ob cf nf at2) (merged_keys cf nf))\<rparr>)"
proof (induction m base cur inc at and m2 ob cf nf at2 rule: merger3_merge_mergeObjects.induct)
  case (1 m base cur inc at)
  then show ?case
    by (subst merger3_merge.simps, subst merge_ref.simps, subst conflict_ref.simps)
      (auto simp: picked_def simp del: wf_value.simps split: option.splits jvalue.splits)
next
  case (2 m ob cf nf at)
  let ?g = "ref_fields (incomingWins m) ob cf nf"
  let ?h = "ref_conflicts ob cf nf at"
  have wf: "wf_opt (field_of (Some (JObject cf)) k)" "wf_opt (field_of (Some (JObject nf)) k)" for k
    using 2(2,3) wf_field_opt by blast+
  have both: "?g k \<noteq> None" if "k \<in> set (map fst cf)" "k \<in> set (map fst nf)" for k
    using that field_of_None by (intro merge_ref_both) blast+
  have agree: "(\<lambda>(out, m'). if map_of out k \<noteq> None then (out, m')
       else let (merged, m'') = merger3_merge m' (field_of ob k) (field_of (Some (JObject cf)) k)
                  (field_of (Some (JObject nf)) k) (joinPath at k)
            in case merged of None \<Rightarrow> (out, m'')
               | Some v \<Rightarrow> (set_field k (raw_key cf nf k) v out, m'')) (out, m') =
      add_step ?g ?h (raw_key cf nf) k (out, m')"
    if "k \<in> set (map fst cf @ map fst nf)" "incomingWins m' = incomingWins m" for k out m'
    using 2(1) [OF that(1), of out m'] wf that(2)
    by (auto simp: add_step_def split: option.splits)
  have "fold (\<lambda>k (out, m'). if map_of out k \<noteq> None then (out, m')
       else let (merged, m'') = merger3_merge m' (field_of ob k) (field_of (Some (JObject cf)) k)
                  (field_of (Some (JObject nf)) k) (joinPath at k)
            in case merged of None \<Rightarrow> (out, m'')
               | Some v \<Rightarrow> (set_field k (raw_key cf nf k) v out, m''))
      (map fst cf @ map fst nf) ([], m) =
    fold (add_step ?g ?h (raw_key cf nf)) (map fst cf @ map fst nf) ([], m)"
    by (rule fold_agree [where w = "incomingWins m"]) (use agree in auto)
  with fold_both [of cf nf ?g ?h "raw_key cf nf" m] both 2(2,3) show ?case
    by (subst mergeObjects.simps) simp
qed

section \<open>Key by key\<close>

lemma merge_ref_None [simp]: "merge_ref w b None None = None"
  by (subst merge_ref.simps) (simp add: same_value_def)

lemma field_of_picked:
  assumes "\<And>k. k \<notin> set ks \<Longrightarrow> g k = None"
  shows "field_of (Some (JObject (picked g raw ks))) k = g k"
  using assms by (auto simp: field_of_def map_of_picked option.map_comp comp_def option.map_ident)

lemma ref_fields_outside: "k \<notin> set (merged_keys cf nf) \<Longrightarrow> ref_fields w ob cf nf k = None"
  using field_of_None [of cf k] field_of_None [of nf k] by (auto simp: merged_keys_def)

lemma field_of_merged:
  "field_of (Some (JObject (picked (ref_fields w ob cf nf) raw (merged_keys cf nf)))) k =
     ref_fields w ob cf nf k"
  using ref_fields_outside by (rule field_of_picked)

abbreviation changed_apart :: "'n jvalue option \<Rightarrow> 'n jvalue option \<Rightarrow> 'n jvalue option \<Rightarrow> bool" where
  "changed_apart b c i \<equiv> \<not> same_value c i \<and> \<not> same_value b c \<and> \<not> same_value b i"

lemma merge_ref_objects:
  "changed_apart b (Some (JObject cf)) (Some (JObject nf)) \<Longrightarrow>
   merge_ref w b (Some (JObject cf)) (Some (JObject nf)) =
     Some (JObject (picked (ref_fields w (only_object b) cf nf) (raw_key cf nf) (merged_keys cf nf)))"
  by (subst merge_ref.simps) (simp add: picked_def)

lemma same_value_refl [simp]: "same_value v v"
  by (auto simp: same_value_def split: option.splits)

lemma same_value_sym: "same_value a b \<longleftrightarrow> same_value b a"
  by (auto simp: same_value_def split: option.splits)

lemma same_value_trans: "same_value a b \<Longrightarrow> same_value b c \<Longrightarrow> same_value a c"
  by (auto simp: same_value_def split: option.splits)

section \<open>Arrays as sets\<close>

lemma take_unseen_ids:
  "set (map value_id (take_unseen keep seen es)) =
     {i \<in> set (map value_id es). keep i \<and> i \<notin> set seen}"
  by (induction keep seen es rule: take_unseen.induct) auto

lemma take_unseen_distinct: "distinct (map value_id (take_unseen keep seen es))"
proof (induction keep seen es rule: take_unseen.induct)
  case (2 keep seen e es)
  have "value_id e \<notin> set (map value_id (take_unseen keep (value_id e # seen) es))"
    by (simp only: take_unseen_ids) simp
  with 2 show ?case by auto
qed simp

lemma take_unseen_subset: "set (take_unseen keep seen es) \<subseteq> set es"
  by (induction keep seen es rule: take_unseen.induct) auto

lemma keep_elem_swap: "keep_elem b c i = keep_elem b i c"
  by (auto simp: keep_elem_def fun_eq_iff)

lemma mergeSets_ids:
  "set (array_ids (Some (mergeSets b cs ns))) =
     {i. keep_elem (array_ids b) (map value_id cs) (map value_id ns) i}"
  unfolding mergeSets_def array_ids_def option.case jvalue.case take_unseen_ids
  by (auto simp: keep_elem_def split: if_splits)

section \<open>Whichever copy arrived first\<close>

text \<open>Documents that say the same: the same value, objects with the same keys whose values say
  the same, arrays with the same elements. Only key order, spelling and the order and
  repetition of array elements may differ.\<close>

inductive says_same :: "'n jvalue \<Rightarrow> 'n jvalue \<Rightarrow> bool" where
  same_id: "value_id a = value_id b \<Longrightarrow> says_same a b"
| same_object: "(\<And>k. rel_option says_same (field_of (Some (JObject fs)) k)
    (field_of (Some (JObject gs)) k)) \<Longrightarrow> says_same (JObject fs) (JObject gs)"
| same_array: "set (map value_id es) = set (map value_id es') \<Longrightarrow> says_same (JArray es) (JArray es')"

lemma says_same_refl [simp]: "says_same a a"
  by (rule same_id) simp

lemma rel_says_same_refl [simp]: "rel_option says_same v v"
  by (cases v) auto

lemma rel_says_same_same: "same_value a b \<Longrightarrow> rel_option says_same a b"
  by (auto simp: same_value_def split: option.splits intro: same_id)

lemma mergeSets_swap: "says_same (mergeSets b cs ns) (mergeSets b ns cs)"
proof -
  have "set (array_ids (Some (mergeSets b cs ns))) = set (array_ids (Some (mergeSets b ns cs)))"
    by (simp only: mergeSets_ids keep_elem_swap [of _ "map value_id ns"])
  then show ?thesis by (auto simp: mergeSets_def array_ids_def intro: same_array)
qed

lemma merge_ref_swap: "rel_option says_same (merge_ref w b c i) (merge_ref (\<not> w) b i c)"
proof (induction w b c i rule: merge_ref.induct)
  case (1 w b c i)
  show ?case
  proof (cases "changed_apart b c i")
    case False
    moreover have "same_value b c \<Longrightarrow> same_value b i \<Longrightarrow> same_value c i"
      using same_value_trans same_value_sym by blast
    ultimately show ?thesis
      by (subst (1 2) merge_ref.simps) (auto simp: same_value_sym intro: rel_says_same_same)
  next
    case apart: True
    then have apart': "changed_apart b i c" by (simp add: same_value_sym)
    show ?thesis
    proof (cases "\<exists>cf nf. c = Some (JObject cf) \<and> i = Some (JObject nf)")
      case True
      then obtain cf nf where ci: "c = Some (JObject cf)" "i = Some (JObject nf)" by blast
      have "rel_option says_same (ref_fields w (only_object b) cf nf k)
          (ref_fields (\<not> w) (only_object b) nf cf k)" for k
      proof (cases "k \<in> set (merged_keys cf nf)")
        case True
        with 1 [OF _ _ _ refl ci(1) refl ci(2) refl] apart ci show ?thesis by auto
      next
        case False
        then have "k \<notin> set (merged_keys nf cf)" by (auto simp: merged_keys_def)
        with False ref_fields_outside show ?thesis by (metis rel_says_same_refl)
      qed
      then show ?thesis
        using apart apart' ci
        by (simp add: merge_ref_objects) (rule same_object, simp only: field_of_merged)
    next
      case False
      with apart apart' show ?thesis
        by (subst (1 2) merge_ref.simps)
          (auto split: option.splits jvalue.splits intro: mergeSets_swap)
    qed
  qed
qed

lemma conflict_ref_swap: "set (conflict_ref b c i at) = set (conflict_ref b i c at)"
proof (induction b c i at rule: conflict_ref.induct)
  case (1 b c i at)
  show ?case
  proof (cases "\<exists>cf nf. c = Some (JObject cf) \<and> i = Some (JObject nf) \<and> changed_apart b c i")
    case True
    then obtain cf nf where ci: "c = Some (JObject cf)" "i = Some (JObject nf)"
      and apart: "changed_apart b c i" by blast
    have "set (ref_conflicts (only_object b) cf nf at k) = set (ref_conflicts (only_object b) nf cf at k)"
      if "k \<in> set (merged_keys cf nf)" for k
      using 1 [OF _ refl ci(1) refl ci(2) refl that] apart ci by auto
    moreover have "set (merged_keys cf nf) = set (merged_keys nf cf)"
      by (auto simp: merged_keys_def)
    ultimately show ?thesis
      using apart ci by (subst (1 2) conflict_ref.simps) (auto simp: same_value_sym)
  next
    case False
    then show ?thesis
      by (subst (1 2) conflict_ref.simps)
        (auto simp: same_value_sym split: option.splits jvalue.splits)
  qed
qed

section \<open>Well-formed results\<close>

lemma distinct_merged_keys:
  "distinct (map fst cf) \<Longrightarrow> distinct (map fst nf) \<Longrightarrow> distinct (merged_keys cf nf)"
  by (auto simp: merged_keys_def)

lemma set_picked: "(k, r, v) \<in> set (picked g raw ks) \<longleftrightarrow> k \<in> set ks \<and> r = raw k \<and> g k = Some v"
  by (induction ks) (auto split: option.splits)

lemma wf_picked:
  assumes "distinct ks" "\<And>k. k \<in> set ks \<Longrightarrow> wf_opt (g k)"
  shows "wf_value (JObject (picked g raw ks))"
  using assms by (fastforce simp: list_all_iff set_picked fst_picked split: option.splits)

lemma merge_ref_wf: "wf_opt c \<Longrightarrow> wf_opt i \<Longrightarrow> wf_opt (merge_ref w b c i)"
proof (induction w b c i rule: merge_ref.induct)
  case (1 w b c i)
  show ?case
  proof (cases "\<exists>cf nf. c = Some (JObject cf) \<and> i = Some (JObject nf) \<and> changed_apart b c i")
    case True
    then obtain cf nf where ci: "c = Some (JObject cf)" "i = Some (JObject nf)"
      and apart: "changed_apart b c i" by blast
    then have wf: "wf_value (JObject cf)" "wf_value (JObject nf)" using "1.prems" by auto
    have "wf_opt (ref_fields w (only_object b) cf nf k)" if "k \<in> set (merged_keys cf nf)" for k
      using "1.IH" [OF _ _ _ refl ci(1) refl ci(2) refl that] apart ci wf_field_opt wf by auto
    with wf have "wf_value (JObject (picked (ref_fields w (only_object b) cf nf) (raw_key cf nf)
        (merged_keys cf nf)))"
      by (intro wf_picked distinct_merged_keys) auto
    with apart ci show ?thesis by (simp add: merge_ref_objects del: wf_value.simps)
  next
    case False
    have "wf_value (mergeSets b' cs ns)" if "wf_value (JArray cs)" "wf_value (JArray ns)" for b' cs ns
      using that take_unseen_subset by (fastforce simp: mergeSets_def list_all_iff)
    with False "1.prems" show ?thesis
      by (subst merge_ref.simps) (auto simp del: wf_value.simps split: option.splits jvalue.splits)
  qed
qed

section \<open>Properties\<close>


text \<open>When both copies of an object changed and differ, the merged object holds for every key
  the three-way merge of that key's values, keys keep the current copy's order with the
  incoming copy's new keys after, and no key is there twice.\<close>

theorem merge3_key_by_key:
  assumes "wf_value (JObject cf)" "wf_value (JObject nf)"
    and "changed_apart base (Some (JObject cf)) (Some (JObject nf))"
  shows "\<exists>out. fst (merger3_merge m base (Some (JObject cf)) (Some (JObject nf)) at) = Some (JObject out) \<and>
    (\<forall>k. field_of (Some (JObject out)) k =
       fst (merger3_merge m (field_of (only_object base) k) (field_of (Some (JObject cf)) k)
         (field_of (Some (JObject nf)) k) (joinPath at k))) \<and>
    subseq (map fst out) (merged_keys cf nf) \<and> distinct (map fst out)"
proof -
  let ?out = "picked (ref_fields (incomingWins m) (only_object base) cf nf) (raw_key cf nf)
    (merged_keys cf nf)"
  have "fst (merger3_merge m base (Some (JObject cf)) (Some (JObject nf)) at) = Some (JObject ?out)"
    using assms by (simp add: merger3_refines merge_ref_objects del: wf_value.simps)
  moreover have "field_of (Some (JObject ?out)) k =
       fst (merger3_merge m (field_of (only_object base) k) (field_of (Some (JObject cf)) k)
         (field_of (Some (JObject nf)) k) (joinPath at k))" for k
    using wf_field_opt [OF assms(1)] wf_field_opt [OF assms(2)]
    by (simp only: merger3_refines field_of_merged fst_conv)
  moreover have "distinct (merged_keys cf nf)"
    using assms(1,2) by (simp add: distinct_merged_keys)
  ultimately show ?thesis
    by (intro exI [of _ ?out]) (simp only: fst_picked distinct_filter subseq_filter_left simp_thms)
qed

text \<open>C23: the outcome is the same whichever copy arrived first: merging with the copies swapped and
  the other side the newer gives a document that says the same, and the same set of paths in
  conflict.\<close>

theorem merge3_either_order:
  assumes "wf_opt cur" "wf_opt inc" "incomingWins m' = (\<not> incomingWins m)" "conflicts m' = conflicts m"
  shows "rel_option says_same (fst (merger3_merge m base cur inc at))
      (fst (merger3_merge m' base inc cur at)) \<and>
    set (conflicts (snd (merger3_merge m base cur inc at))) =
      set (conflicts (snd (merger3_merge m' base inc cur at)))"
proof -
  have "rel_option says_same (merge_ref (incomingWins m) base cur inc)
      (merge_ref (incomingWins m') base inc cur)"
    using merge_ref_swap assms(3) by simp
  moreover have "set (conflict_ref base cur inc at) = set (conflict_ref base inc cur at)"
    by (rule conflict_ref_swap)
  ultimately show ?thesis using assms by (simp add: merger3_refines)
qed

text \<open>Arrays merge as sets. The merged array has each element once; an element both copies
  have stays, one neither has is not there, and one only one copy has is there exactly when the
  base did not have it (it was added, not removed by the other side).\<close>

theorem mergeSets_as_sets:
  "distinct (array_ids (Some (mergeSets base cur inc))) \<and>
   (i \<in> set (array_ids (Some (mergeSets base cur inc))) \<longleftrightarrow>
     (let c = i \<in> set (map value_id cur); n = i \<in> set (map value_id inc)
      in c \<and> n \<or> (c \<noteq> n) \<and> i \<notin> set (array_ids base)))"
proof
  show "distinct (array_ids (Some (mergeSets base cur inc)))"
    by (simp add: mergeSets_def array_ids_def take_unseen_distinct)
  show "i \<in> set (array_ids (Some (mergeSets base cur inc))) \<longleftrightarrow>
     (let c = i \<in> set (map value_id cur); n = i \<in> set (map value_id inc)
      in c \<and> n \<or> (c \<noteq> n) \<and> i \<notin> set (array_ids base))"
    unfolding mergeSets_ids by (auto simp: keep_elem_def)
qed

section \<open>Witnesses\<close>

text \<open>A settings file edited on both sides: one side adds a key, the other changes one.\<close>

definition sc :: "string \<Rightarrow> unit jvalue" where
  "sc s = JScalar s () s"

definition doc_base :: "unit fields" where
  "doc_base = [(''a'', ([], sc ''1'')), (''b'', ([], sc ''2''))]"

definition doc_cur :: "unit fields" where
  "doc_cur = [(''a'', ([], sc ''1'')), (''b'', ([], sc ''3''))]"

definition doc_inc :: "unit fields" where
  "doc_inc = [(''a'', ([], sc ''1'')), (''b'', ([], sc ''4'')), (''c'', ([], sc ''5''))]"

lemmas doc_defs = doc_base_def doc_cur_def doc_inc_def sc_def

lemma doc_wf: "wf_value (JObject doc_cur)" "wf_value (JObject doc_inc)"
  by (simp_all add: doc_defs)

lemma doc_apart: "changed_apart (Some (JObject doc_base)) (Some (JObject doc_cur)) (Some (JObject doc_inc))"
  by (simp add: doc_defs same_value_def)


theorem merge3_key_by_key_witness:
  "\<exists>out. fst (merger3_merge \<lparr>incomingWins = True, conflicts = []\<rparr> (Some (JObject doc_base))
      (Some (JObject doc_cur)) (Some (JObject doc_inc)) []) = Some (JObject out) \<and>
    field_of (Some (JObject out)) ''c'' =
      fst (merger3_merge \<lparr>incomingWins = True, conflicts = []\<rparr> None None (Some (sc ''5'')) ''c'')"
proof -
  have "field_of (only_object (Some (JObject doc_base))) ''c'' = None"
    "field_of (Some (JObject doc_cur)) ''c'' = None" "joinPath [] ''c'' = ''c''"
    "field_of (Some (JObject doc_inc)) ''c'' = Some (sc ''5'')"
    by (simp_all add: doc_defs field_of_def only_object_def joinPath_def)
  with merge3_key_by_key [OF doc_wf doc_apart, of "\<lparr>incomingWins = True, conflicts = []\<rparr>" "[]"]
  show ?thesis by metis
qed

theorem merge3_either_order_witness:
  "rel_option says_same
     (fst (merger3_merge \<lparr>incomingWins = True, conflicts = []\<rparr> (Some (JObject doc_base))
       (Some (JObject doc_cur)) (Some (JObject doc_inc)) []))
     (fst (merger3_merge \<lparr>incomingWins = False, conflicts = []\<rparr> (Some (JObject doc_base))
       (Some (JObject doc_inc)) (Some (JObject doc_cur)) []))"
  using merge3_either_order [of "Some (JObject doc_cur)" "Some (JObject doc_inc)"
    "\<lparr>incomingWins = False, conflicts = []\<rparr>" "\<lparr>incomingWins = True, conflicts = []\<rparr>"] doc_wf by simp

end
