(* ===== verification/Policies.thy ===== *)
theory Policies
  imports Messages SyncPolicy Merge3 "HOL-Library.Multiset"
begin

text \<open>
  The sync policies of \<open>internal/sharesync\<close>: the interface and its data (\<open>policy.go\<close>), mirror
  (\<open>mirror.go\<close>), append-union (\<open>appendunion.go\<close>) and the decision json3 and toml3 share
  (\<open>docmerge.go\<close>). A version's content is fetched from a side or a blob when a policy asks for
  it: \<open>v_open\<close> is what that one read gives (the code keeps the content once it was read).
\<close>

section \<open>The interface\<close>

datatype scope = ScopeFleet | ScopeLocation

record version =
  v_entry :: entry
  v_rev :: nat
  v_side :: string
  v_open :: "(sync_error + string) option"

record merge_input =
  mi_root :: string
  mi_path :: string
  mi_side :: side_info
  mi_fast :: bool
  mi_baseRev :: nat
  mi_current :: "version option"
  mi_incoming :: version
  mi_base :: "sync_error + string option"

datatype decision = Accept | Keep | Merged

record merge_result =
  mr_decision :: decision
  mr_content :: string
  mr_conflict :: bool
  mr_reason :: string

record merger =
  m_scope :: scope
  m_lane :: lane
  m_history :: nat
  m_merge :: "merge_input \<Rightarrow> sync_error + merge_result"

definition MaxMergeSize :: int where "MaxMergeSize = 16777216"

text \<open>\<open>Version.Content\<close>: what is read stops at one byte past \<open>MaxMergeSize\<close>, and content of
  another size than the entry's is stale.\<close>

definition Content :: "version \<Rightarrow> sync_error + string" where
  "Content v =
     (if e_kind (v_entry v) \<noteq> File then Inr []
      else if e_size (v_entry v) > MaxMergeSize then Inl ErrTooLarge
      else case v_open v of
        None \<Rightarrow> Inl ErrNoSource
      | Some (Inl err) \<Rightarrow> Inl err
      | Some (Inr bytes) \<Rightarrow>
          let data = take (nat (MaxMergeSize + 1)) bytes
          in if int (length data) \<noteq> e_size (v_entry v) then Inl ErrStale else Inr data)"

abbreviation result_of :: "decision \<Rightarrow> bool \<Rightarrow> string \<Rightarrow> merge_result" where
  "result_of d conflict reason \<equiv>
     \<lparr>mr_decision = d, mr_content = [], mr_conflict = conflict, mr_reason = reason\<rparr>"

section \<open>Mirror\<close>

definition newer :: "entry \<Rightarrow> entry \<Rightarrow> bool" where
  "newer a b =
     (if e_mtime a \<noteq> e_mtime b then e_mtime a > e_mtime b
      else if kind_num (e_kind a) \<noteq> kind_num (e_kind b) then kind_num (e_kind a) > kind_num (e_kind b)
      else if e_hash a \<noteq> e_hash b then e_hash a > e_hash b
      else if e_target a \<noteq> e_target b then e_target a > e_target b
      else e_mode a > e_mode b)"

definition newestWins :: "merge_input \<Rightarrow> merge_result" where
  "newestWins inp =
     (case mi_current inp of
        None \<Rightarrow> result_of Accept False []
      | Some v \<Rightarrow>
          if mi_fast inp then result_of Accept False []
          else
            let cur = v_entry v; inc = v_entry (mi_incoming inp); who = s_id (mi_side inp)
            in if \<not> Live inc then
                 result_of Keep False (''a delete from '' @ who @ '' that had not seen a newer change'')
               else if \<not> Live cur then
                 result_of Accept False
                   (''a change from '' @ who @ '' made after a delete it had not seen'')
               else if newer inc cur then
                 result_of Accept True (''a newer change from '' @ who)
               else result_of Keep True (''an older change from '' @ who))"

definition Mirror_merger :: merger where
  "Mirror_merger = \<lparr>m_scope = ScopeFleet, m_lane = LaneAuto, m_history = 0,
     m_merge = (\<lambda>inp. Inr (newestWins inp))\<rparr>"

section \<open>Append-union\<close>

definition splitLines :: "string \<Rightarrow> string list \<times> bool" where
  "splitLines data =
     (if data = [] then ([], False)
      else (split_on CHR 0x0A (TrimSuffix data [CHR 0x0A]), last data \<noteq> CHR 0x0A))"

fun completed_from :: "string \<Rightarrow> string list \<Rightarrow> bool \<Rightarrow> bool" where
  "completed_from tail [] othersOpen = False"
| "completed_from tail (line # rest) othersOpen =
     (if prefix tail line \<and> (length line > length tail \<or> \<not> (othersOpen \<and> rest = [])) then True
      else completed_from tail rest othersOpen)"

definition completedBy :: "string \<Rightarrow> string list \<Rightarrow> bool \<Rightarrow> bool" where
  "completedBy tail others othersOpen = completed_from tail others othersOpen"

text \<open>The loop over the incoming lines: a line the counts still have is used up, any other is
  extra; \<open>extraOpen\<close> is whether the last line taken is the incoming copy's open one.\<close>

fun extra_lines :: "(string \<Rightarrow> nat) \<Rightarrow> string list \<Rightarrow> bool \<Rightarrow> string list \<times> bool \<Rightarrow> string list \<times> bool" where
  "extra_lines have [] bOpen st = st"
| "extra_lines have (line # rest) bOpen (extra, extraOpen) =
     (if have line > 0 then extra_lines (have(line := have line - 1)) rest bOpen (extra, extraOpen)
      else extra_lines have rest bOpen (extra @ [line], bOpen \<and> rest = []))"

fun write_lines :: "string list \<Rightarrow> bool \<Rightarrow> string" where
  "write_lines [] opn = []"
| "write_lines (line # rest) opn =
     line @ (if rest \<noteq> [] \<or> \<not> opn then [CHR 0x0A] else []) @ write_lines rest opn"

definition unionLines :: "string \<Rightarrow> string \<Rightarrow> string" where
  "unionLines a b =
     (let (la0, aOpen0) = splitLines a;
          (lb0, bOpen0) = splitLines b;
          dropped = (aOpen0 \<and> completedBy (last la0) lb0 bOpen0);
          la = (if dropped then butlast la0 else la0);
          aOpen = (aOpen0 \<and> \<not> dropped);
          bDrop = (bOpen0 \<and> completedBy (last lb0) la aOpen);
          lb = (if bDrop then butlast lb0 else lb0);
          bOpen = (bOpen0 \<and> \<not> bDrop);
          (extra, extraOpen) = extra_lines (count_list la) lb bOpen ([], False)
      in if extra = [] \<and> \<not> dropped then a
         else write_lines (la @ extra) (extraOpen \<or> aOpen \<and> extra = []))"

definition AppendUnion_Merge :: "merge_input \<Rightarrow> sync_error + merge_result" where
  "AppendUnion_Merge inp =
     (case mi_current inp of
        None \<Rightarrow> Inr (result_of Accept False [])
      | Some v \<Rightarrow>
          if mi_fast inp then Inr (result_of Accept False [])
          else if e_kind (v_entry v) \<noteq> File \<or> e_kind (v_entry (mi_incoming inp)) \<noteq> File
            then Inr (newestWins inp)
          else case Content v of
            Inl err \<Rightarrow> if err = ErrTooLarge then Inr (newestWins inp) else Inl err
          | Inr current \<Rightarrow>
              (case Content (mi_incoming inp) of
                 Inl err \<Rightarrow> if err = ErrTooLarge then Inr (newestWins inp) else Inl err
               | Inr incoming \<Rightarrow>
                   let merged = unionLines current incoming;
                       reason = ''lines from '' @ s_id (mi_side inp) @ '' merged''
                   in if merged = current then Inr (result_of Keep False reason)
                      else if merged = incoming then Inr (result_of Accept False reason)
                      else Inr \<lparr>mr_decision = Merged, mr_content = merged, mr_conflict = False,
                                mr_reason = reason\<rparr>))"

definition AppendUnion_merger :: merger where
  "AppendUnion_merger = \<lparr>m_scope = ScopeFleet, m_lane = LaneAuto, m_history = 0,
     m_merge = AppendUnion_Merge\<rparr>"

section \<open>Three-way merges\<close>

text \<open>\<open>docFormat\<close> is an interface of the code; its fields are the operations of one format.
  A parse or a rendering that fails gives its error's text.\<close>

record 'n doc_format =
  f_name :: string
  f_parse :: "string \<Rightarrow> string + 'n jvalue"
  f_seed :: "'n jvalue \<Rightarrow> bool"
  f_render :: "'n jvalue \<Rightarrow> string \<Rightarrow> 'n jvalue \<Rightarrow> string + string"

definition mergeHistory :: nat where "mergeHistory = 4"

text \<open>\<open>mergeDocument\<close>, from its end: the merge of two parsed copies, the steps once the incoming
  copy is parsed and the current one is a file, and the whole decision.\<close>

definition merge_changed :: "'n doc_format \<Rightarrow> merge_input \<Rightarrow> entry \<Rightarrow> string \<Rightarrow> 'n jvalue \<Rightarrow> 'n jvalue \<Rightarrow>
    'n jvalue option \<Rightarrow> merge_result" where
  "merge_changed f inp curEntry curData cur inc base =
     (let who = s_id (mi_side inp); nm = f_name f;
          (merged, m) = merger3_merge
            \<lparr>incomingWins = newer (v_entry (mi_incoming inp)) curEntry, conflicts = []\<rparr>
            base (Some cur) (Some inc) [];
          reason = nm @ '' changes from '' @ who @ '' merged'' @ conflictNote (conflicts m)
      in if same_value merged (Some cur) then result_of Keep False reason
         else if same_value merged (Some inc) then result_of Accept False reason
         else if isEmptyObject merged then
           (newestWins inp)\<lparr>mr_reason := nm @ '' changes from '' @ who @
             '' would merge to an empty '' @ nm @ ''; the newer copy kept''\<rparr>
         else (case f_render f (the merged) curData cur of
            Inl msg \<Rightarrow> (newestWins inp)\<lparr>mr_reason := nm @ '' changes from '' @ who @
              '' could not be written merged ('' @ msg @ ''); the newer copy kept''\<rparr>
          | Inr content \<Rightarrow> \<lparr>mr_decision = Merged, mr_content = content, mr_conflict = False,
              mr_reason = reason\<rparr>))"

definition merge_current :: "'n doc_format \<Rightarrow> merge_input \<Rightarrow> version \<Rightarrow> 'n jvalue \<Rightarrow>
    sync_error + merge_result" where
  "merge_current f inp cv inc =
     (let replace = result_of Accept False (''a whole '' @ f_name f @ '' from '' @ s_id (mi_side inp) @
            '' replaces an empty or unreadable one'')
      in case Content cv of
        Inl err \<Rightarrow> if err = ErrTooLarge then Inr (newestWins inp) else Inl err
      | Inr curData \<Rightarrow>
          (case f_parse f curData of
             Inl _ \<Rightarrow> Inr replace
           | Inr cur \<Rightarrow>
               if f_seed f cur then Inr replace
               else (case mi_base inp of
                  Inl err \<Rightarrow> Inl err
                | Inr None \<Rightarrow> Inr (merge_changed f inp (v_entry cv) curData cur inc None)
                | Inr (Some b) \<Rightarrow>
                    Inr (merge_changed f inp (v_entry cv) curData cur inc
                      (case f_parse f b of Inl _ \<Rightarrow> None | Inr v \<Rightarrow> Some v)))))"

definition current_file :: "merge_input \<Rightarrow> version option" where
  "current_file inp =
     (case mi_current inp of None \<Rightarrow> None
      | Some v \<Rightarrow> if e_kind (v_entry v) = File then Some v else None)"

definition mergeDocument :: "'n doc_format \<Rightarrow> merge_input \<Rightarrow> sync_error + merge_result" where
  "mergeDocument f inp =
     (if e_kind (v_entry (mi_incoming inp)) \<noteq> File then Inr (newestWins inp)
      else case Content (mi_incoming inp) of
        Inl err \<Rightarrow> if err = ErrTooLarge then Inr (newestWins inp) else Inl err
      | Inr data \<Rightarrow>
          (case f_parse f data of
             Inl msg \<Rightarrow> Inl (ErrIncomplete (mi_path inp @ '' from '' @ s_id (mi_side inp) @ '': '' @ msg))
           | Inr inc \<Rightarrow>
               (case current_file inp of
                  None \<Rightarrow> Inr (newestWins inp)
                | Some cv \<Rightarrow>
                    if f_seed f inc then
                      Inr (result_of Keep False (''an empty '' @ f_name f @ '' from '' @
                        s_id (mi_side inp) @ '' never replaces content''))
                    else if mi_fast inp then Inr (newestWins inp)
                    else merge_current f inp cv inc)))"

definition document_merger :: "'n doc_format \<Rightarrow> merger" where
  "document_merger f = \<lparr>m_scope = ScopeFleet, m_lane = LaneAuto, m_history = mergeHistory,
     m_merge = mergeDocument f\<rparr>"

text \<open>\<open>Policies.covers\<close>: the policy and root left without an implementation, if any.\<close>

definition covers :: "(policy \<Rightarrow> merger option) \<Rightarrow> table \<Rightarrow> string \<Rightarrow> (policy \<times> string) option" where
  "covers p t name =
     (let needed = concat (map (\<lambda>root.
            if \<not> within (rt_path root) name \<and> \<not> within name (rt_path root) then []
            else map (\<lambda>pol. (pol, rt_path root)) (rt_default root # map r_policy (rt_rules root))) t)
      in find (\<lambda>(pol, _). pol \<noteq> LocationLocal \<and> p pol = None) needed)"

section \<open>Which change is newer\<close>

lemma newer_asym: "newer a b \<Longrightarrow> \<not> newer b a"
  by (auto simp: newer_def split: if_splits)

lemma newer_trans: "newer a b \<Longrightarrow> newer b c \<Longrightarrow> newer a c"
  by (auto simp: newer_def split: if_splits)

lemma kind_num_inj: "kind_num a = kind_num b \<longleftrightarrow> a = b"
  by (cases a; cases b) auto

lemma newer_total:
  "newer a b \<or> newer b a \<or>
   (e_mtime a = e_mtime b \<and> e_kind a = e_kind b \<and> e_hash a = e_hash b \<and>
    e_target a = e_target b \<and> e_mode a = e_mode b)"
  using linorder_neqE_nat by (auto simp: newer_def simp flip: kind_num_inj)

section \<open>Lines\<close>

lemma TrimSuffix_newline:
  "TrimSuffix data [c] = (if data \<noteq> [] \<and> last data = c then butlast data else data)"
  by (cases data rule: rev_cases) (auto simp: TrimSuffix_def)

lemma splitLines_no_newline: "splitLines data = (ls, opn) \<Longrightarrow> l \<in> set ls \<Longrightarrow> CHR 0x0A \<notin> set l"
  by (auto simp: splitLines_def split: if_splits dest: split_on_parts)

lemma split_on_snoc: "split_on c (s @ [c]) = split_on c s @ [[]]"
proof (induction s)
  case Nil
  then show ?case by simp
next
  case (Cons x s)
  then show ?case by (cases "split_on c s") (auto simp: split_on_nonempty)
qed

lemma last_split_on:
  "data \<noteq> [] \<Longrightarrow> last data \<noteq> c \<Longrightarrow> last (split_on c data) \<noteq> []"
proof (induction data)
  case Nil
  then show ?case by simp
next
  case (Cons x data)
  show ?case
  proof (cases data)
    case Nil
    with Cons show ?thesis by simp
  next
    case (Cons y ys)
    with Cons.IH Cons.prems have "last (split_on c data) \<noteq> []" by simp
    then show ?thesis by (cases "split_on c data") (auto split: if_splits)
  qed
qed

lemma splitLines_open: "splitLines data = (ls, True) \<Longrightarrow> ls \<noteq> [] \<and> last ls \<noteq> []"
  by (auto simp: splitLines_def TrimSuffix_newline last_split_on split: if_splits)

lemma write_lines_join:
  "ls \<noteq> [] \<Longrightarrow> write_lines ls opn = join_with CHR 0x0A ls @ (if opn then [] else [CHR 0x0A])"
  by (induction "CHR 0x0A" ls rule: join_with.induct) auto

lemma write_split: "splitLines data = (ls, opn) \<Longrightarrow> write_lines ls opn = data"
proof (cases "data \<noteq> [] \<and> last data = CHR 0x0A")
  case True
  then have "butlast data @ [CHR 0x0A] = data" using append_butlast_last_id by metis
  moreover assume "splitLines data = (ls, opn)"
  ultimately show ?thesis using True by (auto simp: splitLines_def write_lines_join TrimSuffix_newline)
next
  case False
  moreover assume "splitLines data = (ls, opn)"
  ultimately show ?thesis
    by (auto simp: splitLines_def write_lines_join TrimSuffix_newline split: if_splits)
qed

definition lines_ok :: "string list \<Rightarrow> bool \<Rightarrow> bool" where
  "lines_ok ls opn \<longleftrightarrow> (\<forall>l \<in> set ls. CHR 0x0A \<notin> set l) \<and> (opn \<longrightarrow> ls \<noteq> [] \<and> last ls \<noteq> [])"

lemma splitLines_ok: "splitLines data = (ls, opn) \<Longrightarrow> lines_ok ls opn"
  using splitLines_no_newline [of data ls opn] splitLines_open [of data ls]
  by (cases opn) (auto simp: lines_ok_def)

lemma last_join:
  "ls \<noteq> [] \<Longrightarrow> last ls \<noteq> [] \<Longrightarrow> join_with c ls \<noteq> [] \<and> last (join_with c ls) = last (last ls)"
  by (induction c ls rule: join_with.induct) auto

lemma split_write:
  assumes "lines_ok ls opn"
  shows "splitLines (write_lines ls opn) = (ls, opn)"
proof (cases "ls = []")
  case True
  with assms show ?thesis by (simp add: lines_ok_def splitLines_def)
next
  case False
  then have split: "split_on CHR 0x0A (join_with CHR 0x0A ls) = ls"
    using assms by (intro split_join) (auto simp: lines_ok_def)
  show ?thesis
  proof (cases opn)
    case True
    with assms False have l: "last ls \<noteq> []" "CHR 0x0A \<notin> set (last ls)" by (auto simp: lines_ok_def)
    with False have "join_with CHR 0x0A ls \<noteq> []"
      "last (join_with CHR 0x0A ls) = last (last ls)" by (auto simp: last_join)
    moreover have "last (last ls) \<noteq> CHR 0x0A" using l by (metis last_in_set)
    ultimately show ?thesis
      using True False split by (simp add: write_lines_join splitLines_def TrimSuffix_newline)
  next
    case no: False
    with \<open>ls \<noteq> []\<close> split show ?thesis
      by (simp add: write_lines_join splitLines_def TrimSuffix_newline)
  qed
qed

section \<open>The union\<close>

lemma mset_extra_lines:
  "mset (fst (extra_lines (count M) ls bOpen (ex, eo))) = mset ex + (mset ls - M)"
proof (induction ls arbitrary: M ex eo)
  case Nil
  then show ?case by simp
next
  case (Cons l ls)
  have upd: "(count M)(l := count M l - 1) = count (M - {#l#})" by auto
  show ?case
  proof (cases "l \<in># M")
    case True
    then have "count M l > 0" by simp
    moreover from True have "add_mset l (mset ls) - M = mset ls - (M - {#l#})"
      by (metis add_mset_diff_bothsides insert_DiffM)
    moreover note Cons.IH [of "M - {#l#}" ex eo, folded upd]
    ultimately show ?thesis by (simp only: extra_lines.simps if_True mset.simps)
  next
    case False
    then have zero: "count M l = 0" by (simp add: not_in_iff)
    then have "add_mset l (mset ls) - M = add_mset l (mset ls - M)"
      by (simp add: multiset_eq_iff)
    with zero Cons.IH [of M "ex @ [l]"] show ?thesis by simp
  qed
qed

lemma extra_lines_open:
  "extra_lines h ls bOpen (ex, False) = (extra, True) \<Longrightarrow> bOpen \<and> extra \<noteq> [] \<and> ls \<noteq> [] \<and> last extra = last ls"
proof (induction ls arbitrary: h ex)
  case Nil
  then show ?case by simp
next
  case (Cons l ls)
  show ?case
  proof (cases "h l > 0")
    case True
    with Cons.prems have "extra_lines (h(l := h l - 1)) ls bOpen (ex, False) = (extra, True)" by simp
    from Cons.IH [OF this] show ?thesis by simp
  next
    case False
    show ?thesis
    proof (cases "ls = []")
      case True
      with False Cons.prems show ?thesis by auto
    next
      case more: False
      with False Cons.prems have "extra_lines h ls bOpen (ex @ [l], False) = (extra, True)" by simp
      from Cons.IH [OF this] show ?thesis by simp
    qed
  qed
qed

lemma count_list_mset: "count_list xs = count (mset xs)"
  by (rule ext) (simp add: count_mset)

lemma completed_fromD:
  "completed_from t ls opn \<Longrightarrow> \<exists>l \<in> set ls. prefix t l"
  by (induction t ls opn rule: completed_from.induct) (auto split: if_splits)

text \<open>The lines each copy keeps once a line still being written is dropped for its completed
  form.\<close>

definition kept_lines :: "string \<Rightarrow> string \<Rightarrow> (string list \<times> bool) \<times> (string list \<times> bool)" where
  "kept_lines a b =
     (let (la, aOpen) = splitLines a; (lb, bOpen) = splitLines b;
          da = (aOpen \<and> completedBy (last la) lb bOpen);
          la' = (if da then butlast la else la); aOpen' = (aOpen \<and> \<not> da);
          db = (bOpen \<and> completedBy (last lb) la' aOpen')
      in ((la', aOpen'), (if db then butlast lb else lb, bOpen \<and> \<not> db)))"

lemma lines_ok_drop: "lines_ok ls opn \<Longrightarrow> lines_ok (if d then butlast ls else ls) (opn \<and> \<not> d)"
  by (auto simp: lines_ok_def dest: in_set_butlastD)

lemma splitLines_unionLines:
  assumes "kept_lines a b = ((la, aOpen), (lb, bOpen))"
  shows "\<exists>extra opn. splitLines (unionLines a b) = (la @ extra, opn) \<and> mset extra = mset lb - mset la"
proof -
  obtain la0 ao lb0 bo where sp: "splitLines a = (la0, ao)" "splitLines b = (lb0, bo)" by fastforce
  define d where "d = (ao \<and> completedBy (last la0) lb0 bo)"
  define e where "e = (bo \<and> completedBy (last lb0) (if d then butlast la0 else la0) (ao \<and> \<not> d))"
  have k: "la = (if d then butlast la0 else la0)" "aOpen = (ao \<and> \<not> d)"
    "lb = (if e then butlast lb0 else lb0)" "bOpen = (bo \<and> \<not> e)"
    using assms sp by (auto simp: kept_lines_def Let_def d_def e_def)
  obtain extra eo where ex: "extra_lines (count_list la) lb bOpen ([], False) = (extra, eo)" by fastforce
  have ms: "mset extra = mset lb - mset la"
    using mset_extra_lines [of "mset la" lb bOpen "[]" False] ex by (simp add: count_list_mset)
  have ok: "lines_ok la aOpen" "lines_ok lb bOpen"
    unfolding k by (rule lines_ok_drop, rule splitLines_ok, fact sp)+
  have "set extra \<subseteq> set lb"
    using ms by (metis in_diffD set_mset_mset subsetI)
  moreover have "eo \<Longrightarrow> extra \<noteq> [] \<and> last extra \<noteq> []"
    using extra_lines_open [of "count_list la" lb bOpen "[]" extra] ex ok(2)
    by (auto simp: lines_ok_def)
  ultimately have "lines_ok (la @ extra) (eo \<or> aOpen \<and> extra = [])"
    using ok by (auto simp: lines_ok_def)
  then have w: "splitLines (write_lines (la @ extra) (eo \<or> aOpen \<and> extra = [])) =
      (la @ extra, eo \<or> aOpen \<and> extra = [])"
    by (rule split_write)
  have "unionLines a b = (if extra = [] \<and> \<not> d then a
      else write_lines (la @ extra) (eo \<or> aOpen \<and> extra = []))"
    using ex unfolding k unfolding unionLines_def sp Let_def prod.case d_def [symmetric]
    unfolding e_def [symmetric] by simp
  then show ?thesis
    using w sp(1) k(1) ms by (cases "extra = [] \<and> \<not> d") auto
qed

abbreviation file_lines :: "string \<Rightarrow> string list" where
  "file_lines data \<equiv> fst (splitLines data)"

abbreviation open_tail :: "string \<Rightarrow> bool" where
  "open_tail data \<equiv> snd (splitLines data)"

definition whole_lines :: "string \<Rightarrow> string list" where
  "whole_lines data = (if open_tail data then butlast (file_lines data) else file_lines data)"

lemma mset_unionLines:
  "mset (file_lines (unionLines a b)) = mset (fst (fst (kept_lines a b))) \<union># mset (fst (snd (kept_lines a b)))"
proof -
  obtain la ao lb bo where k: "kept_lines a b = ((la, ao), (lb, bo))" by (metis prod.collapse)
  from splitLines_unionLines [OF k] k show ?thesis by (auto simp: union_mset_def)
qed

lemma kept_lines_closed:
  "\<not> open_tail a \<Longrightarrow> \<not> open_tail b \<Longrightarrow> kept_lines a b = (splitLines a, splitLines b)"
  by (auto simp: kept_lines_def Let_def split: prod.splits)

lemma mset_butlast_sub [simp]: "mset (butlast xs) \<subseteq># mset xs"
  by (cases xs rule: rev_cases) auto

lemma mset_whole_kept:
  "mset (whole_lines a) \<subseteq># mset (fst (fst (kept_lines a b)))"
  "mset (whole_lines b) \<subseteq># mset (fst (snd (kept_lines a b)))"
  by (auto simp: kept_lines_def whole_lines_def Let_def split: prod.splits)

lemma kept_subset_union:
  "mset (fst (fst (kept_lines a b))) \<subseteq># mset (file_lines (unionLines a b))"
  "mset (fst (snd (kept_lines a b))) \<subseteq># mset (file_lines (unionLines a b))"
  by (simp_all add: mset_unionLines)

lemma open_tail_kept:
  assumes "open_tail a"
  shows "\<exists>l \<in> set (fst (fst (kept_lines a b))) \<union> set (fst (snd (kept_lines a b))).
    prefix (last (file_lines a)) l"
proof -
  obtain la ao lb bo where sp: "splitLines a = (la, ao)" "splitLines b = (lb, bo)" by fastforce
  with assms have ao: "ao" "la \<noteq> []" using splitLines_open by auto
  show ?thesis
  proof (cases "completedBy (last la) lb bo")
    case False
    with sp ao show ?thesis by (auto simp: kept_lines_def Let_def intro!: bexI [of _ "last la"])
  next
    case True
    then obtain l where l: "l \<in> set lb" "prefix (last la) l"
      using completed_fromD unfolding completedBy_def by blast
    show ?thesis
    proof (cases "bo \<and> completedBy (last lb) (butlast la) False \<and> l \<notin> set (butlast lb)")
      case False
      then have "l \<in> set (fst (snd (kept_lines a b)))"
        using sp ao True l(1) by (auto simp: kept_lines_def Let_def)
      with l(2) sp show ?thesis by auto
    next
      case drop: True
      then have "l = last lb"
        using l(1) by (cases lb rule: rev_cases) auto
      moreover from drop obtain l' where "l' \<in> set (butlast la)" "prefix (last lb) l'"
        using completed_fromD unfolding completedBy_def by blast
      ultimately have "l' \<in> set (fst (fst (kept_lines a b)))" "prefix (last la) l'"
        using sp ao True l by (auto simp: kept_lines_def Let_def)
      with sp show ?thesis by auto
    qed
  qed
qed

lemma open_tail_kept_incoming:
  assumes "open_tail b"
  shows "\<exists>l \<in> set (fst (fst (kept_lines a b))) \<union> set (fst (snd (kept_lines a b))).
    prefix (last (file_lines b)) l"
proof -
  obtain la ao lb bo where sp: "splitLines a = (la, ao)" "splitLines b = (lb, bo)" by fastforce
  with assms have bo: "bo" "lb \<noteq> []" using splitLines_open by auto
  define la' where "la' = fst (fst (kept_lines a b))"
  have k: "snd (kept_lines a b) = (if completedBy (last lb) la' (snd (fst (kept_lines a b)))
      then (butlast lb, False) else (lb, True))"
    using sp bo by (auto simp: kept_lines_def Let_def la'_def)
  show ?thesis
  proof (cases "completedBy (last lb) la' (snd (fst (kept_lines a b)))")
    case True
    then show ?thesis using completed_fromD sp unfolding completedBy_def la'_def by fastforce
  next
    case False
    with k sp bo show ?thesis by (auto intro!: bexI [of _ "last lb"])
  qed
qed

section \<open>The contract every policy keeps\<close>

text \<open>What the hub relies on: merged content only ever replaces a file by a file, a path the
  hub never had is accepted, and a delete that had not seen the current state is refused. A
  conflict copy is only asked for when two live states meet.\<close>

locale sync_merge =
  fixes mrg :: "merge_input \<Rightarrow> sync_error + merge_result"
  assumes merged_files: "mrg inp = Inr r \<Longrightarrow> mr_decision r = Merged \<Longrightarrow>
      e_kind (v_entry (mi_incoming inp)) = File \<and> \<not> mi_fast inp \<and>
      (\<exists>v. mi_current inp = Some v \<and> e_kind (v_entry v) = File)"
    and new_path: "mrg inp = Inr r \<Longrightarrow> mi_current inp = None \<Longrightarrow> mr_decision r = Accept"
    and stale_delete: "mrg inp = Inr r \<Longrightarrow> mi_current inp = Some v \<Longrightarrow> \<not> mi_fast inp \<Longrightarrow>
      \<not> Live (v_entry (mi_incoming inp)) \<Longrightarrow> mr_decision r = Keep"
    and conflict_live: "mrg inp = Inr r \<Longrightarrow> mr_conflict r \<Longrightarrow>
      \<not> mi_fast inp \<and> Live (v_entry (mi_incoming inp)) \<and>
      (\<exists>v. mi_current inp = Some v \<and> Live (v_entry v))"
begin

text \<open>What was decided, by kind of change.\<close>

lemma accepts_only:
  assumes "mrg inp = Inr r" "mr_decision r \<noteq> Keep" "\<not> Live (v_entry (mi_incoming inp))"
  shows "mi_fast inp \<or> mi_current inp = None"
  using assms stale_delete by blast

lemma merged_not_delete:
  "mrg inp = Inr r \<Longrightarrow> mr_decision r = Merged \<Longrightarrow> Live (v_entry (mi_incoming inp))"
  using merged_files by (fastforce simp: Live_def)

lemma keep_has_current: "mrg inp = Inr r \<Longrightarrow> mr_decision r \<noteq> Accept \<Longrightarrow> mi_current inp \<noteq> None"
  using new_path by blast

end

lemma newestWins_cases:
  "newestWins inp = r \<Longrightarrow> mr_decision r \<noteq> Merged \<and>
    (mi_current inp = None \<or> mi_fast inp \<longrightarrow> mr_decision r = Accept \<and> \<not> mr_conflict r)"
  by (auto simp: newestWins_def Let_def split: option.splits if_splits)

lemma newestWins_delete:
  "mi_current inp = Some v \<Longrightarrow> \<not> mi_fast inp \<Longrightarrow> \<not> Live (v_entry (mi_incoming inp)) \<Longrightarrow>
   mr_decision (newestWins inp) = Keep"
  by (simp add: newestWins_def Let_def)

lemma newestWins_conflict:
  "mr_conflict (newestWins inp) \<Longrightarrow> \<not> mi_fast inp \<and> Live (v_entry (mi_incoming inp)) \<and>
    (\<exists>v. mi_current inp = Some v \<and> Live (v_entry v))"
  by (auto simp: newestWins_def Let_def split: option.splits if_splits)

lemma newestWins_not_Merged [simp]: "mr_decision (newestWins inp) \<noteq> Merged"
  using newestWins_cases by blast

lemma newestWins_new [simp]: "mi_current inp = None \<Longrightarrow> mr_decision (newestWins inp) = Accept"
  using newestWins_cases by blast

interpretation mirror: sync_merge "m_merge Mirror_merger"
  by unfold_locales
    (auto simp: Mirror_merger_def dest: newestWins_delete newestWins_conflict)

lemma File_Live: "e_kind e = File \<Longrightarrow> Live e"
  by (simp add: Live_def)

interpretation append_union: sync_merge "m_merge AppendUnion_merger"
proof (unfold_locales, goal_cases)
  case (1 inp r)
  then show ?case
    by (auto simp: AppendUnion_merger_def AppendUnion_Merge_def Let_def
        split: option.splits if_splits sum.splits)
next
  case (2 inp r)
  then show ?case by (auto simp: AppendUnion_merger_def AppendUnion_Merge_def)
next
  case (3 inp r v)
  then show ?case
    by (auto simp: AppendUnion_merger_def AppendUnion_Merge_def Let_def newestWins_delete
        split: if_splits sum.splits dest: File_Live)
next
  case (4 inp r)
  then show ?case
    by (auto simp: AppendUnion_merger_def AppendUnion_Merge_def Let_def
        split: option.splits if_splits sum.splits dest: newestWins_conflict)
qed

text \<open>A document decision is mirror's, or one about two files that keeps no conflict copy.\<close>

definition mirrors :: "merge_input \<Rightarrow> merge_result \<Rightarrow> bool" where
  "mirrors inp r \<longleftrightarrow> mr_decision r = mr_decision (newestWins inp) \<and> mr_conflict r = mr_conflict (newestWins inp)"

lemma mirrors_self [simp]: "mirrors inp (newestWins inp)"
  "mirrors inp ((newestWins inp)\<lparr>mr_reason := reason\<rparr>)"
  by (simp_all add: mirrors_def)

lemma merge_changed_outcome:
  "mirrors inp (merge_changed f inp e d cur inc base) \<or> \<not> mr_conflict (merge_changed f inp e d cur inc base)"
  by (simp add: merge_changed_def Let_def split: prod.split sum.split)

lemma merge_current_outcome:
  "merge_current f inp cv inc = Inr r \<Longrightarrow> mirrors inp r \<or> \<not> mr_conflict r"
  using merge_changed_outcome
  by (fastforce simp: merge_current_def Let_def split: sum.splits option.splits if_splits)

lemma current_file_Some: "current_file inp = Some v \<longleftrightarrow> mi_current inp = Some v \<and> e_kind (v_entry v) = File"
  by (auto simp: current_file_def split: option.splits)

lemma mergeDocument_outcome:
  assumes "mergeDocument f inp = Inr r"
  shows "mirrors inp r \<or>
    (e_kind (v_entry (mi_incoming inp)) = File \<and> \<not> mr_conflict r \<and>
     (\<exists>v. mi_current inp = Some v \<and> e_kind (v_entry v) = File) \<and> (mr_decision r = Merged \<longrightarrow> \<not> mi_fast inp))"
  using assms merge_current_outcome [of f inp _ _ r]
  by (auto simp: mergeDocument_def current_file_Some split: if_splits sum.splits option.splits)

interpretation document: sync_merge "m_merge (document_merger f)" for f
proof (unfold_locales, goal_cases)
  case (1 inp r)
  then show ?case
    using mergeDocument_outcome [of f inp r] newestWins_not_Merged [of inp]
    by (auto simp: document_merger_def mirrors_def simp del: newestWins_not_Merged)
next
  case (2 inp r)
  then show ?case using mergeDocument_outcome [of f inp r] by (auto simp: document_merger_def mirrors_def)
next
  case (3 inp r v)
  then show ?case
    using mergeDocument_outcome [of f inp r]
    by (auto simp: document_merger_def mirrors_def newestWins_delete dest: File_Live)
next
  case (4 inp r)
  then show ?case
    using mergeDocument_outcome [of f inp r]
    by (auto simp: document_merger_def mirrors_def dest: newestWins_conflict)
qed

section \<open>Properties\<close>

text \<open>Mirror picks the same winner whichever of two concurrent live changes arrived first: the
  order \<open>newer\<close> is asymmetric and transitive, and leaves a pair undecided only when both states
  agree in time, kind, content, target and mode.\<close>

theorem newer_strict_order:
  "(newer a b \<longrightarrow> \<not> newer b a) \<and> (newer a b \<and> newer b c \<longrightarrow> newer a c) \<and>
   (newer a b \<or> newer b a \<or>
    (e_mtime a = e_mtime b \<and> e_kind a = e_kind b \<and> e_hash a = e_hash b \<and>
     e_target a = e_target b \<and> e_mode a = e_mode b))"
  using newer_asym newer_trans newer_total by blast

definition state_at :: "int \<Rightarrow> entry" where
  "state_at t = \<lparr>e_kind = Dir, e_mode = 493, e_size = 0, e_mtime = t, e_hash = [], e_target = [], e_grew = []\<rparr>"

theorem newer_strict_order_witness: "\<not> newer (state_at 1) (state_at 2) \<and> newer (state_at 3) (state_at 1)"
proof -
  have "newer (state_at 2) (state_at 1)" "newer (state_at 3) (state_at 2)"
    by (simp_all add: newer_def state_at_def)
  with newer_strict_order [of "state_at 2" "state_at 1"]
    newer_strict_order [where a = "state_at 3" and b = "state_at 2" and c = "state_at 1"] show ?thesis by blast
qed

text \<open>C28: append-union loses no line. Every whole line of either copy is in the union at least as
  often as in that copy, a line still being written is a prefix of a line there, and when both
  copies end in a newline the union holds each line as often as the copy that has it more.\<close>

theorem unionLines_no_line_lost:
  "mset (whole_lines a) \<subseteq># mset (file_lines (unionLines a b)) \<and>
   mset (whole_lines b) \<subseteq># mset (file_lines (unionLines a b)) \<and>
   (open_tail a \<longrightarrow> (\<exists>l \<in> set (file_lines (unionLines a b)). prefix (last (file_lines a)) l)) \<and>
   (open_tail b \<longrightarrow> (\<exists>l \<in> set (file_lines (unionLines a b)). prefix (last (file_lines b)) l)) \<and>
   (\<not> open_tail a \<and> \<not> open_tail b \<longrightarrow>
      mset (file_lines (unionLines a b)) = mset (file_lines a) \<union># mset (file_lines b))"
proof (intro conjI impI)
  show "mset (whole_lines a) \<subseteq># mset (file_lines (unionLines a b))"
    using mset_whole_kept(1) kept_subset_union(1) by (rule subset_mset.order_trans)
  show "mset (whole_lines b) \<subseteq># mset (file_lines (unionLines a b))"
    using mset_whole_kept(2) kept_subset_union(2) by (rule subset_mset.order_trans)
  show "\<exists>l \<in> set (file_lines (unionLines a b)). prefix (last (file_lines a)) l" if "open_tail a"
    using open_tail_kept [OF that, of b] kept_subset_union [of a b]
    by (meson UnE mset_subset_eqD set_mset_mset in_multiset_in_set)
  show "\<exists>l \<in> set (file_lines (unionLines a b)). prefix (last (file_lines b)) l" if "open_tail b"
    using open_tail_kept_incoming [OF that, of a] kept_subset_union [of a b]
    by (meson UnE mset_subset_eqD set_mset_mset in_multiset_in_set)
  show "mset (file_lines (unionLines a b)) = mset (file_lines a) \<union># mset (file_lines b)"
    if "\<not> open_tail a \<and> \<not> open_tail b"
    using that by (simp add: mset_unionLines kept_lines_closed)
qed

theorem unionLines_no_line_lost_witness:
  "mset (file_lines (unionLines (''a'' @ [CHR 0x0A]) (''b'' @ [CHR 0x0A]))) = {#''a''#} \<union># {#''b''#}"
proof -
  have f: "\<not> open_tail (''a'' @ [CHR 0x0A]) \<and> \<not> open_tail (''b'' @ [CHR 0x0A])"
    "mset (file_lines (''a'' @ [CHR 0x0A])) = {#''a''#}" "mset (file_lines (''b'' @ [CHR 0x0A])) = {#''b''#}"
    by code_simp+
  from unionLines_no_line_lost [of "''a'' @ [CHR 0x0A]" "''b'' @ [CHR 0x0A]"] f show ?thesis by simp
qed

end
