(* ===== verification/Journal.thy ===== *)
theory Journal
  imports Prelude
begin

text \<open>
  \<open>internal/sharesync/journal.go\<close>: keyed records kept as a snapshot and a log of the records
  written since. The two files are part of the state, as lines: a log line is a whole record
  or \<open>TornLine\<close>, what is left of a write cut short. The outcome of each write is an input. A
  write that fails leaves a fragment of its first line, which is cut off again unless that
  fails too. Lengths that the code counts in bytes are counted in lines. Sequence numbers count
  log lines and stay below \<open>2 ^ 64\<close>.
\<close>

section \<open>Data\<close>

datatype 'v record_op = Put 'v | Del

datatype 'v log_line = LogLine nat string "'v record_op" | TornLine

record 'v journal =
  j_snapSeq :: nat
  j_snap :: "(string \<times> 'v) list"
  j_log :: "'v log_line list"
  j_open :: bool
  j_size :: nat
  j_seq :: nat
  j_logged :: nat
  j_pending :: "(string \<times> 'v record_op) list"

datatype write_outcome = WriteOk | WriteFailCut | WriteFailTorn

datatype snapshot_outcome = SnapOk | SnapFail | SnapOkLogKept

datatype journal_error = JournalClosed | JournalWrite

section \<open>Opening\<close>

fun replay :: "nat \<Rightarrow> 'v log_line list \<Rightarrow> (string \<times> 'v) list \<times> nat \<times> nat \<Rightarrow> (string \<times> 'v) list \<times> nat \<times> nat" where
  "replay s0 [] st = st"
| "replay s0 (TornLine # rest) st = st"
| "replay s0 (LogLine q k v # rest) (records, maxSeq, good) =
     (if q = 0 then (records, maxSeq, good)
      else if q \<le> s0 then replay s0 rest (records, maxSeq, good + 1)
      else replay s0 rest
        (case v of Put x \<Rightarrow> AList.update k x records | Del \<Rightarrow> AList.delete k records,
         max maxSeq q, good + 1))"

definition openJournal :: "'v journal \<Rightarrow> 'v journal \<times> (string \<times> 'v) list" where
  "openJournal d =
     (let (records, q, good) = replay (j_snapSeq d) (j_log d) (j_snap d, j_snapSeq d, 0)
      in (d\<lparr>j_log := take good (j_log d), j_open := True, j_size := good, j_seq := q,
            j_logged := good, j_pending := []\<rparr>, records))"

section \<open>Writing\<close>

definition journal_put :: "string \<Rightarrow> 'v \<Rightarrow> 'v journal \<Rightarrow> 'v journal" where
  "journal_put k v j = j\<lparr>j_pending := j_pending j @ [(k, Put v)]\<rparr>"

definition journal_del :: "string \<Rightarrow> 'v journal \<Rightarrow> 'v journal" where
  "journal_del k j = j\<lparr>j_pending := j_pending j @ [(k, Del)]\<rparr>"

fun number_lines :: "nat \<Rightarrow> (string \<times> 'v record_op) list \<Rightarrow> 'v log_line list" where
  "number_lines q [] = []"
| "number_lines q ((k, v) # rest) = LogLine (q + 1) k v # number_lines (q + 1) rest"

definition journal_commit :: "write_outcome \<Rightarrow> 'v journal \<Rightarrow> journal_error option \<times> 'v journal" where
  "journal_commit w j =
     (if j_pending j = [] then (None, j)
      else if \<not> j_open j then (Some JournalClosed, j)
      else let n = length (j_pending j); ls = number_lines (j_seq j) (j_pending j);
               j' = j\<lparr>j_pending := []\<rparr>
           in case w of
                WriteOk \<Rightarrow> (None, j'\<lparr>j_log := j_log j @ ls, j_seq := j_seq j + n,
                  j_size := j_size j + n, j_logged := j_logged j + n\<rparr>)
              | WriteFailCut \<Rightarrow> (Some JournalWrite, j'\<lparr>j_log := take (j_size j) (j_log j)\<rparr>)
              | WriteFailTorn \<Rightarrow> (Some JournalWrite, j'\<lparr>j_log := j_log j @ [TornLine]\<rparr>))"

definition journal_due :: "'v journal \<Rightarrow> nat \<Rightarrow> bool" where
  "journal_due j n \<longleftrightarrow> j_logged j > max 1024 (2 * n)"

text \<open>The snapshot is written atomically; the log is emptied after it.\<close>

definition journal_compact :: "write_outcome \<Rightarrow> snapshot_outcome \<Rightarrow> (string \<times> 'v) list \<Rightarrow> 'v journal \<Rightarrow>
    journal_error option \<times> 'v journal" where
  "journal_compact w s records j =
     (if \<not> j_open j then (Some JournalClosed, j)
      else case journal_commit w j of
        (Some e, j') \<Rightarrow> (Some e, j')
      | (None, j') \<Rightarrow>
          (case s of
             SnapFail \<Rightarrow> (Some JournalWrite, j')
           | SnapOkLogKept \<Rightarrow> (Some JournalWrite, j'\<lparr>j_snapSeq := j_seq j', j_snap := records\<rparr>)
           | SnapOk \<Rightarrow> (None, j'\<lparr>j_snapSeq := j_seq j', j_snap := records, j_log := [],
               j_size := 0, j_logged := 0\<rparr>)))"

definition journal_close :: "write_outcome \<Rightarrow> 'v journal \<Rightarrow> journal_error option \<times> 'v journal" where
  "journal_close w j =
     (if \<not> j_open j then (None, j)
      else let (e, j') = journal_commit w j in (e, j'\<lparr>j_open := False\<rparr>))"

section \<open>What is on disk\<close>

text \<open>What opening the journal again would give.\<close>

definition recovered :: "'v journal \<Rightarrow> string \<Rightarrow> 'v option" where
  "recovered j = map_of (snd (openJournal j))"

fun apply_record :: "string \<times> 'v record_op \<Rightarrow> (string \<Rightarrow> 'v option) \<Rightarrow> string \<Rightarrow> 'v option" where
  "apply_record (k, Put v) m = m(k \<mapsto> v)"
| "apply_record (k, Del) m = m(k := None)"

definition whole_line :: "nat \<Rightarrow> 'v log_line \<Rightarrow> bool" where
  "whole_line q l = (case l of LogLine q' k v \<Rightarrow> 0 < q' \<and> q' \<le> q | TornLine \<Rightarrow> False)"

text \<open>The journal invariant: every line of the log is whole and was written by this sequence,
  and the log ends where the next line starts.\<close>

definition journal_ok :: "'v journal \<Rightarrow> bool" where
  "journal_ok j \<longleftrightarrow> list_all (whole_line (j_seq j)) (j_log j) \<and> j_size j = length (j_log j) \<and>
     j_snapSeq j \<le> j_seq j \<and> j_logged j = j_size j"

lemma replay_append:
  assumes "list_all (whole_line q) ls"
  shows "replay s0 (ls @ ls') st = replay s0 ls' (replay s0 ls st)"
  using assms
proof (induction ls arbitrary: st)
  case Nil
  then show ?case by simp
next
  case (Cons l ls)
  obtain r m g where "st = (r, m, g)" by (cases st)
  with Cons show ?case by (cases l) (auto simp: whole_line_def)
qed

lemma replay_good: "list_all (whole_line q) ls \<Longrightarrow>
  snd (snd (replay s0 ls (r, m, g))) = g + length ls"
proof (induction ls arbitrary: r m g)
  case Nil
  then show ?case by simp
next
  case (Cons l ls)
  then show ?case by (cases l) (auto simp: whole_line_def)
qed

lemma replay_seq: "list_all (whole_line q) ls \<Longrightarrow> m \<le> q \<Longrightarrow> fst (snd (replay s0 ls (r, m, g))) \<le> q"
proof (induction ls arbitrary: r m g)
  case Nil
  then show ?case by simp
next
  case (Cons l ls)
  then show ?case by (cases l) (auto simp: whole_line_def)
qed

lemma replay_max:
  "list_all (whole_line q) ls \<Longrightarrow>
   s0 \<le> m \<Longrightarrow> list_all (whole_line (fst (snd (replay s0 ls (r, m, g))))) ls \<and>
   m \<le> fst (snd (replay s0 ls (r, m, g)))"
proof (induction ls arbitrary: r m g)
  case Nil
  then show ?case by simp
next
  case (Cons l ls)
  then obtain q' k v where l: "l = LogLine q' k v" "0 < q'"
    by (cases l) (auto simp: whole_line_def)
  let ?st = "if q' \<le> s0 then (r, m, g + 1) else
    (case v of Put x \<Rightarrow> AList.update k x r | Del \<Rightarrow> AList.delete k r, max m q', g + 1)"
  obtain r' m' g' where st: "?st = (r', m', g')" by (metis prod.collapse)
  then have m': "m \<le> m'" "q' \<le> m'" using Cons.prems(2) by (auto split: if_splits)
  have "replay s0 (l # ls) (r, m, g) = replay s0 ls (r', m', g')"
    using l st by (auto split: if_splits)
  with Cons.IH [of m' r' g'] Cons.prems m' l show ?case by (auto simp: whole_line_def)
qed

lemma replay_old: "list_all (whole_line s0) ls \<Longrightarrow> fst (replay s0 ls (r, m, g)) = r"
proof (induction ls arbitrary: r m g)
  case Nil
  then show ?case by simp
next
  case (Cons l ls)
  then show ?case by (cases l) (auto simp: whole_line_def)
qed

lemma number_lines_whole: "list_all (whole_line (q + length ps)) (number_lines q ps)"
proof (induction q ps rule: number_lines.induct)
  case (2 q k v rest)
  then show ?case by (auto simp: whole_line_def)
qed simp

lemma replay_numbered:
  "s0 \<le> q \<Longrightarrow> map_of (fst (replay s0 (number_lines q ps) (r, m, g))) = fold apply_record ps (map_of r)"
proof (induction q ps arbitrary: r m g rule: number_lines.induct)
  case (2 q k v rest)
  then show ?case by (cases v) auto
qed simp

lemma recovered_alt: "recovered j = map_of (fst (replay (j_snapSeq j) (j_log j) (j_snap j, j_snapSeq j, 0)))"
  by (simp add: recovered_def openJournal_def split: prod.splits)

lemma whole_line_mono: "whole_line q l \<Longrightarrow> q \<le> q' \<Longrightarrow> whole_line q' l"
  by (auto simp: whole_line_def split: log_line.splits)

lemma list_whole_mono: "list_all (whole_line q) ls \<Longrightarrow> q \<le> q' \<Longrightarrow> list_all (whole_line q') ls"
  by (auto simp: list_all_iff intro: whole_line_mono)

lemma length_number_lines [simp]: "length (number_lines q ps) = length ps"
  by (induction q ps rule: number_lines.induct) auto

lemma recovered_append:
  assumes "journal_ok j"
  shows "map_of (fst (replay (j_snapSeq j) (j_log j @ number_lines (j_seq j) ps) (j_snap j, j_snapSeq j, 0)))
    = fold apply_record ps (recovered j)"
proof -
  obtain r m g where st: "replay (j_snapSeq j) (j_log j) (j_snap j, j_snapSeq j, 0) = (r, m, g)"
    by (metis prod.collapse)
  with assms replay_append [of "j_seq j" "j_log j"] show ?thesis
    by (simp add: journal_ok_def replay_numbered recovered_alt)
qed

lemma journal_commit_ok:
  assumes "journal_ok j" "w \<noteq> WriteFailTorn" "journal_commit w j = (e, j')"
  shows "journal_ok j' \<and> j_open j' = j_open j \<and>
    recovered j' = (if e = None then fold apply_record (j_pending j) (recovered j) else recovered j) \<and>
    (j_open j \<longrightarrow> j_pending j' = []) \<and> j_seq j \<le> j_seq j' \<and> (e = None \<longrightarrow> j_pending j' = [])"
proof (cases "j_pending j = [] \<or> \<not> j_open j")
  case True
  with assms show ?thesis by (auto simp: journal_commit_def split: if_splits)
next
  case False
  show ?thesis
  proof (cases w)
    case WriteOk
    with False assms recovered_append [OF assms(1), of "j_pending j"] show ?thesis
      by (auto simp: journal_commit_def Let_def journal_ok_def recovered_alt number_lines_whole
          intro: list_whole_mono [OF _ le_add1])
  next
    case WriteFailCut
    with False assms show ?thesis
      by (auto simp: journal_commit_def Let_def journal_ok_def recovered_alt)
  qed (use assms in simp)
qed

lemma recovered_compacted:
  assumes "journal_ok j"
  shows "map_of (fst (replay (j_seq j) (j_log j) (records, j_seq j, 0))) = map_of records"
  using assms by (simp add: journal_ok_def replay_old)

lemma recovered_pending [simp]: "recovered (j\<lparr>j_pending := ps\<rparr>) = recovered j"
  by (simp add: recovered_alt)

lemma journal_ok_pending [simp]: "journal_ok (j\<lparr>j_pending := ps\<rparr>) = journal_ok j"
  by (simp add: journal_ok_def)

lemma recovered_put [simp]: "recovered (journal_put k v j) = recovered j"
  "recovered (journal_del k j) = recovered j"
  by (simp_all add: journal_put_def journal_del_def)

lemma journal_ok_put [simp]: "journal_ok (journal_put k v j) = journal_ok j"
  "journal_ok (journal_del k j) = journal_ok j"
  by (simp_all add: journal_put_def journal_del_def)

text \<open>What a compaction leaves committed, by its outcomes.\<close>

definition compacted :: "write_outcome \<Rightarrow> snapshot_outcome \<Rightarrow> (string \<times> 'v) list \<Rightarrow> 'v journal \<Rightarrow>
    (string \<Rightarrow> 'v option) \<Rightarrow> string \<Rightarrow> 'v option" where
  "compacted w s records j m =
     (if \<not> j_open j \<or> fst (journal_commit w j) \<noteq> None then m
      else if s = SnapFail then fold apply_record (j_pending j) m else map_of records)"

lemma journal_compact_ok:
  assumes "journal_ok j" "w \<noteq> WriteFailTorn" "journal_compact w s records j = (e, j')"
  shows "journal_ok j' \<and> j_open j' = j_open j \<and> recovered j' = compacted w s records j (recovered j) \<and>
    (e = None \<longrightarrow> recovered j' = map_of records \<and> j_pending j' = [])"
proof (cases "j_open j")
  case False
  with assms show ?thesis by (auto simp: journal_compact_def compacted_def)
next
  case True
  obtain e1 j1 where c: "journal_commit w j = (e1, j1)" by fastforce
  note k = journal_commit_ok [OF assms(1,2) c]
  show ?thesis
  proof (cases e1)
    case (Some x)
    with True c k assms(3) show ?thesis by (auto simp: journal_compact_def compacted_def)
  next
    case None
    with k have ok: "journal_ok j1" and rec: "recovered j1 = fold apply_record (j_pending j) (recovered j)"
      and p: "j_pending j1 = []" by auto
    note snap = recovered_compacted [OF ok, of records]
    from True c None assms(3) have j': "(e, j') = (case s of
        SnapFail \<Rightarrow> (Some JournalWrite, j1)
      | SnapOkLogKept \<Rightarrow> (Some JournalWrite, j1\<lparr>j_snapSeq := j_seq j1, j_snap := records\<rparr>)
      | SnapOk \<Rightarrow> (None, j1\<lparr>j_snapSeq := j_seq j1, j_snap := records, j_log := [],
               j_size := 0, j_logged := 0\<rparr>))"
      by (simp add: journal_compact_def)
    show ?thesis
      using True c None j' ok rec p k snap
      by (cases s) (auto simp: journal_ok_def recovered_alt compacted_def)
  qed
qed

section \<open>Runs\<close>

text \<open>A journal's life: records put and deleted, batches committed and compacted with any outcome
  but a torn write that could not be cut off, and reopenings (a crash loses the batch being
  built). The ghost map is what was committed.\<close>

datatype 'v journal_cmd =
    CmdPut string 'v | CmdDel string | CmdCommit write_outcome
  | CmdCompact write_outcome snapshot_outcome "(string \<times> 'v) list" | CmdReopen

fun journal_run :: "'v journal_cmd list \<Rightarrow> 'v journal \<times> (string \<Rightarrow> 'v option) \<Rightarrow>
    'v journal \<times> (string \<Rightarrow> 'v option)" where
  "journal_run [] st = st"
| "journal_run (CmdPut k v # cs) (j, m) = journal_run cs (journal_put k v j, m)"
| "journal_run (CmdDel k # cs) (j, m) = journal_run cs (journal_del k j, m)"
| "journal_run (CmdCommit w # cs) (j, m) =
     (case journal_commit w j of (e, j') \<Rightarrow>
        journal_run cs (j', if e = None then fold apply_record (j_pending j) m else m))"
| "journal_run (CmdCompact w s records # cs) (j, m) =
     (case journal_compact w s records j of (e, j') \<Rightarrow>
        journal_run cs (j', compacted w s records j m))"
| "journal_run (CmdReopen # cs) (j, m) = journal_run cs (fst (openJournal j), m)"

fun torn_cmd :: "'v journal_cmd \<Rightarrow> bool" where
  "torn_cmd (CmdCommit w) = (w = WriteFailTorn)"
| "torn_cmd (CmdCompact w s r) = (w = WriteFailTorn)"
| "torn_cmd _ = False"

lemma openJournal_ok:
  assumes "journal_ok j"
  shows "journal_ok (fst (openJournal j)) \<and> recovered (fst (openJournal j)) = recovered j"
proof -
  obtain r q g where st: "replay (j_snapSeq j) (j_log j) (j_snap j, j_snapSeq j, 0) = (r, q, g)"
    by (metis prod.collapse)
  have w: "list_all (whole_line (j_seq j)) (j_log j)" using assms by (simp add: journal_ok_def)
  have g: "g = length (j_log j)" using replay_good [OF w] st by (metis add_0 snd_conv)
  have "list_all (whole_line q) (j_log j) \<and> j_snapSeq j \<le> q"
    using replay_max [OF w, of "j_snapSeq j" "j_snapSeq j" "j_snap j" 0] st by simp
  with st g show ?thesis by (simp add: openJournal_def journal_ok_def recovered_alt)
qed

lemma journal_run_ok:
  "journal_ok j \<Longrightarrow> recovered j = m \<Longrightarrow> list_all (\<lambda>c. \<not> torn_cmd c) cs \<Longrightarrow> journal_run cs (j, m) = (j', m') \<Longrightarrow>
   journal_ok j' \<and> recovered j' = m'"
proof (induction cs "(j, m)" arbitrary: j m rule: journal_run.induct)
  case (4 w cs j m)
  obtain e k where c: "journal_commit w j = (e, k)" by fastforce
  from 4 journal_commit_ok [OF _ _ c] c show ?case by auto
next
  case (5 w s records cs j m)
  obtain e k where c: "journal_compact w s records j = (e, k)" by fastforce
  from 5 journal_compact_ok [OF _ _ c] c show ?case by auto
next
  case (6 cs j m)
  then show ?case using openJournal_ok by auto
qed auto

section \<open>Properties\<close>

definition empty_journal :: "'v journal" where
  "empty_journal = \<lparr>j_snapSeq = 0, j_snap = [], j_log = [], j_open = True, j_size = 0, j_seq = 0,
     j_logged = 0, j_pending = []\<rparr>"



end
