(* ===== verification/Sha256.thy ===== *)
theory Sha256
  imports Entry
begin

text \<open>
  The content hash of the sync: \<open>hashOf\<close> (\<open>internal/sharesync/stores.go\<close>) is the lower-case hex of
  the SHA-256 digest of \<open>crypto/sha256\<close>, written out here after FIPS 180-4 on 32-bit words.
\<close>

unbundle bit_operations_syntax

text \<open>The constants are the first 32 bits of the fractional parts of roots of the first primes:
  \<open>frac_root k p\<close> takes them from the \<open>k\<close>-th root of \<open>p\<close>, which it finds bit by bit.\<close>

definition int_root :: "nat \<Rightarrow> int \<Rightarrow> int" where
  "int_root k n = foldl (\<lambda>r i. if (r + 2 ^ i) ^ k \<le> n then r + 2 ^ i else r) 0 (rev [0..<36])"

definition frac_root :: "nat \<Rightarrow> int \<Rightarrow> 32 word" where
  "frac_root k p = of_int (int_root k (p * 2 ^ (32 * k)))"

definition first_primes :: "int list" where
  "first_primes = filter (\<lambda>n. list_all (\<lambda>d. n mod d \<noteq> 0) [2..n - 1]) [2..311]"

definition sha_K :: "32 word list" where
  "sha_K = map (frac_root 3) first_primes"

definition sha_H0 :: "32 word list" where
  "sha_H0 = map (frac_root 2) [2, 3, 5, 7, 11, 13, 17, 19]"

definition rotr :: "nat \<Rightarrow> 32 word \<Rightarrow> 32 word" where
  "rotr n x = drop_bit n x OR push_bit (32 - n) x"

definition sigma0 :: "32 word \<Rightarrow> 32 word" where
  "sigma0 x = rotr 7 x XOR rotr 18 x XOR drop_bit 3 x"

definition sigma1 :: "32 word \<Rightarrow> 32 word" where
  "sigma1 x = rotr 17 x XOR rotr 19 x XOR drop_bit 10 x"

text \<open>Four bytes, most significant first, as a word; and the padded message as words.\<close>

definition be_word :: "nat \<Rightarrow> nat \<Rightarrow> nat \<Rightarrow> nat \<Rightarrow> 32 word" where
  "be_word a b c d = of_nat (((a * 256 + b) * 256 + c) * 256 + d)"

fun be_words :: "nat list \<Rightarrow> 32 word list" where
  "be_words (a # b # c # d # rest) = be_word a b c d # be_words rest"
| "be_words _ = []"

definition be_bytes :: "nat \<Rightarrow> nat \<Rightarrow> nat list" where
  "be_bytes n x = map (\<lambda>i. (x div 256 ^ (n - 1 - i)) mod 256) [0..<n]"

definition sha_pad :: "nat list \<Rightarrow> nat list" where
  "sha_pad m =
     (let l = length m in m @ [128] @ replicate ((119 - l mod 64) mod 64) 0 @ be_bytes 8 (8 * l))"

text \<open>The message schedule, kept newest first.\<close>

fun sha_extend :: "nat \<Rightarrow> 32 word list \<Rightarrow> 32 word list" where
  "sha_extend 0 ws = rev ws"
| "sha_extend (Suc n) ws =
     sha_extend n ((sigma1 (ws ! 1) + ws ! 6 + sigma0 (ws ! 14) + ws ! 15) # ws)"

fun sha_round :: "32 word list \<Rightarrow> 32 word \<times> 32 word \<Rightarrow> 32 word list" where
  "sha_round [a, b, c, d, e, f, g, h] (k, w) =
     (let t1 = h + (rotr 6 e XOR rotr 11 e XOR rotr 25 e) + ((e AND f) XOR (NOT e AND g)) + k + w;
          t2 = (rotr 2 a XOR rotr 13 a XOR rotr 22 a) + ((a AND b) XOR (a AND c) XOR (b AND c))
      in [t1 + t2, a, b, c, d + t1, e, f, g])"
| "sha_round hs kw = hs"

definition sha_block :: "32 word list \<Rightarrow> 32 word list \<Rightarrow> 32 word list" where
  "sha_block hs block =
     map2 (+) hs (foldl sha_round hs (zip sha_K (sha_extend 48 (rev block))))"

fun sha_blocks :: "nat \<Rightarrow> 32 word list \<Rightarrow> 32 word list \<Rightarrow> 32 word list" where
  "sha_blocks 0 hs ws = hs"
| "sha_blocks (Suc n) hs ws = sha_blocks n (sha_block hs (take 16 ws)) (drop 16 ws)"

definition sha256 :: "nat list \<Rightarrow> 32 word list" where
  "sha256 m = (let ws = be_words (sha_pad m) in sha_blocks (length ws div 16) sha_H0 ws)"

text \<open>\<open>hex.EncodeToString\<close> of the digest.\<close>

definition hex_digit :: "nat \<Rightarrow> char" where
  "hex_digit n = (if n < 10 then char_of (48 + n) else char_of (87 + n))"

definition hex_word :: "32 word \<Rightarrow> string" where
  "hex_word w = map (\<lambda>i. hex_digit ((unat w div 16 ^ (7 - i)) mod 16)) [0..<8]"

definition hashOf :: "string \<Rightarrow> string" where
  "hashOf data = concat (map hex_word (sha256 (map of_char data)))"

section \<open>A hash of content is a valid hash\<close>

lemma length_sha_round [simp]: "length (sha_round hs kw) = length hs"
  by (induction hs kw rule: sha_round.induct) (auto simp: Let_def)

lemma length_foldl_round [simp]: "length (foldl sha_round hs xs) = length hs"
  by (induction xs arbitrary: hs) auto

lemma length_sha_blocks [simp]: "length (sha_blocks n hs ws) = length hs"
  by (induction n hs ws rule: sha_blocks.induct) (auto simp: sha_block_def)

lemma length_sha256 [simp]: "length (sha256 m) = 8"
  by (simp add: sha256_def Let_def sha_H0_def)

lemma hex_digit_ok: "n < 16 \<Longrightarrow> is_hex (hex_digit n) \<and> ascii_lower (hex_digit n) = hex_digit n"
  by (auto simp: hex_digit_def is_hex_def ascii_lower_def byte_in_def of_char_of)

lemma hex_word_ok: "length (hex_word w) = 8" "list_all is_hex (hex_word w)"
  "map ascii_lower (hex_word w) = hex_word w"
  by (simp_all add: hex_word_def list_all_iff hex_digit_ok)

lemma validHash_hashOf [simp]: "validHash (hashOf data)"
proof -
  have "length (concat (map hex_word ws)) = 8 * length ws \<and> list_all is_hex (concat (map hex_word ws)) \<and>
      map ascii_lower (concat (map hex_word ws)) = concat (map hex_word ws)" for ws
    by (induction ws) (simp_all add: hex_word_ok)
  then show ?thesis by (simp add: validHash_def hashOf_def)
qed

end
