(* ===== verification/HubState.thy ===== *)
theory HubState
  imports Policies Journal Sha256
begin

text \<open>
  The state of one root of the sync hub (\<open>internal/sharesync/hub_root.go\<close>,
  \<open>hub_dispatch.go\<close>) and the operations that run under its lock: the tallies, the journaled
  state change \<open>setEntry\<close>, marking sides, and compaction. Times are nanoseconds as integers. The
  outcomes of the journal's writes are scripted in the state (\<open>hr_io\<close>, \<open>hr_snapIo\<close>; an empty
  script succeeds); the log lines the code prints are not modelled.
\<close>

section \<open>Data\<close>

text \<open>A key is a location (empty for a fleet-wide path) and a path.\<close>

type_synonym key = "string \<times> string"

definition journalKey :: "key \<Rightarrow> string" where
  "journalKey k = fst k @ CHR 0x00 # snd k"

definition parseKey :: "string \<Rightarrow> key option" where
  "parseKey s =
     (let (loc, p, ok) = cut_at CHR 0x00 s in if ok \<and> validPath p then Some (loc, p) else None)"

record hub_entry =
  he_entry :: entry
  he_rev :: nat
  he_origin :: string
  he_base :: nat
  he_at :: int
  he_hist :: "(nat \<times> string) list"

text \<open>What the journal keeps: the state of a path, or the root's epoch, rev and forgotten rev.\<close>

datatype hub_record = EntryRec hub_entry | MetaRec string nat nat

definition metaKey :: string where "metaKey = []"

record retry =
  rt_until :: int
  rt_n :: nat

record side_root =
  sr_info :: side_info
  sr_held :: "(string \<times> nat) list"
  sr_dirty :: "(string \<times> int) list"
  sr_inflight :: "(string \<times> nat) list"
  sr_reports :: "string \<Rightarrow> nat"
  sr_backoff :: "string \<Rightarrow> retry option"
  sr_blocked :: "string \<Rightarrow> (nat \<times> string) option"
  sr_paused :: string
  sr_retryAt :: "int option"
  sr_lastErr :: string
  sr_only :: "(string \<Rightarrow> bool) option"
  sr_wake :: bool

record conflict =
  cn_id :: string
  cn_path :: string
  cn_location :: string
  cn_side :: string
  cn_entry :: entry
  cn_reason :: string

record hub_cfg =
  cf_table :: table
  cf_policies :: "policy \<Rightarrow> merger option"
  cf_ttl :: int
  cf_normalDelay :: int
  cf_bulkDelay :: int
  cf_pauseRetry :: int
  cf_maxBatch :: nat

record hub_root =
  hr_name :: string
  hr_cap :: int
  hr_epoch :: string
  hr_rev :: nat
  hr_forgot :: nat
  hr_entries :: "(key \<times> hub_entry) list"
  hr_children :: "string \<Rightarrow> int"
  hr_total :: int
  hr_holds :: "(string \<times> string) list"
  hr_sides :: "(string \<times> side_root) list"
  hr_journal :: "hub_record journal"
  hr_broken :: "sync_error option"
  hr_writer :: string
  hr_blobs :: "(string \<times> string \<times> int) list"
  hr_conflicts :: "conflict list"
  hr_io :: "write_outcome list"
  hr_snapIo :: "snapshot_outcome list"

section \<open>Tallies\<close>

definition live_opt :: "hub_entry option \<Rightarrow> bool" where
  "live_opt e = (case e of None \<Rightarrow> False | Some x \<Rightarrow> Live (he_entry x))"

definition liveSize :: "hub_entry option \<Rightarrow> int" where
  "liveSize e =
     (case e of None \<Rightarrow> 0 | Some x \<Rightarrow> if Live (he_entry x) then e_size (he_entry x) else 0)"

text \<open>A missing count of children is 0, and a count that falls to 0 is removed.\<close>

definition uncount :: "hub_entry option \<Rightarrow> key \<Rightarrow> hub_root \<Rightarrow> hub_root" where
  "uncount old k root =
     (let parent = path_Dir (snd k); n = hr_children root parent - 1
      in if live_opt old then
           root\<lparr>hr_children := (hr_children root)(parent := if n \<le> 0 then 0 else n),
                hr_total := wrap64 (hr_total root - liveSize old)\<rparr>
         else root)"

definition recount :: "hub_entry option \<Rightarrow> key \<Rightarrow> hub_root \<Rightarrow> hub_root" where
  "recount e k root =
     (let parent = path_Dir (snd k)
      in if live_opt e then
           root\<lparr>hr_children := (hr_children root)(parent := hr_children root parent + 1),
                hr_total := wrap64 (hr_total root + liveSize e)\<rparr>
         else root)"

definition root_count :: "hub_entry option \<Rightarrow> hub_entry option \<Rightarrow> key \<Rightarrow> hub_root \<Rightarrow> hub_root" where
  "root_count old e k root = recount e k (uncount old k root)"

definition overCap :: "hub_root \<Rightarrow> int \<Rightarrow> hub_entry option \<Rightarrow> bool" where
  "overCap root sz cur =
     (let delta = wrap64 (sz - liveSize cur)
      in hr_cap root > 0 \<and> delta > 0 \<and> wrap64 (hr_total root + delta) > hr_cap root)"

section \<open>Sides\<close>

definition newSideRoot :: "side_info \<Rightarrow> side_root" where
  "newSideRoot s = \<lparr>sr_info = s, sr_held = [], sr_dirty = [], sr_inflight = [],
     sr_reports = (\<lambda>_. 0), sr_backoff = (\<lambda>_. None), sr_blocked = (\<lambda>_. None), sr_paused = [],
     sr_retryAt = None, sr_lastErr = [], sr_only = None, sr_wake = False\<rparr>"

definition keeps :: "side_root \<Rightarrow> string \<Rightarrow> bool" where
  "keeps sr p = (case sr_only sr of None \<Rightarrow> True | Some f \<Rightarrow> f p)"

definition mark_dirty_since :: "string \<Rightarrow> int \<Rightarrow> side_root \<Rightarrow> side_root" where
  "mark_dirty_since p now sr =
     (if map_of (sr_dirty sr) p = None then sr\<lparr>sr_dirty := AList.update p now (sr_dirty sr)\<rparr> else sr)"

definition mark :: "string \<Rightarrow> int \<Rightarrow> side_root \<Rightarrow> side_root" where
  "mark p now sr = (if \<not> keeps sr p then sr else (mark_dirty_since p now sr)\<lparr>sr_wake := True\<rparr>)"

text \<open>\<open>later\<close>: \<open>base\<close> doubled up to ten times, at most 30 s.\<close>

definition later :: "string \<Rightarrow> int \<Rightarrow> int \<Rightarrow> side_root \<Rightarrow> side_root" where
  "later p now base sr =
     (let n = (case sr_backoff sr p of None \<Rightarrow> 0 | Some r \<Rightarrow> rt_n r) + 1;
          d = base * 2 ^ min (n - 1) 10
      in mark_dirty_since p now
           (sr\<lparr>sr_backoff := (sr_backoff sr)(p \<mapsto> \<lparr>rt_until = now + min d 30000000000, rt_n = n\<rparr>)\<rparr>))"

text \<open>\<open>map_side\<close> updates one attached side, if it is attached.\<close>

definition map_side :: "string \<Rightarrow> (side_root \<Rightarrow> side_root) \<Rightarrow> hub_root \<Rightarrow> hub_root" where
  "map_side sid f root =
     root\<lparr>hr_sides := map (\<lambda>(i, sr). (i, if i = sid then f sr else sr)) (hr_sides root)\<rparr>"

definition markDirty :: "int \<Rightarrow> key \<Rightarrow> string \<Rightarrow> hub_root \<Rightarrow> hub_root" where
  "markDirty now k except root =
     root\<lparr>hr_sides := map (\<lambda>(i, sr).
        (i, if i = except \<or> fst k \<noteq> [] \<and> s_location (sr_info sr) \<noteq> fst k then sr
            else mark (snd k) now sr)) (hr_sides root)\<rparr>"

definition set_held :: "string \<Rightarrow> nat \<Rightarrow> side_root \<Rightarrow> side_root" where
  "set_held p r sr = sr\<lparr>sr_held := AList.update p r (sr_held sr)\<rparr>"

definition drop_held :: "string \<Rightarrow> side_root \<Rightarrow> side_root" where
  "drop_held p sr = sr\<lparr>sr_held := AList.delete p (sr_held sr)\<rparr>"

definition held :: "side_info \<Rightarrow> string \<Rightarrow> hub_entry \<Rightarrow> hub_root \<Rightarrow> hub_root" where
  "held side p cur root =
     map_side (s_id side) (if Live (he_entry cur) then set_held p (he_rev cur) else drop_held p) root"

definition anyHolds :: "hub_root \<Rightarrow> string \<Rightarrow> bool" where
  "anyHolds root p = list_ex (\<lambda>(i, sr). map_of (sr_held sr) p \<noteq> None) (hr_sides root)"

section \<open>The blob store\<close>

text \<open>Blobs by hash, each with its content and the time it was written.\<close>

definition blob_has :: "hub_root \<Rightarrow> string \<Rightarrow> bool" where
  "blob_has root h \<longleftrightarrow> validHash h \<and> map_of (hr_blobs root) h \<noteq> None"

definition blob_open :: "hub_root \<Rightarrow> string \<Rightarrow> string option" where
  "blob_open root h = (if validHash h then map_option fst (map_of (hr_blobs root) h) else None)"

definition blob_put :: "int \<Rightarrow> sync_error option \<Rightarrow> string \<Rightarrow> hub_root \<Rightarrow>
    (sync_error + string) \<times> hub_root" where
  "blob_put now fails data root =
     (let h = hashOf data
      in if blob_has root h then (Inr h, root)
         else case fails of
           Some e \<Rightarrow> (Inl e, root)
         | None \<Rightarrow> (Inr h, root\<lparr>hr_blobs := AList.update h (data, now) (hr_blobs root)\<rparr>))"

definition blob_remove :: "string \<Rightarrow> hub_root \<Rightarrow> hub_root" where
  "blob_remove h root =
     (if validHash h then root\<lparr>hr_blobs := AList.delete h (hr_blobs root)\<rparr> else root)"

definition blob_gc :: "string list \<Rightarrow> int \<Rightarrow> hub_root \<Rightarrow> hub_root" where
  "blob_gc kept before root =
     root\<lparr>hr_blobs := filter (\<lambda>(h, d, t). h \<in> set kept \<or> \<not> t < before) (hr_blobs root)\<rparr>"

section \<open>The journal\<close>

definition next_write :: "hub_root \<Rightarrow> write_outcome \<times> hub_root" where
  "next_write root =
     (case hr_io root of [] \<Rightarrow> (WriteOk, root) | w # ws \<Rightarrow> (w, root\<lparr>hr_io := ws\<rparr>))"

definition next_snap :: "hub_root \<Rightarrow> snapshot_outcome \<times> hub_root" where
  "next_snap root =
     (case hr_snapIo root of [] \<Rightarrow> (SnapOk, root) | s # ss \<Rightarrow> (s, root\<lparr>hr_snapIo := ss\<rparr>))"

definition root_put :: "string \<Rightarrow> hub_record \<Rightarrow> hub_root \<Rightarrow> hub_root" where
  "root_put jk v root = root\<lparr>hr_journal := journal_put jk v (hr_journal root)\<rparr>"

definition root_commit :: "hub_root \<Rightarrow> journal_error option \<times> hub_root" where
  "root_commit root =
     (let (w, root') = next_write root; (e, j) = journal_commit w (hr_journal root')
      in (e, root'\<lparr>hr_journal := j\<rparr>))"

definition putMeta :: "hub_root \<Rightarrow> journal_error option \<times> hub_root" where
  "putMeta root = root_commit (root_put metaKey (MetaRec (hr_epoch root) (hr_rev root) (hr_forgot root)) root)"

section \<open>Compaction\<close>

text \<open>A delete no attached side holds is forgotten once it is older than the cutoff.\<close>

definition forgettable :: "hub_cfg \<Rightarrow> int \<Rightarrow> hub_root \<Rightarrow> key \<times> hub_entry \<Rightarrow> bool" where
  "forgettable cfg now root ke \<longleftrightarrow>
     \<not> Live (he_entry (snd ke)) \<and> he_at (snd ke) < now - cf_ttl cfg \<and> \<not> anyHolds root (snd (fst ke))"

definition named_blobs :: "hub_entry \<Rightarrow> string list" where
  "named_blobs e =
     (if he_origin e = [] \<and> e_kind (he_entry e) = File then [e_hash (he_entry e)] else [])
     @ map snd (he_hist e)"

definition compact :: "hub_cfg \<Rightarrow> int \<Rightarrow> hub_root \<Rightarrow> journal_error option \<times> hub_root" where
  "compact cfg now root =
     (let dropped = filter (forgettable cfg now root) (hr_entries root);
          kept = filter (\<lambda>ke. \<not> forgettable cfg now root ke) (hr_entries root);
          forgot = fold (\<lambda>ke f. max f (he_rev (snd ke))) dropped (hr_forgot root);
          j = fold (\<lambda>ke. journal_del (journalKey (fst ke))) dropped (hr_journal root);
          records = (metaKey, MetaRec (hr_epoch root) (hr_rev root) forgot)
            # map (\<lambda>ke. (journalKey (fst ke), EntryRec (snd ke))) kept;
          root1 = root\<lparr>hr_entries := kept, hr_forgot := forgot\<rparr>;
          (w, root2) = next_write root1;
          (s, root3) = next_snap root2;
          (e, j') = journal_compact w s records j;
          root4 = root3\<lparr>hr_journal := j'\<rparr>
      in (e, if e = None
             then blob_gc (concat (map (\<lambda>ke. named_blobs (snd ke)) kept)) (now - 3600000000000) root4
             else root4))"

section \<open>A new state of a path\<close>

definition setEntry :: "hub_cfg \<Rightarrow> int \<Rightarrow> key \<Rightarrow> entry \<Rightarrow> string \<Rightarrow> nat \<Rightarrow> (nat \<times> string) list \<Rightarrow> string \<Rightarrow>
    hub_root \<Rightarrow> hub_entry option \<times> hub_root" where
  "setEntry cfg now k e origin base hist except root =
     (let old = map_of (hr_entries root) k;
          ne = \<lparr>he_entry = e, he_rev = succ64 (hr_rev root), he_origin = origin, he_base = base,
                he_at = now, he_hist = hist\<rparr>;
          (err, root1) = root_commit (root_put (journalKey k) (EntryRec ne) root)
      in if err \<noteq> None then (None, root1)
         else let root2 = root1\<lparr>hr_rev := succ64 (hr_rev root),
                    hr_entries := AList.update k ne (hr_entries root1)\<rparr>;
                  root3 = markDirty now k except (root_count old (Some ne) k root2)
              in (Some ne, if journal_due (hr_journal root3) (length (hr_entries root3))
                           then snd (compact cfg now root3) else root3))"

section \<open>Which policy, which key\<close>

definition merger_for :: "hub_cfg \<Rightarrow> hub_root \<Rightarrow> string \<Rightarrow> merger option" where
  "merger_for cfg root p =
     (case table_PolicyFor (cf_table cfg) (Join2 (hr_name root) p) of
        None \<Rightarrow> None
      | Some pol \<Rightarrow> if pol = LocationLocal then None else cf_policies cfg pol)"

definition locationScoped :: "hub_cfg \<Rightarrow> hub_root \<Rightarrow> string \<Rightarrow> bool" where
  "locationScoped cfg root p =
     (case merger_for cfg root p of None \<Rightarrow> False | Some m \<Rightarrow> m_scope m = ScopeLocation)"

definition keyFor :: "hub_cfg \<Rightarrow> hub_root \<Rightarrow> string \<Rightarrow> string \<Rightarrow> (key \<times> merger) option" where
  "keyFor cfg root p loc =
     (case merger_for cfg root p of None \<Rightarrow> None
      | Some m \<Rightarrow> Some ((if m_scope m = ScopeLocation then loc else [], p), m))"

section \<open>Opening a root\<close>

definition blank_root :: "string \<Rightarrow> int \<Rightarrow> write_outcome list \<Rightarrow> hub_record journal \<Rightarrow> hub_root" where
  "blank_root name cap io j = \<lparr>hr_name = name, hr_cap = cap, hr_epoch = [], hr_rev = 0, hr_forgot = 0,
     hr_entries = [], hr_children = (\<lambda>_. 0), hr_total = 0, hr_holds = [], hr_sides = [],
     hr_journal = j, hr_broken = None, hr_writer = [], hr_blobs = [], hr_conflicts = [],
     hr_io = io, hr_snapIo = []\<rparr>"

text \<open>A record that is not readable as the state of a path is dropped.\<close>

definition load_record :: "string \<times> hub_record \<Rightarrow> hub_root \<Rightarrow> hub_root" where
  "load_record kv root =
     (case (parseKey (fst kv), snd kv) of
        (Some pk, EntryRec e) \<Rightarrow>
          if check (he_entry e) \<noteq> None then root
          else (root_count None (Some e) pk (root\<lparr>hr_entries := AList.update pk e (hr_entries root)\<rparr>))
            \<lparr>hr_rev := max (hr_rev root) (he_rev e)\<rparr>
      | _ \<Rightarrow> root)"

text \<open>\<open>openHubRoot\<close>: the records are a map, each key once. \<open>failed\<close> is what opening the journal
  answers, \<open>fresh\<close> the epoch \<open>newEpoch\<close> draws for a new root.\<close>

definition openHubRoot :: "hub_cfg \<Rightarrow> string \<Rightarrow> string \<Rightarrow> sync_error option \<Rightarrow> write_outcome list \<Rightarrow>
    hub_record journal \<Rightarrow> sync_error + hub_root" where
  "openHubRoot cfg name fresh failed io disk =
     (case (if validPath name then table_Root (cf_table cfg) name else None) of
        None \<Rightarrow> Inl (ErrOther (''sharesync: no policy root covers '' @ name))
      | Some (tr, inner) \<Rightarrow>
          if covers (cf_policies cfg) (cf_table cfg) name \<noteq> None
          then Inl (ErrOther (''sharesync: root '' @ name))
          else case failed of
            Some ErrNewerState \<Rightarrow>
              Inr ((blank_root name (rt_cap tr) io disk)\<lparr>hr_broken := Some ErrNewerState\<rparr>)
          | Some err \<Rightarrow> Inl err
          | None \<Rightarrow>
              let (j, records) = openJournal disk;
                  raw = AList.clearjunk records;
                  (epoch, rev, forgot) = (case map_of raw metaKey of
                     Some (MetaRec ep r fg) \<Rightarrow> (ep, r, fg) | _ \<Rightarrow> ([], 0, 0));
                  root = fold load_record (filter (\<lambda>kv. fst kv \<noteq> metaKey) raw) (blank_root name (rt_cap tr) io j);
                  root1 = root\<lparr>hr_epoch := epoch, hr_rev := max (hr_rev root) rev, hr_forgot := forgot\<rparr>
              in if epoch \<noteq> [] then Inr root1
                 else case putMeta (root1\<lparr>hr_epoch := fresh\<rparr>) of
                   (None, root2) \<Rightarrow> Inr root2
                 | (Some _, _) \<Rightarrow> Inl (ErrOther ''journal''))"

end
