(* ===== verification/HubRoot.thy ===== *)
theory HubRoot
  imports HubState
begin

text \<open>
  A reported change on its way through the hub (\<open>hub_root.go\<close>): \<open>prepare\<close> plans it under the
  root's lock, \<open>decide\<close> runs the policy and the slow work without it, \<open>commitPlan\<close> commits the
  decision under the lock unless the path or the tree's shape changed meanwhile, and \<open>process\<close>
  is the loop of at most four rounds. What other goroutines do to the root between the lock's
  sections is an input of the loop, one function per round, and so is what the world answers
  (\<open>decide_env\<close>): the clock, the content fetched, and failures of the blob and conflict stores.
\<close>

section \<open>The shape of the tree\<close>

record shape_check =
  sc_keep :: bool
  sc_conflict :: bool
  sc_reason :: string
  sc_resurrect :: "string list"
  sc_modes :: "32 word list"

definition no_shape :: shape_check where
  "no_shape = \<lparr>sc_keep = False, sc_conflict = False, sc_reason = [], sc_resurrect = [], sc_modes = []\<rparr>"

definition shape_equal :: "shape_check \<Rightarrow> shape_check \<Rightarrow> bool" where
  "shape_equal s t \<longleftrightarrow> sc_keep s = sc_keep t \<and> sc_conflict s = sc_conflict t \<and>
     join_strings [CHR 0x00] (sc_resurrect s) = join_strings [CHR 0x00] (sc_resurrect t)"

definition kind_String :: "kind \<Rightarrow> string" where
  "kind_String k =
     (case k of Gone \<Rightarrow> ''gone'' | File \<Rightarrow> ''file'' | Dir \<Rightarrow> ''dir'' | Symlink \<Rightarrow> ''symlink''
      | OtherKind n \<Rightarrow> ''kind('' @ show_nat (kind_num k) @ '')'')"

definition refuse_shape :: "string \<Rightarrow> shape_check" where
  "refuse_shape reason = no_shape\<lparr>sc_keep := True, sc_conflict := True, sc_reason := reason\<rparr>"

text \<open>The loop over the folders above the change, outermost first.\<close>

fun shape_up :: "hub_root \<Rightarrow> string list \<Rightarrow> shape_check \<Rightarrow> shape_check" where
  "shape_up root [] s = s"
| "shape_up root (a # as) s =
     (case map_of (hr_entries root) ([], a) of
        None \<Rightarrow> shape_up root as
          (s\<lparr>sc_resurrect := sc_resurrect s @ [a], sc_modes := sc_modes s @ [493]\<rparr>)
      | Some e \<Rightarrow>
          if \<not> Live (he_entry e) then
            shape_up root as (s\<lparr>sc_resurrect := sc_resurrect s @ [a], sc_modes := sc_modes s @
              [if e_mode (he_entry e) \<noteq> 0 then e_mode (he_entry e) else 493]\<rparr>)
          else if e_kind (he_entry e) \<noteq> Dir then
            refuse_shape (a @ '' is a '' @ kind_String (e_kind (he_entry e)) @ '' now'')
          else shape_up root as s)"

definition checkShape :: "hub_root \<Rightarrow> change \<Rightarrow> hub_entry option \<Rightarrow> shape_check" where
  "checkShape root c cur =
     (if \<not> Live (c_entry c) then
        (case cur of
           Some e \<Rightarrow> if e_kind (he_entry e) = Dir \<and> hr_children root (c_path c) > 0
             then no_shape\<lparr>sc_keep := True,
               sc_reason := ''the folder holds content the delete had not seen''\<rparr>
             else no_shape
         | None \<Rightarrow> no_shape)
      else if e_kind (c_entry c) \<noteq> Dir \<and> hr_children root (c_path c) > 0 then
        refuse_shape ''a folder with content stands there''
      else shape_up root (ancestors (c_path c)) no_shape)"

section \<open>Planning\<close>

record plan =
  p_k :: key
  p_m :: merger
  p_side :: side_info
  p_c :: change
  p_base :: nat
  p_cur :: "hub_entry option"
  p_fast :: bool
  p_shape :: shape_check

abbreviation ack_of :: "change \<Rightarrow> ack_status \<Rightarrow> nat \<Rightarrow> ack" where
  "ack_of c st r \<equiv> \<lparr>a_path = c_path c, a_rev = r, a_status = st, a_entry = c_entry c\<rparr>"

text \<open>The side has spoken for the path: its backoff ends and its report is counted.\<close>

definition note_report :: "string \<Rightarrow> side_root \<Rightarrow> side_root" where
  "note_report p sr = sr\<lparr>sr_backoff := (sr_backoff sr)(p := None),
     sr_reports := (sr_reports sr)(p := succ64 (sr_reports sr p))\<rparr>"

text \<open>What a side refused holds: content the hub does not know, or nothing; it is sent the
  root's state.\<close>

definition give_back :: "change \<Rightarrow> int \<Rightarrow> side_root \<Rightarrow> side_root" where
  "give_back c now sr =
     mark (c_path c) now (if Live (c_entry c) then set_held (c_path c) 0 sr else drop_held (c_path c) sr)"

definition prepare :: "int \<Rightarrow> key \<Rightarrow> merger \<Rightarrow> side_info \<Rightarrow> change \<Rightarrow> nat \<Rightarrow> hub_root \<Rightarrow>
    (ack + plan) \<times> hub_root" where
  "prepare now k m side c base root =
     (if hr_broken root \<noteq> None then (Inl (ack_of c Deferred 0), root)
      else
        let hk = (s_id side, c_path c);
            root1 = (map_side (s_id side) (note_report (c_path c)) root)
              \<lparr>hr_holds := removeAll hk (hr_holds root)\<rparr>;
            cur = map_of (hr_entries root1) k
        in if cur \<noteq> None \<and> Same (he_entry (the cur)) (c_entry c) then
             (Inl (ack_of c Accepted (he_rev (the cur))), held side (c_path c) (the cur) root1)
           else if cur = None \<and> \<not> Live (c_entry c) then (Inl (ack_of c Accepted 0), root1)
           else if hr_writer root1 \<noteq> [] \<and> s_id side \<noteq> hr_writer root1 then
             (Inl (ack_of c Superseded 0), map_side (s_id side) (give_back c now) root1)
           else if e_kind (c_entry c) = File \<and> overCap root1 (e_size (c_entry c)) cur then
             (Inl (ack_of c Deferred 0), root1\<lparr>hr_holds := hk # hr_holds root1\<rparr>)
           else
             (Inr \<lparr>p_k = k, p_m = m, p_side = side, p_c = c, p_base = base, p_cur = cur,
                p_fast = (case cur of None \<Rightarrow> True
                  | Some e \<Rightarrow> base = he_rev e \<or> he_origin e = s_id side \<and> base = he_base e
                      \<or> hr_writer root1 = s_id side),
                p_shape = checkShape root1 c cur\<rparr>, root1))"

section \<open>Deciding\<close>

record plan_extra =
  x_conflict :: string
  x_merged :: entry
  x_hist :: string

record decide_env =
  de_now :: int
  de_incoming :: "sync_error + string"
  de_current :: "sync_error + string"
  de_baseRead :: "sync_error option"
  de_put :: "sync_error option"
  de_room :: "sync_error option"
  de_loser :: "sync_error option"
  de_save :: "sync_error + string"

text \<open>\<open>openContent\<close>: the hub's blobs first, else what a side holding the state answers.\<close>

definition openContent :: "hub_root \<Rightarrow> entry \<Rightarrow> sync_error + string \<Rightarrow> sync_error + string" where
  "openContent root e holders =
     (if e_kind e \<noteq> File then Inl ErrNoSource
      else case (if blob_has root (e_hash e) then blob_open root (e_hash e) else None) of
        Some data \<Rightarrow> Inr data
      | None \<Rightarrow> holders)"

definition base_content :: "decide_env \<Rightarrow> hub_root \<Rightarrow> plan \<Rightarrow> sync_error + string option" where
  "base_content env root p =
     (case p_cur p of
        None \<Rightarrow> Inr None
      | Some cur \<Rightarrow>
          if m_history (p_m p) = 0 \<or> p_base p = 0 then Inr None
          else case find (\<lambda>(r, h). r = p_base p) (he_hist cur) of
            None \<Rightarrow> Inr None
          | Some (r, h) \<Rightarrow>
              (case blob_open root h of
                 None \<Rightarrow> Inr None
               | Some data \<Rightarrow>
                   (case de_baseRead env of
                      Some err \<Rightarrow> Inl err
                    | None \<Rightarrow> Inr (Some (take (nat (MaxMergeSize + 1)) data)))))"

definition merge_input_of :: "decide_env \<Rightarrow> hub_root \<Rightarrow> plan \<Rightarrow> merge_input" where
  "merge_input_of env root p =
     \<lparr>mi_root = hr_name root, mi_path = c_path (p_c p), mi_side = p_side p, mi_fast = p_fast p,
      mi_baseRev = p_base p,
      mi_current = map_option (\<lambda>cur. \<lparr>v_entry = he_entry cur, v_rev = he_rev cur,
        v_side = he_origin cur, v_open = Some (openContent root (he_entry cur) (de_current env))\<rparr>) (p_cur p),
      mi_incoming = \<lparr>v_entry = c_entry (p_c p), v_rev = 0, v_side = s_id (p_side p),
        v_open = Some (de_incoming env)\<rparr>,
      mi_base = base_content env root p\<rparr>"

text \<open>The entry of a merged file; a union that only added to the current content grew from it.\<close>

definition merged_entry :: "int \<Rightarrow> plan \<Rightarrow> string \<Rightarrow> string \<Rightarrow> entry" where
  "merged_entry now p content hash =
     (let c = c_entry (p_c p);
          e = \<lparr>e_kind = File, e_mode = fileMode File (e_mode c), e_size = int (length content),
               e_mtime = max (e_mtime c) now, e_hash = hash, e_target = [], e_grew = []\<rparr>
      in case p_cur p of
           None \<Rightarrow> e
         | Some cur \<Rightarrow>
             let d = he_entry cur; e' = e\<lparr>e_mtime := max (e_mtime e) (e_mtime d)\<rparr>
             in if e_kind d = File \<and> e_size d < e_size e' \<and>
                   hashOf (take (nat (e_size d)) content) = e_hash d
                then grownFrom e' d else e')"

text \<open>The losing version of a decision, kept as a conflict copy.\<close>

definition keepConflict :: "decide_env \<Rightarrow> plan \<Rightarrow> merge_result \<Rightarrow> hub_root \<Rightarrow>
    (sync_error + string) \<times> hub_root" where
  "keepConflict env p res root =
     (let choice = (if mr_decision res = Accept
            then map_option (\<lambda>cur. (he_entry cur, he_origin cur)) (p_cur p)
            else Some (c_entry (p_c p), s_id (p_side p)))
      in case choice of
           None \<Rightarrow> (Inr [], root)
         | Some (loser, side) \<Rightarrow>
             let save = (case de_save env of
                   Inl e \<Rightarrow> (Inl e, root)
                 | Inr i \<Rightarrow> (Inr i, root\<lparr>hr_conflicts := hr_conflicts root @
                     [\<lparr>cn_id = i, cn_path = c_path (p_c p), cn_location = fst (p_k p), cn_side = side,
                       cn_entry = loser, cn_reason = mr_reason res\<rparr>]\<rparr>))
             in case e_kind loser of
                  File \<Rightarrow> (case de_room env of Some e \<Rightarrow> (Inl e, root)
                    | None \<Rightarrow> (case de_loser env of Some e \<Rightarrow> (Inl e, root) | None \<Rightarrow> save))
                | Symlink \<Rightarrow> save
                | _ \<Rightarrow> (Inr [], root))"

definition policy_result :: "decide_env \<Rightarrow> hub_root \<Rightarrow> plan \<Rightarrow> sync_error + merge_result" where
  "policy_result env root p =
     (if sc_keep (p_shape p)
      then Inr (result_of Keep (sc_conflict (p_shape p)) (sc_reason (p_shape p)))
      else m_merge (p_m p) (merge_input_of env root p))"

text \<open>The slow work of a decision, in order: the merged content goes to the blob store, the
  losing version to the conflict store, and accepted content the policy keeps for its merges to
  the blob store.\<close>

definition no_extra :: plan_extra where
  "no_extra = \<lparr>x_conflict = [], x_merged = gone_entry, x_hist = []\<rparr>"

definition decide_merged :: "decide_env \<Rightarrow> plan \<Rightarrow> merge_result \<Rightarrow> hub_root \<Rightarrow>
    (sync_error + plan_extra) \<times> hub_root" where
  "decide_merged env p res root =
     (if mr_decision res \<noteq> Merged then (Inr no_extra, root)
      else case blob_put (de_now env) (de_put env) (mr_content res) root of
        (Inl e, rt) \<Rightarrow> (Inl e, rt)
      | (Inr hash, rt) \<Rightarrow>
          let me = merged_entry (de_now env) p (mr_content res) hash
          in (Inr (no_extra\<lparr>x_merged := me,
                x_hist := if m_history (p_m p) > 0 \<and> e_size me \<le> MaxMergeSize then hash else []\<rparr>), rt))"

definition decide_conflict :: "decide_env \<Rightarrow> plan \<Rightarrow> merge_result \<Rightarrow> plan_extra \<Rightarrow> hub_root \<Rightarrow>
    (sync_error + plan_extra) \<times> hub_root" where
  "decide_conflict env p res extra root =
     (if \<not> mr_conflict res then (Inr extra, root)
      else case keepConflict env p res root of
        (Inl e, rt) \<Rightarrow> (Inl e, rt)
      | (Inr i, rt) \<Rightarrow> (Inr (extra\<lparr>x_conflict := i\<rparr>), rt))"

definition decide_hist :: "decide_env \<Rightarrow> plan \<Rightarrow> merge_result \<Rightarrow> version \<Rightarrow> plan_extra \<Rightarrow> hub_root \<Rightarrow>
    (sync_error + plan_extra) \<times> hub_root" where
  "decide_hist env p res incoming extra root =
     (if mr_decision res = Accept \<and> m_history (p_m p) > 0 \<and>
         e_kind (c_entry (p_c p)) = File \<and> e_size (c_entry (p_c p)) \<le> MaxMergeSize
      then (case Content incoming of
              Inl e \<Rightarrow> (Inl e, root)
            | Inr data \<Rightarrow>
                (case blob_put (de_now env) (de_put env) data root of
                   (Inl e, rt) \<Rightarrow> (Inl e, rt)
                 | (Inr hash, rt) \<Rightarrow> (Inr (extra\<lparr>x_hist := hash\<rparr>), rt)))
      else (Inr extra, root))"

definition decide :: "decide_env \<Rightarrow> plan \<Rightarrow> hub_root \<Rightarrow>
    (sync_error + merge_result \<times> plan_extra) \<times> hub_root" where
  "decide env p root =
     (case policy_result env root p of
        Inl e \<Rightarrow> (Inl e, root)
      | Inr res \<Rightarrow>
          (case decide_merged env p res root of
             (Inl e, root1) \<Rightarrow> (Inl e, root1)
           | (Inr x1, root1) \<Rightarrow>
               (case decide_conflict env p res x1 root1 of
                  (Inl e, root2) \<Rightarrow> (Inl e, root2)
                | (Inr x2, root2) \<Rightarrow>
                    (case decide_hist env p res (mi_incoming (merge_input_of env root p)) x2 root2 of
                       (Inl e, root3) \<Rightarrow> (Inl e, root3)
                     | (Inr x3, root3) \<Rightarrow> (Inr (res, x3), root3)))))"

section \<open>Committing\<close>

fun resurrect :: "hub_cfg \<Rightarrow> int \<Rightarrow> string \<Rightarrow> (string \<times> 32 word) list \<Rightarrow> hub_root \<Rightarrow> bool \<times> hub_root" where
  "resurrect cfg now side [] root = (True, root)"
| "resurrect cfg now side ((a, md) # rest) root =
     (case setEntry cfg now ([], a) (gone_entry\<lparr>e_kind := Dir, e_mode := fileMode Dir md\<rparr>) side 0 [] [] root of
        (None, root') \<Rightarrow> (False, root')
      | (Some e, root') \<Rightarrow> resurrect cfg now side rest root')"

definition unvouch :: "key \<Rightarrow> hub_entry \<Rightarrow> string \<Rightarrow> hub_root \<Rightarrow> hub_root" where
  "unvouch k e side root =
     (if he_origin e \<noteq> side \<or> he_base e = he_rev e then root
      else let e' = e\<lparr>he_base := he_rev e\<rparr>;
               root1 = root\<lparr>hr_entries := AList.update k e' (hr_entries root)\<rparr>
           in snd (root_commit (root_put (journalKey k) (EntryRec e') root1)))"

definition names :: "hub_root \<Rightarrow> string \<Rightarrow> bool" where
  "names root h = list_ex (\<lambda>(k, e). h \<in> set (named_blobs e)) (hr_entries root)"

definition forget :: "(nat \<times> string) list \<Rightarrow> (nat \<times> string) list \<Rightarrow> hub_root \<Rightarrow> hub_root" where
  "forget before kept root =
     fold (\<lambda>(r, h) rt. if h \<in> set (map snd kept) \<or> names rt h then rt else blob_remove h rt) before root"

text \<open>The history a new state keeps: at most \<open>History\<close> contents, none after a delete.\<close>

definition new_hist :: "plan \<Rightarrow> hub_entry option \<Rightarrow> entry \<Rightarrow> string \<Rightarrow> nat \<Rightarrow> (nat \<times> string) list" where
  "new_hist p now_e e x_h r =
     (let hist = (case now_e of None \<Rightarrow> [] | Some cur \<Rightarrow> he_hist cur);
          hist' = (if x_h \<noteq> [] then
                     (let h = hist @ [(r, x_h)]; n = m_history (p_m p)
                      in if length h > n then drop (length h - n) h else h)
                   else hist)
      in if Live e then hist' else [])"

definition moved_on :: "hub_entry option \<Rightarrow> hub_entry option \<Rightarrow> bool" where
  "moved_on now_e cur =
     (case now_e of None \<Rightarrow> cur \<noteq> None
      | Some e \<Rightarrow> (case cur of None \<Rightarrow> True | Some d \<Rightarrow> he_rev e \<noteq> he_rev d))"

definition commit_keep :: "int \<Rightarrow> plan \<Rightarrow> hub_entry option \<Rightarrow> hub_root \<Rightarrow> ack \<times> hub_root" where
  "commit_keep now p now_e root =
     (let root1 = map_side (s_id (p_side p)) (give_back (p_c p) now) root
      in case now_e of
           None \<Rightarrow> (ack_of (p_c p) Superseded 0, root1)
         | Some e \<Rightarrow>
             if p_fast p then (ack_of (p_c p) Superseded 0, unvouch (p_k p) e (s_id (p_side p)) root1)
             else (ack_of (p_c p) Superseded (he_rev e), root1))"

definition commit_change :: "hub_cfg \<Rightarrow> int \<Rightarrow> plan \<Rightarrow> merge_result \<Rightarrow> plan_extra \<Rightarrow> hub_entry option \<Rightarrow>
    hub_root \<Rightarrow> ack \<times> hub_root" where
  "commit_change cfg now p res extra now_e root =
     (case resurrect cfg now (s_id (p_side p)) (zip (sc_resurrect (p_shape p)) (sc_modes (p_shape p))) root of
        (False, root1) \<Rightarrow> (ack_of (p_c p) Deferred 0, root1)
      | (True, root1) \<Rightarrow>
          let merged = (mr_decision res = Merged);
              e = (if merged then x_merged extra else c_entry (p_c p));
              origin = (if merged then [] else s_id (p_side p));
              before = (case now_e of None \<Rightarrow> [] | Some cur \<Rightarrow> he_hist cur);
              hist = new_hist p now_e e (x_hist extra) (succ64 (hr_rev root1))
          in case setEntry cfg now (p_k p) e origin (c_base (p_c p)) hist origin root1 of
               (None, root2) \<Rightarrow> (ack_of (p_c p) Deferred 0, root2)
             | (Some ne, root2) \<Rightarrow>
                 let root3 = (if m_scope (p_m p) = ScopeLocation then forget before hist root2 else root2)
                 in if merged then
                      (ack_of (p_c p) Superseded (he_rev ne),
                       map_side (s_id (p_side p)) (set_held (c_path (p_c p)) 0) root3)
                    else (ack_of (p_c p) Accepted (he_rev ne), held (p_side p) (c_path (p_c p)) ne root3))"

definition commitPlan :: "hub_cfg \<Rightarrow> int \<Rightarrow> plan \<Rightarrow> merge_result \<Rightarrow> plan_extra \<Rightarrow> hub_root \<Rightarrow>
    ack option \<times> hub_root" where
  "commitPlan cfg now p res extra root =
     (if hr_broken root \<noteq> None then (Some (ack_of (p_c p) Deferred 0), root)
      else
        let now_e = map_of (hr_entries root) (p_k p)
        in if moved_on now_e (p_cur p) \<or> \<not> shape_equal (checkShape root (p_c p) now_e) (p_shape p)
           then (None, root)
           else if mr_decision res \<noteq> Keep \<and> (e_kind (c_entry (p_c p)) = File \<or> mr_decision res = Merged) \<and>
             overCap root (if mr_decision res = Merged then e_size (x_merged extra) else e_size (c_entry (p_c p))) now_e
           then (Some (ack_of (p_c p) Deferred 0),
                 root\<lparr>hr_holds := (s_id (p_side p), c_path (p_c p)) # hr_holds root\<rparr>)
           else if mr_decision res = Keep then
             (let (a, r) = commit_keep now p now_e root in (Some a, r))
           else (let (a, r) = commit_change cfg now p res extra now_e root in (Some a, r)))"

section \<open>The loop\<close>

definition drop_conflict :: "string \<Rightarrow> hub_root \<Rightarrow> hub_root" where
  "drop_conflict i root = root\<lparr>hr_conflicts := filter (\<lambda>c. cn_id c \<noteq> i) (hr_conflicts root)\<rparr>"

fun process_rounds :: "nat \<Rightarrow> hub_cfg \<Rightarrow> (nat \<Rightarrow> decide_env) \<Rightarrow> (nat \<Rightarrow> hub_root \<Rightarrow> hub_root) \<Rightarrow> key \<Rightarrow>
    merger \<Rightarrow> side_info \<Rightarrow> change \<Rightarrow> nat \<Rightarrow> hub_root \<Rightarrow> ack \<times> hub_root" where
  "process_rounds 0 cfg env others k m side c base root = (ack_of c Deferred 0, root)"
| "process_rounds (Suc n) cfg env others k m side c base root =
     (case prepare (de_now (env n)) k m side c base root of
        (Inl a, root1) \<Rightarrow> (a, root1)
      | (Inr p, root1) \<Rightarrow>
          (case decide (env n) p root1 of
             (Inl e, root2) \<Rightarrow> (ack_of c Deferred 0, root2)
           | (Inr (res, extra), root2) \<Rightarrow>
               (case commitPlan cfg (de_now (env n)) p res extra (others n root2) of
                  (Some a, root3) \<Rightarrow>
                    (a, if a_status a = Deferred \<and> x_conflict extra \<noteq> []
                        then drop_conflict (x_conflict extra) root3 else root3)
                | (None, root3) \<Rightarrow>
                    process_rounds n cfg env others k m side c base
                      (if x_conflict extra \<noteq> [] then drop_conflict (x_conflict extra) root3 else root3))))"

definition process :: "hub_cfg \<Rightarrow> (nat \<Rightarrow> decide_env) \<Rightarrow> (nat \<Rightarrow> hub_root \<Rightarrow> hub_root) \<Rightarrow> side_info \<Rightarrow>
    change \<Rightarrow> bool \<Rightarrow> hub_root \<Rightarrow> ack \<times> hub_root" where
  "process cfg env others side c stale root =
     (if \<not> validPath (c_path c) \<or> check (c_entry c) \<noteq> None then (ack_of c Ignored 0, root)
      else case keyFor cfg root (c_path c) (s_location side) of
        None \<Rightarrow> (ack_of c Ignored 0, root)
      | Some (k, m) \<Rightarrow>
          if s_loginsOnly side \<and> m_scope m \<noteq> ScopeLocation then (ack_of c Ignored 0, root)
          else process_rounds 4 cfg env others k m side c (if stale then 0 else c_base c) root)"

end
