(* ===== verification/TreeOrder.thy ===== *)
theory TreeOrder
  imports Messages "HOL-Library.Multiset"
begin

text \<open>
  The order changes and ops are applied in (\<open>sortChanges\<close> and \<open>sortOps\<close> of
  \<open>internal/sharesync/scan.go\<close>): deletes deepest first, then everything else parents first.
  \<open>slices.SortFunc\<close> may place equal elements in any order; the sort here keeps theirs.
\<close>

section \<open>Sorting by a comparison\<close>

fun insert_by :: "('a \<Rightarrow> 'a \<Rightarrow> bool) \<Rightarrow> 'a \<Rightarrow> 'a list \<Rightarrow> 'a list" where
  "insert_by le x [] = [x]"
| "insert_by le x (y # ys) = (if le x y then x # y # ys else y # insert_by le x ys)"

definition SortFunc :: "('a \<Rightarrow> 'a \<Rightarrow> bool) \<Rightarrow> 'a list \<Rightarrow> 'a list" where
  "SortFunc le xs = foldr (insert_by le) xs []"

lemma mset_insert_by [simp]: "mset (insert_by le x ys) = add_mset x (mset ys)"
  by (induction ys) auto

lemma set_insert_by [simp]: "set (insert_by le x ys) = insert x (set ys)"
  by (induction ys) auto

lemma mset_SortFunc [simp]: "mset (SortFunc le xs) = mset xs"
  by (induction xs) (simp_all add: SortFunc_def)

lemma set_SortFunc [simp]: "set (SortFunc le xs) = set xs"
  by (metis mset_SortFunc set_mset_mset)

lemma length_SortFunc [simp]: "length (SortFunc le xs) = length xs"
  by (metis mset_SortFunc size_mset)

lemma SortFunc_Nil_iff [simp]: "SortFunc le xs = [] \<longleftrightarrow> xs = []"
  by (metis length_0_conv length_SortFunc)

text \<open>What a comparison has to satisfy for the sort to order by it.\<close>

locale total_preorder_on =
  fixes le :: "'a \<Rightarrow> 'a \<Rightarrow> bool"
  assumes total: "le x y \<or> le y x"
    and trans: "le x y \<Longrightarrow> le y z \<Longrightarrow> le x z"
begin

lemma sorted_insert_by: "sorted_wrt le ys \<Longrightarrow> sorted_wrt le (insert_by le x ys)"
proof (induction ys)
  case (Cons y ys)
  then show ?case using total [of x y] by (auto intro: trans)
qed simp

lemma sorted_SortFunc: "sorted_wrt le (SortFunc le xs)"
  by (induction xs) (auto simp: SortFunc_def intro: sorted_insert_by)

end

section \<open>Deletes deepest first, then parents first\<close>

definition slashes :: "string \<Rightarrow> nat" where
  "slashes p = length (filter (\<lambda>c. c = CHR ''/'') p)"

text \<open>The comparison of \<open>sortChanges\<close> and \<open>sortOps\<close>, on whether the entry is live and its path:
  \<open>tree_le a b\<close> is a result of at most 0.\<close>

definition tree_le :: "bool \<times> string \<Rightarrow> bool \<times> string \<Rightarrow> bool" where
  "tree_le a b =
     (let ad = \<not> fst a; bd = \<not> fst b
      in if ad \<and> \<not> bd then True
         else if \<not> ad \<and> bd then False
         else if ad then
           (if slashes (snd b) \<noteq> slashes (snd a) then slashes (snd b) < slashes (snd a)
            else snd b \<le> snd a)
         else snd a \<le> snd b)"

definition sortChanges :: "change list \<Rightarrow> change list" where
  "sortChanges cs = SortFunc (\<lambda>a b. tree_le (Live (c_entry a), c_path a) (Live (c_entry b), c_path b)) cs"

definition sortOps :: "sync_op list \<Rightarrow> sync_op list" where
  "sortOps ops = SortFunc (\<lambda>a b. tree_le (Live (op_entry a), op_path a) (Live (op_entry b), op_path b)) ops"

lemma tree_le_total: "tree_le a b \<or> tree_le b a"
  by (auto simp: tree_le_def Let_def)

lemma tree_le_trans: "tree_le a b \<Longrightarrow> tree_le b c \<Longrightarrow> tree_le a c"
  by (auto simp: tree_le_def Let_def split: if_splits)

interpretation change_order: total_preorder_on
  "\<lambda>a b. tree_le (Live (c_entry a), c_path a) (Live (c_entry b), c_path b)"
  by unfold_locales (use tree_le_total tree_le_trans in blast)+

interpretation op_order: total_preorder_on
  "\<lambda>a b. tree_le (Live (op_entry a), op_path a) (Live (op_entry b), op_path b)"
  by unfold_locales (use tree_le_total tree_le_trans in blast)+

lemma set_sorts [simp]: "set (sortChanges cs) = set cs" "set (sortOps ops) = set ops"
  by (simp_all add: sortChanges_def sortOps_def)

lemma length_sorts [simp]: "length (sortChanges cs) = length cs" "length (sortOps ops) = length ops"
  by (simp_all add: sortChanges_def sortOps_def)

section \<open>Paths below a folder\<close>

lemma less_append_string: "x \<noteq> [] \<Longrightarrow> (p :: string) < p @ x"
  by (induction p) (auto simp: neq_Nil_conv)

lemma below_slashes: "slashes p < slashes (p @ CHR ''/'' # x)"
  by (simp add: slashes_def)

lemma tree_le_below:
  assumes "q = p @ CHR ''/'' # x"
  shows "tree_le (True, p) (True, q)" "\<not> tree_le (True, q) (True, p)"
    "tree_le (False, q) (False, p)" "\<not> tree_le (False, p) (False, q)"
  using assms less_append_string [of "CHR ''/'' # x" p] below_slashes [of p x]
  by (simp_all add: tree_le_def Let_def)

lemma sorted_at:
  "sorted_wrt P xs \<Longrightarrow> i < length xs \<Longrightarrow> j < length xs \<Longrightarrow> \<not> P (xs ! j) (xs ! i) \<Longrightarrow> i \<noteq> j \<Longrightarrow> i < j"
  by (metis linorder_neqE_nat sorted_wrt_nth_less)

section \<open>Properties\<close>

text \<open>C29: a report is taken in an order that never breaks the tree. The changes are those of the
  report; every delete comes before every other change, what is in a deleted folder is deleted
  before the folder, and a folder comes before what is in it.\<close>

theorem changes_in_tree_order:
  assumes "i < length cs" "j < length cs"
    and "a = sortChanges cs ! i" "b = sortChanges cs ! j"
  shows "mset (sortChanges cs) = mset cs \<and>
    (\<not> Live (c_entry a) \<and> Live (c_entry b) \<longrightarrow> i < j) \<and>
    (Live (c_entry a) \<and> Live (c_entry b) \<and> c_path b = c_path a @ CHR ''/'' # x \<longrightarrow> i < j) \<and>
    (\<not> Live (c_entry a) \<and> \<not> Live (c_entry b) \<and> c_path a = c_path b @ CHR ''/'' # x \<longrightarrow> i < j)"
proof -
  let ?le = "\<lambda>a b. tree_le (Live (c_entry a), c_path a) (Live (c_entry b), c_path b)"
  have lt: "\<not> ?le b a \<Longrightarrow> i < j"
    using sorted_at [of ?le "sortChanges cs" i j] change_order.sorted_SortFunc [of cs] assms tree_le_total [of "(Live (c_entry a), c_path a)"]
    by (auto simp: sortChanges_def)
  show ?thesis
  proof (intro conjI impI)
    show "mset (sortChanges cs) = mset cs" by (simp add: sortChanges_def)
    show "i < j" if "\<not> Live (c_entry a) \<and> Live (c_entry b)"
      using that by (intro lt) (simp add: tree_le_def)
    show "i < j" if "Live (c_entry a) \<and> Live (c_entry b) \<and> c_path b = c_path a @ CHR ''/'' # x"
      using that tree_le_below(2) [of "c_path b" "c_path a" x] by (intro lt) simp
    show "i < j" if "\<not> Live (c_entry a) \<and> \<not> Live (c_entry b) \<and> c_path a = c_path b @ CHR ''/'' # x"
      using that tree_le_below(4) [of "c_path a" "c_path b" x] by (intro lt) simp
  qed
qed

definition dir_at :: "string \<Rightarrow> change" where
  "dir_at p = \<lparr>c_path = p, c_base = 0, c_entry = gone_entry\<lparr>e_kind := Dir\<rparr>\<rparr>"

theorem changes_in_tree_order_witness:
  "(1 :: nat) < 2 \<and> sortChanges [dir_at ''a/b'', dir_at ''a'', \<lparr>c_path = ''z'', c_base = 0, c_entry = gone_entry\<rparr>] ! 1 = dir_at ''a''"
proof -
  let ?cs = "[dir_at ''a/b'', dir_at ''a'', \<lparr>c_path = ''z'', c_base = 0, c_entry = gone_entry\<rparr>]"
  have s: "sortChanges ?cs ! 1 = dir_at ''a''" "sortChanges ?cs ! 2 = dir_at ''a/b''" by code_simp+
  have l: "Live (c_entry (dir_at ''a''))" "Live (c_entry (dir_at ''a/b''))"
    "c_path (dir_at ''a/b'') = c_path (dir_at ''a'') @ CHR ''/'' # ''b''"
    by (simp_all add: dir_at_def Live_def)
  have "(1 :: nat) < 2"
    using changes_in_tree_order [of 1 ?cs 2 "dir_at ''a''" "dir_at ''a/b''" "''b''"] s l by simp
  with s show ?thesis by blast
qed

end
