(* ===== verification/HubDispatch.thy ===== *)
theory HubDispatch
  imports HubRoot TreeOrder
begin

text \<open>
  Sending sides what they lack (\<open>internal/sharesync/hub_dispatch.go\<close>): the op a side is owed, the
  lanes, the batches due, what a side's results do to the hub's view of it, and a dispatcher's
  passes. A zero \<open>time.Time\<close> is \<open>None\<close>. What a side answers to a batch is an input: its results,
  or the text of the error that it could not be reached.
\<close>

section \<open>What a side is owed\<close>

definition opFor :: "hub_cfg \<Rightarrow> hub_root \<Rightarrow> side_root \<Rightarrow> string \<Rightarrow> sync_op option" where
  "opFor cfg root sr p =
     (let h = map_of (sr_held sr) p
      in case keyFor cfg root p (s_location (sr_info sr)) of
        None \<Rightarrow> None
      | Some (k, m) \<Rightarrow>
          if \<not> keeps sr p then None
          else case map_of (hr_entries root) k of
            None \<Rightarrow> if h \<noteq> None then Some \<lparr>op_path = p, op_rev = hr_forgot root, op_entry = gone_entry\<rparr>
                    else None
          | Some e \<Rightarrow>
              if Live (he_entry e) then
                (if h \<noteq> Some (he_rev e) then Some \<lparr>op_path = p, op_rev = he_rev e, op_entry = he_entry e\<rparr>
                 else None)
              else if h \<noteq> None then Some \<lparr>op_path = p, op_rev = he_rev e, op_entry = he_entry e\<rparr>
              else None)"

definition laneFor :: "hub_cfg \<Rightarrow> hub_root \<Rightarrow> sync_op \<Rightarrow> lane" where
  "laneFor cfg root op =
     (let own = (case merger_for cfg root (op_path op) of None \<Rightarrow> LaneAuto | Some m \<Rightarrow> m_lane m)
      in if own \<noteq> LaneAuto then own
         else if e_kind (op_entry op) = File \<and> e_size (op_entry op) > BulkSize then LaneBulk
         else LaneNormal)"

definition delay :: "hub_cfg \<Rightarrow> lane \<Rightarrow> int" where
  "delay cfg l =
     (case l of LanePriority \<Rightarrow> 0 | LaneBulk \<Rightarrow> cf_bulkDelay cfg | _ \<Rightarrow> cf_normalDelay cfg)"

definition lanes :: "lane list" where
  "lanes = [LanePriority, LaneNormal, LaneBulk]"

definition earliest :: "int option \<Rightarrow> int option \<Rightarrow> int option" where
  "earliest a b =
     (case a of None \<Rightarrow> b
      | Some x \<Rightarrow> (case b of None \<Rightarrow> a | Some y \<Rightarrow> if y < x then b else a))"

section \<open>The batches due\<close>

abbreviation undirty :: "string \<Rightarrow> side_root \<Rightarrow> side_root" where
  "undirty p sr \<equiv> sr\<lparr>sr_dirty := AList.delete p (sr_dirty sr)\<rparr>"

abbreviation end_backoff :: "string \<Rightarrow> side_root \<Rightarrow> side_root" where
  "end_backoff p sr \<equiv> sr\<lparr>sr_backoff := (sr_backoff sr)(p := None)\<rparr>"

text \<open>An op that is owed waits for its path's backoff, the side's pause or its lane's delay, or is
  due now.\<close>

definition collect_wait :: "hub_cfg \<Rightarrow> int \<Rightarrow> bool \<Rightarrow> int \<Rightarrow> hub_root \<Rightarrow> side_root \<Rightarrow> sync_op \<Rightarrow> int option" where
  "collect_wait cfg now flush since root sr op =
     (let backed = (case sr_backoff sr (op_path op) of None \<Rightarrow> None
            | Some r \<Rightarrow> if now < rt_until r then Some (rt_until r) else None);
          paused = (if sr_paused sr \<noteq> [] \<and> e_kind (op_entry op) = File then
              (case sr_retryAt sr of None \<Rightarrow> None | Some t \<Rightarrow> if now < t then Some t else None) else None);
          due = since + delay cfg (laneFor cfg root op)
      in if backed \<noteq> None then backed
         else if paused \<noteq> None then paused
         else if \<not> flush \<and> now < due then Some due
         else None)"

text \<open>The loop over the dirty paths: what is left of the side's view, when to look again, and the
  ops due, each with its lane.\<close>

definition collect_path :: "hub_cfg \<Rightarrow> int \<Rightarrow> bool \<Rightarrow> hub_root \<Rightarrow> string \<times> int \<Rightarrow>
    side_root \<times> int option \<times> (lane \<times> sync_op) list \<Rightarrow> side_root \<times> int option \<times> (lane \<times> sync_op) list" where
  "collect_path cfg now flush root ps st =
     (let (p, since) = ps; (sr, next, ready) = st
      in if map_of (sr_inflight sr) p \<noteq> None then st
         else case opFor cfg root sr p of
           None \<Rightarrow> (end_backoff p (undirty p sr), next, ready)
         | Some op \<Rightarrow>
             if map_option fst (sr_blocked sr p) = Some (op_rev op) then (undirty p sr, next, ready)
             else
               let sr' = sr\<lparr>sr_blocked := (sr_blocked sr)(p := None)\<rparr>
               in case collect_wait cfg now flush since root sr' op of
                    Some t \<Rightarrow> (sr', earliest next (Some t), ready)
                  | None \<Rightarrow> (sr', next, ready @ [(laneFor cfg root op, op)]))"

text \<open>The loop that cuts a lane's ops into batches; \<open>MaxBatch\<close> is never 0, which \<open>OpenHub\<close>
  replaces by its default.\<close>

function chunks :: "nat \<Rightarrow> 'a list \<Rightarrow> 'a list list" where
  "chunks n xs = (if xs = [] \<or> n = 0 then [] else take n xs # chunks n (drop n xs))"
  by pat_completeness auto
termination by (relation "measure (length \<circ> snd)") auto

declare chunks.simps [simp del]

definition lane_batches :: "hub_cfg \<Rightarrow> hub_root \<Rightarrow> (lane \<times> sync_op) list \<Rightarrow> batch list" where
  "lane_batches cfg root ready =
     concat (map (\<lambda>l. map (\<lambda>ops. \<lparr>b_root = hr_name root, b_epoch = hr_epoch root, b_lane = l, b_ops = ops\<rparr>)
       (chunks (cf_maxBatch cfg) (sortOps (map snd (filter (\<lambda>(l', op). l' = l) ready))))) lanes)"

text \<open>The ops of a batch are in flight, with the side's count of reports of their paths.\<close>

definition take_off :: "sync_op \<Rightarrow> side_root \<Rightarrow> side_root" where
  "take_off op sr = undirty (op_path op)
     (sr\<lparr>sr_inflight := AList.update (op_path op) (sr_reports sr (op_path op)) (sr_inflight sr)\<rparr>)"

definition collect_side :: "hub_cfg \<Rightarrow> int \<Rightarrow> bool \<Rightarrow> hub_root \<Rightarrow> side_root \<Rightarrow> batch list \<times> int option \<times> side_root" where
  "collect_side cfg now flush root sr =
     (let (sr1, next, ready) = fold (collect_path cfg now flush root) (sr_dirty sr) (sr, None, []);
          batches = lane_batches cfg root ready
      in (batches, next, fold take_off (concat (map b_ops batches)) sr1))"

definition collect :: "hub_cfg \<Rightarrow> int \<Rightarrow> bool \<Rightarrow> string \<Rightarrow> hub_root \<Rightarrow> batch list \<times> int option \<times> hub_root" where
  "collect cfg now flush sid root =
     (case map_of (hr_sides root) sid of
        None \<Rightarrow> ([], None, root)
      | Some sr \<Rightarrow>
          if hr_broken root \<noteq> None then ([], None, root)
          else let (batches, next, sr') = collect_side cfg now flush root sr
               in (batches, next, map_side sid (\<lambda>_. sr') root))"

section \<open>Content of a batch\<close>

text \<open>The attached sides that hold a state, the one that made it first, then by name.\<close>

definition holders :: "hub_root \<Rightarrow> key \<Rightarrow> nat \<Rightarrow> string \<Rightarrow> string list" where
  "holders root k r except =
     (let origin = (case map_of (hr_entries root) k of None \<Rightarrow> []
            | Some cur \<Rightarrow> if he_rev cur = r then he_origin cur else []);
          ids = map fst (filter (\<lambda>(i, sr). \<not> (i = except \<or>
             (case map_of (sr_held sr) (snd k) of None \<Rightarrow> 0 | Some n \<Rightarrow> n) \<noteq> r \<or> r = 0 \<or>
             fst k \<noteq> [] \<and> s_location (sr_info sr) \<noteq> fst k)) (hr_sides root))
      in SortFunc (\<lambda>a b. a = origin \<or> b \<noteq> origin \<and> a \<le> b) ids)"

fun fetch_first :: "(string \<Rightarrow> sync_error + string) \<Rightarrow> string list \<Rightarrow> sync_error + string" where
  "fetch_first fetch [] = Inl ErrNoSource"
| "fetch_first fetch (i # is) = (case fetch i of Inr data \<Rightarrow> Inr data | Inl e \<Rightarrow> fetch_first fetch is)"

definition contentFor :: "hub_cfg \<Rightarrow> hub_root \<Rightarrow> side_info \<Rightarrow> (string \<Rightarrow> sync_error + string) \<Rightarrow> sync_op \<Rightarrow>
    sync_error + string" where
  "contentFor cfg root info fetch op =
     (case keyFor cfg root (op_path op) (s_location info) of
        None \<Rightarrow> Inl ErrStale
      | Some (k, m) \<Rightarrow>
          (case map_of (hr_entries root) k of
             None \<Rightarrow> Inl ErrStale
           | Some e \<Rightarrow>
               if he_rev e \<noteq> op_rev op then
                 (if e_kind (op_entry op) = File \<and> blob_has root (e_hash (op_entry op))
                  then (case blob_open root (e_hash (op_entry op)) of Some data \<Rightarrow> Inr data | None \<Rightarrow> Inl ErrNotExist)
                  else Inl ErrStale)
               else openContent root (he_entry e)
                 (fetch_first fetch (holders root k (he_rev e) (s_id info)))))"

section \<open>Results\<close>

text \<open>The path of an op that was not answered: the side may hold its state now.\<close>

definition unanswered :: "int \<Rightarrow> sync_op \<Rightarrow> side_root \<Rightarrow> side_root" where
  "unanswered now op sr =
     mark_dirty_since (op_path op) now (if Live (op_entry op) then set_held (op_path op) 0 sr else sr)"

definition result_for :: "op_result list \<Rightarrow> sync_op \<Rightarrow> result_status \<times> string" where
  "result_for results op =
     (case map_of (rev (map (\<lambda>r. (rs_path r, r)) results)) (op_path op) of
        None \<Rightarrow> (Failed, ''no result'')
      | Some r \<Rightarrow> if rs_rev r \<noteq> op_rev op then (Failed, ''no result'') else (rs_status r, rs_reason r))"

definition landed :: "sync_op \<Rightarrow> side_root \<Rightarrow> side_root" where
  "landed op sr =
     (let p = op_path op;
          sr1 = (if Live (op_entry op) then
              (case map_of (sr_held sr) p of
                 None \<Rightarrow> set_held p (op_rev op) sr
               | Some h \<Rightarrow> if h \<le> op_rev op then set_held p (op_rev op) sr else sr)
            else drop_held p sr);
          sr2 = end_backoff p sr1;
          sr3 = (if map_of (sr_dirty sr2) p = None then sr2\<lparr>sr_reports := (sr_reports sr2)(p := 0)\<rparr> else sr2)
      in if e_kind (op_entry op) = File \<and> sr_paused sr3 \<noteq> [] then sr3\<lparr>sr_paused := [], sr_retryAt := None\<rparr> else sr3)"

definition finish_op :: "hub_cfg \<Rightarrow> int \<Rightarrow> (string \<Rightarrow> nat) \<Rightarrow> op_result list \<Rightarrow> sync_op \<Rightarrow> side_root \<Rightarrow> side_root" where
  "finish_op cfg now sentAt results op sr =
     (let p = op_path op; (st, reason) = result_for results op
      in case st of
           Applied \<Rightarrow> landed op sr
         | Changed \<Rightarrow> if sr_reports sr p \<noteq> sentAt p then mark p now sr else later p now 20000000 sr
         | Stale \<Rightarrow> later p now 20000000 sr
         | NoSpace \<Rightarrow>
             (let until = now + cf_pauseRetry cfg
              in mark p now (sr\<lparr>sr_paused := (if reason = [] then ''disk full'' else reason), sr_retryAt := Some until,
                   sr_backoff := (sr_backoff sr)(p \<mapsto> \<lparr>rt_until = until, rt_n = 0\<rparr>)\<rparr>))
         | Refused \<Rightarrow> sr\<lparr>sr_blocked := (sr_blocked sr)(p \<mapsto> (op_rev op, reason))\<rparr>
         | Failed \<Rightarrow> later p now 1000000000 (sr\<lparr>sr_lastErr := p @ '': '' @ reason\<rparr>))"

definition finish_side :: "hub_cfg \<Rightarrow> int \<Rightarrow> batch \<Rightarrow> string + op_result list \<Rightarrow> side_root \<Rightarrow> side_root" where
  "finish_side cfg now b answer sr =
     (let sentAt = (\<lambda>p. case map_of (sr_inflight sr) p of None \<Rightarrow> 0 | Some n \<Rightarrow> n);
          sr1 = sr\<lparr>sr_inflight := fold AList.delete (map op_path (b_ops b)) (sr_inflight sr)\<rparr>
      in case answer of
           Inl err \<Rightarrow> (fold (unanswered now) (b_ops b) sr1)\<lparr>sr_lastErr := err\<rparr>
         | Inr results \<Rightarrow> fold (finish_op cfg now sentAt results) (b_ops b) sr1)"

definition finish :: "hub_cfg \<Rightarrow> int \<Rightarrow> string \<Rightarrow> batch \<Rightarrow> string + op_result list \<Rightarrow> hub_root \<Rightarrow> hub_root" where
  "finish cfg now sid b answer root = map_side sid (finish_side cfg now b answer) root"

section \<open>A dispatcher\<close>

record hub_side =
  hs_info :: side_info
  hs_cancelled :: bool
  hs_downUntil :: "int option"
  hs_downN :: nat
  hs_downErr :: string

definition unreachable :: "int \<Rightarrow> string \<Rightarrow> hub_side \<Rightarrow> hub_side" where
  "unreachable now err s =
     (if hs_cancelled s then s
      else let n = hs_downN s + 1; d = min (250000000 * 2 ^ min (n - 1) 10) 30000000000
           in s\<lparr>hs_downN := n, hs_downUntil := Some (now + d), hs_downErr := err\<rparr>)"

text \<open>Sending a root's batches in turn: an error ends them, and the rest go unanswered.\<close>

fun send_batches :: "hub_cfg \<Rightarrow> int \<Rightarrow> (batch \<Rightarrow> string + op_result list) \<Rightarrow> batch list \<Rightarrow>
    hub_root \<times> hub_side \<Rightarrow> hub_root \<times> hub_side" where
  "send_batches cfg now peer [] st = st"
| "send_batches cfg now peer (b # bs) (root, s) =
     (let sid = s_id (hs_info s); answer = peer b; root1 = finish cfg now sid b answer root
      in case answer of
           Inl err \<Rightarrow> (fold (\<lambda>rest. finish cfg now sid rest (Inl err)) bs root1, unreachable now err s)
         | Inr _ \<Rightarrow> send_batches cfg now peer bs (root1, s\<lparr>hs_downN := 0, hs_downErr := []\<rparr>))"

text \<open>One pass over the roots: whether a batch was sent, and when to look again.\<close>

fun dispatch_roots :: "hub_cfg \<Rightarrow> int \<Rightarrow> bool \<Rightarrow> (batch \<Rightarrow> string + op_result list) \<Rightarrow> hub_root list \<Rightarrow>
    hub_side \<Rightarrow> int option \<Rightarrow> hub_root list \<times> hub_side \<times> int option \<times> bool" where
  "dispatch_roots cfg now flush peer [] s next = ([], s, next, False)"
| "dispatch_roots cfg now flush peer (root # roots) s next =
     (let (batches, wait, root1) = collect cfg now flush (s_id (hs_info s)) root;
          (root2, s1) = send_batches cfg now peer batches (root1, s);
          (roots', s2, next', sent) = dispatch_roots cfg now flush peer roots s1 (earliest next wait)
      in (root2 # roots', s2, next', sent \<or> batches \<noteq> []))"

text \<open>\<open>dispatch\<close>: passes until one sends nothing, the side is down or detached. The clock, the
  flush count and the side's answers of each pass are inputs; \<open>None\<close> is a run longer than its
  fuel.\<close>

fun dispatch :: "nat \<Rightarrow> hub_cfg \<Rightarrow> (nat \<Rightarrow> int) \<Rightarrow> (nat \<Rightarrow> bool) \<Rightarrow> (nat \<Rightarrow> batch \<Rightarrow> string + op_result list) \<Rightarrow>
    hub_root list \<Rightarrow> hub_side \<Rightarrow> int option \<Rightarrow> (hub_root list \<times> hub_side \<times> int option) option" where
  "dispatch 0 cfg clock flush peer roots s next = None"
| "dispatch (Suc n) cfg clock flush peer roots s next =
     (if hs_cancelled s then Some (roots, s, None)
      else if (case hs_downUntil s of None \<Rightarrow> False | Some t \<Rightarrow> clock n < t) then
        Some (roots, s, earliest next (hs_downUntil s))
      else let (roots', s', next', sent) = dispatch_roots cfg (clock n) (flush n) (peer n) roots s next
           in if sent then dispatch n cfg clock flush peer roots' s' next' else Some (roots', s', next'))"

end
