(* ===== verification/Hub.thy ===== *)
theory Hub
  imports HubDispatch
begin

text \<open>
  The hub over its roots (\<open>internal/sharesync/hub.go\<close>): attaching and detaching sides, reports,
  retries, what a flush for one side waits for, and closing. Locks are not modelled: each
  operation runs on the state its lock protects. \<open>run\<close> gives, for the i-th change processed, what
  the world answers in each round and what other goroutines do between plan and commit.
\<close>

record hub =
  hb_roots :: "hub_root list"
  hb_sides :: "(string \<times> hub_side) list"
  hb_closed :: bool

type_synonym world = "nat \<Rightarrow> (nat \<Rightarrow> decide_env) \<times> (nat \<Rightarrow> hub_root \<Rightarrow> hub_root)"

definition map_root :: "string \<Rightarrow> (hub_root \<Rightarrow> hub_root) \<Rightarrow> hub \<Rightarrow> hub" where
  "map_root name f h = h\<lparr>hb_roots := map (\<lambda>r. if hr_name r = name then f r else r) (hb_roots h)\<rparr>"

definition root_named :: "hub \<Rightarrow> string \<Rightarrow> hub_root option" where
  "root_named h name = find (\<lambda>r. hr_name r = name) (hb_roots h)"

section \<open>Opening\<close>

fun open_roots :: "hub_cfg \<Rightarrow> (string \<Rightarrow> string) \<Rightarrow> (string \<Rightarrow> string \<times> sync_error option \<times> write_outcome list \<times> hub_record journal) \<Rightarrow>
    string list \<Rightarrow> hub_root list \<Rightarrow> sync_error + hub_root list" where
  "open_roots cfg writers disk [] opened = Inr opened"
| "open_roots cfg writers disk (name # rest) opened =
     (if list_ex (\<lambda>r. hr_name r = name) opened
      then Inl (ErrOther (''sharesync: root '' @ name @ '' given twice''))
      else case (let (fresh, failed, io, j) = disk name in openHubRoot cfg name fresh failed io j) of
        Inl err \<Rightarrow> Inl err
      | Inr root \<Rightarrow> open_roots cfg writers disk rest (opened @ [root\<lparr>hr_writer := writers name\<rparr>]))"

definition OpenHub :: "hub_cfg \<Rightarrow> (string \<Rightarrow> string) \<Rightarrow> (string \<Rightarrow> string \<times> sync_error option \<times> write_outcome list \<times> hub_record journal) \<Rightarrow>
    string list \<Rightarrow> sync_error + hub" where
  "OpenHub cfg writers disk roots =
     (case open_roots cfg writers disk roots [] of
        Inl err \<Rightarrow> Inl err
      | Inr opened \<Rightarrow> Inr \<lparr>hb_roots = opened, hb_sides = [], hb_closed = False\<rparr>)"

section \<open>Sides\<close>

definition detach_root :: "string \<Rightarrow> hub_root \<Rightarrow> hub_root" where
  "detach_root sid root = root\<lparr>hr_sides := AList.delete sid (hr_sides root),
     hr_holds := filter (\<lambda>(i, p). i \<noteq> sid) (hr_holds root)\<rparr>"

definition Detach :: "string \<Rightarrow> hub \<Rightarrow> hub" where
  "Detach sid h =
     (if map_of (hb_sides h) sid = None then h
      else h\<lparr>hb_sides := AList.delete sid (hb_sides h), hb_roots := map (detach_root sid) (hb_roots h)\<rparr>)"

text \<open>One path a side says it holds: taken at its rev, or as content the hub has not seen.\<close>

definition attach_held :: "hub_cfg \<Rightarrow> side_info \<Rightarrow> bool \<Rightarrow> held \<Rightarrow>
    hub_root \<times> side_root \<times> held list \<times> bool \<Rightarrow> hub_root \<times> side_root \<times> held list \<times> bool" where
  "attach_held cfg info matching h st =
     (let (root, sr, stale, regressed) = st;
          cur = (case keyFor cfg root (h_path h) (s_location info) of
             None \<Rightarrow> None | Some (k, m) \<Rightarrow> map_of (hr_entries root) k)
      in if \<not> validPath (h_path h) \<or> check (h_entry h) \<noteq> None \<or> \<not> Live (h_entry h) \<or> \<not> keeps sr (h_path h) then st
         else if \<not> matching then (root, set_held (h_path h) 0 sr, stale @ [h], regressed)
         else if h_rev h > hr_rev root then
           (root\<lparr>hr_rev := h_rev h\<rparr>, set_held (h_path h) 0 sr, stale @ [h], True)
         else if (case cur of None \<Rightarrow> False | Some e \<Rightarrow> he_rev e = h_rev h \<and> \<not> Same (he_entry e) (h_entry h)) then
           (root, set_held (h_path h) 0 sr, stale @ [h], regressed)
         else (root, set_held (h_path h) (h_rev h) sr, stale, regressed))"

text \<open>The states the side lacks, and everything it holds, are looked at.\<close>

definition mark_lacking :: "int \<Rightarrow> string \<Rightarrow> key \<times> hub_entry \<Rightarrow> side_root \<Rightarrow> side_root" where
  "mark_lacking now loc ke sr =
     (let (k, e) = ke
      in if fst k \<noteq> [] \<and> fst k \<noteq> loc then sr
         else if Live (he_entry e) \<and> map_of (sr_held sr) (snd k) \<noteq> Some (he_rev e) then mark (snd k) now sr
         else sr)"

definition attach_root :: "hub_cfg \<Rightarrow> int \<Rightarrow> side_info \<Rightarrow> root_hello \<Rightarrow> hub_root \<Rightarrow> held list \<times> hub_root" where
  "attach_root cfg now info rh root =
     (let sr0 = (newSideRoot info)\<lparr>sr_only := if s_loginsOnly info then Some (locationScoped cfg root) else None\<rparr>
      in if hr_broken root \<noteq> None then ([], root\<lparr>hr_sides := AList.update (s_id info) sr0 (hr_sides root)\<rparr>)
         else
           let matching = (rh_epoch rh \<noteq> [] \<and> rh_epoch rh = hr_epoch root);
               (root1, sr1, stale, regressed) = fold (attach_held cfg info matching) (rh_held rh) (root, sr0, [], False);
               root2 = (if regressed then snd (putMeta root1) else root1);
               sr2 = fold (mark_lacking now (s_location info)) (hr_entries root2) sr1;
               sr3 = fold (\<lambda>(p, r). mark p now) (sr_held sr2) sr2
           in (stale, root2\<lparr>hr_sides := AList.update (s_id info) sr3 (hr_sides root2)\<rparr>))"

definition hello_for :: "hello \<Rightarrow> string \<Rightarrow> root_hello" where
  "hello_for hs name =
     (case map_of (rev (map (\<lambda>rh. (rh_root rh, rh)) hs)) name of
        None \<Rightarrow> \<lparr>rh_root = [], rh_epoch = [], rh_held = []\<rparr> | Some rh \<Rightarrow> rh)"

text \<open>Content the hub has not seen is processed as a change on no known state, and the path looked at
  again.\<close>

definition unseen_side :: "string \<Rightarrow> int \<Rightarrow> side_root \<Rightarrow> side_root" where
  "unseen_side p now sr = mark p now (set_held p 0 sr)"

definition take_unseen_held :: "hub_cfg \<Rightarrow> int \<Rightarrow> side_info \<Rightarrow> (nat \<Rightarrow> decide_env) \<times> (nat \<Rightarrow> hub_root \<Rightarrow> hub_root) \<Rightarrow>
    held \<Rightarrow> hub_root \<Rightarrow> hub_root" where
  "take_unseen_held cfg now info w h root =
     map_side (s_id info) (unseen_side (h_path h) now)
       (snd (process cfg (fst w) (snd w) info \<lparr>c_path = h_path h, c_base = 0, c_entry = h_entry h\<rparr> True root))"

fun take_unseen_all :: "hub_cfg \<Rightarrow> int \<Rightarrow> side_info \<Rightarrow> world \<Rightarrow> nat \<Rightarrow> (string \<times> held) list \<Rightarrow> hub \<Rightarrow> hub" where
  "take_unseen_all cfg now info run i [] h = h"
| "take_unseen_all cfg now info run i ((name, u) # rest) h =
     take_unseen_all cfg now info run (Suc i) rest (map_root name (take_unseen_held cfg now info (run i) u) h)"

definition Attach :: "hub_cfg \<Rightarrow> int \<Rightarrow> world \<Rightarrow> side_info \<Rightarrow> hello \<Rightarrow> hub \<Rightarrow> (sync_error + welcome_msg) \<times> hub" where
  "Attach cfg now run info hs h =
     (if s_id info = [] then (Inl (ErrOther ''sharesync: a side needs an id and a peer''), h)
      else
        let h1 = Detach (s_id info) h
        in if hb_closed h1 then (Inl ErrClosed, h1)
           else
             let s = \<lparr>hs_info = info, hs_cancelled = False, hs_downUntil = None, hs_downN = 0, hs_downErr = []\<rparr>;
                 outs = map (\<lambda>root. attach_root cfg now info (hello_for hs (hr_name root)) root) (hb_roots h1);
                 stale = concat (map (\<lambda>(st, root). map (\<lambda>u. (hr_name root, u)) st) outs);
                 h2 = h1\<lparr>hb_sides := AList.update (s_id info) s (hb_sides h1), hb_roots := map snd outs\<rparr>
             in (Inr (map (\<lambda>root. (hr_name root, hr_epoch root)) (hb_roots h1)),
                 take_unseen_all cfg now info run 0 stale h2))"

section \<open>Reports\<close>

fun report_all :: "hub_cfg \<Rightarrow> world \<Rightarrow> nat \<Rightarrow> side_info \<Rightarrow> bool \<Rightarrow> bool \<Rightarrow> change list \<Rightarrow> hub_root \<Rightarrow> ack list \<times> hub_root" where
  "report_all cfg run i info stale broken [] root = ([], root)"
| "report_all cfg run i info stale broken (c # cs) root =
     (let (a, root1) = (if broken then (ack_of c Deferred 0, root)
            else process cfg (fst (run i)) (snd (run i)) info c stale root);
          (acks, root2) = report_all cfg run (Suc i) info stale broken cs root1
      in (a # acks, root2))"

definition Report :: "hub_cfg \<Rightarrow> world \<Rightarrow> string \<Rightarrow> report \<Rightarrow> hub \<Rightarrow> (sync_error + reply) \<times> hub" where
  "Report cfg run side r h =
     (case map_of (hb_sides h) side of
        None \<Rightarrow> (Inl ErrNotAttached, h)
      | Some s \<Rightarrow>
          let changes = sortChanges (rp_changes r)
          in case root_named h (rp_root r) of
               None \<Rightarrow> (Inr \<lparr>ry_epoch = [], ry_acks = map (\<lambda>c. ack_of c Ignored 0) changes\<rparr>, h)
             | Some root \<Rightarrow>
                 let (acks, root') = report_all cfg run 0 (hs_info s) (rp_epoch r \<noteq> hr_epoch root)
                        (hr_broken root \<noteq> None) changes root
                 in (Inr \<lparr>ry_epoch = hr_epoch root, ry_acks = acks\<rparr>, map_root (rp_root r) (\<lambda>_. root') h))"

section \<open>Retrying\<close>

definition kick_side :: "side_root \<Rightarrow> side_root" where
  "kick_side sr = sr\<lparr>sr_paused := [], sr_retryAt := None, sr_backoff := (\<lambda>_. None), sr_wake := True\<rparr>"

definition Kick :: "string \<Rightarrow> hub \<Rightarrow> hub" where
  "Kick side h =
     (if map_of (hb_sides h) side = None then h
      else h\<lparr>hb_roots := map (map_side side kick_side) (hb_roots h),
             hb_sides := map (\<lambda>(i, s). (i, if i = side then s\<lparr>hs_downUntil := None, hs_downN := 0\<rparr> else s)) (hb_sides h)\<rparr>)"

section \<open>Flushing one side\<close>

text \<open>What a side is to get when a flush for it begins: by path, the rev and whether it is live.\<close>

type_synonym owing = "(string \<times> nat \<times> bool) list"

definition owed :: "hub_cfg \<Rightarrow> string \<Rightarrow> (string \<Rightarrow> string \<Rightarrow> bool) \<Rightarrow> hub_root \<Rightarrow> owing" where
  "owed cfg side want root =
     (case map_of (hr_sides root) side of
        None \<Rightarrow> []
      | Some sr \<Rightarrow>
          if hr_broken root \<noteq> None then []
          else fold (\<lambda>p acc. if \<not> want (hr_name root) p then acc
                else case opFor cfg root sr p of None \<Rightarrow> acc
                  | Some op \<Rightarrow> AList.update p (op_rev op, Live (op_entry op)) acc)
              (map fst (sr_dirty sr) @ map fst (sr_inflight sr)) [])"

definition waits :: "owing \<Rightarrow> side_root \<Rightarrow> string \<Rightarrow> bool" where
  "waits owes sr p =
     (case map_of owes p of
        None \<Rightarrow> False
      | Some (r, live) \<Rightarrow>
          (case map_of (sr_held sr) p of
             Some h \<Rightarrow> \<not> (h \<noteq> 0 \<and> h \<ge> r)
           | None \<Rightarrow> live))"

text \<open>What is still behind: changes over a root's cap, and each side with the number of paths to
  send it. The text of the lines is left out.\<close>

datatype pending_line = CapWait string nat | ToSend string string nat string

definition pending_side :: "hub_cfg \<Rightarrow> (string \<Rightarrow> string \<Rightarrow> bool) \<Rightarrow> (string \<Rightarrow> bool) \<Rightarrow> owing option \<Rightarrow> hub_root \<Rightarrow>
    string \<Rightarrow> side_root \<Rightarrow> (pending_line \<times> bool) option" where
  "pending_side cfg want down owes root sid sr =
     (let counts = (\<lambda>p. want (hr_name root) p \<and> (case owes of None \<Rightarrow> True | Some ow \<Rightarrow> waits ow sr p));
          ops = List.map_filter (\<lambda>p. case opFor cfg root sr p of
                None \<Rightarrow> None
              | Some op \<Rightarrow> if map_option fst (sr_blocked sr p) = Some (op_rev op) then None else Some op)
            (filter counts (map fst (sr_dirty sr)));
          flying = filter counts (map fst (sr_inflight sr));
          movable = (list_ex (\<lambda>op. sr_paused sr = [] \<or> e_kind (op_entry op) \<noteq> File) ops \<or> flying \<noteq> []);
          n = length ops + length flying
      in if n = 0 then None
         else Some (ToSend sid (hr_name root) n (sr_paused sr), movable \<and> \<not> down sid))"

definition pending_root :: "hub_cfg \<Rightarrow> string \<Rightarrow> (string \<Rightarrow> string \<Rightarrow> bool) \<Rightarrow> (string \<Rightarrow> bool) \<Rightarrow> (string \<Rightarrow> owing option) \<Rightarrow>
    hub_root \<Rightarrow> pending_line list \<times> bool" where
  "pending_root cfg side want down owes root =
     (if hr_broken root \<noteq> None then ([], True)
      else
        let held_n = length (filter (\<lambda>(i, p). want (hr_name root) p) (hr_holds root));
            ids = SortFunc (\<lambda>a b. fst a \<le> fst b) (filter (\<lambda>(i, sr). side = [] \<or> i = side) (hr_sides root));
            ps = List.map_filter (\<lambda>(i, sr). pending_side cfg want down (owes (hr_name root)) root i sr) ids
        in ((if held_n > 0 then [CapWait (hr_name root) held_n] else []) @ map fst ps, \<not> list_ex snd ps))"

definition pending :: "hub_cfg \<Rightarrow> string \<Rightarrow> (string \<Rightarrow> string \<Rightarrow> bool) \<Rightarrow> (string \<Rightarrow> bool) \<Rightarrow> (string \<Rightarrow> owing option) \<Rightarrow>
    hub \<Rightarrow> pending_line list \<times> bool" where
  "pending cfg side want down owes h =
     (let outs = map (pending_root cfg side want down owes) (hb_roots h)
      in (concat (map fst outs), list_all snd outs))"

text \<open>One look of a flush at what is behind: done, given up, or waiting for the next tick.\<close>

datatype flush_outcome = FlushDone | FlushBehind "string list" "pending_line list" | FlushWait

definition flush_look :: "hub_cfg \<Rightarrow> string \<Rightarrow> (string \<Rightarrow> string \<Rightarrow> bool) \<Rightarrow> (string \<Rightarrow> bool) \<Rightarrow> string list \<Rightarrow>
    (string \<Rightarrow> owing option) \<Rightarrow> bool \<Rightarrow> hub \<Rightarrow> flush_outcome" where
  "flush_look cfg side want down unreached owes expired h =
     (let (ls, stuck) = pending cfg side want down owes h
      in if ls = [] \<and> unreached = [] then FlushDone
         else if stuck \<or> expired then FlushBehind unreached ls
         else FlushWait)"

section \<open>Closing\<close>

definition close_root :: "hub_cfg \<Rightarrow> int \<Rightarrow> hub_root \<Rightarrow> hub_root" where
  "close_root cfg now root =
     (if hr_broken root \<noteq> None then root
      else let root1 = snd (compact cfg now root);
               (w, root2) = next_write root1;
               (e, j) = journal_close w (hr_journal root2)
           in root2\<lparr>hr_journal := j, hr_broken := Some ErrClosed\<rparr>)"

definition Close :: "hub_cfg \<Rightarrow> int \<Rightarrow> hub \<Rightarrow> hub" where
  "Close cfg now h =
     (if hb_closed h then h
      else let h1 = fold Detach (map fst (hb_sides h)) (h\<lparr>hb_closed := True\<rparr>)
           in h1\<lparr>hb_roots := map (close_root cfg now) (hb_roots h1)\<rparr>)"

end
