(* ===== verification/HubInv.thy ===== *)
theory HubInv
  imports HubRoot
begin

text \<open>
  The invariants of a hub root: its tallies are those of its entries, every live entry sits in a
  live folder, and every entry is well formed. Each operation of \<open>HubState\<close> and \<open>HubRoot\<close>
  keeps them, whatever the journal's writes do and whatever ran between a plan and its commit.
\<close>

section \<open>What each operation leaves alone\<close>

text \<open>The part of a root the invariants are about.\<close>

definition core :: "hub_root \<Rightarrow> (key \<times> hub_entry) list \<times> (string \<Rightarrow> int) \<times> int" where
  "core root = (hr_entries root, hr_children root, hr_total root)"

lemma core_map_side [simp]: "core (map_side i f root) = core root"
  by (simp add: core_def map_side_def)

lemma core_markDirty [simp]: "core (markDirty now k x root) = core root"
  by (simp add: core_def markDirty_def)

lemma core_held [simp]: "core (held side p cur root) = core root"
  by (simp add: held_def)

lemma core_root_put [simp]: "core (root_put jk v root) = core root"
  by (simp add: core_def root_put_def)

lemma core_next_write [simp]: "core (snd (next_write root)) = core root"
  by (simp add: core_def next_write_def split: list.split)

lemma core_next_snap [simp]: "core (snd (next_snap root)) = core root"
  by (simp add: core_def next_snap_def split: list.split)

lemma core_root_commit [simp]: "core (snd (root_commit root)) = core root"
  using core_next_write [of root] by (auto simp: core_def root_commit_def split: prod.splits)

lemma core_blob_put [simp]: "core (snd (blob_put now f d root)) = core root"
  by (simp add: core_def blob_put_def Let_def split: option.split)

lemma core_blob_remove [simp]: "core (blob_remove h root) = core root"
  by (simp add: core_def blob_remove_def)

lemma core_blob_gc [simp]: "core (blob_gc ks t root) = core root"
  by (simp add: core_def blob_gc_def)

lemma core_forget [simp]: "core (forget before kept root) = core root"
proof -
  have "core (fold (\<lambda>(r, h) rt. if h \<in> set (map snd kept) \<or> names rt h then rt else blob_remove h rt)
      xs rt) = core rt" for xs rt
    by (induction xs arbitrary: rt) (auto simp del: set_map)
  then show ?thesis by (simp add: forget_def)
qed

lemma core_holds [simp]: "core (root\<lparr>hr_holds := hs\<rparr>) = core root"
  by (simp add: core_def)

lemma core_conflicts [simp]: "core (root\<lparr>hr_conflicts := cs\<rparr>) = core root"
  by (simp add: core_def)

lemma core_drop_conflict [simp]: "core (drop_conflict i root) = core root"
  by (simp add: drop_conflict_def)

lemma core_journal [simp]: "core (root\<lparr>hr_journal := j\<rparr>) = core root"
  by (simp add: core_def)

lemma core_eqD:
  assumes "core a = core b"
  shows "hr_entries a = hr_entries b" "hr_children a = hr_children b" "hr_total a = hr_total b"
  using assms by (simp_all add: core_def)

section \<open>Tallies\<close>

abbreviation ents :: "hub_root \<Rightarrow> key \<Rightarrow> hub_entry option" where
  "ents root \<equiv> map_of (hr_entries root)"

definition child_weight :: "string \<Rightarrow> key \<times> hub_entry \<Rightarrow> int" where
  "child_weight p ke = (if Live (he_entry (snd ke)) \<and> path_Dir (snd (fst ke)) = p then 1 else 0)"

definition size_weight :: "key \<times> hub_entry \<Rightarrow> int" where
  "size_weight ke = liveSize (Some (snd ke))"

definition live_children :: "(key \<times> hub_entry) list \<Rightarrow> string \<Rightarrow> int" where
  "live_children es p = sum_list (map (child_weight p) es)"

definition live_total :: "(key \<times> hub_entry) list \<Rightarrow> int" where
  "live_total es = sum_list (map size_weight es)"

definition tallies_ok :: "hub_root \<Rightarrow> bool" where
  "tallies_ok root \<longleftrightarrow> distinct (map fst (hr_entries root)) \<and>
     (\<forall>p. hr_children root p = live_children (hr_entries root) p) \<and>
     hr_total root = wrap64 (live_total (hr_entries root))"

lemma tallies_core: "core a = core b \<Longrightarrow> tallies_ok a = tallies_ok b"
  by (simp add: core_def tallies_ok_def)

lemma live_children_nonneg: "0 \<le> live_children es p"
  unfolding live_children_def by (rule sum_list_nonneg_int) (simp add: child_weight_def)

lemma live_children_pos:
  assumes "ke \<in> set es" "Live (he_entry (snd ke))" "path_Dir (snd (fst ke)) = p"
  shows "0 < live_children es p"
proof -
  have "child_weight p ke \<le> live_children es p"
    unfolding live_children_def using assms(1)
    by (intro sum_list_member_le_int) (auto simp: child_weight_def)
  with assms show ?thesis by (simp add: child_weight_def)
qed

text \<open>\<open>root_count\<close> moves the tallies from the old state to the new one.\<close>

lemma root_count_fields:
  "hr_entries (root_count old e k root) = hr_entries root"
  "hr_rev (root_count old e k root) = hr_rev root"
  "hr_sides (root_count old e k root) = hr_sides root"
  "hr_journal (root_count old e k root) = hr_journal root"
  by (simp_all add: root_count_def recount_def uncount_def Let_def)

lemma tallies_root_count:
  assumes "tallies_ok root"
  shows "tallies_ok (root_count (ents root k) (Some ne) k
    (root\<lparr>hr_rev := r, hr_entries := AList.update k ne (hr_entries root)\<rparr>))" (is "tallies_ok ?r")
proof -
  let ?es = "hr_entries root"
  have d: "distinct (map fst ?es)" using assms by (simp add: tallies_ok_def)
  have cw: "live_children (AList.update k ne ?es) p = live_children ?es p
      - (case ents root k of None \<Rightarrow> 0 | Some w \<Rightarrow> child_weight p (k, w)) + child_weight p (k, ne)" for p
    unfolding live_children_def by (rule sum_alist_update [OF d])
  have sw: "live_total (AList.update k ne ?es) = live_total ?es
      - (case ents root k of None \<Rightarrow> 0 | Some w \<Rightarrow> size_weight (k, w)) + size_weight (k, ne)"
    unfolding live_total_def by (rule sum_alist_update [OF d])
  have pos: "0 < live_children ?es (path_Dir (snd k))" if "live_opt (ents root k)"
    using that by (auto simp: live_opt_def split: option.splits dest!: map_of_SomeD
        intro: live_children_pos)
  have "hr_children ?r p = live_children (AList.update k ne ?es) p" for p
    using assms pos
    by (auto simp: root_count_def recount_def uncount_def Let_def tallies_ok_def cw child_weight_def
        live_opt_def split: option.splits)
  moreover have "hr_total ?r = wrap64 (live_total (AList.update k ne ?es))"
    using assms
    by (auto simp: root_count_def recount_def uncount_def Let_def tallies_ok_def sw size_weight_def
        liveSize_def live_opt_def algebra_simps split: option.splits)
  ultimately show ?thesis
    using d by (simp add: tallies_ok_def root_count_fields)
qed

text \<open>Dropping entries that are not live leaves the tallies.\<close>

lemma tallies_filter:
  assumes "tallies_ok root" "\<And>ke. ke \<in> set (hr_entries root) \<Longrightarrow> \<not> P ke \<Longrightarrow> \<not> Live (he_entry (snd ke))"
    and "core root' = (filter P (hr_entries root), hr_children root, hr_total root)"
  shows "tallies_ok root'"
proof -
  have "live_children (filter P (hr_entries root)) p = live_children (hr_entries root) p" for p
    unfolding live_children_def
    by (rule sum_list_filter_zero) (use assms(2) in \<open>auto simp: child_weight_def\<close>)
  moreover have "live_total (filter P (hr_entries root)) = live_total (hr_entries root)"
    unfolding live_total_def
    by (rule sum_list_filter_zero) (use assms(2) in \<open>auto simp: size_weight_def liveSize_def\<close>)
  ultimately show ?thesis
    using assms(1,3) by (auto simp: tallies_ok_def core_def distinct_map_fst_filter)
qed

section \<open>The tree\<close>

text \<open>A live folder of the fleet-wide tree.\<close>

definition folder :: "hub_root \<Rightarrow> string \<Rightarrow> bool" where
  "folder root p \<longleftrightarrow> (\<exists>e. ents root ([], p) = Some e \<and> e_kind (he_entry e) = Dir)"

definition tree_ok :: "hub_root \<Rightarrow> bool" where
  "tree_ok root \<longleftrightarrow> (\<forall>k e. ents root k = Some e \<and> Live (he_entry e) \<longrightarrow>
     path_Dir (snd k) = ''.'' \<or> folder root (path_Dir (snd k)))"

definition entries_ok :: "hub_root \<Rightarrow> bool" where
  "entries_ok root \<longleftrightarrow> (\<forall>k e. ents root k = Some e \<longrightarrow> validPath (snd k) \<and> check (he_entry e) = None)"

definition hub_inv :: "hub_root \<Rightarrow> bool" where
  "hub_inv root \<longleftrightarrow> tallies_ok root \<and> tree_ok root \<and> entries_ok root"

lemma hub_inv_core: "core a = core b \<Longrightarrow> hub_inv a = hub_inv b"
  by (auto simp: hub_inv_def tallies_ok_def tree_ok_def entries_ok_def folder_def core_def)

lemma folder_core: "core a = core b \<Longrightarrow> folder a p = folder b p"
  by (simp add: folder_def core_def)

text \<open>No live entry has a parent with no children counted.\<close>

lemma no_children:
  assumes "tallies_ok root" "hr_children root p \<le> 0" "ents root k = Some e" "Live (he_entry e)"
  shows "path_Dir (snd k) \<noteq> p"
proof
  assume "path_Dir (snd k) = p"
  with assms(3,4) have "0 < live_children (hr_entries root) p"
    by (intro live_children_pos [of "(k, e)"]) (auto dest: map_of_SomeD)
  with assms(1,2) show False by (simp add: tallies_ok_def)
qed

section \<open>Compaction\<close>

lemma core_compact:
  "core (snd (compact cfg now root)) =
     (filter (\<lambda>ke. \<not> forgettable cfg now root ke) (hr_entries root), hr_children root, hr_total root)"
  (is "_ = (?kept, _)")
proof -
  let ?dropped = "filter (forgettable cfg now root) (hr_entries root)"
  define forgot where "forgot = fold (\<lambda>ke f. max f (he_rev (snd ke))) ?dropped (hr_forgot root)"
  define j where "j = fold (\<lambda>ke. journal_del (journalKey (fst ke))) ?dropped (hr_journal root)"
  define root1 where "root1 = root\<lparr>hr_entries := ?kept, hr_forgot := forgot\<rparr>"
  obtain w root2 where w: "next_write root1 = (w, root2)" by fastforce
  obtain sn root3 where sn: "next_snap root2 = (sn, root3)" by fastforce
  obtain e j' where jc: "journal_compact w sn ((metaKey, MetaRec (hr_epoch root) (hr_rev root) forgot)
      # map (\<lambda>ke. (journalKey (fst ke), EntryRec (snd ke))) ?kept) j = (e, j')" by fastforce
  have "core root3 = core root1"
    using core_next_write [of root1] core_next_snap [of root2] w sn by simp
  moreover have "core root1 = (?kept, hr_children root, hr_total root)"
    by (simp add: core_def root1_def)
  ultimately show ?thesis
    unfolding compact_def Let_def forgot_def [symmetric] j_def [symmetric] root1_def [symmetric]
    by (simp add: w sn jc)
qed

text \<open>Forgetting deletes keeps the invariant.\<close>

lemma hub_inv_filter:
  assumes "hub_inv root" "\<And>ke. ke \<in> set (hr_entries root) \<Longrightarrow> \<not> P ke \<Longrightarrow> \<not> Live (he_entry (snd ke))"
    and c: "core root' = (filter P (hr_entries root), hr_children root, hr_total root)"
  shows "hub_inv root' \<and> (\<forall>p. folder root p \<longrightarrow> folder root' p)"
proof -
  have d: "distinct (map fst (hr_entries root))" using assms(1) by (simp add: hub_inv_def tallies_ok_def)
  have e': "hr_entries root' = filter P (hr_entries root)" using c by (simp add: core_def)
  have sub: "ents root' k = Some e \<Longrightarrow> ents root k = Some e" for k e
    by (auto simp: e' map_of_filter_distinct [OF d] split: option.splits if_splits)
  have live: "ents root k = Some e \<Longrightarrow> Live (he_entry e) \<Longrightarrow> ents root' k = Some e" for k e
    using assms(2) [of "(k, e)"]
    by (auto simp: e' map_of_filter_distinct [OF d] dest: map_of_SomeD)
  have fol: "folder root p \<Longrightarrow> folder root' p" for p
    using live by (fastforce simp: folder_def Live_def)
  have "tree_ok root'"
    using assms(1) sub fol by (fastforce simp: hub_inv_def tree_ok_def)
  moreover have "entries_ok root'"
    using assms(1) sub by (fastforce simp: hub_inv_def entries_ok_def)
  ultimately show ?thesis
    using tallies_filter [OF _ assms(2,3)] assms(1) fol by (auto simp: hub_inv_def)
qed

lemma hub_inv_compact [inv_intros]:
  assumes "hub_inv root"
  shows "hub_inv (snd (compact cfg now root)) \<and>
    (\<forall>p. folder root p \<longrightarrow> folder (snd (compact cfg now root)) p)"
  by (rule hub_inv_filter [OF assms _ core_compact]) (simp add: forgettable_def)

section \<open>A new state of a path\<close>

text \<open>When the tree takes a state \<open>e\<close> at \<open>k\<close>: a live one needs its folder, and only a folder
  may replace one that has live children.\<close>

definition fits :: "hub_root \<Rightarrow> key \<Rightarrow> entry \<Rightarrow> bool" where
  "fits root k e \<longleftrightarrow> validPath (snd k) \<and> check e = None \<and>
     (Live e \<longrightarrow> path_Dir (snd k) = ''.'' \<or> folder root (path_Dir (snd k))) \<and>
     (fst k = [] \<and> folder root (snd k) \<and> e_kind e \<noteq> Dir \<longrightarrow> hr_children root (snd k) \<le> 0)"

lemma validPath_Dir_neq: "validPath p \<Longrightarrow> path_Dir p \<noteq> p"
  using path_Dir_valid validPath_elems by (metis less_irrefl validPath_def)

lemma hub_inv_update:
  assumes inv: "hub_inv root" and fit: "fits root k (he_entry ne)"
    and r': "root' = root_count (ents root k) (Some ne) k
      (root\<lparr>hr_rev := r, hr_entries := AList.update k ne (hr_entries root)\<rparr>)"
  shows "hub_inv root' \<and>
    (\<forall>p. folder root p \<and> (k \<noteq> ([], p) \<or> e_kind (he_entry ne) = Dir) \<longrightarrow> folder root' p)"
proof -
  have e': "ents root' = (ents root)(k \<mapsto> ne)" unfolding r' by (simp add: root_count_fields)
  have fol: "folder root' p" if "folder root p" "k \<noteq> ([], p) \<or> e_kind (he_entry ne) = Dir" for p
    using that by (auto simp: folder_def e')
  have "tallies_ok root'"
    unfolding r' using inv by (intro tallies_root_count) (simp add: hub_inv_def)
  moreover have "entries_ok root'"
    using inv fit by (auto simp: entries_ok_def hub_inv_def e' fits_def)
  moreover have "tree_ok root'"
    unfolding tree_ok_def
  proof (intro allI impI)
    fix k' e assume a: "ents root' k' = Some e \<and> Live (he_entry e)"
    show "path_Dir (snd k') = ''.'' \<or> folder root' (path_Dir (snd k'))"
    proof (cases "k' = k")
      case True
      with a e' fit fol [of "path_Dir (snd k)"] validPath_Dir_neq [of "snd k"] show ?thesis
        by (cases k) (auto simp: fits_def)
    next
      case False
      with a e' have old: "ents root k' = Some e" by simp
      with a inv have "path_Dir (snd k') = ''.'' \<or> folder root (path_Dir (snd k'))"
        unfolding hub_inv_def tree_ok_def by blast
      moreover have "folder root (path_Dir (snd k')) \<Longrightarrow>
          k \<noteq> ([], path_Dir (snd k')) \<or> e_kind (he_entry ne) = Dir"
        using no_children [of root "path_Dir (snd k')" k' e] inv fit old a
        by (cases k) (auto simp: fits_def hub_inv_def)
      ultimately show ?thesis using fol by blast
    qed
  qed
  ultimately show ?thesis using fol by (auto simp: hub_inv_def)
qed

abbreviation new_state :: "int \<Rightarrow> entry \<Rightarrow> string \<Rightarrow> nat \<Rightarrow> (nat \<times> string) list \<Rightarrow> hub_root \<Rightarrow> hub_entry" where
  "new_state now e origin base hist root \<equiv>
     \<lparr>he_entry = e, he_rev = succ64 (hr_rev root), he_origin = origin, he_base = base,
      he_at = now, he_hist = hist\<rparr>"

lemma setEntry_cases:
  assumes "setEntry cfg now k e origin base hist except root = (r, root')"
  obtains (Fail) err root1 where "root_commit (root_put (journalKey k)
        (EntryRec (new_state now e origin base hist root)) root) = (Some err, root1)"
      "r = None" "root' = root1"
  | (Done) root1 root3 where "root_commit (root_put (journalKey k)
        (EntryRec (new_state now e origin base hist root)) root) = (None, root1)"
      "r = Some (new_state now e origin base hist root)"
      "root3 = markDirty now k except (root_count (ents root k) (Some (new_state now e origin base hist root)) k
         (root1\<lparr>hr_rev := succ64 (hr_rev root),
            hr_entries := AList.update k (new_state now e origin base hist root) (hr_entries root1)\<rparr>))"
      "root' = root3 \<or> root' = snd (compact cfg now root3)"
proof -
  obtain err root1 where c: "root_commit (root_put (journalKey k)
        (EntryRec (new_state now e origin base hist root)) root) = (err, root1)" by fastforce
  show thesis
  proof (cases err)
    case None
    show thesis
      by (rule Done [OF c [unfolded None]])
        (use assms None in \<open>auto simp: setEntry_def Let_def c split: if_splits\<close>)
  next
    case (Some x)
    show thesis
      by (rule Fail [OF c [unfolded Some]]) (use assms Some in \<open>auto simp: setEntry_def Let_def c\<close>)
  qed
qed

lemma root_commit_core: "root_commit root = (err, root') \<Longrightarrow> core root' = core root"
  using core_root_commit [of root] by simp

text \<open>A state the tree takes keeps the invariant and every folder but the one it replaces.\<close>

lemma hub_inv_setEntry [inv_intros]:
  assumes inv: "hub_inv root" and fit: "fits root k e"
    and st: "setEntry cfg now k e origin base hist except root = (r, root')"
  shows "hub_inv root' \<and>
    (\<forall>p. folder root p \<and> (k \<noteq> ([], p) \<or> e_kind e = Dir) \<longrightarrow> folder root' p) \<and>
    (r \<noteq> None \<and> fst k = [] \<and> e_kind e = Dir \<longrightarrow> folder root' (snd k))"
  using st
proof (cases rule: setEntry_cases)
  case (Fail err root1)
  then have "core root' = core root" using root_commit_core by (metis core_root_put)
  with inv Fail show ?thesis using hub_inv_core folder_core by blast
next
  case (Done root1 root3)
  let ?ne = "new_state now e origin base hist root"
  let ?r = "root_count (ents root k) (Some ?ne) k
         (root1\<lparr>hr_rev := succ64 (hr_rev root), hr_entries := AList.update k ?ne (hr_entries root1)\<rparr>)"
  have c: "core root1 = core root" using Done(1) root_commit_core by (metis core_root_put)
  then have inv1: "hub_inv root1" and same: "hr_entries root1 = hr_entries root"
    "hr_children root1 = hr_children root" and fol: "folder root1 = folder root"
    using inv hub_inv_core core_eqD folder_core by blast+
  have "fits root1 k (he_entry ?ne)" using fit fol same by (simp add: fits_def)
  from hub_inv_update [OF inv1 this, of ?r] same
  have "hub_inv ?r \<and> (\<forall>p. folder root p \<and> (k \<noteq> ([], p) \<or> e_kind e = Dir) \<longrightarrow> folder ?r p)"
    by (auto simp: fol)
  moreover have "core root3 = core ?r" using Done(3) by simp
  ultimately have inv3: "hub_inv root3" and
    keep: "\<And>p. folder root p \<Longrightarrow> k \<noteq> ([], p) \<or> e_kind e = Dir \<Longrightarrow> folder root3 p"
    using hub_inv_core folder_core by blast+
  have "hr_entries root3 = AList.update k ?ne (hr_entries root1)"
    using Done(3) by (simp add: markDirty_def root_count_fields)
  then have new: "fst k = [] \<and> e_kind e = Dir \<Longrightarrow> folder root3 (snd k)"
    by (cases k) (simp add: folder_def)
  from Done(4) hub_inv_compact [OF inv3, of cfg now] inv3 keep new show ?thesis by blast
qed

section \<open>The shape check\<close>

definition shape_wf :: "shape_check \<Rightarrow> bool" where
  "shape_wf s \<longleftrightarrow> length (sc_resurrect s) = length (sc_modes s)"

lemma not_live_not_folder: "ents root ([], a) = Some e \<Longrightarrow> \<not> Live (he_entry e) \<Longrightarrow> \<not> folder root a"
  by (auto simp: folder_def Live_def)

lemma shape_up_result:
  assumes "\<not> sc_keep s" "shape_wf s"
  shows "shape_wf (shape_up root as s) \<and>
    (\<not> sc_keep (shape_up root as s) \<longrightarrow>
      sc_resurrect (shape_up root as s) = sc_resurrect s @ filter (\<lambda>a. \<not> folder root a) as)"
  using assms
proof (induction as arbitrary: s)
  case Nil
  then show ?case by simp
next
  case (Cons a as)
  show ?case
  proof (cases "ents root ([], a)")
    case None
    then have "\<not> folder root a" by (simp add: folder_def)
    with None Cons show ?thesis by (simp add: shape_wf_def)
  next
    case (Some e)
    show ?thesis
    proof (cases "Live (he_entry e)")
      case False
      with Some not_live_not_folder have "\<not> folder root a" by blast
      with Some False Cons show ?thesis by (simp add: shape_wf_def)
    next
      case True
      with Some Cons show ?thesis
        by (cases "e_kind (he_entry e) = Dir")
          (auto simp: shape_wf_def refuse_shape_def no_shape_def folder_def)
    qed
  qed
qed

lemma shape_wf_simps [simp]: "shape_wf no_shape" "shape_wf (refuse_shape r)"
  "shape_wf (s\<lparr>sc_keep := b, sc_reason := r\<rparr>) = shape_wf s"
  by (simp_all add: shape_wf_def no_shape_def refuse_shape_def)

lemma checkShape_wf [simp]: "shape_wf (checkShape root c cur)"
  using shape_up_result [of no_shape root "ancestors (c_path c)"]
  by (auto simp: checkShape_def no_shape_def split: option.split)
    (simp_all add: shape_wf_def)

lemma checkShape_delete:
  assumes "\<not> sc_keep (checkShape root c cur)" "\<not> Live (c_entry c)" "cur = Some e" "e_kind (he_entry e) = Dir"
  shows "hr_children root (c_path c) \<le> 0 \<and> sc_resurrect (checkShape root c cur) = []"
  using assms by (auto simp: checkShape_def no_shape_def split: if_splits)

lemma checkShape_live:
  assumes "\<not> sc_keep (checkShape root c cur)" "Live (c_entry c)"
  shows "(e_kind (c_entry c) \<noteq> Dir \<longrightarrow> hr_children root (c_path c) \<le> 0) \<and>
    sc_resurrect (checkShape root c cur) = filter (\<lambda>a. \<not> folder root a) (ancestors (c_path c))"
  using assms shape_up_result [of no_shape root "ancestors (c_path c)"]
  by (auto simp: checkShape_def no_shape_def refuse_shape_def shape_wf_def split: if_splits)

lemma checkShape_resurrect_valid:
  assumes "validPath (c_path c)"
  shows "list_all validPath (sc_resurrect (checkShape root c cur))"
proof -
  have "set (sc_resurrect (shape_up root as s)) \<subseteq> set (sc_resurrect s) \<union> set as" for as s
    by (induction as arbitrary: s)
      (fastforce split: option.splits if_splits simp: refuse_shape_def no_shape_def)+
  from this [of "ancestors (c_path c)" no_shape] ancestors_chain [OF assms] show ?thesis
    by (auto simp: checkShape_def list_all_iff no_shape_def refuse_shape_def split: option.splits)
qed

text \<open>Verdicts that compare equal name the same folders.\<close>

lemma join_strings_single: "join_strings [c] ps = join_with c ps"
  by (induction "[c]" ps rule: join_strings.induct) auto

lemma join_valid_inj:
  assumes "list_all validPath xs" "list_all validPath ys"
    and "join_strings [CHR 0x00] xs = join_strings [CHR 0x00] ys"
  shows "xs = ys"
proof -
  have ne: "join_with CHR 0x00 zs \<noteq> []" if "zs \<noteq> []" "list_all validPath zs" for zs
    using that validPath_elems valid_elems_nonempty
    by (cases "(CHR 0x00, zs)" rule: join_with.cases) auto
  have nosep: "\<forall>p \<in> set zs. CHR 0x00 \<notin> set p" if "list_all validPath zs" for zs
    using that by (auto simp: list_all_iff validPath_def)
  show ?thesis
  proof (cases "xs = [] \<or> ys = []")
    case True
    with assms ne show ?thesis by (auto simp: join_strings_single) (metis join_with.simps(1))+
  next
    case False
    with assms nosep show ?thesis by (metis join_strings_single split_join)
  qed
qed

section \<open>Bringing folders back\<close>

lemma check_dir: "check (gone_entry\<lparr>e_kind := Dir, e_mode := fileMode Dir md\<rparr>) = None"
  by (simp add: check_def fileMode_def gone_entry_def and.assoc)

lemma resurrect_inv:
  assumes "hub_inv root" "list_all validPath (done @ todo)"
    and "\<forall>xs a ys. done @ todo = xs @ a # ys \<longrightarrow> path_Dir a = ''.'' \<or> path_Dir a \<in> set xs"
    and "\<forall>a \<in> set done. folder root a" "\<forall>a \<in> set todo. \<not> N a \<longrightarrow> folder root a"
    and "length modes = length (filter N todo)"
    and "resurrect cfg now side (zip (filter N todo) modes) root = (ok, root')"
  shows "hub_inv root' \<and> (ok \<longrightarrow> (\<forall>a \<in> set (done @ todo). folder root' a)) \<and>
    (\<forall>p. folder root p \<longrightarrow> folder root' p)"
  using assms
proof (induction todo arbitrary: "done" root modes)
  case Nil
  then show ?case by auto
next
  case (Cons a todo)
  have par: "path_Dir a = ''.'' \<or> folder root (path_Dir a)"
    using Cons.prems(3,4) by (metis append_Cons)
  show ?case
  proof (cases "N a")
    case False
    with Cons.prems(5) have "folder root a" by simp
    with Cons.IH [of root "done @ [a]" modes] Cons.prems False show ?thesis by simp
  next
    case True
    then obtain md ms where ms: "modes = md # ms" using Cons.prems(6) by (cases modes) auto
    let ?e = "gone_entry\<lparr>e_kind := Dir, e_mode := fileMode Dir md\<rparr>"
    obtain r root1 where st: "setEntry cfg now ([], a) ?e side 0 [] [] root = (r, root1)" by fastforce
    have "fits root ([], a) ?e"
      using Cons.prems(2) par check_dir by (auto simp: fits_def)
    from hub_inv_setEntry [OF Cons.prems(1) this st]
    have inv1: "hub_inv root1" and keep: "\<And>p. folder root p \<Longrightarrow> folder root1 p"
      and new: "r \<noteq> None \<Longrightarrow> folder root1 a" by auto
    show ?thesis
    proof (cases r)
      case None
      with st True ms Cons.prems(7) inv1 keep show ?thesis by auto
    next
      case (Some ne)
      with st True ms Cons.prems(7) have
        "resurrect cfg now side (zip (filter N todo) ms) root1 = (ok, root')" by simp
      with Cons.IH [of root1 "done @ [a]" ms] Cons.prems inv1 keep new Some True ms show ?thesis
        by auto
    qed
  qed
qed

lemma children_setEntry:
  assumes "setEntry cfg now k e origin base hist except root = (r, root')" "q \<noteq> path_Dir (snd k)"
  shows "hr_children root' q = hr_children root q"
  using assms(1)
proof (cases rule: setEntry_cases)
  case (Fail err root1)
  then show ?thesis using root_commit_core core_eqD(2) by (metis core_root_put)
next
  case (Done root1 root3)
  have "hr_children root1 = hr_children root"
    using Done(1) root_commit_core core_eqD(2) by (metis core_root_put)
  then have "hr_children root3 q = hr_children root q"
    using Done(3) assms(2)
    by (simp add: markDirty_def root_count_def recount_def uncount_def Let_def)
  moreover have "hr_children (snd (compact cfg now root3)) = hr_children root3"
    using core_compact by (simp add: core_def)
  ultimately show ?thesis using Done(4) by auto
qed

lemma children_resurrect:
  "resurrect cfg now side rs root = (ok, root') \<Longrightarrow> \<forall>(a, md) \<in> set rs. q \<noteq> path_Dir a \<Longrightarrow>
   hr_children root' q = hr_children root q"
proof (induction cfg now side rs root rule: resurrect.induct)
  case (1 cfg now side root)
  then show ?case by simp
next
  case (2 cfg now side a md rest root)
  obtain r root1 where st: "setEntry cfg now ([], a) (gone_entry\<lparr>e_kind := Dir, e_mode := fileMode Dir md\<rparr>)
      side 0 [] [] root = (r, root1)" by fastforce
  have "hr_children root1 q = hr_children root q"
    using 2(3) by (intro children_setEntry [OF st]) simp
  with 2 st show ?case by (cases r) auto
qed

section \<open>Committing\<close>

definition plan_ok :: "plan \<Rightarrow> bool" where
  "plan_ok p \<longleftrightarrow> snd (p_k p) = c_path (p_c p) \<and> validPath (c_path (p_c p)) \<and> check (c_entry (p_c p)) = None \<and>
     shape_wf (p_shape p) \<and> list_all validPath (sc_resurrect (p_shape p))"

text \<open>What \<open>decide\<close> guarantees of a decision.\<close>

definition decided :: "plan \<Rightarrow> merge_result \<Rightarrow> plan_extra \<Rightarrow> bool" where
  "decided p res extra \<longleftrightarrow> (sc_keep (p_shape p) \<longrightarrow> mr_decision res = Keep) \<and>
     (mr_decision res = Merged \<longrightarrow> e_kind (c_entry (p_c p)) = File \<and> e_kind (x_merged extra) = File \<and>
        check (x_merged extra) = None)"

lemma hub_inv_rebase:
  assumes "hub_inv root" "ents root k = Some e" "he_entry e' = he_entry e"
    and "core root' = (AList.update k e' (hr_entries root), hr_children root, hr_total root)"
  shows "hub_inv root'"
proof -
  have d: "distinct (map fst (hr_entries root))" using assms(1) by (simp add: hub_inv_def tallies_ok_def)
  have es: "hr_entries root' = AList.update k e' (hr_entries root)" "hr_children root' = hr_children root"
    "hr_total root' = hr_total root" using assms(4) by (simp_all add: core_def)
  have w: "child_weight p (k, e') = child_weight p (k, e)" "size_weight (k, e') = size_weight (k, e)" for p
    using assms(3) by (simp_all add: child_weight_def size_weight_def liveSize_def)
  have "live_children (hr_entries root') p = live_children (hr_entries root) p" for p
    using sum_alist_update [OF d, of "child_weight p" k e'] assms(2) w
    by (simp add: live_children_def es)
  moreover have "live_total (hr_entries root') = live_total (hr_entries root)"
    using sum_alist_update [OF d, of size_weight k e'] assms(2) w by (simp add: live_total_def es)
  moreover have "folder root' p = folder root p" for p
    using assms(2,3) by (auto simp: folder_def es)
  moreover from this have "tree_ok root'"
    unfolding tree_ok_def es map_of_update using assms(1,2,3)
    by (auto simp: hub_inv_def tree_ok_def split: if_splits)
  ultimately show ?thesis
    using assms(1,2,3) d by (auto simp: hub_inv_def tallies_ok_def entries_ok_def es)
qed

lemma hub_inv_unvouch [inv_intros]:
  assumes "hub_inv root" "ents root k = Some e"
  shows "hub_inv (unvouch k e side root)"
proof (cases "he_origin e \<noteq> side \<or> he_base e = he_rev e")
  case True
  with assms show ?thesis by (simp add: unvouch_def)
next
  case False
  then show ?thesis
    unfolding unvouch_def Let_def
    using assms by (auto intro!: hub_inv_rebase [of root k e "e\<lparr>he_base := he_rev e\<rparr>"])
      (simp add: core_def)
qed

lemma hub_inv_commit_keep [inv_intros]:
  assumes "hub_inv root" "commit_keep now p (ents root (p_k p)) root = (a, root')"
  shows "hub_inv root'"
proof -
  let ?r = "map_side (s_id (p_side p)) (give_back (p_c p) now) root"
  have inv: "hub_inv ?r" using assms(1) by (simp add: hub_inv_core [of ?r root])
  have e: "ents ?r = ents root" by (simp add: map_side_def)
  show ?thesis
    using assms(2) inv hub_inv_unvouch [OF inv, of "p_k p"] e
    by (auto simp: commit_keep_def Let_def split: option.splits if_splits)
qed

lemma fits_after_resurrect:
  assumes inv: "hub_inv root" and p: "plan_ok p" and d: "decided p res extra"
    and shape: "shape_equal (checkShape root (p_c p) (ents root (p_k p))) (p_shape p)"
    and nk: "mr_decision res \<noteq> Keep"
    and rs: "resurrect cfg now side (zip (sc_resurrect (p_shape p)) (sc_modes (p_shape p))) root = (True, root1)"
  shows "fits root1 (p_k p) (if mr_decision res = Merged then x_merged extra else c_entry (p_c p))"
    (is "fits root1 _ ?e")
proof -
  let ?c = "p_c p" and ?path = "c_path (p_c p)" and ?sh = "checkShape root (p_c p) (ents root (p_k p))"
  have keep: "\<not> sc_keep ?sh" using d nk shape by (auto simp: decided_def shape_equal_def)
  have path: "validPath ?path" "snd (p_k p) = ?path" and wf: "shape_wf (p_shape p)"
    using p by (auto simp: plan_ok_def)
  have same: "sc_resurrect (p_shape p) = sc_resurrect ?sh"
    using join_valid_inj [of "sc_resurrect (p_shape p)" "sc_resurrect ?sh"] p shape
      checkShape_resurrect_valid [OF path(1)] by (auto simp: plan_ok_def shape_equal_def)
  have chk: "check ?e = None" using p d by (auto simp: plan_ok_def decided_def)
  note chain = ancestors_chain [OF path(1)]
  show ?thesis
  proof (cases "Live (c_entry ?c)")
    case True
    note live = checkShape_live [OF keep True]
    have anc: "\<forall>a \<in> set (ancestors ?path). folder root1 a"
      using resurrect_inv [of root "[]" "ancestors ?path" "\<lambda>a. \<not> folder root a" "sc_modes (p_shape p)"
          cfg now side True root1] inv chain live rs same wf
      by (auto simp: shape_wf_def)
    have "\<forall>(a, md) \<in> set (zip (sc_resurrect (p_shape p)) (sc_modes (p_shape p))). ?path \<noteq> path_Dir a"
    proof clarify
      fix a md assume "(a, md) \<in> set (zip (sc_resurrect (p_shape p)) (sc_modes (p_shape p)))"
        and eq: "?path = path_Dir a"
      then have "a \<in> set (ancestors ?path)" using same live set_zip_leftD by fastforce
      then obtain xs ys where "ancestors ?path = xs @ a # ys" by (meson split_list)
      then have "?path = ''.'' \<or> ?path \<in> set (ancestors ?path)" using chain eq by fastforce
      then show False using chain path(1) by (auto simp: validPath_def)
    qed
    then have "hr_children root1 ?path = hr_children root ?path"
      by (rule children_resurrect [OF rs])
    moreover have "e_kind ?e \<noteq> Dir \<Longrightarrow> e_kind (c_entry ?c) \<noteq> Dir"
      using d by (auto simp: decided_def)
    ultimately show ?thesis
      using path chk live anc chain by (auto simp: fits_def)
  next
    case False
    then have nm: "mr_decision res \<noteq> Merged" using d by (auto simp: decided_def Live_def)
    have "sc_resurrect ?sh = []"
      using False keep by (auto simp: checkShape_def no_shape_def split: option.splits if_splits)
    with rs same have r1: "root1 = root" by simp
    have "hr_children root ?path \<le> 0" if "fst (p_k p) = []" "folder root ?path"
    proof -
      have "p_k p = ([], ?path)" using that(1) path(2) by (cases "p_k p") auto
      with that(2) obtain e where "ents root (p_k p) = Some e" "e_kind (he_entry e) = Dir"
        by (auto simp: folder_def)
      with checkShape_delete [OF keep False] show ?thesis by blast
    qed
    with False nm path chk r1 show ?thesis by (auto simp: fits_def)
  qed
qed

lemma hub_inv_commit_change [inv_intros]:
  assumes inv: "hub_inv root" and p: "plan_ok p" and d: "decided p res extra"
    and shape: "shape_equal (checkShape root (p_c p) (ents root (p_k p))) (p_shape p)"
    and nk: "mr_decision res \<noteq> Keep"
    and st: "commit_change cfg now p res extra now_e root = (a, root')"
  shows "hub_inv root'"
proof -
  let ?rs = "zip (sc_resurrect (p_shape p)) (sc_modes (p_shape p))"
  let ?e = "if mr_decision res = Merged then x_merged extra else c_entry (p_c p)"
  obtain ok root1 where rs: "resurrect cfg now (s_id (p_side p)) ?rs root = (ok, root1)" by fastforce
  have inv1: "hub_inv root1"
  proof (cases "sc_resurrect (p_shape p) = []")
    case True
    with rs inv show ?thesis by simp
  next
    case False
    have keep: "\<not> sc_keep (checkShape root (p_c p) (ents root (p_k p)))"
      using d nk shape by (auto simp: decided_def shape_equal_def)
    have v: "validPath (c_path (p_c p))" using p by (simp add: plan_ok_def)
    have same: "sc_resurrect (p_shape p) = sc_resurrect (checkShape root (p_c p) (ents root (p_k p)))"
      using join_valid_inj [of "sc_resurrect (p_shape p)"
          "sc_resurrect (checkShape root (p_c p) (ents root (p_k p)))"] p shape
        checkShape_resurrect_valid [OF v] by (auto simp: plan_ok_def shape_equal_def)
    have live: "Live (c_entry (p_c p))"
      using False same keep by (auto simp: checkShape_def no_shape_def split: option.splits if_splits)
    from resurrect_inv [of root "[]" "ancestors (c_path (p_c p))" "\<lambda>a. \<not> folder root a"
        "sc_modes (p_shape p)" cfg now "s_id (p_side p)" ok root1] inv ancestors_chain [OF v]
      checkShape_live [OF keep live] same rs p
    show ?thesis by (auto simp: plan_ok_def shape_wf_def)
  qed
  show ?thesis
  proof (cases ok)
    case False
    with st rs inv1 show ?thesis by (simp add: commit_change_def)
  next
    case True
    define hist where "hist = new_hist p now_e ?e (x_hist extra) (succ64 (hr_rev root1))"
    define origin where "origin = (if mr_decision res = Merged then [] else s_id (p_side p))"
    obtain r root2 where se: "setEntry cfg now (p_k p) ?e origin (c_base (p_c p)) hist origin root1 = (r, root2)"
      by fastforce
    from rs True have "resurrect cfg now (s_id (p_side p)) ?rs root = (True, root1)" by simp
    from fits_after_resurrect [OF inv p d shape nk this] have "fits root1 (p_k p) ?e" .
    with hub_inv_setEntry [OF inv1 _ se] have "hub_inv root2" by blast
    moreover have "core root' = core root2"
      using st rs True se
      unfolding commit_change_def Let_def hist_def [symmetric] origin_def [symmetric]
      by (auto simp: hist_def [symmetric] split: option.splits if_splits)
    ultimately show ?thesis using hub_inv_core by blast
  qed
qed

lemma hub_inv_commitPlan [inv_intros]:
  assumes inv: "hub_inv root" and p: "plan_ok p" and d: "decided p res extra"
    and st: "commitPlan cfg now p res extra root = (a, root')"
  shows "hub_inv root'"
proof -
  let ?now = "ents root (p_k p)"
  have "hub_inv r" if "commit_change cfg now p res extra ?now root = (x, r)" "mr_decision res \<noteq> Keep"
      "shape_equal (checkShape root (p_c p) ?now) (p_shape p)" for x r
    using hub_inv_commit_change [OF inv p d that(3,2,1)] .
  moreover have "hub_inv r" if "commit_keep now p ?now root = (x, r)" for x r
    using hub_inv_commit_keep [OF inv that] .
  moreover have "hub_inv (root\<lparr>hr_holds := hs\<rparr>)" for hs
    using inv hub_inv_core [of "root\<lparr>hr_holds := hs\<rparr>" root] by simp
  ultimately show ?thesis
    using st inv by (auto simp: commitPlan_def Let_def split: if_splits prod.splits)
qed

section \<open>Planning and deciding\<close>

text \<open>The root once a report is noted, and the outcome of planning on it.\<close>

abbreviation noted :: "side_info \<Rightarrow> change \<Rightarrow> hub_root \<Rightarrow> hub_root" where
  "noted side c root \<equiv> (map_side (s_id side) (note_report (c_path c)) root)
     \<lparr>hr_holds := removeAll (s_id side, c_path c) (hr_holds root)\<rparr>"

lemma noted_ents [simp]: "hr_entries (noted side c root) = hr_entries root"
  by (simp add: map_side_def)

lemma prepare_InrD:
  assumes "prepare now k m side c base root = (Inr p, root')"
  shows "root' = noted side c root \<and> hr_broken root = None \<and>
    p_k p = k \<and> p_m p = m \<and> p_side p = side \<and> p_c p = c \<and> p_base p = base \<and> p_cur p = ents root k \<and>
    p_shape p = checkShape root' c (ents root k) \<and>
    (hr_writer root' = [] \<or> s_id side = hr_writer root') \<and>
    \<not> (e_kind (c_entry c) = File \<and> overCap root' (e_size (c_entry c)) (ents root k))"
  using assms unfolding prepare_def Let_def noted_ents
  by (simp only: split: if_split_asm) auto

lemma prepare_InlD:
  assumes "prepare now k m side c base root = (Inl a, root')"
  shows "root' = root \<or> root' = noted side c root \<or>
    root' = held side (c_path c) (the (ents root k)) (noted side c root) \<or>
    root' = map_side (s_id side) (give_back c now) (noted side c root) \<or>
    root' = (noted side c root)\<lparr>hr_holds := (s_id side, c_path c) # hr_holds (noted side c root)\<rparr>"
  using assms unfolding prepare_def Let_def noted_ents
  by (simp only: prod.inject sum.inject sum.distinct simp_thms split: if_split_asm)

lemma prepare_core:
  assumes "prepare now k m side c base root = (r, root')"
  shows "core root' = core root"
proof -
  have n: "core (noted side c root) = core root" by simp
  show ?thesis
  proof (cases r)
    case (Inl a)
    from prepare_InlD [OF assms [unfolded Inl]] n show ?thesis
      by (elim disjE) (simp_all only: core_held core_map_side core_holds)
  next
    case (Inr p)
    from prepare_InrD [OF assms [unfolded Inr]] n show ?thesis by (simp only:)
  qed
qed

lemma prepare_plan:
  assumes "prepare now k m side c base root = (Inr p, root')" "validPath (c_path c)" "check (c_entry c) = None"
    and "snd k = c_path c"
  shows "plan_ok p \<and> p_k p = k \<and> p_m p = m \<and> p_side p = side \<and> p_c p = c \<and> p_cur p = ents root k"
  using prepare_InrD [OF assms(1)] assms(2-4) checkShape_resurrect_valid [of c] by (simp add: plan_ok_def)

lemma blob_put_core: "blob_put t f data root = (x, rt) \<Longrightarrow> core rt = core root"
  using core_blob_put [of t f data root] by simp

lemma keepConflict_core: "keepConflict env p res root = (x, rt) \<Longrightarrow> core rt = core root"
  unfolding keepConflict_def Let_def
  by (simp split: option.split_asm prod.split_asm kind.split_asm sum.split_asm if_split_asm) auto

text \<open>\<open>decide\<close> as the chain of its steps.\<close>

lemma decide_InrD:
  assumes "decide env p root = (Inr (res, extra), root')"
  obtains x1 root1 x2 root2 where "policy_result env root p = Inr res"
    "decide_merged env p res root = (Inr x1, root1)"
    "decide_conflict env p res x1 root1 = (Inr x2, root2)"
    "decide_hist env p res (mi_incoming (merge_input_of env root p)) x2 root2 = (Inr extra, root')"
proof -
  obtain res' where pr: "policy_result env root p = Inr res'"
    using assms by (cases "policy_result env root p") (auto simp: decide_def)
  obtain x1 root1 where m: "decide_merged env p res' root = (Inr x1, root1)"
    using assms pr by (cases "decide_merged env p res' root" rule: prod.exhaust; cases "fst (decide_merged env p res' root)")
      (auto simp: decide_def)
  obtain x2 root2 where c: "decide_conflict env p res' x1 root1 = (Inr x2, root2)"
    using assms pr m by (cases "decide_conflict env p res' x1 root1" rule: prod.exhaust;
        cases "fst (decide_conflict env p res' x1 root1)") (auto simp: decide_def)
  from assms pr m c show thesis
    by (auto simp: decide_def split: prod.splits sum.splits intro: that)
qed

lemma decide_core:
  assumes "decide env p root = (r, root')"
  shows "core root' = core root"
proof -
  have m: "core rt = core root" if "decide_merged env p res root = (x, rt)" for res x rt root
    using that by (auto simp: decide_merged_def Let_def split: if_splits prod.splits sum.splits dest: blob_put_core)
  have c: "core rt = core root" if "decide_conflict env p res x1 root = (x, rt)" for res x x1 rt root
    using that by (auto simp: decide_conflict_def split: if_splits prod.splits sum.splits dest: keepConflict_core)
  have h: "core rt = core root" if "decide_hist env p res v x1 root = (x, rt)" for res v x x1 rt root
    using that by (auto simp: decide_hist_def split: if_splits prod.splits sum.splits dest: blob_put_core)
  show ?thesis
    using assms by (auto simp: decide_def split: sum.splits prod.splits dest!: m c h)
qed

lemma merged_entry_ok:
  assumes "\<And>cur. p_cur p = Some cur \<Longrightarrow> check (he_entry cur) = None"
  shows "e_kind (merged_entry now p content (hashOf d)) = File \<and>
    check (merged_entry now p content (hashOf d)) = None"
proof (cases "p_cur p")
  case None
  then show ?thesis by (simp add: merged_entry_def check_def fileMode_def and.assoc maxGrew_def Let_def)
next
  case (Some cur')
  let ?d = "he_entry cur'"
  let ?e = "\<lparr>e_kind = File, e_mode = fileMode File (e_mode (c_entry (p_c p))), e_size = int (length content),
     e_mtime = max (max (e_mtime (c_entry (p_c p))) now) (e_mtime ?d), e_hash = hashOf d, e_target = [], e_grew = []\<rparr>"
  have mode: "fileMode File (fileMode File x) = fileMode File x" for x
    by (simp add: fileMode_def and.assoc)
  have "list_all (\<lambda>g. \<not> bad_growth (grownFrom ?e ?d) g) (e_grew (grownFrom ?e ?d))"
    if "e_kind ?d = File" "e_size ?d < e_size ?e" "check ?d = None"
  proof -
    have "set (e_grew (grownFrom ?e ?d)) \<subseteq> set (e_grew ?d) \<union> {\<lparr>g_size = e_size ?d, g_hash = e_hash ?d\<rparr>}"
      by (auto simp: grownFrom_def Let_def dest: in_set_dropD)
    moreover have "\<not> bad_growth (grownFrom ?e ?d) g" if "g \<in> set (e_grew ?d)" for g
      using that \<open>e_size ?d < e_size ?e\<close> \<open>check ?d = None\<close> \<open>e_kind ?d = File\<close>
      by (auto simp: check_def bad_growth_def list_ex_iff split: if_splits)
    moreover have "\<not> bad_growth (grownFrom ?e ?d) \<lparr>g_size = e_size ?d, g_hash = e_hash ?d\<rparr>"
      using that by (auto simp: check_def bad_growth_def split: if_splits)
    ultimately show ?thesis by (auto simp: list_all_iff)
  qed
  then have "check (grownFrom ?e ?d) = None"
    if "e_kind ?d = File" "e_size ?d < e_size ?e" "check ?d = None"
    using that grownFrom_length [of ?e ?d] mode
    by (auto simp: check_def list_ex_iff list_all_iff)
  moreover have "check ?e = None" using mode by (simp add: check_def maxGrew_def)
  ultimately show ?thesis
    using assms Some by (auto simp: merged_entry_def Let_def)
qed

lemma decide_decided:
  assumes "decide env p root = (Inr (res, extra), root')" "sync_merge (m_merge (p_m p))"
    and "\<And>cur. p_cur p = Some cur \<Longrightarrow> check (he_entry cur) = None"
  shows "decided p res extra"
  using assms(1)
proof (rule decide_InrD)
  fix x1 root1 x2 root2
  assume pr: "policy_result env root p = Inr res" and m: "decide_merged env p res root = (Inr x1, root1)"
    and c: "decide_conflict env p res x1 root1 = (Inr x2, root2)"
    and h: "decide_hist env p res (mi_incoming (merge_input_of env root p)) x2 root2 = (Inr extra, root')"
  have keep: "sc_keep (p_shape p) \<Longrightarrow> mr_decision res = Keep"
    using pr by (auto simp: policy_result_def)
  show ?thesis
  proof (cases "mr_decision res = Merged")
    case False
    with keep show ?thesis by (simp add: decided_def)
  next
    case True
    then have "m_merge (p_m p) (merge_input_of env root p) = Inr res"
      using pr by (auto simp: policy_result_def split: if_splits)
    with sync_merge.merged_files [OF assms(2)] True have isf: "e_kind (c_entry (p_c p)) = File"
      by (fastforce simp: merge_input_of_def)
    obtain d where "x_merged x1 = merged_entry (de_now env) p (mr_content res) (hashOf d)"
      using m True by (auto simp: decide_merged_def Let_def blob_put_def split: if_splits option.splits)
    moreover have "x_merged x2 = x_merged x1"
      using c by (auto simp: decide_conflict_def split: if_splits prod.splits sum.splits)
    moreover have "x_merged extra = x_merged x2"
      using h True by (auto simp: decide_hist_def)
    ultimately show ?thesis
      using keep isf merged_entry_ok [of p, OF assms(3)] by (simp add: decided_def)
  qed
qed

section \<open>The loop\<close>

text \<open>The configuration the hub runs with: every policy it uses keeps the contract.\<close>

locale hub_policies =
  fixes cfg :: hub_cfg
  assumes contract: "cf_policies cfg pol = Some m \<Longrightarrow> sync_merge (m_merge m)"
begin

lemma merger_contract: "merger_for cfg root p = Some m \<Longrightarrow> sync_merge (m_merge m)"
  using contract by (auto simp: merger_for_def split: option.splits if_splits)

lemma process_rounds_inv:
  assumes "hub_inv root" "validPath (c_path c)" "check (c_entry c) = None" "snd k = c_path c"
    and "sync_merge (m_merge m)" "\<And>i r. hub_inv r \<Longrightarrow> hub_inv (others i r)"
    and "process_rounds n cfg env others k m side c base root = (a, root')"
  shows "hub_inv root'"
  using assms
proof (induction n arbitrary: root)
  case 0
  then show ?case by simp
next
  case (Suc n)
  obtain r root1 where pr: "prepare (de_now (env n)) k m side c base root = (r, root1)" by fastforce
  then have inv1: "hub_inv root1" using Suc.prems(1) prepare_core hub_inv_core by blast
  show ?case
  proof (cases r)
    case (Inl ak)
    with Suc.prems(7) have "root' = root1"
      by (simp only: process_rounds.simps pr prod.case sum.case prod.inject)
    with inv1 show ?thesis by simp
  next
    case (Inr p)
    note po = prepare_plan [OF pr [unfolded Inr] Suc.prems(2,3,4)]
    obtain d root2 where de: "decide (env n) p root1 = (d, root2)" by fastforce
    then have inv2: "hub_inv root2" using inv1 decide_core hub_inv_core by blast
    show ?thesis
    proof (cases d)
      case (Inl e)
      with Suc.prems(7) have "root' = root2"
        by (simp only: process_rounds.simps pr Inr de prod.case sum.case prod.inject)
      with inv2 show ?thesis by simp
    next
      case (Inr re)
      obtain res extra where re: "re = (res, extra)" by fastforce
      have "check (he_entry cur) = None" if "p_cur p = Some cur" for cur
        using that po Suc.prems(1) unfolding hub_inv_def entries_ok_def by metis
      moreover have "sync_merge (m_merge (p_m p))" using po Suc.prems(5) by simp
      ultimately have dd: "decided p res extra"
        using decide_decided [OF de [unfolded Inr re]] by blast
      obtain ao root3 where cp: "commitPlan cfg (de_now (env n)) p res extra (others n root2) = (ao, root3)"
        by fastforce
      have inv3: "hub_inv root3"
        by (rule hub_inv_commitPlan [OF Suc.prems(6) [OF inv2] _ dd cp]) (use po in simp)
      have inv4: "hub_inv (drop_conflict i root3)" for i
        using inv3 hub_inv_core [of "drop_conflict i root3" root3] by simp
      let ?next = "if x_conflict extra \<noteq> [] then drop_conflict (x_conflict extra) root3 else root3"
      have inv5: "hub_inv ?next" using inv3 inv4 by simp
      show ?thesis
      proof (cases ao)
        case None
        with Suc.prems(7) have "process_rounds n cfg env others k m side c base ?next = (a, root')"
          by (simp only: process_rounds.simps pr \<open>r = Inr p\<close> de Inr re cp prod.case sum.case option.case)
        with Suc.IH [OF inv5 Suc.prems(2-5)] Suc.prems(6) show ?thesis by blast
      next
        case (Some x)
        with Suc.prems(7) have "root' = (if a_status x = Deferred \<and> x_conflict extra \<noteq> []
            then drop_conflict (x_conflict extra) root3 else root3)"
          by (simp only: process_rounds.simps pr \<open>r = Inr p\<close> de Inr re cp prod.case sum.case
              option.case prod.inject) blast
        with inv3 inv4 show ?thesis by simp
      qed
    qed
  qed
qed

lemma process_inv:
  assumes "hub_inv root" "\<And>i r. hub_inv r \<Longrightarrow> hub_inv (others i r)"
    and "process cfg env others side c stale root = (a, root')"
  shows "hub_inv root'"
proof (cases "validPath (c_path c) \<and> check (c_entry c) = None")
  case False
  with assms show ?thesis by (auto simp: process_def)
next
  case True
  show ?thesis
  proof (cases "keyFor cfg root (c_path c) (s_location side)")
    case None
    with True assms show ?thesis by (simp add: process_def)
  next
    case (Some km)
    obtain k m where km: "km = (k, m)" by fastforce
    with Some have km': "snd k = c_path c" "sync_merge (m_merge m)"
      using merger_contract by (auto simp: keyFor_def split: option.splits)
    have inv: "hub_inv r" if "process_rounds n cfg env others k m side c base root = (x, r)" for n base x r
      by (rule process_rounds_inv [OF assms(1) _ _ km' _ that]) (use True assms(2) in auto)
    from assms(3) have "(a, root') = (if s_loginsOnly side \<and> m_scope m \<noteq> ScopeLocation then (ack_of c Ignored 0, root)
        else process_rounds 4 cfg env others k m side c (if stale then 0 else c_base c) root)"
      unfolding process_def Some km option.case prod.case using True
      by (simp del: process_rounds.simps split del: if_split)
    with inv [of 4, OF sym] assms(1) show ?thesis
      by (cases "s_loginsOnly side \<and> m_scope m \<noteq> ScopeLocation") (auto simp del: process_rounds.simps)
  qed
qed

end

end
