(* ===== verification/Json.thy ===== *)
theory Json
  imports GoStrings
begin

text \<open>
  What the sources use of \<open>encoding/json\<close>: the grammar its scanner accepts (RFC 8259, at most
  10000 containers deep), with strings decoded as \<open>Unmarshal\<close> decodes them (escapes, surrogate
  pairs, and U+FFFD for what is not UTF-8), and the case-insensitive field names of a struct.
  Numbers keep their text. The parsers take fuel: each call is made on a shorter rest, so the
  length of the input is enough (\<open>json_fuel\<close>).
\<close>

section \<open>Data\<close>

datatype json = JNull | JBool bool | JNum string | JStr string | JArr "json list"
  | JObj "(string \<times> json) list"

definition is_ws :: "char \<Rightarrow> bool" where
  "is_ws c \<longleftrightarrow> c = CHR '' '' \<or> c = CHR 0x09 \<or> c = CHR 0x0A \<or> c = CHR 0x0D"

definition skip_ws :: "string \<Rightarrow> string" where
  "skip_ws s = dropWhile is_ws s"

definition is_hexd :: "char \<Rightarrow> bool" where
  "is_hexd c \<longleftrightarrow> byte_in 48 57 c \<or> byte_in 97 102 c \<or> byte_in 65 70 c"

definition is_dig :: "char \<Rightarrow> bool" where
  "is_dig c \<longleftrightarrow> byte_in 48 57 c"

section \<open>Strings\<close>

text \<open>The body of a string after its opening quote, as spelt, and what follows the closing one.\<close>

fun scan_str :: "string \<Rightarrow> (string \<times> string) option" where
  "scan_str [] = None"
| "scan_str (c # s) =
     (if c = CHR 0x22 then Some ([], s)
      else if byte_in 0 31 c then None
      else if c = CHR 0x5C then
        (case s of [] \<Rightarrow> None
         | e # s' \<Rightarrow>
             if e \<in> {CHR ''b'', CHR ''f'', CHR ''n'', CHR ''r'', CHR ''t'', CHR 0x5C, CHR ''/'', CHR 0x22}
             then map_option (\<lambda>(b, r). (c # e # b, r)) (scan_str s')
             else if e = CHR ''u'' then
               (if length s' \<ge> 4 \<and> list_all is_hexd (take 4 s')
                then map_option (\<lambda>(b, r). (c # e # b, r)) (scan_str s') else None)
             else None)
      else map_option (\<lambda>(b, r). (c # b, r)) (scan_str s))"

definition hex_val :: "char \<Rightarrow> nat" where
  "hex_val c = (let n = of_char c :: nat in if n \<le> 57 then n - 48 else if n \<le> 70 then n - 55 else n - 87)"

definition hex4 :: "string \<Rightarrow> nat" where
  "hex4 s = foldl (\<lambda>a c. 16 * a + hex_val c) 0 (take 4 s)"

definition utf8_encode :: "nat \<Rightarrow> string" where
  "utf8_encode r =
     (if r < 0x80 then [char_of r]
      else if r < 0x800 then [char_of (0xC0 + r div 64), char_of (0x80 + r mod 64)]
      else if r < 0x10000 then
        [char_of (0xE0 + r div 4096), char_of (0x80 + r div 64 mod 64), char_of (0x80 + r mod 64)]
      else [char_of (0xF0 + r div 262144), char_of (0x80 + r div 4096 mod 64),
            char_of (0x80 + r div 64 mod 64), char_of (0x80 + r mod 64)])"

text \<open>The length of the character at the head, 0 when the bytes are not UTF-8.\<close>

definition rune_len :: "string \<Rightarrow> nat" where
  "rune_len s =
     (if s = [] then 0
      else if utf8_valid (take 1 s) then 1
      else if length s \<ge> 2 \<and> utf8_valid (take 2 s) then 2
      else if length s \<ge> 3 \<and> utf8_valid (take 3 s) then 3
      else if length s \<ge> 4 \<and> utf8_valid (take 4 s) then 4 else 0)"

definition replacement :: string where
  "replacement = [CHR 0xEF, CHR 0xBF, CHR 0xBD]"

definition unescape :: "char \<Rightarrow> char" where
  "unescape e =
     (if e = CHR ''b'' then CHR 0x08 else if e = CHR ''f'' then CHR 0x0C else if e = CHR ''n'' then CHR 0x0A
      else if e = CHR ''r'' then CHR 0x0D else if e = CHR ''t'' then CHR 0x09 else e)"

text \<open>\<open>unquote\<close>: the value of a string body.\<close>

fun unquote :: "nat \<Rightarrow> string \<Rightarrow> string" where
  "unquote 0 s = []"
| "unquote (Suc n) s =
     (case s of [] \<Rightarrow> []
      | c # s' \<Rightarrow>
          if c = CHR 0x5C then
            (case s' of [] \<Rightarrow> []
             | e # r \<Rightarrow>
                 if e = CHR ''u'' then
                   (let v = hex4 r; r' = drop 4 r
                    in if 0xD800 \<le> v \<and> v < 0xE000 then
                         (if v < 0xDC00 \<and> take 2 r' = [CHR 0x5C, CHR ''u''] \<and>
                             0xDC00 \<le> hex4 (drop 2 r') \<and> hex4 (drop 2 r') < 0xE000
                          then utf8_encode (0x10000 + (v - 0xD800) * 1024 + (hex4 (drop 2 r') - 0xDC00))
                            @ unquote n (drop 6 r')
                          else replacement @ unquote n r')
                       else utf8_encode v @ unquote n r')
                 else unescape e # unquote n r)
          else let k = rune_len s
               in if k = 0 then replacement @ unquote n s' else take k s @ unquote n (drop k s))"

definition unquoted :: "string \<Rightarrow> string" where
  "unquoted body = unquote (length body) body"

section \<open>Numbers and literals\<close>

definition scan_digits :: "string \<Rightarrow> (string \<times> string) option" where
  "scan_digits s =
     (let ds = takeWhile is_dig s in if ds = [] then None else Some (ds, dropWhile is_dig s))"

definition scan_int :: "string \<Rightarrow> (string \<times> string) option" where
  "scan_int s =
     (case s of [] \<Rightarrow> None
      | c # r \<Rightarrow> if c = CHR ''0'' then Some ([c], r) else scan_digits s)"

definition scan_frac :: "string \<Rightarrow> (string \<times> string) option" where
  "scan_frac s =
     (case s of [] \<Rightarrow> Some ([], [])
      | c # r \<Rightarrow> if c = CHR ''.'' then map_option (\<lambda>(d, t). (c # d, t)) (scan_digits r) else Some ([], s))"

definition scan_exp :: "string \<Rightarrow> (string \<times> string) option" where
  "scan_exp s =
     (case s of [] \<Rightarrow> Some ([], [])
      | c # r \<Rightarrow>
          if c = CHR ''e'' \<or> c = CHR ''E'' then
            (case r of [] \<Rightarrow> None
             | g # r' \<Rightarrow>
                 if g = CHR ''+'' \<or> g = CHR ''-''
                 then map_option (\<lambda>(d, t). (c # g # d, t)) (scan_digits r')
                 else map_option (\<lambda>(d, t). (c # d, t)) (scan_digits r))
          else Some ([], s))"

definition scan_number :: "string \<Rightarrow> (string \<times> string) option" where
  "scan_number s =
     (let (sg, s1) = (case s of c # r \<Rightarrow> if c = CHR ''-'' then ([c], r) else ([], s) | [] \<Rightarrow> ([], s))
      in case scan_int s1 of None \<Rightarrow> None
         | Some (i, s2) \<Rightarrow>
             (case scan_frac s2 of None \<Rightarrow> None
              | Some (f, s3) \<Rightarrow>
                  (case scan_exp s3 of None \<Rightarrow> None | Some (e, s4) \<Rightarrow> Some (sg @ i @ f @ e, s4))))"

definition scan_plain :: "string \<Rightarrow> (json \<times> string) option" where
  "scan_plain s =
     (if prefix ''true'' s then Some (JBool True, drop 4 s)
      else if prefix ''false'' s then Some (JBool False, drop 5 s)
      else if prefix ''null'' s then Some (JNull, drop 4 s)
      else map_option (\<lambda>(t, r). (JNum t, r)) (scan_number s))"

section \<open>Values\<close>

definition max_depth :: nat where "max_depth = 10000"

fun j_value :: "nat \<Rightarrow> nat \<Rightarrow> string \<Rightarrow> (json \<times> string) option"
  and j_elems :: "nat \<Rightarrow> nat \<Rightarrow> string \<Rightarrow> (json list \<times> string) option"
  and j_members :: "nat \<Rightarrow> nat \<Rightarrow> string \<Rightarrow> ((string \<times> json) list \<times> string) option" where
  "j_value 0 d s = None"
| "j_value (Suc n) d s =
     (case skip_ws s of [] \<Rightarrow> None
      | c # r \<Rightarrow>
          if c = CHR ''{'' then
            (if d \<ge> max_depth then None
             else case skip_ws r of [] \<Rightarrow> None
               | c2 # r2 \<Rightarrow>
                   if c2 = CHR ''}'' then Some (JObj [], r2)
                   else map_option (\<lambda>(ms, t). (JObj ms, t)) (j_members n (d + 1) r))
          else if c = CHR ''['' then
            (if d \<ge> max_depth then None
             else case skip_ws r of [] \<Rightarrow> None
               | c2 # r2 \<Rightarrow>
                   if c2 = CHR '']'' then Some (JArr [], r2)
                   else map_option (\<lambda>(es, t). (JArr es, t)) (j_elems n (d + 1) r))
          else if c = CHR 0x22 then map_option (\<lambda>(b, t). (JStr (unquoted b), t)) (scan_str r)
          else scan_plain (c # r))"
| "j_elems 0 d s = None"
| "j_elems (Suc n) d s =
     (case j_value n d s of None \<Rightarrow> None
      | Some (v, r) \<Rightarrow>
          (case skip_ws r of [] \<Rightarrow> None
           | c # t \<Rightarrow>
               if c = CHR '']'' then Some ([v], t)
               else if c = CHR '','' then map_option (\<lambda>(es, u). (v # es, u)) (j_elems n d t)
               else None))"
| "j_members 0 d s = None"
| "j_members (Suc n) d s =
     (case skip_ws s of [] \<Rightarrow> None
      | q # r \<Rightarrow>
          if q \<noteq> CHR 0x22 then None
          else case scan_str r of None \<Rightarrow> None
            | Some (b, r1) \<Rightarrow>
                (case skip_ws r1 of [] \<Rightarrow> None
                 | c # r2 \<Rightarrow>
                     if c \<noteq> CHR '':'' then None
                     else case j_value n d r2 of None \<Rightarrow> None
                       | Some (v, r3) \<Rightarrow>
                           (case skip_ws r3 of [] \<Rightarrow> None
                            | x # t \<Rightarrow>
                                if x = CHR ''}'' then Some ([(unquoted b, v)], t)
                                else if x = CHR '','' then
                                  map_option (\<lambda>(ms, u). ((unquoted b, v) # ms, u)) (j_members n d t)
                                else None)))"

text \<open>A whole document.\<close>

definition json_parse :: "string \<Rightarrow> json option" where
  "json_parse s =
     (case j_value (2 * length s + 1) 0 s of None \<Rightarrow> None
      | Some (v, r) \<Rightarrow> if skip_ws r = [] then Some v else None)"

section \<open>Field names\<close>

text \<open>Names fold to upper case; U+017F folds with S and U+212A with K.\<close>

fun fold_name :: "string \<Rightarrow> string" where
  "fold_name [] = []"
| "fold_name (c # s) =
     (if c = CHR 0xC5 \<and> take 1 s = [CHR 0xBF] then CHR ''S'' # fold_name (drop 1 s)
      else if c = CHR 0xE2 \<and> take 2 s = [CHR 0x84, CHR 0xAA] then CHR ''K'' # fold_name (drop 2 s)
      else if byte_in 97 122 c then char_of ((of_char c :: nat) - 32) # fold_name s
      else c # fold_name s)"

definition names_field :: "string \<Rightarrow> string \<Rightarrow> bool" where
  "names_field key field \<longleftrightarrow> key = field \<or> fold_name key = fold_name field"

section \<open>Fuel\<close>

lemma skip_ws_length: "length (skip_ws s) \<le> length s"
  by (simp add: skip_ws_def length_dropWhile_le)

lemma scan_str_length: "scan_str s = Some (b, r) \<Longrightarrow> length r < length s"
proof (induction s arbitrary: b r rule: scan_str.induct)
  case (2 c s)
  then show ?case by (fastforce split: if_splits list.splits)
qed simp

lemma scan_digits_length: "scan_digits s = Some (d, r) \<Longrightarrow> length r < length s"
  by (cases s) (auto simp: scan_digits_def Let_def length_dropWhile_le less_Suc_eq_le split: if_splits)

lemma scan_number_length:
  assumes "scan_number s = Some (t, r)"
  shows "length r < length s"
proof -
  have i: "length y < length x" if "scan_int x = Some (d, y)" for x y d
    using that by (auto simp: scan_int_def split: list.splits if_splits dest!: scan_digits_length)
  have f: "length y \<le> length x" if "scan_frac x = Some (d, y)" for x y d
    using that by (auto simp: scan_frac_def split: list.splits if_splits dest!: scan_digits_length)
  have e: "length y \<le> length x" if "scan_exp x = Some (d, y)" for x y d
    using that by (auto simp: scan_exp_def split: list.splits if_splits dest!: scan_digits_length)
  show ?thesis
    using assms
    by (fastforce simp: scan_number_def Let_def split: option.splits list.splits if_splits dest!: i f e)
qed

lemma scan_plain_length: "scan_plain s = Some (v, r) \<Longrightarrow> length r < length s"
  by (auto simp: scan_plain_def prefix_def split: if_splits dest: scan_number_length)

lemma skip_ws_Cons: "skip_ws s = c # r \<Longrightarrow> length r < length s"
  using skip_ws_length [of s] by simp

lemma j_rest_shorter:
  "j_value n d s = Some (v, r) \<Longrightarrow> length r < length s"
  "j_elems n d s = Some (es, r) \<Longrightarrow> length r < length s"
  "j_members n d s = Some (ms, r) \<Longrightarrow> length r < length s"
proof (induction n d s and n d s and n d s arbitrary: v r and es r and ms r
    rule: j_value_j_elems_j_members.induct)
  case (2 n d s)
  then show ?case
    by (auto split: list.splits if_splits dest!: skip_ws_Cons scan_str_length scan_plain_length)
      fastforce+
next
  case (4 n d s)
  then show ?case
    by (auto split: list.splits if_splits option.splits dest!: skip_ws_Cons) fastforce+
next
  case (6 n d s)
  then show ?case
    by (auto split: list.splits if_splits option.splits dest!: skip_ws_Cons scan_str_length) fastforce+
qed auto

text \<open>One step of fuel more than enough changes nothing.\<close>

lemma j_fuel_step:
  "2 * length s < n \<Longrightarrow> j_value (Suc n) d s = j_value n d s"
  "2 * length s + 1 < n \<Longrightarrow> j_elems (Suc n) d s = j_elems n d s"
  "2 * length s + 1 < n \<Longrightarrow> j_members (Suc n) d s = j_members n d s"
proof (induction n d s and n d s and n d s rule: j_value_j_elems_j_members.induct)
  case (2 n d s)
  show ?case
  proof (cases "skip_ws s")
    case Nil
    then show ?thesis by simp
  next
    case (Cons c r)
    then have "2 * length r + 1 < n" using 2(3) skip_ws_Cons by fastforce
    with 2(1) [OF Cons] 2(2) [OF Cons] Cons show ?thesis
      by (cases "skip_ws r") (simp_all del: j_elems.simps j_members.simps)
  qed
next
  case (4 n d s)
  have v: "j_value (Suc n) d s = j_value n d s" using 4(1,3) by simp
  show ?case
  proof (cases "j_value n d s")
    case None
    with v show ?thesis by simp
  next
    case (Some vr)
    obtain x r where vr: "vr = (x, r)" by fastforce
    have "j_elems (Suc n) d t = j_elems n d t" if "skip_ws r = CHR '','' # t" for t
    proof -
      have "length t < length s"
        using that Some vr j_rest_shorter(1) [of n d s] skip_ws_Cons [of r] by fastforce
      with 4(2) [OF Some vr [symmetric] that] 4(3) show ?thesis by simp
    qed
    with v Some vr show ?thesis
      by (cases "skip_ws r") (simp_all add: j_elems.simps(2) [of "Suc n"] j_elems.simps(2) [of n] del: j_elems.simps j_value.simps)
  qed
next
  case (6 n d s)
  show ?case
  proof (cases "\<exists>r b r1 r2. skip_ws s = CHR 0x22 # r \<and> scan_str r = Some (b, r1) \<and> skip_ws r1 = CHR '':'' # r2")
    case False
    have none: "j_members (Suc k) d s = None" for k
    proof (cases "skip_ws s")
      case (Cons q r)
      show ?thesis
      proof (cases "q = CHR 0x22 \<and> scan_str r \<noteq> None")
        case no: False
        with Cons show ?thesis by (cases "scan_str r") (auto simp del: j_value.simps)
      next
        case True
        then obtain b r1 where sc: "q = CHR 0x22" "scan_str r = Some (b, r1)" by fastforce
        with Cons False have "\<forall>r2. skip_ws r1 \<noteq> CHR '':'' # r2" by blast
        with Cons sc show ?thesis by (cases "skip_ws r1") (auto simp del: j_value.simps)
      qed
    qed simp
    show ?thesis by (simp only: none)
  next
    case True
    then obtain r b r1 r2 where a: "skip_ws s = CHR 0x22 # r" "scan_str r = Some (b, r1)"
      "skip_ws r1 = CHR '':'' # r2" by blast
    have l: "length r2 < length s"
      using skip_ws_Cons [OF a(1)] scan_str_length [OF a(2)] skip_ws_Cons [OF a(3)] by simp
    then have v: "j_value (Suc n) d r2 = j_value n d r2"
      using 6(1) [OF a(1) _ a(2) refl a(3)] 6(3) by simp
    have m: "j_members (Suc n) d t = j_members n d t"
      if "j_value n d r2 = Some (x, r3)" "skip_ws r3 = CHR '','' # t" for x r3 t
    proof -
      have "length t < length s"
        using l that j_rest_shorter(1) [of n d r2] skip_ws_Cons [of r3] by fastforce
      with 6(2) [OF a(1) _ a(2) refl a(3) _ that(1) refl that(2)] 6(3) show ?thesis by simp
    qed
    show ?thesis
      using a v m
      by (simp add: j_members.simps(2) [of "Suc n"] j_members.simps(2) [of n] del: j_members.simps j_value.simps
          split: list.split option.split)
  qed
qed auto

lemma json_fuel: "2 * length s < n \<Longrightarrow> j_value n d s = j_value (2 * length s + 1) d s"
proof (induction n)
  case (Suc n)
  then show ?case using j_fuel_step(1) [of s n d] by (cases "2 * length s < n") (auto simp: less_Suc_eq)
qed simp

end
