(* ===== verification/Credential.thy ===== *)
theory Credential
  imports Policies Json
begin

text \<open>
  \<open>internal/sharesync/credential.go\<close>: the policy of agent login files, and the implementations
  of every policy (\<open>DefaultPolicies\<close>). Which JSON a login file holds is read with the decoder of
  \<open>Json\<close>. The formats of json3 and toml3 are parameters, as \<open>docFormat\<close> is an interface.
\<close>

section \<open>Whole and cleared logins\<close>

datatype login_error = EmptyLogin | NotJSONObject

definition wholeLogin :: "string \<Rightarrow> string \<Rightarrow> login_error option" where
  "wholeLogin name data =
     (if TrimSpace data = [] then Some EmptyLogin
      else if suffix ''.json'' name then
        (case json_parse data of Some (JObj ms) \<Rightarrow> None | _ \<Rightarrow> Some NotJSONObject)
      else None)"

text \<open>Decoding into the nested struct: a member whose name matches sets its field, the last one
  winning; null unsets a pointer, another kind of value is an error of the whole decode. The two
  token fields and the login are pointers.\<close>

definition set_token :: "string \<Rightarrow> string \<Rightarrow> json \<Rightarrow> string option \<times> bool \<Rightarrow> string option \<times> bool" where
  "set_token field key v st =
     (if \<not> names_field key field then st
      else case v of JStr s \<Rightarrow> (Some s, snd st) | JNull \<Rightarrow> (None, snd st) | _ \<Rightarrow> (fst st, True))"

type_synonym oauth = "string option \<times> string option"

text \<open>A token pair and whether decoding failed.\<close>

definition decode_tokens :: "(string \<times> json) list \<Rightarrow> oauth \<times> bool \<Rightarrow> oauth \<times> bool" where
  "decode_tokens ms st =
     foldl (\<lambda>((acc, ref), err) (k, v).
        if names_field k ''accessToken''
        then (let (a, e) = set_token ''accessToken'' k v (acc, err) in ((a, ref), e))
        else (let (r, e) = set_token ''refreshToken'' k v (ref, err) in ((acc, r), e))) st ms"

definition decode_login :: "(string \<times> json) list \<Rightarrow> oauth option \<times> bool" where
  "decode_login ms =
     foldl (\<lambda>(o_auth, err) (k, v).
        if \<not> names_field k ''claudeAiOauth'' then (o_auth, err)
        else case v of
          JNull \<Rightarrow> (None, err)
        | JObj fs \<Rightarrow> (let (o', e) = decode_tokens fs (case o_auth of Some x \<Rightarrow> x | None \<Rightarrow> (None, None), err)
                     in (Some o', e))
        | _ \<Rightarrow> (o_auth, True)) (None, False) ms"

definition clearedLogin :: "string \<Rightarrow> bool" where
  "clearedLogin data =
     (case json_parse data of
        Some (JObj ms) \<Rightarrow>
          (case decode_login ms of
             (Some (acc, ref), False) \<Rightarrow> acc = Some [] \<and> ref = Some []
           | _ \<Rightarrow> False)
      | _ \<Rightarrow> False)"

section \<open>The decision\<close>

definition without_conflict :: "merge_result \<Rightarrow> merge_result" where
  "without_conflict r = r\<lparr>mr_conflict := False\<rparr>"

definition login_older :: "merge_input \<Rightarrow> version \<Rightarrow> sync_error + merge_result" where
  "login_older inp cur =
     (let who = s_id (mi_side inp) in
      case Content cur of
        Inl err \<Rightarrow> if err = ErrTooLarge then Inr (result_of Keep False (''an older login from '' @ who))
                   else Inl err
      | Inr curData \<Rightarrow>
          if clearedLogin curData \<or> wholeLogin (mi_path inp) curData \<noteq> None
          then Inr (result_of Accept False (''a login from '' @ who @ '' replaces a cleared one''))
          else Inr (result_of Keep False (''an older login from '' @ who)))"

definition login_decision :: "merge_input \<Rightarrow> string \<Rightarrow> sync_error + merge_result" where
  "login_decision inp data =
     (let who = s_id (mi_side inp) in
      case mi_current inp of
        None \<Rightarrow> Inr (result_of Accept False [])
      | Some cur \<Rightarrow>
          if e_kind (v_entry cur) = File \<and> clearedLogin data then
            Inr (result_of Keep False (''the login '' @ who @
              '' cleared after losing a token refresh never signs the location'' @ [CHR 0x27] @
              ''s other copies out''))
          else if mi_fast inp then Inr (result_of Accept False [])
          else if \<not> Live (v_entry cur) then
            (if mi_baseRev inp > 0
             then Inr (result_of Keep False (''a change on '' @ who @ '' to a login logged out since''))
             else Inr (result_of Accept False (''a login on '' @ who @ '' after a logout'')))
          else if e_kind (v_entry cur) \<noteq> File then Inr (without_conflict (newestWins inp))
          else if newer (v_entry (mi_incoming inp)) (v_entry cur) then
            Inr (result_of Accept False (''a newer login from '' @ who))
          else login_older inp cur)"

definition Credential_Merge :: "merge_input \<Rightarrow> sync_error + merge_result" where
  "Credential_Merge inp =
     (let inc = v_entry (mi_incoming inp); who = s_id (mi_side inp) in
      if \<not> Live inc \<or> e_kind inc \<noteq> File then
        (let res = newestWins inp;
             res' = (if \<not> Live inc \<and> mr_decision res = Accept
                     then res\<lparr>mr_reason := ''a logout on '' @ who\<rparr> else res)
         in Inr (without_conflict res'))
      else case Content (mi_incoming inp) of
        Inl err \<Rightarrow> if err = ErrTooLarge then Inr (without_conflict (newestWins inp)) else Inl err
      | Inr data \<Rightarrow>
          (case wholeLogin (mi_path inp) data of
             Some e \<Rightarrow> Inl (ErrIncomplete (mi_path inp @ '' from '' @ who))
           | None \<Rightarrow> login_decision inp data))"

definition Credential_merger :: merger where
  "Credential_merger = \<lparr>m_scope = ScopeLocation, m_lane = LanePriority, m_history = 1,
     m_merge = Credential_Merge\<rparr>"

text \<open>\<open>LoginPaths\<close>: whether a side scans and reports a path at once.\<close>

definition LoginPaths :: "table \<Rightarrow> string \<Rightarrow> string \<Rightarrow> bool" where
  "LoginPaths t root name =
     (let t' = (if t = [] then defaultRoots else t)
      in table_PolicyFor t' (Join2 root name) = Some Credential)"

section \<open>Every policy\<close>

definition DefaultPolicies :: "'a doc_format \<Rightarrow> 'b doc_format \<Rightarrow> policy \<Rightarrow> merger option" where
  "DefaultPolicies json toml pol =
     (case pol of
        Mirror \<Rightarrow> Some Mirror_merger
      | AppendUnion \<Rightarrow> Some AppendUnion_merger
      | Credential \<Rightarrow> Some Credential_merger
      | JSON3 \<Rightarrow> Some (document_merger json)
      | TOML3 \<Rightarrow> Some (document_merger toml)
      | Unset \<Rightarrow> None
      | LocationLocal \<Rightarrow> None)"

section \<open>The contract\<close>

lemma without_conflict_simps [simp]:
  "mr_decision (without_conflict r) = mr_decision r" "\<not> mr_conflict (without_conflict r)"
  by (simp_all add: without_conflict_def)

lemma login_older_cases:
  "login_older inp cur = Inr r \<Longrightarrow> mr_decision r \<noteq> Merged \<and> \<not> mr_conflict r"
  by (auto simp: login_older_def Let_def split: sum.splits if_splits)

lemma login_decision_cases:
  "login_decision inp data = Inr r \<Longrightarrow> mr_decision r \<noteq> Merged \<and> \<not> mr_conflict r \<and>
     (mi_current inp = None \<longrightarrow> mr_decision r = Accept)"
  by (auto simp: login_decision_def Let_def split: option.splits if_splits dest: login_older_cases)

interpretation credential: sync_merge "m_merge Credential_merger"
proof (unfold_locales, goal_cases)
  case (1 inp r)
  then show ?case
    by (auto simp: Credential_merger_def Credential_Merge_def Let_def
        split: if_splits sum.splits option.splits dest: login_decision_cases)
next
  case (2 inp r)
  then show ?case
    by (auto simp: Credential_merger_def Credential_Merge_def Let_def
        split: if_splits sum.splits option.splits dest: login_decision_cases)
next
  case (3 inp r v)
  then show ?case
    by (auto simp: Credential_merger_def Credential_Merge_def Let_def newestWins_delete split: if_splits)
next
  case (4 inp r)
  then show ?case
    by (auto simp: Credential_merger_def Credential_Merge_def Let_def
        split: if_splits sum.splits option.splits dest: login_decision_cases)
qed

lemma default_contract: "DefaultPolicies json toml pol = Some m \<Longrightarrow> sync_merge (m_merge m)"
  by (auto simp: DefaultPolicies_def split: policy.splits
      intro: mirror.sync_merge_axioms append_union.sync_merge_axioms credential.sync_merge_axioms
        document.sync_merge_axioms)

section \<open>Properties\<close>


text \<open>Witnesses: Claude Code's login cleared in place meets the location's live one.\<close>

definition cleared_text :: string where
  "cleared_text = [CHR ''{'', CHR 0x22] @ ''claudeAiOauth'' @ [CHR 0x22, CHR '':'', CHR ''{'', CHR 0x22] @
     ''accessToken'' @ [CHR 0x22, CHR '':'', CHR 0x22, CHR 0x22, CHR '','', CHR 0x22] @ ''refreshToken'' @
     [CHR 0x22, CHR '':'', CHR 0x22, CHR 0x22, CHR ''}'', CHR ''}'']"

definition login_entry :: entry where
  "login_entry = \<lparr>e_kind = File, e_mode = 384, e_size = int (length cleared_text), e_mtime = 5,
     e_hash = replicate 64 CHR ''0'', e_target = [], e_grew = []\<rparr>"

definition login_input :: merge_input where
  "login_input = \<lparr>mi_root = ''.claude'', mi_path = ''.credentials.json'',
     mi_side = \<lparr>s_id = ''host'', s_location = ''host'', s_loginsOnly = False\<rparr>, mi_fast = True, mi_baseRev = 3,
     mi_current = Some \<lparr>v_entry = login_entry, v_rev = 3, v_side = ''pod'', v_open = None\<rparr>,
     mi_incoming = \<lparr>v_entry = login_entry, v_rev = 0, v_side = ''host'', v_open = Some (Inr cleared_text)\<rparr>,
     mi_base = Inr None\<rparr>"

lemma cleared_text_parses:
  "json_parse cleared_text = Some (JObj [(''claudeAiOauth'', JObj [(''accessToken'', JStr []), (''refreshToken'', JStr [])])])"
  by code_simp

lemma cleared_text_cleared: "clearedLogin cleared_text"
proof -
  have "decode_login [(''claudeAiOauth'', JObj [(''accessToken'', JStr []), (''refreshToken'', JStr [])])] =
      (Some (Some [], Some []), False)" by code_simp
  then show ?thesis by (simp add: clearedLogin_def cleared_text_parses)
qed

lemma login_input_facts:
  "Content (mi_incoming login_input) = Inr cleared_text"
  "wholeLogin (mi_path login_input) cleared_text = None"
proof -
  have len: "length cleared_text = 54" by (simp add: cleared_text_def)
  then have "take (nat (MaxMergeSize + 1)) cleared_text = cleared_text" by (simp add: MaxMergeSize_def)
  then show "Content (mi_incoming login_input) = Inr cleared_text"
    using len by (simp add: Content_def login_input_def login_entry_def MaxMergeSize_def)
  have "TrimSpace cleared_text \<noteq> []" by code_simp
  then show "wholeLogin (mi_path login_input) cleared_text = None"
    by (simp add: wholeLogin_def cleared_text_parses)
qed


end
