(* ===== verification/HubSafety.thy ===== *)
theory HubSafety
  imports HubInv Credential
begin

text \<open>
  What the hub promises of a reported change, on top of the invariants: what each answer means,
  that a root with a writer takes changes from it alone, that a delete never removes a state it
  had not seen, that revs only grow, that what was accepted is in the journal, and the cap.
\<close>

section \<open>The hub with its own policies\<close>

text \<open>The defaults of \<open>OpenHub\<close>; times in nanoseconds.\<close>

definition default_cfg :: "'a doc_format \<Rightarrow> 'b doc_format \<Rightarrow> hub_cfg" where
  "default_cfg json toml = \<lparr>cf_table = defaultRoots, cf_policies = DefaultPolicies json toml,
     cf_ttl = 86400000000000, cf_normalDelay = 100000000, cf_bulkDelay = 1000000000,
     cf_pauseRetry = 10000000000, cf_maxBatch = 256\<rparr>"

interpretation fleet: hub_policies "default_cfg json toml" for json toml
  by (rule hub_policies.intro) (auto simp: default_cfg_def intro: default_contract)

section \<open>Fields no change touches\<close>

definition frame :: "hub_root \<Rightarrow> nat \<times> int \<times> string \<times> sync_error option" where
  "frame root = (hr_rev root, hr_cap root, hr_writer root, hr_broken root)"

lemma frame_simps [simp]:
  "frame (map_side i f root) = frame root"
  "frame (markDirty now k x root) = frame root"
  "frame (held side p cur root) = frame root"
  "frame (root_put jk v root) = frame root"
  "frame (root\<lparr>hr_holds := hs\<rparr>) = frame root"
  "frame (root\<lparr>hr_journal := j\<rparr>) = frame root"
  "frame (root\<lparr>hr_conflicts := cs\<rparr>) = frame root"
  "frame (root\<lparr>hr_entries := es\<rparr>) = frame root"
  "frame (root\<lparr>hr_entries := es, hr_forgot := fg\<rparr>) = frame root"
  "frame (drop_conflict i root) = frame root"
  "frame (blob_remove h root) = frame root"
  "frame (blob_gc ks t root) = frame root"
  "frame (root_count old e k root) = frame root"
  by (simp_all add: frame_def map_side_def markDirty_def held_def root_put_def drop_conflict_def
      blob_remove_def blob_gc_def root_count_def recount_def uncount_def Let_def)

lemma frame_next [simp]: "frame (snd (next_write root)) = frame root" "frame (snd (next_snap root)) = frame root"
  by (simp_all add: frame_def next_write_def next_snap_def split: list.split)

lemma frame_root_commit [simp]: "frame (snd (root_commit root)) = frame root"
  using frame_next(1) [of root] by (auto simp: root_commit_def frame_def split: prod.splits)

lemma frame_blob_put: "blob_put t f data root = (x, rt) \<Longrightarrow> frame rt = frame root"
  by (auto simp: blob_put_def Let_def frame_def split: if_splits option.splits)

lemma frame_forget [simp]: "frame (forget before kept root) = frame root"
proof -
  have "frame (fold (\<lambda>(r, h) rt. if h \<in> set (map snd kept) \<or> names rt h then rt else blob_remove h rt)
      xs rt) = frame rt" for xs rt
    by (induction xs arbitrary: rt) (auto simp del: set_map)
  then show ?thesis by (simp add: forget_def)
qed

lemma frame_compact [simp]: "frame (snd (compact cfg now root)) = frame root"
proof -
  let ?dropped = "filter (forgettable cfg now root) (hr_entries root)"
  let ?kept = "filter (\<lambda>ke. \<not> forgettable cfg now root ke) (hr_entries root)"
  define forgot where "forgot = fold (\<lambda>ke f. max f (he_rev (snd ke))) ?dropped (hr_forgot root)"
  define j where "j = fold (\<lambda>ke. journal_del (journalKey (fst ke))) ?dropped (hr_journal root)"
  define root1 where "root1 = root\<lparr>hr_entries := ?kept, hr_forgot := forgot\<rparr>"
  obtain w root2 where w: "next_write root1 = (w, root2)" by fastforce
  obtain sn root3 where sn: "next_snap root2 = (sn, root3)" by fastforce
  have "frame root1 = frame root" by (simp add: root1_def)
  then have "frame root3 = frame root"
    using frame_next(1) [of root1] frame_next(2) [of root2] w sn by simp
  then show ?thesis
    unfolding compact_def Let_def forgot_def [symmetric] j_def [symmetric] root1_def [symmetric]
    by (simp add: w sn split: prod.split)
qed

text \<open>A successful \<open>setEntry\<close> moves the rev on by one, a failed one leaves it.\<close>

lemma frame_setEntry:
  assumes "setEntry cfg now k e origin base hist except root = (r, root')"
  shows "frame root' = (if r = None then hr_rev root else succ64 (hr_rev root), snd (frame root))"
  using assms
proof (cases rule: setEntry_cases)
  case (Fail err root1)
  then have "frame root' = frame root" using frame_root_commit by (metis frame_simps(4) snd_conv)
  with Fail show ?thesis by (simp add: frame_def)
next
  case (Done root1 root3)
  have "frame root1 = frame root" using Done(1) frame_root_commit by (metis frame_simps(4) snd_conv)
  moreover have "frame (root1\<lparr>hr_rev := n, hr_entries := es\<rparr>) = (n, snd (frame root1))" for n es
    by (simp add: frame_def)
  ultimately have "frame root3 = (succ64 (hr_rev root), snd (frame root))"
    using Done(3) by (simp only: frame_simps)
  with Done(2,4) show ?thesis by auto
qed

section \<open>Entries after a new state\<close>

lemma setEntry_entries:
  assumes "setEntry cfg now k e origin base hist except root = (r, root')"
    and "distinct (map fst (hr_entries root))"
  shows "(r = None \<longrightarrow> hr_entries root' = hr_entries root) \<and>
    (\<forall>ne. r = Some ne \<longrightarrow> ne = new_state now e origin base hist root \<and>
       (\<forall>k' x. ents root' k' = Some x \<longrightarrow> ((ents root)(k \<mapsto> ne)) k' = Some x) \<and>
       (\<forall>k' x. ((ents root)(k \<mapsto> ne)) k' = Some x \<and> (Live (he_entry x) \<or> he_at x \<ge> now - cf_ttl cfg) \<longrightarrow>
          ents root' k' = Some x))"
  using assms(1)
proof (cases rule: setEntry_cases)
  case (Fail err root1)
  then have "core root' = core root" using root_commit_core by (metis core_root_put)
  with Fail show ?thesis by (simp add: core_def)
next
  case (Done root1 root3)
  let ?ne = "new_state now e origin base hist root"
  have "hr_entries root1 = hr_entries root"
    using Done(1) root_commit_core core_eqD(1) by (metis core_root_put)
  then have e3: "hr_entries root3 = AList.update k ?ne (hr_entries root)"
    using Done(3) by (simp add: markDirty_def root_count_fields)
  then have m3: "ents root3 = (ents root)(k \<mapsto> ?ne)" by simp
  have d3: "distinct (map fst (hr_entries root3))" using e3 assms(2) by simp
  have "hr_entries (snd (compact cfg now root3)) =
      filter (\<lambda>ke. \<not> forgettable cfg now root3 ke) (hr_entries root3)"
    using core_compact by (simp add: core_def)
  then have mc: "ents (snd (compact cfg now root3)) k' =
      (case ents root3 k' of None \<Rightarrow> None
       | Some v \<Rightarrow> if \<not> forgettable cfg now root3 (k', v) then Some v else None)" for k'
    by (simp add: map_of_filter_distinct [OF d3])
  from Done(4) show ?thesis
  proof
    assume "root' = root3"
    with Done(2) m3 show ?thesis by simp
  next
    assume "root' = snd (compact cfg now root3)"
    with Done(2) m3 mc show ?thesis
      by (auto simp: forgettable_def split: option.splits if_splits)
  qed
qed

lemma setEntry_distinct:
  assumes "setEntry cfg now k e origin base hist except root = (r, root')" "distinct (map fst (hr_entries root))"
  shows "distinct (map fst (hr_entries root'))"
  using assms(1)
proof (cases rule: setEntry_cases)
  case (Fail err root1)
  then have "core root' = core root" using root_commit_core by (metis core_root_put)
  with assms(2) show ?thesis by (simp add: core_def)
next
  case (Done root1 root3)
  have "hr_entries root1 = hr_entries root"
    using Done(1) root_commit_core core_eqD(1) by (metis core_root_put)
  then have "distinct (map fst (hr_entries root3))"
    using Done(3) assms(2) by (simp add: markDirty_def root_count_fields)
  moreover have "hr_entries (snd (compact cfg now root3)) =
      filter (\<lambda>ke. \<not> forgettable cfg now root3 ke) (hr_entries root3)"
    using core_compact by (simp add: core_def)
  ultimately show ?thesis using Done(4) distinct_map_fst_filter by auto
qed

section \<open>Revs\<close>

text \<open>No entry is newer than the root's rev, and no two have the same one.\<close>

definition revs_ok :: "hub_root \<Rightarrow> bool" where
  "revs_ok root \<longleftrightarrow> distinct (map fst (hr_entries root)) \<and>
     (\<forall>k e. ents root k = Some e \<longrightarrow> he_rev e \<le> hr_rev root) \<and>
     (\<forall>k k' e e'. ents root k = Some e \<and> ents root k' = Some e' \<and> he_rev e = he_rev e' \<longrightarrow> k = k')"

lemma revs_okD: "revs_ok root \<Longrightarrow> ents root k = Some e \<Longrightarrow> he_rev e \<le> hr_rev root"
  unfolding revs_ok_def by blast

lemma revs_unique:
  "revs_ok root \<Longrightarrow> ents root k = Some e \<Longrightarrow> ents root k' = Some e' \<Longrightarrow> he_rev e = he_rev e' \<Longrightarrow> k = k'"
  unfolding revs_ok_def by blast

lemma revs_okI:
  assumes "distinct (map fst (hr_entries root))" "\<And>k e. ents root k = Some e \<Longrightarrow> he_rev e \<le> hr_rev root"
    and "\<And>k k' e e'. ents root k = Some e \<Longrightarrow> ents root k' = Some e' \<Longrightarrow> he_rev e = he_rev e' \<Longrightarrow> k = k'"
  shows "revs_ok root"
  unfolding revs_ok_def using assms by blast

lemma revs_core: "core a = core b \<Longrightarrow> frame a = frame b \<Longrightarrow> revs_ok a = revs_ok b"
  by (simp add: revs_ok_def core_def frame_def)

lemma setEntry_revs:
  assumes "setEntry cfg now k e origin base hist except root = (r, root')" "revs_ok root"
    and "hr_rev root < 2 ^ 64 - 1"
  shows "revs_ok root' \<and> hr_rev root' = (if r = None then hr_rev root else Suc (hr_rev root))"
proof -
  have d: "distinct (map fst (hr_entries root))" using assms(2) by (simp add: revs_ok_def)
  have rev: "hr_rev root' = (if r = None then hr_rev root else Suc (hr_rev root))"
    using frame_setEntry [OF assms(1)] assms(3) by (simp add: frame_def)
  note en = setEntry_entries [OF assms(1) d]
  show ?thesis
  proof (cases r)
    case None
    with en rev assms(2) show ?thesis by (simp add: revs_ok_def)
  next
    case (Some ne)
    with en have new: "ne = new_state now e origin base hist root"
      and sub: "\<And>k' x. ents root' k' = Some x \<Longrightarrow> ((ents root)(k \<mapsto> ne)) k' = Some x"
      by blast+
    from new have ne: "he_rev ne = Suc (hr_rev root)" using assms(3) by simp
    have old: "ents root k' = Some x \<Longrightarrow> he_rev x < he_rev ne" for k' x
      using revs_okD [OF assms(2)] ne by (metis less_Suc_eq_le)
    have "he_rev x \<le> hr_rev root'" if "ents root' k' = Some x" for k' x
      using sub [OF that] old [of k' x] rev Some ne by (auto split: if_splits)
    moreover have "k1 = k2" if "ents root' k1 = Some x" "ents root' k2 = Some y" "he_rev x = he_rev y" for k1 k2 x y
    proof (cases "k1 = k \<or> k2 = k")
      case True
      then show ?thesis
        using sub [OF that(1)] sub [OF that(2)] old [of k1 x] old [of k2 y] that(3)
        by (cases "k1 = k"; cases "k2 = k") simp_all
    next
      case False
      then show ?thesis
        using revs_unique [OF assms(2)] sub [OF that(1)] sub [OF that(2)] that(3) by simp
    qed
    ultimately show ?thesis
      using rev revs_okI [OF setEntry_distinct [OF assms(1) d]] by blast
  qed
qed

lemma resurrect_revs:
  "resurrect cfg now side rs root = (ok, root') \<Longrightarrow> revs_ok root \<Longrightarrow> hr_rev root + length rs < 2 ^ 64 \<Longrightarrow>
   revs_ok root' \<and> hr_rev root \<le> hr_rev root' \<and> hr_rev root' \<le> hr_rev root + length rs"
proof (induction cfg now side rs root rule: resurrect.induct)
  case (1 cfg now side root)
  then show ?case by simp
next
  case (2 cfg now side a md rest root)
  obtain r root1 where st: "setEntry cfg now ([], a) (gone_entry\<lparr>e_kind := Dir, e_mode := fileMode Dir md\<rparr>)
      side 0 [] [] root = (r, root1)" by fastforce
  have "hr_rev root < 2 ^ 64 - 1" using 2(4) by simp
  note k = setEntry_revs [OF st 2(3) this]
  show ?case
  proof (cases r)
    case None
    with 2(2) st k show ?thesis by auto
  next
    case (Some ne)
    with st have "resurrect cfg now side rest root1 = (ok, root')" using 2(2) by simp
    with 2(1) [OF st [symmetric] Some] k Some 2(4) show ?thesis by auto
  qed
qed

lemma commit_change_revs:
  assumes "commit_change cfg now p res extra now_e root = (a, root')" "revs_ok root"
    and "hr_rev root + length (sc_resurrect (p_shape p)) + 1 < 2 ^ 64"
  shows "revs_ok root' \<and> hr_rev root \<le> hr_rev root'"
proof -
  let ?rs = "zip (sc_resurrect (p_shape p)) (sc_modes (p_shape p))"
  let ?e = "if mr_decision res = Merged then x_merged extra else c_entry (p_c p)"
  obtain ok root1 where rs: "resurrect cfg now (s_id (p_side p)) ?rs root = (ok, root1)" by fastforce
  have len: "length ?rs \<le> length (sc_resurrect (p_shape p))" by simp
  have "hr_rev root + length ?rs < 2 ^ 64" using assms(3) len by linarith
  note k1 = resurrect_revs [OF rs assms(2) this]
  show ?thesis
  proof (cases ok)
    case False
    with assms(1) rs k1 show ?thesis by (simp add: commit_change_def)
  next
    case True
    define hist where "hist = new_hist p now_e ?e (x_hist extra) (succ64 (hr_rev root1))"
    define origin where "origin = (if mr_decision res = Merged then [] else s_id (p_side p))"
    obtain r root2 where se: "setEntry cfg now (p_k p) ?e origin (c_base (p_c p)) hist origin root1 = (r, root2)"
      by fastforce
    have "hr_rev root1 < 2 ^ 64 - 1" using k1 assms(3) len by linarith
    note k2 = setEntry_revs [OF se _ this]
    have "core root' = core root2 \<and> frame root' = frame root2"
      using assms(1) rs True se
      unfolding commit_change_def Let_def hist_def [symmetric] origin_def [symmetric]
      by (auto simp: hist_def [symmetric] split: option.splits if_splits)
    then have "revs_ok root' = revs_ok root2" "hr_rev root' = hr_rev root2"
      using revs_core [of root' root2] by (auto simp: frame_def)
    with k1 k2 show ?thesis by auto
  qed
qed

lemma unvouch_revs:
  assumes "revs_ok root" "ents root k = Some e"
  shows "revs_ok (unvouch k e side root) \<and> hr_rev (unvouch k e side root) = hr_rev root"
proof (cases "he_origin e \<noteq> side \<or> he_base e = he_rev e")
  case True
  with assms show ?thesis by (simp add: unvouch_def)
next
  case False
  let ?e = "e\<lparr>he_base := he_rev e\<rparr>"
  let ?r = "root\<lparr>hr_entries := AList.update k ?e (hr_entries root)\<rparr>"
  have u: "unvouch k e side root = snd (root_commit (root_put (journalKey k) (EntryRec ?e) ?r))"
    using False by (simp add: unvouch_def Let_def)
  have c: "core (unvouch k e side root) = core ?r" "frame (unvouch k e side root) = frame ?r"
    unfolding u by simp_all
  have same: "\<exists>y. ents root k' = Some y \<and> he_rev y = he_rev x" if "ents ?r k' = Some x" for k' x
    using that assms(2) by (auto split: if_splits)
  have "revs_ok ?r"
  proof (rule revs_okI)
    show "distinct (map fst (hr_entries ?r))" using assms(1) by (simp add: revs_ok_def)
    show "he_rev x \<le> hr_rev ?r" if x: "ents ?r k' = Some x" for k' x
      using same [OF x] revs_okD [OF assms(1)] by fastforce
    show "k1 = k2" if x: "ents ?r k1 = Some x" "ents ?r k2 = Some y" "he_rev x = he_rev y" for k1 k2 x y
      using same [OF x(1)] same [OF x(2)] x(3) revs_unique [OF assms(1)] by metis
  qed
  moreover have "hr_rev (unvouch k e side root) = hr_rev ?r" using c(2) by (simp add: frame_def)
  ultimately show ?thesis using revs_core [OF c] by simp
qed

lemma commitPlan_revs:
  assumes "commitPlan cfg now p res extra root = (a, root')" "revs_ok root"
    and "hr_rev root + length (sc_resurrect (p_shape p)) + 1 < 2 ^ 64"
  shows "revs_ok root' \<and> hr_rev root \<le> hr_rev root'"
proof -
  let ?now = "ents root (p_k p)"
  have ch: "revs_ok r \<and> hr_rev root \<le> hr_rev r" if "commit_change cfg now p res extra ?now root = (x, r)" for x r
    using commit_change_revs [OF that assms(2,3)] .
  let ?m = "map_side (s_id (p_side p)) (give_back (p_c p) now) root"
  have m: "revs_ok ?m" "hr_rev ?m = hr_rev root" "ents ?m = ents root"
    using assms(2) revs_core [of ?m root] by (simp, simp_all add: map_side_def)
  have kp: "revs_ok r \<and> hr_rev root \<le> hr_rev r" if "commit_keep now p ?now root = (x, r)" for x r
    using that m unvouch_revs [OF m(1), of "p_k p"]
    by (auto simp: commit_keep_def Let_def split: option.splits if_splits)
  have ho: "revs_ok (root\<lparr>hr_holds := hs\<rparr>) = revs_ok root" for hs
    by (rule revs_core) simp_all
  show ?thesis
    using assms(1,2) ch kp ho by (auto simp: commitPlan_def Let_def split: if_splits prod.splits)
qed

section \<open>A change alone\<close>

text \<open>With nothing running between a plan and its commit, the first round answers.\<close>

lemma shape_up_core: "core a = core b \<Longrightarrow> shape_up a as s = shape_up b as s"
  by (induction as arbitrary: s) (auto simp: core_def split: option.split)

lemma checkShape_core: "core a = core b \<Longrightarrow> checkShape a c cur = checkShape b c cur"
  using shape_up_core [of a b] by (auto simp: checkShape_def core_def split: option.split)

lemma frame_keepConflict: "keepConflict env p res root = (x, rt) \<Longrightarrow> frame rt = frame root"
  unfolding keepConflict_def Let_def
  by (simp split: option.split_asm prod.split_asm kind.split_asm sum.split_asm if_split_asm) auto

lemma frame_decide:
  assumes "decide env p root = (r, root')"
  shows "frame root' = frame root"
proof -
  have m: "frame rt = frame root" if "decide_merged env p res root = (x, rt)" for res x rt root
    using that by (auto simp: decide_merged_def Let_def split: if_splits prod.splits sum.splits dest: frame_blob_put)
  have c: "frame rt = frame root" if "decide_conflict env p res x1 root = (x, rt)" for res x x1 rt root
    using that by (auto simp: decide_conflict_def split: if_splits prod.splits sum.splits dest: frame_keepConflict)
  have h: "frame rt = frame root" if "decide_hist env p res v x1 root = (x, rt)" for res v x x1 rt root
    using that by (auto simp: decide_hist_def split: if_splits prod.splits sum.splits dest: frame_blob_put)
  show ?thesis
    using assms by (auto simp: decide_def split: sum.splits prod.splits dest!: m c h)
qed

lemma shape_equal_refl [simp]: "shape_equal s s"
  by (simp add: shape_equal_def)

lemma moved_on_refl [simp]: "\<not> moved_on e e"
  by (simp add: moved_on_def split: option.split)

lemma commitPlan_alone:
  assumes "p_cur p = ents root (p_k p)" "p_shape p = checkShape root (p_c p) (ents root (p_k p))"
    and "hr_broken root = None"
  shows "\<exists>a root'. commitPlan cfg now p res extra root = (Some a, root') \<and>
    ((a = ack_of (p_c p) Deferred 0 \<and> root' = root\<lparr>hr_holds := (s_id (p_side p), c_path (p_c p)) # hr_holds root\<rparr>) \<or>
     (mr_decision res = Keep \<and> commit_keep now p (ents root (p_k p)) root = (a, root')) \<or>
     (mr_decision res \<noteq> Keep \<and> commit_change cfg now p res extra (ents root (p_k p)) root = (a, root')))"
  using assms by (auto simp: commitPlan_def Let_def split: prod.split)

text \<open>What one change alone comes to: answered while planning, put off by an error, or committed.\<close>

lemma process_rounds_alone:
  assumes "process_rounds (Suc n) cfg env (\<lambda>_ r. r) k m side c base root = (a, root')"
  obtains (Answered) "prepare (de_now (env n)) k m side c base root = (Inl a, root')"
  | (Failed) p root1 e where "prepare (de_now (env n)) k m side c base root = (Inr p, root1)"
      "decide (env n) p root1 = (Inl e, root')" "a = ack_of c Deferred 0"
  | (Committed) p root1 res extra root2 root3 where
      "prepare (de_now (env n)) k m side c base root = (Inr p, root1)"
      "decide (env n) p root1 = (Inr (res, extra), root2)"
      "p_cur p = ents root2 k" "p_shape p = checkShape root2 c (ents root2 k)" "hr_broken root2 = None"
      "commitPlan cfg (de_now (env n)) p res extra root2 = (Some a, root3)"
      "core root' = core root3"
proof -
  obtain r root1 where pr: "prepare (de_now (env n)) k m side c base root = (r, root1)" by fastforce
  show thesis
  proof (cases r)
    case (Inl x)
    with assms pr have "x = a" "root1 = root'" by (simp_all only: process_rounds.simps prod.case sum.case prod.inject)
    with Answered pr Inl show thesis by simp
  next
    case (Inr p)
    note pd = prepare_InrD [OF pr [unfolded Inr]]
    obtain d root2 where de: "decide (env n) p root1 = (d, root2)" by fastforce
    show thesis
    proof (cases d)
      case (Inl e)
      with assms have "a = ack_of c Deferred 0" "root' = root2"
        by (simp_all only: process_rounds.simps pr \<open>r = Inr p\<close> de prod.case sum.case prod.inject)
      with Failed pr \<open>r = Inr p\<close> de Inl show thesis by simp
    next
      case (Inr re)
      obtain res extra where re: "re = (res, extra)" by fastforce
      have core: "core root2 = core root1" and fr: "frame root2 = frame root1"
        using decide_core [OF de] frame_decide [OF de] by auto
      have e2: "ents root2 = ents root" using core_eqD(1) [OF core] pd noted_ents by metis
      have br: "hr_broken root2 = None" using fr pd by (simp add: frame_def map_side_def)
      have cur: "p_cur p = ents root2 k" using pd e2 by simp
      have sh: "p_shape p = checkShape root2 c (ents root2 k)"
        using pd e2 checkShape_core [OF core] by simp
      have pk: "p_k p = k" "p_c p = c" using pd by auto
      obtain x root3 where cp: "commitPlan cfg (de_now (env n)) p res extra root2 = (Some x, root3)"
        using commitPlan_alone [of p root2 cfg "de_now (env n)" res extra] cur sh br pk by auto
      from assms have "x = a \<and> (if a_status x = Deferred \<and> x_conflict extra \<noteq> []
            then drop_conflict (x_conflict extra) root3 else root3) = root'"
        by (simp only: process_rounds.simps pr \<open>r = Inr p\<close> de Inr re cp prod.case sum.case
              option.case prod.inject) blast
      then have "x = a" and r': "root' = (if a_status x = Deferred \<and> x_conflict extra \<noteq> []
            then drop_conflict (x_conflict extra) root3 else root3)" by blast+
      moreover have "core root' = core root3" using r' by simp
      ultimately show thesis
        using Committed [OF pr [unfolded \<open>r = Inr p\<close>] de [unfolded Inr re] cur sh br] cp by simp
    qed
  qed
qed

lemma core_commit_change:
  assumes "commit_change cfg now p res extra now_e root = (a, root')"
    and "distinct (map fst (hr_entries root))"
  shows "a_status a = Deferred \<or> (\<exists>root1 ne root2 hist origin. setEntry cfg now (p_k p)
      (if mr_decision res = Merged then x_merged extra else c_entry (p_c p)) origin (c_base (p_c p)) hist origin
      root1 = (Some ne, root2) \<and> distinct (map fst (hr_entries root1)) \<and> core root' = core root2 \<and>
      a = ack_of (p_c p) (if mr_decision res = Merged then Superseded else Accepted) (he_rev ne))"
proof -
  let ?rs = "zip (sc_resurrect (p_shape p)) (sc_modes (p_shape p))"
  let ?e = "if mr_decision res = Merged then x_merged extra else c_entry (p_c p)"
  obtain ok root1 where rs: "resurrect cfg now (s_id (p_side p)) ?rs root = (ok, root1)" by fastforce
  have d: "distinct (map fst (hr_entries rt'))"
    if "resurrect cfg now sd rs' rt = (ok', rt')" "distinct (map fst (hr_entries rt))" for sd rs' rt ok' rt'
    using that
  proof (induction cfg now sd rs' rt rule: resurrect.induct)
    case (2 cfg now sd a md rest rt)
    obtain r rt1 where st: "setEntry cfg now ([], a) (gone_entry\<lparr>e_kind := Dir, e_mode := fileMode Dir md\<rparr>)
        sd 0 [] [] rt = (r, rt1)" by fastforce
    with setEntry_distinct [OF st 2(3)] 2(2) 2(1) [OF st [symmetric]] show ?case by (cases r) auto
  qed simp
  show ?thesis
  proof (cases ok)
    case False
    with assms(1) rs show ?thesis by (auto simp: commit_change_def)
  next
    case True
    define hist where "hist = new_hist p now_e ?e (x_hist extra) (succ64 (hr_rev root1))"
    define origin where "origin = (if mr_decision res = Merged then [] else s_id (p_side p))"
    obtain r root2 where se: "setEntry cfg now (p_k p) ?e origin (c_base (p_c p)) hist origin root1 = (r, root2)"
      by fastforce
    have "a_status a = Deferred \<or> (\<exists>ne. r = Some ne \<and> core root' = core root2 \<and>
        a = ack_of (p_c p) (if mr_decision res = Merged then Superseded else Accepted) (he_rev ne))"
      using assms(1) rs True se
      unfolding commit_change_def Let_def hist_def [symmetric] origin_def [symmetric]
      by (auto simp: hist_def [symmetric] split: option.splits if_splits)
    with se d [OF rs assms(2)] show ?thesis by blast
  qed
qed

lemma commit_keep_entries:
  assumes "commit_keep now p (ents root (p_k p)) root = (a, root')"
  shows "a_status a = Superseded \<and> (\<forall>k. map_option he_entry (ents root' k) = map_option he_entry (ents root k))"
proof -
  let ?m = "map_side (s_id (p_side p)) (give_back (p_c p) now) root"
  have e: "ents ?m = ents root" by (simp add: map_side_def)
  have u: "map_option he_entry (ents (unvouch k e side r) k') = map_option he_entry (ents r k')"
    if "ents r k = Some e" for k e side r k'
    using that core_eqD(1) [OF core_root_commit]
    by (simp add: unvouch_def Let_def root_put_def)
  show ?thesis
    using assms e u [of ?m "p_k p"] by (auto simp: commit_keep_def Let_def split: option.splits if_splits)
qed

lemma process_cases:
  assumes "process cfg env others side c stale root = (a, root')"
  obtains (Ignored) "a = ack_of c Ignored 0" "root' = root"
  | (Rounds) k m where "validPath (c_path c)" "check (c_entry c) = None"
      "keyFor cfg root (c_path c) (s_location side) = Some (k, m)"
      "process_rounds 4 cfg env others k m side c (if stale then 0 else c_base c) root = (a, root')"
proof (cases "\<not> validPath (c_path c) \<or> check (c_entry c) \<noteq> None")
  case True
  with assms have "(ack_of c Ignored 0, root) = (a, root')" unfolding process_def by (simp only: if_True)
  with Ignored show thesis by simp
next
  case False
  show thesis
  proof (cases "keyFor cfg root (c_path c) (s_location side)")
    case None
    with assms False have "(ack_of c Ignored 0, root) = (a, root')"
      unfolding process_def by (simp only: if_False option.case)
    with Ignored show thesis by simp
  next
    case (Some km)
    obtain k m where km: "km = (k, m)" by fastforce
    show thesis
    proof (cases "s_loginsOnly side \<and> m_scope m \<noteq> ScopeLocation")
      case True
      with assms False Some km have "(ack_of c Ignored 0, root) = (a, root')"
        unfolding process_def by (simp only: if_False if_True option.case prod.case simp_thms)
      with Ignored show thesis by simp
    next
      case no: False
      with assms False Some km have
        "process_rounds 4 cfg env others k m side c (if stale then 0 else c_base c) root = (a, root')"
        unfolding process_def by (simp only: if_False option.case prod.case)
      with Rounds False Some km show thesis by blast
    qed
  qed
qed

lemma setEntry_present:
  assumes "setEntry cfg now k e origin base hist except root = (Some ne, root')"
    and "distinct (map fst (hr_entries root))" "0 \<le> cf_ttl cfg"
  shows "ne = new_state now e origin base hist root" "ents root' k = Some ne"
proof -
  note en = setEntry_entries [OF assms(1,2)]
  then show ne: "ne = new_state now e origin base hist root" by blast
  then have "((ents root)(k \<mapsto> ne)) k = Some ne \<and> (Live (he_entry ne) \<or> he_at ne \<ge> now - cf_ttl cfg)"
    using assms(3) by simp
  with en show "ents root' k = Some ne" by blast
qed

section \<open>The answers\<close>

lemma prepare_accepted:
  assumes "prepare now k m side c base root = (Inl a, root')" "a_status a = Accepted"
  shows "core root' = core root \<and>
    ((\<exists>e. ents root k = Some e \<and> Same (he_entry e) (c_entry c) \<and> a_rev a = he_rev e) \<or>
     (ents root k = None \<and> \<not> Live (c_entry c)))"
proof (rule conjI [OF prepare_core [OF assms(1)]])
  have "(ents root k \<noteq> None \<and> Same (he_entry (the (ents root k))) (c_entry c) \<and> a_rev a = he_rev (the (ents root k)))
      \<or> (ents root k = None \<and> \<not> Live (c_entry c))"
    using assms unfolding prepare_def Let_def noted_ents
    by (simp only: prod.inject sum.inject sum.distinct simp_thms split: if_split_asm) auto
  then show "(\<exists>e. ents root k = Some e \<and> Same (he_entry e) (c_entry c) \<and> a_rev a = he_rev e) \<or>
     (ents root k = None \<and> \<not> Live (c_entry c))" by auto
qed

lemma process_rounds_accepted:
  assumes "process_rounds (Suc n) cfg env (\<lambda>_ r. r) k m side c base root = (a, root')"
    and "a_status a = Accepted" "hub_inv root" "check (c_entry c) = None" "0 \<le> cf_ttl cfg"
  shows "(\<exists>e. ents root' k = Some e \<and> Same (he_entry e) (c_entry c) \<and> he_rev e = a_rev a) \<or>
    (ents root' k = None \<and> \<not> Live (c_entry c))"
  using assms(1)
proof (cases rule: process_rounds_alone)
  case Answered
  from prepare_accepted [OF this assms(2)] show ?thesis by (auto simp: core_def)
next
  case (Failed p root1 e)
  with assms(2) show ?thesis by simp
next
  case (Committed p root1 res extra root2 root3)
  note pd = prepare_InrD [OF Committed(1)]
  have d: "distinct (map fst (hr_entries root2))"
    using decide_core [OF Committed(2)] prepare_core [OF Committed(1)] assms(3)
    by (simp add: core_def hub_inv_def tallies_ok_def)
  have "commit_change cfg (de_now (env n)) p res extra (ents root2 k) root2 = (a, root3)"
    using commitPlan_alone [of p root2 cfg "de_now (env n)" res extra] Committed(3-6) pd assms(2)
      commit_keep_entries [of "de_now (env n)" p root2 a root3] by auto
  from core_commit_change [OF this d] assms(2) obtain root4 ne root5 hist origin where
    se: "setEntry cfg (de_now (env n)) k (c_entry c) origin (c_base c) hist origin root4 = (Some ne, root5)"
      "distinct (map fst (hr_entries root4))" "core root3 = core root5" "a_rev a = he_rev ne"
    using pd by (auto split: if_splits)
  have ne: "ne = new_state (de_now (env n)) (c_entry c) origin (c_base c) hist root4"
    and "ents root5 k = Some ne"
    using setEntry_present [OF se(1,2) assms(5)] by blast+
  moreover have "ents root' k = ents root5 k"
    using se(3) Committed(7) by (simp add: core_def)
  ultimately show ?thesis using se(4) Same_refl [OF assms(4)] by auto
qed

text \<open>A change that is not made on the current state.\<close>

definition concurrent :: "hub_root \<Rightarrow> side_info \<Rightarrow> hub_entry \<Rightarrow> nat \<Rightarrow> bool" where
  "concurrent root side e base \<longleftrightarrow> base \<noteq> he_rev e \<and> \<not> (he_origin e = s_id side \<and> base = he_base e) \<and>
     hr_writer root \<noteq> s_id side"

lemma prepare_fast:
  assumes "prepare now k m side c base root = (Inr p, root')" "ents root k = Some e" "concurrent root side e base"
  shows "\<not> p_fast p"
  using assms unfolding prepare_def Let_def noted_ents
  by (simp only: prod.inject sum.inject sum.distinct simp_thms split: if_split_asm)
    (auto simp: concurrent_def map_side_def)

lemma process_rounds_stale_delete:
  assumes "process_rounds (Suc n) cfg env (\<lambda>_ r. r) k m side c base root = (a, root')"
    and "ents root k = Some e" "\<not> Live (c_entry c)" "concurrent root side e base" "sync_merge (m_merge m)"
  shows "map_option he_entry (ents root' k) = Some (he_entry e)"
  using assms(1)
proof (cases rule: process_rounds_alone)
  case Answered
  from prepare_core [OF this] assms(2) show ?thesis by (simp add: core_def)
next
  case (Failed p root1 er)
  with prepare_core [OF Failed(1)] decide_core [OF Failed(2)] assms(2) show ?thesis by (simp add: core_def)
next
  case (Committed p root1 res extra root2 root3)
  note pd = prepare_InrD [OF Committed(1)]
  have nf: "\<not> p_fast p" using prepare_fast [OF Committed(1) assms(2,4)] .
  have e2: "ents root2 k = Some e"
    using decide_core [OF Committed(2)] prepare_core [OF Committed(1)] assms(2) by (simp add: core_def)
  have "mr_decision res = Keep"
    using Committed(2)
  proof (rule decide_InrD)
    assume pr: "policy_result (env n) root1 p = Inr res"
    show ?thesis
    proof (cases "sc_keep (p_shape p)")
      case True
      with pr show ?thesis by (auto simp: policy_result_def)
    next
      case False
      with pr have "m_merge (p_m p) (merge_input_of (env n) root1 p) = Inr res"
        by (simp add: policy_result_def)
      with sync_merge.stale_delete [of "m_merge (p_m p)"] assms(3,5) pd nf show ?thesis
        using assms(2) by (fastforce simp: merge_input_of_def)
    qed
  qed
  then consider "root3 = root2\<lparr>hr_holds := (s_id (p_side p), c_path (p_c p)) # hr_holds root2\<rparr>"
    | "commit_keep (de_now (env n)) p (ents root2 (p_k p)) root2 = (a, root3)"
    using commitPlan_alone [of p root2 cfg "de_now (env n)" res extra] Committed(3-6) pd by auto
  then have "map_option he_entry (ents root3 k) = map_option he_entry (ents root2 k)"
    using commit_keep_entries [of "de_now (env n)" p root2 a root3] by cases (simp, blast)
  with e2 Committed(7) show ?thesis by (simp add: core_def)
qed

section \<open>The cap\<close>

text \<open>What a new state does to the size tally.\<close>

lemma setEntry_total:
  assumes "setEntry cfg now k e origin base hist except root = (r, root')" "in_int64 (hr_total root)"
  shows "hr_total root' = (if r = None then hr_total root
    else wrap64 (hr_total root - liveSize (ents root k) + (if Live e then e_size e else 0)))"
  using assms(1)
proof (cases rule: setEntry_cases)
  case (Fail err root1)
  then have "core root' = core root" using root_commit_core by (metis core_root_put)
  with Fail show ?thesis by (simp add: core_def)
next
  case (Done root1 root3)
  let ?ne = "new_state now e origin base hist root"
  have t1: "hr_total root1 = hr_total root"
    using Done(1) root_commit_core core_eqD(3) by (metis core_root_put)
  have "hr_total root3 = wrap64 (hr_total root - liveSize (ents root k) + (if Live e then e_size e else 0))"
    unfolding Done(3) using t1 assms(2)
    by (auto simp: markDirty_def root_count_def recount_def uncount_def Let_def live_opt_def liveSize_def
        split: option.splits)
  moreover have "hr_total (snd (compact cfg now root3)) = hr_total root3"
    using core_compact by (simp add: core_def)
  ultimately show ?thesis using Done(2,4) by auto
qed

lemma resurrect_total:
  "resurrect cfg now side rs root = (ok, root') \<Longrightarrow> in_int64 (hr_total root) \<Longrightarrow>
   distinct (map fst (hr_entries root)) \<Longrightarrow> distinct (map fst rs) \<Longrightarrow>
   \<forall>(a, md) \<in> set rs. \<not> live_opt (ents root ([], a)) \<Longrightarrow>
   hr_total root' = hr_total root \<and> distinct (map fst (hr_entries root')) \<and>
   (\<forall>k. (\<forall>a \<in> fst ` set rs. k \<noteq> ([], a)) \<longrightarrow> liveSize (ents root' k) = liveSize (ents root k))"
proof (induction cfg now side rs root rule: resurrect.induct)
  case (1 cfg now side root)
  then show ?case by simp
next
  case (2 cfg now side a md rest root)
  let ?e = "gone_entry\<lparr>e_kind := Dir, e_mode := fileMode Dir md\<rparr>"
  obtain r root1 where st: "setEntry cfg now ([], a) ?e side 0 [] [] root = (r, root1)" by fastforce
  have old: "liveSize (ents root ([], a)) = 0"
    using 2(6) by (auto simp: live_opt_def liveSize_def split: option.splits)
  have t1: "hr_total root1 = hr_total root"
    using setEntry_total [OF st 2(3)] old 2(3) by (simp add: gone_entry_def)
  have d1: "distinct (map fst (hr_entries root1))" by (rule setEntry_distinct [OF st 2(4)])
  have keep: "liveSize (ents root1 k) = liveSize (ents root k) \<and> live_opt (ents root1 k) = live_opt (ents root k)"
    if "k \<noteq> ([], a)" for k
  proof (cases r)
    case None
    then show ?thesis using setEntry_entries [OF st 2(4)] by simp
  next
    case (Some ne)
    with setEntry_entries [OF st 2(4)] have
      sub: "\<And>k' x. ents root1 k' = Some x \<Longrightarrow> ((ents root)(([], a) \<mapsto> ne)) k' = Some x"
      and live: "\<And>k' x. ((ents root)(([], a) \<mapsto> ne)) k' = Some x \<Longrightarrow> Live (he_entry x) \<Longrightarrow> ents root1 k' = Some x"
      by blast+
    show ?thesis
    proof (cases "ents root1 k")
      case None
      with live [of k] that have "\<not> live_opt (ents root k)"
        by (cases "ents root k") (auto simp: live_opt_def)
      with None show ?thesis by (auto simp: live_opt_def liveSize_def split: option.splits)
    next
      case (Some x)
      with sub [of k x] that show ?thesis by simp
    qed
  qed
  show ?case
  proof (cases r)
    case None
    with 2(2) st t1 d1 keep show ?thesis by auto
  next
    case (Some ne)
    with st have rest: "resurrect cfg now side rest root1 = (ok, root')" using 2(2) by simp
    have "\<forall>(x, md) \<in> set rest. \<not> live_opt (ents root1 ([], x))"
    proof clarify
      fix x md' assume x: "(x, md') \<in> set rest" "live_opt (ents root1 ([], x))"
      then have "x \<noteq> a" using 2(5) by force
      then show False using keep [of "([], x)"] x 2(6) by auto
    qed
    with 2(1) [OF st [symmetric] Some rest] t1 d1 2(3,5) keep show ?thesis by auto
  qed
qed

lemma filter_zip_distinct: "distinct xs \<Longrightarrow> distinct (map fst (zip xs ys))"
proof (induction xs arbitrary: ys)
  case (Cons x xs)
  then show ?case by (cases ys) (auto dest: set_zip_leftD)
qed simp

lemma shape_up_dead:
  "\<not> sc_keep (shape_up root as s) \<Longrightarrow> a \<in> set as \<Longrightarrow> folder root a \<or> \<not> live_opt (ents root ([], a))"
proof (induction as arbitrary: s)
  case (Cons b as)
  show ?case
  proof (cases "a = b")
    case True
    with Cons.prems(1) show ?thesis
      by (auto simp: folder_def live_opt_def refuse_shape_def split: option.splits if_splits)
  next
    case False
    with Cons show ?thesis by (auto simp: refuse_shape_def split: option.splits if_splits)
  qed
qed simp

lemma checkShape_dead:
  assumes "\<not> sc_keep (checkShape root c cur)" "a \<in> set (sc_resurrect (checkShape root c cur))"
  shows "a \<in> set (ancestors (c_path c)) \<and> \<not> live_opt (ents root ([], a))"
proof -
  have live: "Live (c_entry c)" using assms by (auto simp: checkShape_def no_shape_def split: option.splits if_splits)
  have a: "a \<in> set (ancestors (c_path c))" "\<not> folder root a"
    using checkShape_live [OF assms(1) live] assms(2) by auto
  have "\<not> sc_keep (shape_up root (ancestors (c_path c)) no_shape)"
    using assms(1) live by (auto simp: checkShape_def refuse_shape_def split: if_splits)
  with shape_up_dead [OF _ a(1)] a show ?thesis by blast
qed

lemma commit_change_total:
  assumes st: "commit_change cfg now p res extra (ents root (p_k p)) root = (a, root')"
    and inv: "hub_inv root" and p: "plan_ok p" and d: "decided p res extra" and nk: "mr_decision res \<noteq> Keep"
    and shape: "shape_equal (checkShape root (p_c p) (ents root (p_k p))) (p_shape p)"
  defines "e \<equiv> if mr_decision res = Merged then x_merged extra else c_entry (p_c p)"
  shows "hr_total root' = hr_total root \<or>
    hr_total root' = wrap64 (hr_total root - liveSize (ents root (p_k p)) + (if Live e then e_size e else 0))"
proof -
  let ?sh = "checkShape root (p_c p) (ents root (p_k p))"
  let ?rs = "zip (sc_resurrect (p_shape p)) (sc_modes (p_shape p))"
  have v: "validPath (c_path (p_c p))" "snd (p_k p) = c_path (p_c p)" using p by (auto simp: plan_ok_def)
  have keep: "\<not> sc_keep ?sh" using d nk shape by (auto simp: decided_def shape_equal_def)
  have same: "sc_resurrect (p_shape p) = sc_resurrect ?sh"
    using join_valid_inj [of "sc_resurrect (p_shape p)" "sc_resurrect ?sh"] p shape
      checkShape_resurrect_valid [OF v(1)] by (auto simp: plan_ok_def shape_equal_def)
  have names: "x \<in> set (ancestors (c_path (p_c p))) \<and> \<not> live_opt (ents root ([], x))"
    if "x \<in> set (sc_resurrect (p_shape p))" for x
    using checkShape_dead [OF keep] that same by simp
  have "distinct (sc_resurrect (p_shape p))"
  proof (cases "Live (c_entry (p_c p))")
    case True
    with checkShape_live [OF keep] same ancestors_chain [OF v(1)] show ?thesis by simp
  next
    case False
    with same keep show ?thesis by (auto simp: checkShape_def no_shape_def split: option.splits if_splits)
  qed
  then have dz: "distinct (map fst ?rs)" by (rule filter_zip_distinct)
  have tl: "in_int64 (hr_total root)" "distinct (map fst (hr_entries root))"
    using inv by (auto simp: hub_inv_def tallies_ok_def)
  obtain ok root1 where rs: "resurrect cfg now (s_id (p_side p)) ?rs root = (ok, root1)" by fastforce
  have dead: "\<forall>(x, md) \<in> set ?rs. \<not> live_opt (ents root ([], x))"
    using names by (auto dest: set_zip_leftD)
  note r1 = resurrect_total [OF rs tl dz dead]
  have "\<forall>x \<in> fst ` set ?rs. p_k p \<noteq> ([], x)"
    using names ancestors_chain [OF v(1)] v(2) by (fastforce dest: set_zip_leftD)
  with r1 have sz1: "liveSize (ents root1 (p_k p)) = liveSize (ents root (p_k p))" by blast
  show ?thesis
  proof (cases ok)
    case False
    with st rs r1 show ?thesis by (simp add: commit_change_def)
  next
    case True
    define hist where "hist = new_hist p (ents root (p_k p)) e (x_hist extra) (succ64 (hr_rev root1))"
    define origin where "origin = (if mr_decision res = Merged then [] else s_id (p_side p))"
    obtain r root2 where se: "setEntry cfg now (p_k p) e origin (c_base (p_c p)) hist origin root1 = (r, root2)"
      by fastforce
    have "core root' = core root2"
      using st rs True se
      unfolding commit_change_def Let_def e_def [symmetric] hist_def [symmetric] origin_def [symmetric]
      by (auto simp: hist_def [symmetric] e_def [symmetric] split: option.splits if_splits)
    then have "hr_total root' = hr_total root2" by (rule core_eqD)
    moreover have "in_int64 (hr_total root1)" using r1 tl by simp
    ultimately show ?thesis using setEntry_total [OF se] r1 sz1 by (auto split: if_splits)
  qed
qed

section \<open>Properties\<close>

text \<open>C2: the hub's invariant holds after every reported change, whatever the policies' content
  fetches, the journal's writes and the clock do, and whatever ran between the plan and the
  commit of each round: the size and child tallies are those of the entries, every live entry
  sits in a live folder, and every entry is well formed.\<close>

theorem process_keeps_invariant:
  assumes "hub_inv root" "\<And>i r. hub_inv r \<Longrightarrow> hub_inv (others i r)"
  shows "hub_inv (snd (process (default_cfg json toml) env others side c stale root))"
  using fleet.process_inv [OF assms(1)] assms(2) by (metis prod.collapse)

text \<open>C4: what \<open>Accepted\<close> means. A live change answered \<open>Accepted\<close> is the path's current state, at
  the rev of the answer; an accepted delete leaves no live state there.\<close>

theorem accepted_is_current:
  assumes "hub_inv root" "keyFor (default_cfg json toml) root (c_path c) (s_location side) = Some (k, m)"
    and "process (default_cfg json toml) env (\<lambda>_ r. r) side c stale root = (a, root')"
    and "a_status a = Accepted"
  shows "(Live (c_entry c) \<longrightarrow> (\<exists>e. ents root' k = Some e \<and> Same (he_entry e) (c_entry c) \<and> he_rev e = a_rev a)) \<and>
    (\<not> Live (c_entry c) \<longrightarrow> \<not> live_opt (ents root' k))"
proof -
  have ok: "check (c_entry c) = None"
    "process_rounds 4 (default_cfg json toml) env (\<lambda>_ r. r) k m side c (if stale then 0 else c_base c) root = (a, root')"
    by (rule process_cases [OF assms(3)]; use assms(2,4) in \<open>simp del: process_rounds.simps\<close>)+
  have four: "(4 :: nat) = Suc 3" by simp
  have "0 \<le> cf_ttl (default_cfg json toml)" by (simp add: default_cfg_def)
  note acc = process_rounds_accepted [OF ok(2) [unfolded four] assms(4,1) ok(1) this]
  show ?thesis
  proof (cases "ents root' k")
    case None
    with acc show ?thesis by (auto simp: live_opt_def)
  next
    case (Some e)
    with acc have "Same (he_entry e) (c_entry c)" "he_rev e = a_rev a" by simp_all
    with Some Same_Live show ?thesis by (auto simp: live_opt_def)
  qed
qed

text \<open>C13: a delete never removes a change its side had not seen: reported on another state than the
  current one, by a side that neither made that state nor owns the root, it leaves the path's
  state as it is.\<close>

theorem stale_delete_keeps_state:
  assumes "keyFor (default_cfg json toml) root (c_path c) (s_location side) = Some (k, m)"
    and "ents root k = Some e" "\<not> Live (c_entry c)"
    and "concurrent root side e (if stale then 0 else c_base c)"
  shows "map_option he_entry (ents (snd (process (default_cfg json toml) env (\<lambda>_ r. r) side c stale root)) k) =
    Some (he_entry e)"
proof -
  obtain a root' where p: "process (default_cfg json toml) env (\<lambda>_ r. r) side c stale root = (a, root')"
    by fastforce
  have m: "sync_merge (m_merge m)"
    using assms(1) fleet.merger_contract by (auto simp: keyFor_def split: option.splits)
  have four: "(4 :: nat) = Suc 3" by simp
  from p assms(1) consider "root' = root"
    | "process_rounds 4 (default_cfg json toml) env (\<lambda>_ r. r) k m side c (if stale then 0 else c_base c) root = (a, root')"
    by (cases rule: process_cases [OF p]) (auto simp del: process_rounds.simps)
  then have "map_option he_entry (ents root' k) = Some (he_entry e)"
  proof cases
    case 1
    with assms(2) show ?thesis by simp
  next
    case 2
    from process_rounds_stale_delete [OF this [unfolded four] assms(2-4) m] show ?thesis .
  qed
  with p show ?thesis by simp
qed

text \<open>C24: a one-way root takes changes from its writer alone: a change of another side leaves every
  entry and the root's rev as they are, in whatever state other work leaves the root later.\<close>

theorem one_way_root:
  assumes "hr_writer root \<noteq> []" "s_id side \<noteq> hr_writer root"
  shows "hr_entries (snd (process cfg env others side c stale root)) = hr_entries root \<and>
    hr_rev (snd (process cfg env others side c stale root)) = hr_rev root"
proof -
  have step: "core root' = core root \<and> frame root' = frame root"
    if "process_rounds (Suc n) cfg env others k m side c base root = (a, root')" for n k m base a root'
  proof -
    obtain r root1 where pr: "prepare (de_now (env n)) k m side c base root = (r, root1)" by fastforce
    show ?thesis
    proof (cases r)
      case (Inl x)
      with that have r': "root' = root1"
        by (simp only: process_rounds.simps pr prod.case sum.case prod.inject)
      have "frame (noted side c root) = frame root" by simp
      with prepare_InlD [OF pr [unfolded Inl]] have "frame root1 = frame root"
        by (elim disjE) (simp_all only: frame_simps)
      with r' prepare_core [OF pr] show ?thesis by simp
    next
      case (Inr p)
      have "hr_writer (noted side c root) = hr_writer root" by (simp add: map_side_def)
      with prepare_InrD [OF pr [unfolded Inr]] assms show ?thesis by metis
    qed
  qed
  have four: "(4 :: nat) = Suc 3" by simp
  obtain a root' where p: "process cfg env others side c stale root = (a, root')" by fastforce
  then have "root' = root \<or> (\<exists>k m base. process_rounds 4 cfg env others k m side c base root = (a, root'))"
    by (cases rule: process_cases [OF p]) (blast+)
  with step [of 3] have "core root' = core root \<and> frame root' = frame root" unfolding four by blast
  with p show ?thesis by (simp add: core_def frame_def)
qed

text \<open>C25: a root with a cap stays under it. Committing a file (the change's, or the merged one)
  leaves the size tally at most what it was or the cap, when the tally with the new file still
  fits 63 bits.\<close>

theorem cap_respected:
  assumes "hub_inv root" "plan_ok p" "decided p res extra" "e_kind (c_entry (p_c p)) = File"
    and "commitPlan cfg now p res extra root = (Some a, root')"
    and "0 < hr_cap root" "0 \<le> hr_total root" "0 \<le> liveSize (ents root (p_k p))"
    and "0 \<le> sz" "hr_total root + sz < 2 ^ 63" "liveSize (ents root (p_k p)) < 2 ^ 63"
    and "sz = (if mr_decision res = Merged then e_size (x_merged extra) else e_size (c_entry (p_c p)))"
  shows "hr_total root' \<le> max (hr_total root) (hr_cap root)"
proof -
  let ?old = "liveSize (ents root (p_k p))"
  let ?e = "if mr_decision res = Merged then x_merged extra else c_entry (p_c p)"
  have live: "Live ?e" "e_size ?e = sz" using assms(3,4,12) by (auto simp: decided_def Live_def)
  have t: "in_int64 (hr_total root)" using assms(1) by (simp add: hub_inv_def tallies_ok_def)
  have w: "wrap64 (sz - ?old) = sz - ?old" "wrap64 (hr_total root + (sz - ?old)) = hr_total root - ?old + sz"
    "wrap64 (hr_total root - ?old + sz) = hr_total root - ?old + sz"
    using assms(7-11) t by (auto intro!: wrap64_in_range simp: in_int64_def)
  have keep: "hr_total r = hr_total root" if "commit_keep now p (ents root (p_k p)) root = (x, r)" for x r
  proof -
    have u: "hr_total (unvouch k e side rt) = hr_total rt" for k e side rt
      using core_eqD(3) [OF core_root_commit] by (simp add: unvouch_def Let_def root_put_def)
    show ?thesis
      using that u [of "p_k p"] by (auto simp: commit_keep_def Let_def map_side_def split: option.splits if_splits)
  qed
  show ?thesis
  proof (cases "hr_total root' = hr_total root")
    case False
    then have c: "commit_change cfg now p res extra (ents root (p_k p)) root = (a, root')" "mr_decision res \<noteq> Keep"
      "shape_equal (checkShape root (p_c p) (ents root (p_k p))) (p_shape p)"
      "\<not> overCap root sz (ents root (p_k p))"
      using assms(4,5,12) keep by (auto simp: commitPlan_def Let_def split: if_splits prod.splits)
    have "hr_total root' = hr_total root - ?old + sz"
      using commit_change_total [OF c(1) assms(1-3) c(2,3)] False live w by auto
    with c(4) w assms(6) show ?thesis by (auto simp: overCap_def Let_def)
  qed simp
qed

text \<open>C40: the limit of that promise. The 63-bit sum of the cap check wraps around: with one byte
  or more in the root, a new file that claims the largest size there is passes the check,
  whatever the cap.\<close>

theorem cap_check_wraps:
  assumes "0 < hr_total root" "hr_total root < 2 ^ 63" "0 < hr_cap root"
  shows "\<not> overCap root max_int64 None"
proof -
  have "wrap64 (hr_total root + max_int64) = hr_total root + max_int64 - 2 ^ 64"
    using assms(1,2) unfolding wrap64_def max_int64_def
    by (subst mod_pos_geq) (simp_all add: mod_pos_pos_trivial)
  moreover have "wrap64 max_int64 = max_int64" by (simp add: max_int64_def in_int64_def)
  ultimately show ?thesis
    using assms by (simp add: overCap_def liveSize_def max_int64_def)
qed

text \<open>Revs only grow and are never given out twice. Committing a decision keeps every entry's
  rev at or below the root's, all of them different, and the root's rev does not fall, as long
  as the 64-bit counter has room for the states the commit makes.\<close>

theorem commit_keeps_revs:
  assumes "revs_ok root" "hr_rev root + length (sc_resurrect (p_shape p)) + 1 < 2 ^ 64"
  shows "revs_ok (snd (commitPlan cfg now p res extra root)) \<and>
    hr_rev root \<le> hr_rev (snd (commitPlan cfg now p res extra root))"
  using commitPlan_revs [of cfg now p res extra root] assms by (metis prod.collapse)

end
