(* ===== verification/HubDelivery.thy ===== *)
theory HubDelivery
  imports Hub HubSafety
begin

text \<open>
  No update is lost on its way to a side: whatever a side lacks of the states the hub holds is
  marked for it, in flight to it, or was refused by it. The invariant is kept by every step that
  touches a root under its lock, in any interleaving.
\<close>

section \<open>The loops\<close>

lemma chunks_concat: "0 < n \<Longrightarrow> concat (chunks n xs) = xs"
proof (induction n xs rule: chunks.induct)
  case (1 n xs)
  then show ?case by (subst chunks.simps) auto
qed

lemma chunks_length: "c \<in> set (chunks n xs) \<Longrightarrow> c \<noteq> [] \<and> length c \<le> n"
proof (induction n xs rule: chunks.induct)
  case (1 n xs)
  from "1.prems" have "xs \<noteq> []" "n \<noteq> 0" by (auto simp: chunks.simps [of n xs] split: if_splits)
  with 1 show ?case by (auto simp: chunks.simps [of n xs])
qed

lemma laneFor_lanes: "laneFor cfg root op \<in> set lanes"
proof (cases "laneFor cfg root op")
  case LaneAuto
  then show ?thesis by (auto simp: laneFor_def Let_def split: if_splits)
qed (simp_all add: lanes_def)

text \<open>What \<open>opFor\<close> looks at.\<close>

definition view :: "side_root \<Rightarrow> (string \<times> nat) list \<times> side_info \<times> (string \<Rightarrow> bool) option" where
  "view sr = (sr_held sr, sr_info sr, sr_only sr)"

lemma opFor_view: "view sr = view sr' \<Longrightarrow> opFor cfg root sr p = opFor cfg root sr' p"
proof -
  assume "view sr = view sr'"
  then have "sr_held sr = sr_held sr'" "sr_info sr = sr_info sr'" "keeps sr p = keeps sr' p"
    by (simp_all add: view_def keeps_def split: option.split)
  then show ?thesis unfolding opFor_def by (simp only:)
qed

lemma opFor_path: "opFor cfg root sr p = Some op \<Longrightarrow> op_path op = p"
  by (auto simp: opFor_def Let_def split: option.splits if_splits)

definition refused :: "side_root \<Rightarrow> sync_op \<Rightarrow> bool" where
  "refused sr op \<longleftrightarrow> map_option fst (sr_blocked sr (op_path op)) = Some (op_rev op)"

text \<open>The ops of the batches are the ops that were due.\<close>

lemma lane_batches_ops:
  assumes "0 < cf_maxBatch cfg" "\<forall>(l, op) \<in> set ready. l \<in> set lanes"
  shows "mset (concat (map b_ops (lane_batches cfg root ready))) = mset (map snd ready)"
proof -
  have lane: "concat (map b_ops (map (\<lambda>ops. \<lparr>b_root = x, b_epoch = y, b_lane = l, b_ops = ops\<rparr>) oss)) = concat oss"
    for x y l oss by (induction oss) simp_all
  have "mset (concat (map b_ops (lane_batches cfg root ready))) =
      mset (concat (map (\<lambda>l. sortOps (map snd (filter (\<lambda>(l', op). l' = l) ready))) lanes))"
    using assms(1) by (simp add: lane_batches_def lanes_def lane chunks_concat del: map_map)
  also have "\<dots> = mset (concat (map (\<lambda>l. map snd (filter (\<lambda>(l', op). l' = l) ready)) lanes))"
    by (simp add: lanes_def sortOps_def)
  also have "\<dots> = mset (map snd ready)"
    using assms(2) by (induction ready) (auto simp: lanes_def)
  finally show ?thesis .
qed

section \<open>Collecting\<close>

text \<open>The state of the loop over the dirty paths: the paths seen so far are still dirty, or nothing
  is owed for them, or they are refused at the rev owed.\<close>

definition collecting :: "hub_cfg \<Rightarrow> hub_root \<Rightarrow> side_root \<Rightarrow> side_root \<times> int option \<times> (lane \<times> sync_op) list \<Rightarrow> bool" where
  "collecting cfg root sr st \<longleftrightarrow>
     (let (sr1, next, ready) = st
      in view sr1 = view sr \<and> sr_inflight sr1 = sr_inflight sr \<and> sr_reports sr1 = sr_reports sr \<and>
         sr_paused sr1 = sr_paused sr \<and> sr_retryAt sr1 = sr_retryAt sr \<and>
         (\<forall>p. map_of (sr_dirty sr1) p \<noteq> map_of (sr_dirty sr) p \<longrightarrow> map_of (sr_dirty sr1) p = None \<and>
            (\<forall>op. opFor cfg root sr p = Some op \<longrightarrow> refused sr1 op)) \<and>
         (\<forall>p op. opFor cfg root sr p = Some op \<and> refused sr op \<longrightarrow> refused sr1 op) \<and>
         (\<forall>p. sr_blocked sr p = None \<longrightarrow> sr_blocked sr1 p = None) \<and>
         distinct (map fst (sr_dirty sr1)) \<and>
         (\<forall>(l, op) \<in> set ready. laneFor cfg root op = l \<and> opFor cfg root sr (op_path op) = Some op \<and>
            map_of (sr_inflight sr) (op_path op) = None \<and> sr_blocked sr1 (op_path op) = None))"

lemma collect_path_collecting:
  assumes "collecting cfg root sr st"
  shows "collecting cfg root sr (collect_path cfg now flush root ps st)"
proof -
  obtain p since where ps: "ps = (p, since)" by fastforce
  obtain sr1 nx ready where st: "st = (sr1, nx, ready)" by (cases st)
  have v: "opFor cfg root sr1 q = opFor cfg root sr q" for q
    by (rule opFor_view) (use assms in \<open>simp add: collecting_def st\<close>)
  show ?thesis
  proof (cases "map_of (sr_inflight sr1) p = None")
    case False
    with assms show ?thesis by (simp add: collect_path_def ps st)
  next
    case idle: True
    have same: "refused (sr2\<lparr>sr_dirty := d\<rparr>) op = refused sr2 op"
      "refused (sr2\<lparr>sr_dirty := d, sr_backoff := f\<rparr>) op = refused sr2 op" for sr2 d f op
      by (simp_all add: refused_def)
    show ?thesis
    proof (cases "opFor cfg root sr p")
      case None
      with assms idle v show ?thesis
        by (auto simp: collect_path_def ps st collecting_def view_def same)
    next
      case (Some op)
      note path = opFor_path [OF Some]
      show ?thesis
      proof (cases "refused sr1 op")
        case True
        then have r: "map_option fst (sr_blocked sr1 p) = Some (op_rev op)" using path by (simp add: refused_def)
        from assms idle v Some True show ?thesis
          by (auto simp: collect_path_def ps st collecting_def view_def same r simp del: map_option_eq_Some)
      next
        case False
        then have r: "map_option fst (sr_blocked sr1 p) \<noteq> Some (op_rev op)" using path by (simp add: refused_def)
        let ?sr = "sr1\<lparr>sr_blocked := (sr_blocked sr1)(p := None)\<rparr>"
        have keep: "refused ?sr o2" if "opFor cfg root sr q = Some o2" "refused sr1 o2" for q o2
        proof -
          have "q \<noteq> p" using that False Some by auto
          then show ?thesis using that(2) opFor_path [OF that(1)] by (simp add: refused_def)
        qed
        have c: "collecting cfg root sr (?sr, nx', ready @ more)"
          if "more = [] \<or> more = [(laneFor cfg root op, op)]" for nx' more
        proof -
          note c = assms [unfolded collecting_def st Let_def prod.case]
          have d: "\<forall>q. map_of (sr_dirty ?sr) q \<noteq> map_of (sr_dirty sr) q \<longrightarrow> map_of (sr_dirty ?sr) q = None \<and>
              (\<forall>o2. opFor cfg root sr q = Some o2 \<longrightarrow> refused ?sr o2)"
            using c keep by simp
          have b: "\<forall>q o2. opFor cfg root sr q = Some o2 \<and> refused sr o2 \<longrightarrow> refused ?sr o2"
            using c keep by blast
          have r: "\<forall>(l, o2) \<in> set (ready @ more). laneFor cfg root o2 = l \<and> opFor cfg root sr (op_path o2) = Some o2 \<and>
              map_of (sr_inflight sr) (op_path o2) = None \<and> sr_blocked ?sr (op_path o2) = None"
          proof -
            have rc: "\<forall>(l, o2) \<in> set ready. laneFor cfg root o2 = l \<and> opFor cfg root sr (op_path o2) = Some o2 \<and>
                map_of (sr_inflight sr) (op_path o2) = None \<and> sr_blocked sr1 (op_path o2) = None"
              using c by blast
            have i: "map_of (sr_inflight sr) p = None" using c idle by simp
            have old: "case x of (l, o2) \<Rightarrow> laneFor cfg root o2 = l \<and> opFor cfg root sr (op_path o2) = Some o2 \<and>
                map_of (sr_inflight sr) (op_path o2) = None \<and> sr_blocked ?sr (op_path o2) = None" if "x \<in> set ready" for x
              using bspec [OF rc that] by (simp add: case_prod_beta)
            have new: "case (laneFor cfg root op, op) of (l, o2) \<Rightarrow> laneFor cfg root o2 = l \<and>
                opFor cfg root sr (op_path o2) = Some o2 \<and> map_of (sr_inflight sr) (op_path o2) = None \<and>
                sr_blocked ?sr (op_path o2) = None"
              using Some path i by simp
            show ?thesis
            proof (rule ballI)
              fix x assume "x \<in> set (ready @ more)"
              with that consider "x \<in> set ready" | "x = (laneFor cfg root op, op)" by auto
              then show "case x of (l, o2) \<Rightarrow> laneFor cfg root o2 = l \<and> opFor cfg root sr (op_path o2) = Some o2 \<and>
                map_of (sr_inflight sr) (op_path o2) = None \<and> sr_blocked ?sr (op_path o2) = None"
                by cases (use old new in \<open>simp_all only:\<close>)
            qed
          qed
          have e: "view sr1 = view sr" "sr_inflight sr1 = sr_inflight sr" "sr_reports sr1 = sr_reports sr"
            "sr_paused sr1 = sr_paused sr" "sr_retryAt sr1 = sr_retryAt sr" "distinct (map fst (sr_dirty sr1))"
            and n: "\<forall>q. sr_blocked sr q = None \<longrightarrow> sr_blocked sr1 q = None"
            using c by blast+
          have "view ?sr = view sr" using e(1) by (simp add: view_def)
          moreover have "\<forall>q. sr_blocked sr q = None \<longrightarrow> sr_blocked ?sr q = None" using n by simp
          moreover have "sr_inflight ?sr = sr_inflight sr \<and> sr_reports ?sr = sr_reports sr \<and>
              sr_paused ?sr = sr_paused sr \<and> sr_retryAt ?sr = sr_retryAt sr \<and> distinct (map fst (sr_dirty ?sr))"
            using e by simp
          ultimately show ?thesis
            unfolding collecting_def Let_def prod.case using d b r by blast
        qed
        from idle v Some r c [of "[]"] c [of "[(laneFor cfg root op, op)]"] show ?thesis
          by (simp add: collect_path_def ps st Let_def del: map_option_eq_Some split: option.split)
      qed
    qed
  qed
qed

lemma collect_fold_collecting:
  "collecting cfg root sr st \<Longrightarrow> collecting cfg root sr (fold (collect_path cfg now flush root) xs st)"
  by (induction xs arbitrary: st) (simp_all add: collect_path_collecting)

lemma collect_ready_paths:
  assumes "distinct (map fst xs)" "fold (collect_path cfg now flush root) xs st = (sr1, nx, ready)"
    and "distinct (map (op_path \<circ> snd) (snd (snd st)))" "set (map (op_path \<circ> snd) (snd (snd st))) \<inter> set (map fst xs) = {}"
  shows "distinct (map (op_path \<circ> snd) ready)"
  using assms
proof (induction xs arbitrary: st)
  case (Cons x xs)
  obtain p since where x: "x = (p, since)" by fastforce
  obtain sr0 n0 r0 where st: "st = (sr0, n0, r0)" by (cases st)
  obtain sr2 n2 r2 where st2: "collect_path cfg now flush root x st = (sr2, n2, r2)"
    by (cases "collect_path cfg now flush root x st")
  have "r2 = r0 \<or> (\<exists>l op. r2 = r0 @ [(l, op)] \<and> op_path op = p)"
    using st2 unfolding collect_path_def x st Let_def
    by (auto split: if_splits option.splits dest: opFor_path)
  with Cons st x st2 show ?case by (auto simp del: set_map simp: image_iff)
qed simp

section \<open>The invariant of one side\<close>

text \<open>\<open>owes\<close>: the op a side is owed for a path whose state the hub keeps. \<open>side_ok\<close>, with the ops in
  flight to the side: what it is owed is marked, in flight as it is, or refused; and the revs the
  side holds or is being sent are not newer than the path's.\<close>

definition path_state :: "hub_cfg \<Rightarrow> hub_root \<Rightarrow> side_root \<Rightarrow> string \<Rightarrow> hub_entry option" where
  "path_state cfg root sr p =
     (case keyFor cfg root p (s_location (sr_info sr)) of None \<Rightarrow> None | Some (k, m) \<Rightarrow> map_of (hr_entries root) k)"

definition waiting :: "side_root \<Rightarrow> sync_op list \<Rightarrow> sync_op \<Rightarrow> bool" where
  "waiting sr fl op \<longleftrightarrow> map_of (sr_dirty sr) (op_path op) \<noteq> None \<or> op \<in> set fl \<or> refused sr op"

definition flight_ok :: "side_root \<Rightarrow> sync_op list \<Rightarrow> bool" where
  "flight_ok sr fl \<longleftrightarrow> distinct (map fst (sr_dirty sr)) \<and> distinct (map op_path fl) \<and>
     (\<forall>p. map_of (sr_inflight sr) p = None \<longleftrightarrow> p \<notin> op_path ` set fl) \<and>
     (\<forall>op \<in> set fl. sr_blocked sr (op_path op) = None)"

definition revs_behind :: "hub_cfg \<Rightarrow> hub_root \<Rightarrow> side_root \<Rightarrow> sync_op list \<Rightarrow> bool" where
  "revs_behind cfg root sr fl \<longleftrightarrow>
     (\<forall>p h. map_of (sr_held sr) p = Some h \<longrightarrow> h \<le> hr_rev root \<and>
        (\<forall>e. path_state cfg root sr p = Some e \<and> Live (he_entry e) \<longrightarrow> h \<le> he_rev e)) \<and>
     (\<forall>op \<in> set fl. Live (op_entry op) \<longrightarrow> op_rev op \<le> hr_rev root \<and>
        (\<forall>e. path_state cfg root sr (op_path op) = Some e \<and> Live (he_entry e) \<longrightarrow> op_rev op \<le> he_rev e))"

definition all_waiting :: "hub_cfg \<Rightarrow> hub_root \<Rightarrow> side_root \<Rightarrow> sync_op list \<Rightarrow> bool" where
  "all_waiting cfg root sr fl \<longleftrightarrow>
     (\<forall>p op. opFor cfg root sr p = Some op \<and> path_state cfg root sr p \<noteq> None \<longrightarrow> waiting sr fl op)"

definition side_ok :: "hub_cfg \<Rightarrow> hub_root \<Rightarrow> side_root \<Rightarrow> sync_op list \<Rightarrow> bool" where
  "side_ok cfg root sr fl \<longleftrightarrow> flight_ok sr fl \<and> revs_behind cfg root sr fl \<and> all_waiting cfg root sr fl"

lemma path_state_view: "view sr = view sr' \<Longrightarrow> path_state cfg root sr p = path_state cfg root sr' p"
  by (simp add: path_state_def view_def)

text \<open>What an owed op is, for a path with a state.\<close>

lemma opFor_state:
  assumes "path_state cfg root sr p = Some e"
  shows "opFor cfg root sr p =
    (if keeps sr p \<and> (if Live (he_entry e) then map_of (sr_held sr) p \<noteq> Some (he_rev e) else map_of (sr_held sr) p \<noteq> None)
     then Some \<lparr>op_path = p, op_rev = he_rev e, op_entry = he_entry e\<rparr> else None)"
  using assms by (auto simp: path_state_def opFor_def Let_def split: option.splits)

lemma opFor_op: "path_state cfg root sr p = Some e \<Longrightarrow> opFor cfg root sr p = Some op \<Longrightarrow>
    op = \<lparr>op_path = p, op_rev = he_rev e, op_entry = he_entry e\<rparr>"
  by (auto simp: opFor_state split: if_splits)

lemma opFor_gone: "opFor cfg root sr p = Some op \<Longrightarrow> path_state cfg root sr p = None \<Longrightarrow> op_entry op = gone_entry"
  by (auto simp: opFor_def path_state_def Let_def split: option.splits if_splits)

section \<open>Collecting keeps it\<close>

lemma take_off_fold:
  "view (fold take_off ops sr) = view sr \<and> sr_blocked (fold take_off ops sr) = sr_blocked sr \<and>
   map_of (sr_dirty (fold take_off ops sr)) p = (if p \<in> op_path ` set ops then None else map_of (sr_dirty sr) p) \<and>
   (map_of (sr_inflight (fold take_off ops sr)) p = None \<longleftrightarrow> map_of (sr_inflight sr) p = None \<and> p \<notin> op_path ` set ops) \<and>
   (distinct (map fst (sr_dirty sr)) \<longrightarrow> distinct (map fst (sr_dirty (fold take_off ops sr))))"
proof (induction ops arbitrary: sr)
  case (Cons op ops)
  show ?case using Cons.IH [of "take_off op sr"] by (auto simp: take_off_def view_def)
qed simp

lemma collect_side_ok:
  assumes "side_ok cfg root sr fl" "0 < cf_maxBatch cfg" "revs_ok root"
    and "collect_side cfg now flush root sr = (bs, nx, sr')"
  shows "side_ok cfg root sr' (fl @ concat (map b_ops bs)) \<and> view sr' = view sr"
proof -
  obtain sr1 nx1 ready where f: "fold (collect_path cfg now flush root) (sr_dirty sr) (sr, None, []) = (sr1, nx1, ready)"
    by (cases "fold (collect_path cfg now flush root) (sr_dirty sr) (sr, None, [])")
  define ops where "ops = concat (map b_ops bs)"
  from assms(4) f have bs: "bs = lane_batches cfg root ready" and sr': "sr' = fold take_off ops sr1"
    by (simp_all add: collect_side_def ops_def Let_def) blast+
  have d: "distinct (map fst (sr_dirty sr))" using assms(1) by (simp add: side_ok_def flight_ok_def)
  have "collecting cfg root sr (sr, None, [])" using d by (simp add: collecting_def)
  from collect_fold_collecting [OF this, of now flush "sr_dirty sr"] f
  have c: "collecting cfg root sr (sr1, nx1, ready)" by simp
  then have ready: "\<And>l op. (l, op) \<in> set ready \<Longrightarrow> laneFor cfg root op = l \<and> opFor cfg root sr (op_path op) = Some op \<and>
      map_of (sr_inflight sr) (op_path op) = None \<and> sr_blocked sr1 (op_path op) = None" and v1: "view sr1 = view sr" and i1: "sr_inflight sr1 = sr_inflight sr"
    and d1: "\<And>p. map_of (sr_dirty sr1) p \<noteq> map_of (sr_dirty sr) p \<Longrightarrow> \<forall>op. opFor cfg root sr p = Some op \<longrightarrow> refused sr1 op"
    and b1: "\<And>p op. opFor cfg root sr p = Some op \<Longrightarrow> refused sr op \<Longrightarrow> refused sr1 op"
    and dd1: "distinct (map fst (sr_dirty sr1))" and bn: "\<And>p. sr_blocked sr p = None \<Longrightarrow> sr_blocked sr1 p = None"
    by (auto simp: collecting_def)
  have lanes_ok: "\<forall>(l, op) \<in> set ready. l \<in> set lanes" using ready laneFor_lanes by fastforce
  have "mset ops = mset (map snd ready)"
    using lane_batches_ops [OF assms(2), of ready root, OF lanes_ok] by (simp add: ops_def bs)
  then have so: "set ops = snd ` set ready" and mo: "mset (map op_path ops) = mset (map op_path (map snd ready))"
    by (metis set_map set_mset_mset, metis mset_map)
  have "distinct (map (op_path \<circ> snd) ready)"
    using collect_ready_paths [OF d f] by simp
  then have do: "distinct (map op_path ops)"
    using mo by (metis map_map mset_eq_imp_distinct_iff)
  have opsD: "opFor cfg root sr (op_path op) = Some op \<and> map_of (sr_inflight sr) (op_path op) = None \<and>
      sr_blocked sr1 (op_path op) = None" if "op \<in> set ops" for op
    using that so ready by fastforce
  note t = take_off_fold [of ops sr1]
  have v: "view sr' = view sr" using t v1 sr' by simp
  note fl = assms(1) [unfolded side_ok_def flight_ok_def]
  have "flight_ok sr' (fl @ ops)"
    unfolding flight_ok_def
  proof (intro conjI allI ballI)
    show "sr_blocked sr' (op_path op) = None" if "op \<in> set (fl @ ops)" for op
      using that t sr' fl bn opsD by auto
    show "distinct (map fst (sr_dirty sr'))" using t dd1 sr' by blast
    show "distinct (map op_path (fl @ ops))" using fl do opsD by fastforce
    show "(map_of (sr_inflight sr') p = None) = (p \<notin> op_path ` set (fl @ ops))" for p
      using take_off_fold [of ops sr1 p] fl i1 sr' by auto
  qed
  moreover have "revs_behind cfg root sr' (fl @ ops)"
  proof -
    have new: "op_rev op \<le> hr_rev root \<and> (\<forall>e. path_state cfg root sr (op_path op) = Some e \<and> Live (he_entry e) \<longrightarrow> op_rev op \<le> he_rev e)"
      if a: "op \<in> set ops" and live: "Live (op_entry op)" for op
    proof -
      have o: "opFor cfg root sr (op_path op) = Some op" using opsD a by blast
      have "\<not> Live gone_entry" by (simp add: gone_entry_def Live_def)
      then have "op_entry op \<noteq> gone_entry" using live by auto
      with opFor_gone [OF o] obtain e where e: "path_state cfg root sr (op_path op) = Some e" by blast
      have "he_rev e \<le> hr_rev root"
        using e revs_okD [OF assms(3)] by (auto simp: path_state_def split: option.splits)
      with e opFor_op [OF e o] show ?thesis by (metis sync_op.select_convs(2) order_refl option.inject)
    qed
    have held: "sr_held sr' = sr_held sr" using v by (simp add: view_def)
    have "revs_behind cfg root sr fl" using assms(1) by (simp add: side_ok_def)
    with new show ?thesis
      unfolding revs_behind_def held path_state_view [OF v] by (metis UnE set_append)
  qed
  moreover have "all_waiting cfg root sr' (fl @ ops)"
    unfolding all_waiting_def
  proof (intro allI impI)
    fix p op
    assume "opFor cfg root sr' p = Some op \<and> path_state cfg root sr' p \<noteq> None"
    then have o: "opFor cfg root sr p = Some op" "path_state cfg root sr p \<noteq> None"
      using opFor_view [OF v] path_state_view [OF v] by auto
    then have "waiting sr fl op" using assms(1) by (simp add: side_ok_def all_waiting_def)
    have path: "op_path op = p" using opFor_path [OF o(1)] .
    have same: "refused sr' x = refused sr1 x" for x using t sr' by (simp add: refused_def)
    show "waiting sr' (fl @ ops) op"
    proof (cases "p \<in> op_path ` set ops")
      case True
      then have "op \<in> set ops" using opsD o(1) by fastforce
      then show ?thesis by (simp add: waiting_def)
    next
      case False
      then have "map_of (sr_dirty sr') p = map_of (sr_dirty sr1) p" using take_off_fold [of ops sr1 p] sr' by simp
      then show ?thesis
        using \<open>waiting sr fl op\<close> d1 [of p] b1 [OF o(1)] o(1) path same by (auto simp: waiting_def)
    qed
  qed
  ultimately show ?thesis using v by (simp add: side_ok_def ops_def)
qed

section \<open>Results keep it\<close>

text \<open>A result is late when the side's own change of the path was accepted since the op was sent: the
  side is taken to hold the path's state, which is live where the op's is not, or the reverse.\<close>

definition late_result :: "hub_cfg \<Rightarrow> hub_root \<Rightarrow> side_root \<Rightarrow> sync_op \<Rightarrow> bool" where
  "late_result cfg root sr op \<longleftrightarrow> opFor cfg root sr (op_path op) = None \<and>
     (case path_state cfg root sr (op_path op) of None \<Rightarrow> False
      | Some e \<Rightarrow> Live (he_entry e) \<noteq> Live (op_entry op))"

text \<open>What finishing the op of a path leaves as it was: everything of the other paths.\<close>

definition elsewhere :: "string \<Rightarrow> side_root \<Rightarrow> side_root \<Rightarrow> bool" where
  "elsewhere p sr sr' \<longleftrightarrow> sr_info sr' = sr_info sr \<and> sr_only sr' = sr_only sr \<and> sr_inflight sr' = sr_inflight sr \<and>
     (distinct (map fst (sr_dirty sr)) \<longrightarrow> distinct (map fst (sr_dirty sr'))) \<and>
     (\<forall>q. q \<noteq> p \<longrightarrow> map_of (sr_held sr') q = map_of (sr_held sr) q \<and>
        map_of (sr_dirty sr') q = map_of (sr_dirty sr) q \<and> sr_blocked sr' q = sr_blocked sr q)"

lemma path_state_info: "sr_info sr' = sr_info sr \<Longrightarrow> path_state cfg root sr' p = path_state cfg root sr p"
  by (simp add: path_state_def)

lemma opFor_elsewhere: "elsewhere p sr sr' \<Longrightarrow> q \<noteq> p \<Longrightarrow> opFor cfg root sr' q = opFor cfg root sr q"
proof -
  assume "elsewhere p sr sr'" "q \<noteq> p"
  then have "map_of (sr_held sr') q = map_of (sr_held sr) q" "sr_info sr' = sr_info sr" "keeps sr' q = keeps sr q"
    by (simp_all add: elsewhere_def keeps_def)
  then show ?thesis unfolding opFor_def by (simp only:)
qed

lemma elsewhere_simps [simp]:
  "elsewhere p sr (mark p now sr)" "elsewhere p sr (later p now d sr)" "elsewhere p sr (mark_dirty_since p now sr)"
  "elsewhere p sr (set_held p h sr)" "elsewhere p sr (drop_held p sr)"
  by (auto simp: elsewhere_def mark_def later_def mark_dirty_since_def set_held_def drop_held_def Let_def)

lemma elsewhere_trans: "elsewhere p a b \<Longrightarrow> elsewhere p b c \<Longrightarrow> elsewhere p a c"
  by (auto simp: elsewhere_def)

lemma elsewhere_landed: "elsewhere (op_path op) sr (landed op sr)"
  by (auto simp: elsewhere_def landed_def set_held_def drop_held_def Let_def split: option.splits)

lemma elsewhere_finish_op: "elsewhere (op_path op) sr (finish_op cfg now sentAt results op sr)"
proof -
  have upd: "elsewhere p sr (later p now d (sr\<lparr>sr_lastErr := x\<rparr>))"
    "elsewhere p sr (mark p now (sr\<lparr>sr_paused := x, sr_retryAt := t, sr_backoff := b\<rparr>))" for p d x t b
    by (auto simp: elsewhere_def mark_def later_def mark_dirty_since_def Let_def)
  obtain st reason where r: "result_for results op = (st, reason)" by fastforce
  show ?thesis
    by (cases st) (simp_all add: finish_op_def r Let_def upd elsewhere_landed, simp add: elsewhere_def)
qed

text \<open>A change of one path keeps the invariant if it keeps it there.\<close>

lemma side_ok_elsewhere:
  assumes e: "elsewhere (op_path op) sr sr'"
    and f: "distinct (map fst (sr_dirty sr))" "distinct (map op_path (op # fl))"
      "\<forall>x \<in> set fl. sr_blocked sr (op_path x) = None"
    and r: "revs_behind cfg root sr (op # fl)" and w: "all_waiting cfg root sr (op # fl)"
    and here_h: "\<And>h. map_of (sr_held sr') (op_path op) = Some h \<Longrightarrow> h = 0 \<or>
        map_of (sr_held sr) (op_path op) = Some h \<or> h = op_rev op \<and> Live (op_entry op)"
    and here_w: "\<And>o2. opFor cfg root sr' (op_path op) = Some o2 \<Longrightarrow> path_state cfg root sr (op_path op) \<noteq> None \<Longrightarrow> waiting sr' fl o2"
  shows "distinct (map fst (sr_dirty sr')) \<and> (\<forall>x \<in> set fl. sr_blocked sr' (op_path x) = None) \<and>
    revs_behind cfg root sr' fl \<and> all_waiting cfg root sr' fl"
proof -
  have i: "sr_info sr' = sr_info sr" using e by (simp add: elsewhere_def)
  have ne: "op_path x \<noteq> op_path op" if "x \<in> set fl" for x using f(2) that by (auto simp: image_iff)
  have "distinct (map fst (sr_dirty sr'))" using e f(1) by (simp add: elsewhere_def)
  moreover have "\<forall>x \<in> set fl. sr_blocked sr' (op_path x) = None" using f(3) e ne by (simp add: elsewhere_def)
  moreover have "revs_behind cfg root sr' fl"
    unfolding revs_behind_def path_state_info [OF i]
  proof (intro conjI allI impI ballI)
    fix p h assume h: "map_of (sr_held sr') p = Some h"
    have *: "h \<le> hr_rev root \<and> (\<forall>e. path_state cfg root sr p = Some e \<and> Live (he_entry e) \<longrightarrow> h \<le> he_rev e)"
    proof (cases "p = op_path op")
      case True
      with here_h h have "h = 0 \<or> map_of (sr_held sr) p = Some h \<or> h = op_rev op \<and> Live (op_entry op)" by simp
      with r True show ?thesis unfolding revs_behind_def by (elim disjE) auto
    next
      case False
      with h e have "map_of (sr_held sr) p = Some h" by (simp add: elsewhere_def)
      with r show ?thesis unfolding revs_behind_def by blast
    qed
    from * show "h \<le> hr_rev root" by blast
    show "h \<le> he_rev e" if "path_state cfg root sr p = Some e \<and> Live (he_entry e)" for e using * that by blast
  next
    fix x assume "x \<in> set fl" "Live (op_entry x)"
    with r have *: "op_rev x \<le> hr_rev root \<and> (\<forall>e. path_state cfg root sr (op_path x) = Some e \<and> Live (he_entry e) \<longrightarrow> op_rev x \<le> he_rev e)"
      unfolding revs_behind_def by (metis list.set_intros(2))
    then show "op_rev x \<le> hr_rev root" by blast
    show "op_rev x \<le> he_rev e" if "path_state cfg root sr (op_path x) = Some e \<and> Live (he_entry e)" for e
      using * that by blast
  qed
  moreover have "all_waiting cfg root sr' fl"
    unfolding all_waiting_def path_state_info [OF i]
  proof (intro allI impI)
    fix p o2 assume a: "opFor cfg root sr' p = Some o2 \<and> path_state cfg root sr p \<noteq> None"
    show "waiting sr' fl o2"
    proof (cases "p = op_path op")
      case True
      with a here_w show ?thesis by blast
    next
      case False
      have o2: "op_path o2 = p" using a opFor_path by blast
      from a opFor_elsewhere [OF e False] have "opFor cfg root sr p = Some o2" by metis
      with w a have "waiting sr (op # fl) o2" by (auto simp: all_waiting_def)
      with False o2 e show ?thesis by (auto simp: waiting_def refused_def elsewhere_def)
    qed
  qed
  ultimately show ?thesis by blast
qed

lemma dirty_marked [simp]:
  "map_of (sr_dirty (mark_dirty_since p now sr)) p \<noteq> None"
  "map_of (sr_dirty (later p now d sr)) p \<noteq> None"
  "keeps sr p \<Longrightarrow> map_of (sr_dirty (mark p now sr)) p \<noteq> None"
  by (auto simp: mark_dirty_since_def later_def mark_def Let_def)

lemma held_marked [simp]:
  "sr_held (mark_dirty_since p now sr) = sr_held sr" "sr_held (later p now d sr) = sr_held sr"
  "sr_held (mark p now sr) = sr_held sr"
  by (auto simp: mark_dirty_since_def later_def mark_def Let_def)

lemma keeps_marked [simp]: "keeps (mark p now sr) q = keeps sr q"
  by (simp add: keeps_def mark_def mark_dirty_since_def)

lemma opFor_keeps: "opFor cfg root sr p = Some op \<Longrightarrow> keeps sr p"
  by (auto simp: opFor_def Let_def split: option.splits if_splits)

text \<open>The side's view of a path an op landed on.\<close>

lemma landed_fields:
  "sr_dirty (landed op sr) = sr_dirty sr" "sr_blocked (landed op sr) = sr_blocked sr"
  "keeps (landed op sr) p = keeps sr p" "sr_info (landed op sr) = sr_info sr"
  "map_of (sr_held (landed op sr)) (op_path op) =
     (if Live (op_entry op) then
        (case map_of (sr_held sr) (op_path op) of None \<Rightarrow> Some (op_rev op)
         | Some h \<Rightarrow> if h \<le> op_rev op then Some (op_rev op) else Some h)
      else None)"
  by (simp_all add: landed_def set_held_def drop_held_def keeps_def Let_def split: option.split)

lemma landed_waiting:
  assumes w: "all_waiting cfg root sr (op # fl)" and r: "revs_behind cfg root sr (op # fl)"
    and fl: "op_path op \<notin> op_path ` set fl" and late: "\<not> late_result cfg root sr op"
    and o2: "opFor cfg root (landed op sr) (op_path op) = Some o2" and e: "path_state cfg root sr (op_path op) = Some e"
  shows "waiting (landed op sr) fl o2"
proof -
  let ?p = "op_path op" and ?sr = "landed op sr"
  have e': "path_state cfg root ?sr ?p = Some e"
    using e path_state_info [OF landed_fields(4)] by metis
  have o2': "o2 = \<lparr>op_path = ?p, op_rev = he_rev e, op_entry = he_entry e\<rparr>" using opFor_op [OF e' o2] .
  have k: "keeps sr ?p" using opFor_keeps [OF o2] landed_fields(3) by simp
  have r1: "h \<le> he_rev e" if "map_of (sr_held sr) ?p = Some h" "Live (he_entry e)" for h
    using r that e unfolding revs_behind_def by blast
  have r2: "op_rev op \<le> he_rev e" if "Live (op_entry op)" "Live (he_entry e)"
    using r that e unfolding revs_behind_def by (metis list.set_intros(1))
  have "opFor cfg root sr ?p = Some o2 \<and> o2 \<noteq> op"
  proof (cases "Live (he_entry e) = Live (op_entry op)")
    case False
    with late e obtain o3 where o3: "opFor cfg root sr ?p = Some o3" by (auto simp: late_result_def)
    with opFor_op [OF e o3] o2' False show ?thesis by (metis sync_op.select_convs(3))
  next
    case same: True
    show ?thesis
    proof (cases "Live (he_entry e)")
      case le: True
      from o2 have ne: "map_of (sr_held ?sr) ?p \<noteq> Some (he_rev e)"
        using le unfolding opFor_state [OF e'] by (auto split: if_splits)
      have "map_of (sr_held sr) ?p \<noteq> Some (he_rev e) \<and> op_rev op \<noteq> he_rev e"
        using ne r1 r2 same le by (auto simp: landed_fields split: option.splits if_splits)
      with le k o2' show ?thesis by (simp add: opFor_state [OF e]) (metis sync_op.select_convs(2))
    next
      case dead: False
      then have "map_of (sr_held ?sr) ?p = None" using same by (simp add: landed_fields)
      with o2 dead show ?thesis unfolding opFor_state [OF e'] by simp
    qed
  qed
  note before = this
  with w e have "waiting sr (op # fl) o2" unfolding all_waiting_def by blast
  then have "map_of (sr_dirty sr) ?p \<noteq> None \<or> o2 \<in> set (op # fl) \<or> refused sr o2"
    using o2' by (simp add: waiting_def)
  moreover have "o2 \<notin> set (op # fl)" using before fl o2' by (metis image_eqI set_ConsD sync_op.select_convs(1))
  ultimately show ?thesis using o2' by (auto simp: waiting_def refused_def landed_fields)
qed

lemma finish_op_ok:
  assumes f: "distinct (map fst (sr_dirty sr))" "distinct (map op_path (op # fl))"
      "\<forall>x \<in> set (op # fl). sr_blocked sr (op_path x) = None"
    and r: "revs_behind cfg root sr (op # fl)" and w: "all_waiting cfg root sr (op # fl)"
    and late: "fst (result_for results op) = Applied \<Longrightarrow> \<not> late_result cfg root sr op"
    and sr': "sr' = finish_op cfg now sentAt results op sr"
  shows "distinct (map fst (sr_dirty sr')) \<and> (\<forall>x \<in> set fl. sr_blocked sr' (op_path x) = None) \<and>
    revs_behind cfg root sr' fl \<and> all_waiting cfg root sr' fl"
proof (rule side_ok_elsewhere [OF _ f(1,2) _ r w])
  let ?p = "op_path op"
  obtain st reason where res: "result_for results op = (st, reason)" by fastforce
  have np: "?p \<notin> op_path ` set fl" using f(2) by (auto simp: image_iff)
  show "elsewhere ?p sr sr'" using sr' elsewhere_finish_op by simp
  show "\<forall>x \<in> set fl. sr_blocked sr (op_path x) = None" using f(3) by simp
  show "h = 0 \<or> map_of (sr_held sr) ?p = Some h \<or> h = op_rev op \<and> Live (op_entry op)"
    if "map_of (sr_held sr') ?p = Some h" for h
    using that sr' by (cases st) (auto simp: finish_op_def res Let_def landed_fields split: if_splits option.splits)
  show "waiting sr' fl o2" if o2: "opFor cfg root sr' ?p = Some o2" and e: "path_state cfg root sr ?p \<noteq> None" for o2
  proof (cases "map_of (sr_dirty sr') ?p = None")
    case False
    with opFor_path [OF o2] show ?thesis by (simp add: waiting_def)
  next
    case True
    have "keeps sr' ?p" using opFor_keeps [OF o2] .
    then have st: "st = Applied \<or> st = Refused"
      using True sr' by (cases st) (auto simp: finish_op_def res Let_def keeps_def mark_def mark_dirty_since_def
          later_def split: if_splits option.splits)
    then show ?thesis
    proof
      assume a: "st = Applied"
      then have s: "sr' = landed op sr" using sr' by (simp add: finish_op_def res Let_def)
      show ?thesis using landed_waiting [OF w r np _ o2 [unfolded s]] late res a e s by auto
    next
      assume a: "st = Refused"
      then have s: "sr' = sr\<lparr>sr_blocked := (sr_blocked sr)(?p \<mapsto> (op_rev op, reason))\<rparr>"
        using sr' by (simp add: finish_op_def res Let_def)
      then have "opFor cfg root sr ?p = Some o2" using o2 opFor_view [of sr' sr] by (simp add: view_def)
      with w e have "waiting sr (op # fl) o2" unfolding all_waiting_def by blast
      moreover have "op_path o2 = ?p" using opFor_path [OF o2] .
      moreover have "\<not> refused sr o2" using f(3) calculation(2) by (simp add: refused_def)
      ultimately have "o2 = op" using True s np by (auto simp: waiting_def image_iff)
      then show ?thesis using s by (simp add: waiting_def refused_def)
    qed
  qed
qed

text \<open>All ops of a batch, one after the other.\<close>

definition ops_ok :: "hub_cfg \<Rightarrow> hub_root \<Rightarrow> side_root \<Rightarrow> sync_op list \<Rightarrow> bool" where
  "ops_ok cfg root sr fl \<longleftrightarrow> distinct (map fst (sr_dirty sr)) \<and> distinct (map op_path fl) \<and>
     (\<forall>x \<in> set fl. sr_blocked sr (op_path x) = None) \<and> revs_behind cfg root sr fl \<and> all_waiting cfg root sr fl"

lemma late_elsewhere:
  assumes "elsewhere p sr sr'" "op_path op \<noteq> p"
  shows "late_result cfg root sr' op = late_result cfg root sr op"
proof -
  have "path_state cfg root sr' (op_path op) = path_state cfg root sr (op_path op)"
    by (rule path_state_info) (use assms(1) in \<open>simp add: elsewhere_def\<close>)
  with opFor_elsewhere [OF assms] show ?thesis by (simp add: late_result_def)
qed

lemma fold_ops_ok:
  assumes "ops_ok cfg root sr (ops @ fl)"
    and "\<And>op sr. elsewhere (op_path op) sr (g op sr)"
    and "\<And>op fl sr. ops_ok cfg root sr (op # fl) \<Longrightarrow> (applied op \<Longrightarrow> \<not> late_result cfg root sr op) \<Longrightarrow> ops_ok cfg root (g op sr) fl"
    and "\<forall>op \<in> set ops. applied op \<longrightarrow> \<not> late_result cfg root sr op"
  shows "ops_ok cfg root (fold g ops sr) fl \<and> sr_inflight (fold g ops sr) = sr_inflight sr \<and> sr_info (fold g ops sr) = sr_info sr"
  using assms(1,4)
proof (induction ops arbitrary: sr)
  case (Cons op ops)
  have e: "elsewhere (op_path op) sr (g op sr)" by (rule assms(2))
  have ok: "ops_ok cfg root (g op sr) (ops @ fl)" using Cons.prems assms(3) [of sr op "ops @ fl"] by simp
  have "op_path x \<noteq> op_path op" if "x \<in> set ops" for x
    using Cons.prems(1) that by (auto simp: ops_ok_def image_iff)
  then have "\<forall>x \<in> set ops. applied x \<longrightarrow> \<not> late_result cfg root (g op sr) x"
    using Cons.prems(2) late_elsewhere [OF e] by (metis list.set_intros(2))
  from Cons.IH [OF ok this] e show ?case by (simp add: elsewhere_def)
qed simp

lemma elsewhere_unanswered: "elsewhere (op_path op) sr (unanswered now op sr)"
  unfolding unanswered_def
  by (cases "Live (op_entry op)") (auto intro: elsewhere_trans [OF elsewhere_simps(4) elsewhere_simps(3)])

lemma unanswered_ok:
  assumes "ops_ok cfg root sr (op # fl)"
  shows "ops_ok cfg root (unanswered now op sr) fl"
proof -
  note e = elsewhere_unanswered [of op sr now]
  have h: "h = 0 \<or> map_of (sr_held sr) (op_path op) = Some h"
    if "map_of (sr_held (unanswered now op sr)) (op_path op) = Some h" for h
    using that by (auto simp: unanswered_def set_held_def split: if_splits)
  have "map_of (sr_dirty (unanswered now op sr)) (op_path op) \<noteq> None"
    unfolding unanswered_def by (rule dirty_marked)
  then have w: "waiting (unanswered now op sr) fl o2" if "opFor cfg root (unanswered now op sr) (op_path op) = Some o2" for o2
    using opFor_path [OF that] by (simp add: waiting_def)
  from assms e side_ok_elsewhere [OF e, of fl cfg root] h w show ?thesis by (auto simp: ops_ok_def)
qed

lemma finish_ops_ok:
  assumes "ops_ok cfg root sr (op # fl)" "fst (result_for results op) = Applied \<Longrightarrow> \<not> late_result cfg root sr op"
  shows "ops_ok cfg root (finish_op cfg now sentAt results op sr) fl"
  using finish_op_ok [of sr op fl cfg root results "finish_op cfg now sentAt results op sr" now sentAt] assms
  by (simp add: ops_ok_def)

lemma fold_delete_inflight:
  "map_of (fold AList.delete ps xs) p = (if p \<in> set ps then None else map_of xs p)"
  by (induction ps arbitrary: xs) auto

lemma revs_behind_cong: "view sr = view sr' \<Longrightarrow> revs_behind cfg root sr fl = revs_behind cfg root sr' fl"
proof -
  assume v: "view sr = view sr'"
  then have "sr_held sr = sr_held sr'" by (simp add: view_def)
  with path_state_view [OF v] show ?thesis by (simp add: revs_behind_def)
qed

lemma ops_ok_cong:
  assumes "view sr = view sr'" "sr_dirty sr = sr_dirty sr'" "sr_blocked sr = sr_blocked sr'"
  shows "ops_ok cfg root sr fl = ops_ok cfg root sr' fl"
proof -
  have "waiting sr fl op = waiting sr' fl op" for op using assms(2,3) by (simp add: waiting_def refused_def)
  with opFor_view [OF assms(1)] path_state_view [OF assms(1)] revs_behind_cong [OF assms(1)] assms(2,3)
  show ?thesis by (simp add: ops_ok_def all_waiting_def)
qed

lemma ops_ok_perm: "set fl = set fl' \<Longrightarrow> distinct (map op_path fl') \<Longrightarrow> ops_ok cfg root sr fl \<Longrightarrow> ops_ok cfg root sr fl'"
  unfolding ops_ok_def revs_behind_def all_waiting_def waiting_def by (simp only:) blast

lemma side_ok_iff: "side_ok cfg root sr fl \<longleftrightarrow> ops_ok cfg root sr fl \<and>
    (\<forall>p. map_of (sr_inflight sr) p = None \<longleftrightarrow> p \<notin> op_path ` set fl)"
  by (auto simp: side_ok_def ops_ok_def flight_ok_def)

lemma finish_side_ok:
  assumes "side_ok cfg root sr (b_ops b @ fl)"
    and "\<forall>op \<in> set (b_ops b). (\<exists>rs. answer = Inr rs \<and> fst (result_for rs op) = Applied) \<longrightarrow> \<not> late_result cfg root sr op"
  shows "side_ok cfg root (finish_side cfg now b answer sr) fl \<and> sr_info (finish_side cfg now b answer sr) = sr_info sr"
proof -
  let ?sr = "sr\<lparr>sr_inflight := fold AList.delete (map op_path (b_ops b)) (sr_inflight sr)\<rparr>"
  have ok: "ops_ok cfg root ?sr (b_ops b @ fl)"
    using assms(1) ops_ok_cong [of sr ?sr] by (simp add: side_ok_iff view_def)
  have late: "late_result cfg root ?sr op = late_result cfg root sr op" for op
    using opFor_view [of ?sr sr] path_state_view [of ?sr sr] by (simp add: late_result_def view_def)
  have disj: "op_path ` set (b_ops b) \<inter> op_path ` set fl = {}" using assms(1) by (simp add: side_ok_iff ops_ok_def)
  have fly: "map_of (sr_inflight ?sr) p = None \<longleftrightarrow> p \<notin> op_path ` set fl" for p
    using assms(1) disj by (auto simp: side_ok_iff fold_delete_inflight)
  show ?thesis
  proof (cases answer)
    case (Inl err)
    let ?f = "fold (unanswered now) (b_ops b) ?sr"
    have "ops_ok cfg root ?f fl \<and> sr_inflight ?f = sr_inflight ?sr \<and> sr_info ?f = sr_info ?sr"
      by (rule fold_ops_ok [OF ok, where applied = "\<lambda>_. False"])
        (simp_all add: unanswered_ok elsewhere_unanswered)
    with fly Inl ops_ok_cong [of ?f "?f\<lparr>sr_lastErr := err\<rparr>" cfg root fl] show ?thesis
      by (simp add: finish_side_def Let_def side_ok_iff view_def)
  next
    case (Inr rs)
    let ?sent = "\<lambda>p. case map_of (sr_inflight sr) p of None \<Rightarrow> 0 | Some n \<Rightarrow> n"
    let ?f = "fold (finish_op cfg now ?sent rs) (b_ops b) ?sr"
    have "ops_ok cfg root ?f fl \<and> sr_inflight ?f = sr_inflight ?sr \<and> sr_info ?f = sr_info ?sr"
      by (rule fold_ops_ok [OF ok elsewhere_finish_op finish_ops_ok, where applied = "\<lambda>op. fst (result_for rs op) = Applied"])
        (use assms(2) Inr late in auto)
    with fly Inr show ?thesis by (simp add: finish_side_def Let_def side_ok_iff)
  qed
qed

end
