(* ===== verification/HubJournal.thy ===== *)
theory HubJournal
  imports HubSafety
begin

text \<open>
  The hub's state on disk: opening the journal again gives every entry the root holds, with its
  content and rev, after every operation, whatever writes failed, as long as a failed write is
  cut off the log again.
\<close>

section \<open>Keys in the journal\<close>

definition key_ok :: "key \<Rightarrow> bool" where
  "key_ok k \<longleftrightarrow> CHR 0x00 \<notin> set (fst k)"

lemma journalKey_inj:
  assumes "key_ok k" "key_ok k'" "journalKey k = journalKey k'"
  shows "k = k'"
  using assms cut_at_found [of "CHR 0x00" "fst k" "snd k"] cut_at_found [of "CHR 0x00" "fst k'" "snd k'"]
  by (cases k; cases k') (auto simp: journalKey_def key_ok_def)

lemma journalKey_not_meta: "journalKey k \<noteq> metaKey"
  by (simp add: journalKey_def metaKey_def)

section \<open>The invariant\<close>

definition jpart :: "hub_root \<Rightarrow> hub_record journal \<times> write_outcome list" where
  "jpart root = (hr_journal root, hr_io root)"

lemma jpart_simps [simp]:
  "jpart (map_side i f root) = jpart root"
  "jpart (markDirty now k x root) = jpart root"
  "jpart (held side p cur root) = jpart root"
  "jpart (root\<lparr>hr_holds := hs\<rparr>) = jpart root"
  "jpart (root\<lparr>hr_conflicts := cs\<rparr>) = jpart root"
  "jpart (root\<lparr>hr_entries := es\<rparr>) = jpart root"
  "jpart (root\<lparr>hr_entries := es, hr_forgot := fg\<rparr>) = jpart root"
  "jpart (root\<lparr>hr_rev := n, hr_entries := es\<rparr>) = jpart root"
  "jpart (root\<lparr>hr_rev := n\<rparr>) = jpart root"
  "jpart (drop_conflict i root) = jpart root"
  "jpart (blob_remove h root) = jpart root"
  "jpart (blob_gc ks t root) = jpart root"
  "jpart (root_count old e k root) = jpart root"
  "jpart (snd (next_snap root)) = jpart root"
  by (simp_all add: jpart_def map_side_def markDirty_def held_def drop_conflict_def blob_remove_def
      blob_gc_def root_count_def recount_def uncount_def next_snap_def Let_def split: list.split)

lemma jpart_forget [simp]: "jpart (forget before kept root) = jpart root"
proof -
  have "jpart (fold (\<lambda>(r, h) rt. if h \<in> set (map snd kept) \<or> names rt h then rt else blob_remove h rt)
      xs rt) = jpart rt" for xs rt
    by (induction xs arbitrary: rt) (auto simp del: set_map)
  then show ?thesis by (simp add: forget_def)
qed

definition journal_sound :: "hub_root \<Rightarrow> bool" where
  "journal_sound root \<longleftrightarrow> journal_ok (hr_journal root) \<and> j_open (hr_journal root) \<and>
     j_pending (hr_journal root) = [] \<and> WriteFailTorn \<notin> set (hr_io root)"

definition covered :: "(string \<Rightarrow> hub_record option) \<Rightarrow> key \<Rightarrow> hub_entry \<Rightarrow> bool" where
  "covered m k e \<longleftrightarrow> (\<exists>e'. m (journalKey k) = Some (EntryRec e') \<and> he_entry e' = he_entry e \<and> he_rev e' = he_rev e)"

definition on_disk :: "hub_root \<Rightarrow> bool" where
  "on_disk root \<longleftrightarrow> journal_sound root \<and> distinct (map fst (hr_entries root)) \<and>
     (\<forall>(k, e) \<in> set (hr_entries root). key_ok k \<and> covered (recovered (hr_journal root)) k e)"

lemma on_disk_cong: "jpart a = jpart b \<Longrightarrow> core a = core b \<Longrightarrow> on_disk a = on_disk b"
  by (simp add: on_disk_def journal_sound_def jpart_def core_def)

lemma on_disk_entry: "on_disk root \<Longrightarrow> ents root k = Some e \<Longrightarrow> covered (recovered (hr_journal root)) k e"
  unfolding on_disk_def by (auto dest!: map_of_SomeD)

lemma root_commit_sound:
  assumes "journal_ok (hr_journal root)" "j_open (hr_journal root)" "WriteFailTorn \<notin> set (hr_io root)"
    and "root_commit root = (err, root')"
  shows "journal_sound root' \<and> recovered (hr_journal root') =
    (if err = None then fold apply_record (j_pending (hr_journal root)) (recovered (hr_journal root))
     else recovered (hr_journal root))"
proof -
  obtain w root1 where w: "next_write root = (w, root1)" by fastforce
  then have w': "w \<noteq> WriteFailTorn" "hr_journal root1 = hr_journal root" "WriteFailTorn \<notin> set (hr_io root1)"
    using assms(3) by (auto simp: next_write_def split: list.splits)
  obtain e j where c: "journal_commit w (hr_journal root) = (e, j)" by fastforce
  from w w' c assms(4) have r': "err = e" "root' = root1\<lparr>hr_journal := j\<rparr>"
    by (auto simp: root_commit_def)
  from journal_commit_ok [OF assms(1) w'(1) c] r' w' assms(2) show ?thesis
    by (auto simp: journal_sound_def)
qed

text \<open>Writing one record.\<close>

lemma write_record:
  assumes "journal_sound root" "root_commit (root_put jk v root) = (err, root')"
  shows "journal_sound root' \<and>
    recovered (hr_journal root') = (if err = None then (recovered (hr_journal root))(jk \<mapsto> v) else recovered (hr_journal root))"
  using root_commit_sound [of "root_put jk v root" err root'] assms
  by (auto simp: journal_sound_def root_put_def journal_put_def)

section \<open>Compaction\<close>

lemma fold_del:
  "fold (\<lambda>ke. journal_del (f ke)) xs j = j\<lparr>j_pending := j_pending j @ map (\<lambda>ke. (f ke, Del)) xs\<rparr>"
  by (induction xs arbitrary: j) (simp_all add: journal_del_def)

lemma fold_apply_del:
  "fold apply_record (map (\<lambda>ke. (f ke, Del)) xs) m k = (if k \<in> f ` set xs then None else m k)"
  by (induction xs arbitrary: m) auto

lemma map_of_records:
  assumes "distinct (map fst es)" "\<forall>(k, e) \<in> set es. key_ok k" "(k, e) \<in> set es"
  shows "map_of (map (\<lambda>ke. (journalKey (fst ke), EntryRec (snd ke))) es) (journalKey k) = Some (EntryRec e)"
  using assms
proof (induction es)
  case (Cons x es)
  obtain k1 e1 where x: "x = (k1, e1)" by fastforce
  show ?case
  proof (cases "journalKey k1 = journalKey k")
    case True
    then have "k1 = k" using journalKey_inj [of k1 k] Cons.prems(2,3) x by fastforce
    then have "e1 = e" using Cons.prems(1,3) x by (auto simp: image_iff)
    with True x show ?thesis by simp
  next
    case False
    with Cons x show ?thesis by auto
  qed
qed simp

lemma on_disk_compact:
  assumes "on_disk root"
  shows "on_disk (snd (compact cfg now root))"
proof -
  let ?dropped = "filter (forgettable cfg now root) (hr_entries root)"
  let ?kept = "filter (\<lambda>ke. \<not> forgettable cfg now root ke) (hr_entries root)"
  define forgot where "forgot = fold (\<lambda>ke f. max f (he_rev (snd ke))) ?dropped (hr_forgot root)"
  define j where "j = fold (\<lambda>ke. journal_del (journalKey (fst ke))) ?dropped (hr_journal root)"
  define records where "records = (metaKey, MetaRec (hr_epoch root) (hr_rev root) forgot)
      # map (\<lambda>ke. (journalKey (fst ke), EntryRec (snd ke))) ?kept"
  define root1 where "root1 = root\<lparr>hr_entries := ?kept, hr_forgot := forgot\<rparr>"
  obtain w root2 where w: "next_write root1 = (w, root2)" by fastforce
  obtain sn root3 where sn: "next_snap root2 = (sn, root3)" by fastforce
  obtain e j' where jc: "journal_compact w sn records j = (e, j')" by fastforce
  have snd: "snd (compact cfg now root) = (let r = root3\<lparr>hr_journal := j'\<rparr> in if e = None
      then blob_gc (concat (map (\<lambda>ke. named_blobs (snd ke)) ?kept)) (now - 3600000000000) r else r)"
    unfolding compact_def Let_def forgot_def [symmetric] j_def [symmetric] root1_def [symmetric]
      records_def [symmetric] by (simp add: w sn jc)
  have js: "journal_sound root" and d: "distinct (map fst (hr_entries root))"
    and keys: "\<forall>(k, e) \<in> set (hr_entries root). key_ok k \<and> covered (recovered (hr_journal root)) k e"
    using assms by (auto simp: on_disk_def)
  have w': "w \<noteq> WriteFailTorn" "WriteFailTorn \<notin> set (hr_io root3)"
    using w sn js by (auto simp: next_write_def next_snap_def root1_def journal_sound_def split: list.splits)
  have j: "journal_ok j" "j_open j" "recovered j = recovered (hr_journal root)"
    "j_pending j = map (\<lambda>ke. (journalKey (fst ke), Del)) ?dropped"
    using js by (simp_all add: j_def fold_del journal_sound_def)
  note jo = journal_compact_ok [OF j(1) w'(1) jc]
  have pend: "j_pending j' = []"
  proof (cases "journal_commit w j")
    case (Pair e1 j1)
    from journal_commit_ok [OF j(1) w'(1) Pair] j(2) have "j_pending j1 = []" by simp
    with jc Pair j(2) show ?thesis
      by (auto simp: journal_compact_def split: option.splits snapshot_outcome.splits)
  qed
  have cov: "covered (recovered j') k x" if kx: "(k, x) \<in> set ?kept" for k x
  proof -
    have c0: "covered (recovered (hr_journal root)) k x" and ko: "key_ok k" using keys kx by auto
    have "journalKey k \<notin> (\<lambda>ke. journalKey (fst ke)) ` set ?dropped"
    proof
      assume "journalKey k \<in> (\<lambda>ke. journalKey (fst ke)) ` set ?dropped"
      then obtain k2 y where y: "(k2, y) \<in> set ?dropped" "journalKey k = journalKey k2" by auto
      then have "k = k2" using journalKey_inj keys ko by fastforce
      with y kx d have "x = y" by (auto dest: eq_key_imp_eq_value)
      with y kx \<open>k = k2\<close> show False by auto
    qed
    then have "covered (fold apply_record (j_pending j) (recovered (hr_journal root))) k x"
      using c0 by (simp add: covered_def j(4) fold_apply_del)
    moreover have "map_of records (journalKey k) = Some (EntryRec x)"
      using map_of_records [of ?kept k x] d keys kx journalKey_not_meta
      by (auto simp: records_def distinct_map_fst_filter)
    then have "covered (map_of records) k x" by (simp add: covered_def)
    ultimately show ?thesis
      using jo c0 j(3) by (auto simp: compacted_def)
  qed
  have es: "hr_entries (snd (compact cfg now root)) = ?kept" using core_compact by (simp add: core_def)
  have jp: "hr_journal (snd (compact cfg now root)) = j'" "hr_io (snd (compact cfg now root)) = hr_io root3"
    unfolding snd Let_def by (simp_all add: blob_gc_def)
  show ?thesis
    unfolding on_disk_def journal_sound_def es jp
    using jo pend w' cov d keys j(2) by (auto simp: distinct_map_fst_filter)
qed

section \<open>New states\<close>

lemma on_disk_setEntry:
  assumes "on_disk root" "key_ok k" "setEntry cfg now k e origin base hist except root = (r, root')"
  shows "on_disk root'"
  using assms(3)
proof (cases rule: setEntry_cases)
  case (Fail err root1)
  have "journal_sound root" using assms(1) by (simp add: on_disk_def)
  note wr = write_record [OF this Fail(1)]
  have "core root1 = core root" using Fail(1) root_commit_core by (metis core_root_put)
  with wr Fail assms(1) show ?thesis by (simp add: on_disk_def core_def)
next
  case (Done root1 root3)
  let ?ne = "new_state now e origin base hist root"
  have js: "journal_sound root" using assms(1) by (simp add: on_disk_def)
  note wr = write_record [OF js Done(1)]
  have "core root1 = core root" using Done(1) root_commit_core by (metis core_root_put)
  then have es: "hr_entries root3 = AList.update k ?ne (hr_entries root)"
    using Done(3) by (simp add: markDirty_def root_count_fields core_def)
  have jp: "jpart root3 = jpart root1" using Done(3) by simp
  have d: "distinct (map fst (hr_entries root))" using assms(1) by (simp add: on_disk_def)
  have "key_ok k' \<and> covered (recovered (hr_journal root1)) k' x" if "(k', x) \<in> set (hr_entries root3)" for k' x
  proof (cases "k' = k")
    case True
    have "ents root3 k' = Some x" using that es d by (intro map_of_is_SomeI) auto
    with True es have "x = ?ne" by simp
    with True wr assms(2) show ?thesis by (simp add: covered_def)
  next
    case False
    have "ents root3 k' = Some x" using that es d by (intro map_of_is_SomeI) auto
    with False es have x: "(k', x) \<in> set (hr_entries root)" by (simp add: map_of_SomeD)
    with assms(1) have "key_ok k'" "covered (recovered (hr_journal root)) k' x" by (auto simp: on_disk_def)
    moreover have "journalKey k' \<noteq> journalKey k" using journalKey_inj False calculation(1) assms(2) by blast
    ultimately show ?thesis using wr by (simp add: covered_def)
  qed
  then have "on_disk root3"
    using wr jp es d by (auto simp: on_disk_def journal_sound_def jpart_def)
  with Done(4) on_disk_compact show ?thesis by blast
qed

lemma on_disk_resurrect:
  "resurrect cfg now side rs root = (ok, root') \<Longrightarrow> on_disk root \<Longrightarrow> on_disk root'"
proof (induction cfg now side rs root rule: resurrect.induct)
  case (2 cfg now side a md rest root)
  obtain r root1 where st: "setEntry cfg now ([], a) (gone_entry\<lparr>e_kind := Dir, e_mode := fileMode Dir md\<rparr>)
      side 0 [] [] root = (r, root1)" by fastforce
  have "on_disk root1" by (rule on_disk_setEntry [OF 2(3) _ st]) (simp add: key_ok_def)
  with 2 st show ?case by (cases r) auto
qed simp

lemma on_disk_unvouch:
  assumes "on_disk root" "ents root k = Some e"
  shows "on_disk (unvouch k e side root)"
proof (cases "he_origin e \<noteq> side \<or> he_base e = he_rev e")
  case True
  with assms show ?thesis by (simp add: unvouch_def)
next
  case False
  let ?e = "e\<lparr>he_base := he_rev e\<rparr>"
  let ?r = "root\<lparr>hr_entries := AList.update k ?e (hr_entries root)\<rparr>"
  obtain err root' where rc: "root_commit (root_put (journalKey k) (EntryRec ?e) ?r) = (err, root')" by fastforce
  have u: "unvouch k e side root = root'" using False rc by (simp add: unvouch_def Let_def)
  have js: "journal_sound ?r" and d: "distinct (map fst (hr_entries root))"
    using assms(1) by (simp_all add: on_disk_def journal_sound_def)
  note wr = write_record [OF js rc]
  have "core root' = core ?r" using rc root_commit_core by (metis core_root_put)
  then have es: "hr_entries root' = AList.update k ?e (hr_entries root)" by (simp add: core_def)
  have kok: "key_ok k" using assms by (auto simp: on_disk_def dest!: map_of_SomeD)
  have old: "covered (recovered (hr_journal root)) k e" using assms on_disk_entry by blast
  have "key_ok k' \<and> covered (recovered (hr_journal root')) k' x" if "(k', x) \<in> set (hr_entries root')" for k' x
  proof -
    have at: "ents root' k' = Some x" using that es d by (intro map_of_is_SomeI) auto
    show ?thesis
    proof (cases "k' = k")
      case True
      with at es have "x = ?e" by simp
      with True wr kok old show ?thesis by (simp add: covered_def)
    next
      case False
      with at es have "(k', x) \<in> set (hr_entries root)" by (simp add: map_of_SomeD)
      with assms(1) have k': "key_ok k'" "covered (recovered (hr_journal root)) k' x" by (auto simp: on_disk_def)
      moreover have "journalKey k' \<noteq> journalKey k" using journalKey_inj False k'(1) kok by blast
      ultimately show ?thesis using wr by (simp add: covered_def)
    qed
  qed
  with wr es d u show ?thesis by (auto simp: on_disk_def)
qed

section \<open>Commits\<close>

lemma on_disk_commit_keep:
  assumes "commit_keep now p (ents root (p_k p)) root = (a, root')" "on_disk root"
  shows "on_disk root'"
proof -
  let ?m = "map_side (s_id (p_side p)) (give_back (p_c p) now) root"
  have m: "on_disk ?m" "ents ?m = ents root"
    using assms(2) on_disk_cong [of ?m root] by (simp, simp add: map_side_def)
  with assms(1) on_disk_unvouch [OF m(1), of "p_k p"] show ?thesis
    by (auto simp: commit_keep_def Let_def split: option.splits if_splits)
qed

lemma on_disk_commit_change:
  assumes "commit_change cfg now p res extra now_e root = (a, root')" "on_disk root" "key_ok (p_k p)"
  shows "on_disk root'"
proof -
  let ?rs = "zip (sc_resurrect (p_shape p)) (sc_modes (p_shape p))"
  let ?e = "if mr_decision res = Merged then x_merged extra else c_entry (p_c p)"
  obtain ok root1 where rs: "resurrect cfg now (s_id (p_side p)) ?rs root = (ok, root1)" by fastforce
  note d1 = on_disk_resurrect [OF rs assms(2)]
  show ?thesis
  proof (cases ok)
    case False
    with assms(1) rs d1 show ?thesis by (simp add: commit_change_def)
  next
    case True
    define hist where "hist = new_hist p now_e ?e (x_hist extra) (succ64 (hr_rev root1))"
    define origin where "origin = (if mr_decision res = Merged then [] else s_id (p_side p))"
    obtain r root2 where se: "setEntry cfg now (p_k p) ?e origin (c_base (p_c p)) hist origin root1 = (r, root2)"
      by fastforce
    note d2 = on_disk_setEntry [OF d1 assms(3) se]
    have "jpart root' = jpart root2 \<and> core root' = core root2"
      using assms(1) rs True se
      unfolding commit_change_def Let_def hist_def [symmetric] origin_def [symmetric]
      by (auto simp: hist_def [symmetric] split: option.splits if_splits)
    with d2 on_disk_cong show ?thesis by blast
  qed
qed

lemma on_disk_commitPlan:
  assumes "commitPlan cfg now p res extra root = (a, root')" "on_disk root" "key_ok (p_k p)"
  shows "on_disk root'"
proof -
  have ho: "on_disk (root\<lparr>hr_holds := hs\<rparr>)" for hs
    using assms(2) on_disk_cong [of "root\<lparr>hr_holds := hs\<rparr>" root] by simp
  from assms(1) ho assms(2) show ?thesis
    by (auto simp: commitPlan_def Let_def split: if_splits prod.splits
        dest: on_disk_commit_keep on_disk_commit_change [OF _ assms(2,3)])
qed

section \<open>A reported change\<close>

lemma jpart_prepare:
  assumes "prepare now k m side c base root = (r, root')"
  shows "jpart root' = jpart root"
proof -
  have n: "jpart (noted side c root) = jpart root" by simp
  show ?thesis
  proof (cases r)
    case (Inl a)
    from prepare_InlD [OF assms [unfolded Inl]] n show ?thesis
      by (elim disjE) (simp_all only: jpart_simps)
  next
    case (Inr p)
    from prepare_InrD [OF assms [unfolded Inr]] n show ?thesis by (simp only:)
  qed
qed

lemma jpart_blob_put: "blob_put t f data root = (x, rt) \<Longrightarrow> jpart rt = jpart root"
  by (auto simp: blob_put_def Let_def jpart_def split: if_splits option.splits)

lemma jpart_keepConflict: "keepConflict env p res root = (x, rt) \<Longrightarrow> jpart rt = jpart root"
  unfolding keepConflict_def Let_def
  by (simp split: option.split_asm prod.split_asm kind.split_asm sum.split_asm if_split_asm) auto

lemma jpart_decide:
  assumes "decide env p root = (r, root')"
  shows "jpart root' = jpart root"
proof -
  have m: "jpart rt = jpart root" if "decide_merged env p res root = (x, rt)" for res x rt root
    using that by (auto simp: decide_merged_def Let_def split: if_splits prod.splits sum.splits dest: jpart_blob_put)
  have c: "jpart rt = jpart root" if "decide_conflict env p res x1 root = (x, rt)" for res x x1 rt root
    using that by (auto simp: decide_conflict_def split: if_splits prod.splits sum.splits dest: jpart_keepConflict)
  have h: "jpart rt = jpart root" if "decide_hist env p res v x1 root = (x, rt)" for res v x x1 rt root
    using that by (auto simp: decide_hist_def split: if_splits prod.splits sum.splits dest: jpart_blob_put)
  show ?thesis
    using assms by (auto simp: decide_def split: sum.splits prod.splits dest!: m c h)
qed

lemma on_disk_drop_conflict [simp]: "on_disk (drop_conflict i root) = on_disk root"
  by (rule on_disk_cong) simp_all

lemma on_disk_process_rounds:
  assumes "on_disk root" "key_ok k" "\<And>i r. on_disk r \<Longrightarrow> on_disk (others i r)"
    and "process_rounds n cfg env others k m side c base root = (a, root')"
  shows "on_disk root'"
  using assms
proof (induction n arbitrary: root)
  case 0
  then show ?case by simp
next
  case (Suc n)
  obtain r root1 where pr: "prepare (de_now (env n)) k m side c base root = (r, root1)" by fastforce
  then have d1: "on_disk root1"
    using Suc.prems(1) prepare_core jpart_prepare on_disk_cong by blast
  show ?case
  proof (cases r)
    case (Inl ak)
    with Suc.prems(4) have "root' = root1"
      by (simp only: process_rounds.simps pr prod.case sum.case prod.inject)
    with d1 show ?thesis by simp
  next
    case (Inr p)
    from prepare_InrD [OF pr [unfolded Inr]] have pk: "p_k p = k" by blast
    obtain d root2 where de: "decide (env n) p root1 = (d, root2)" by fastforce
    then have d2: "on_disk root2" using d1 decide_core jpart_decide on_disk_cong by blast
    show ?thesis
    proof (cases d)
      case (Inl e)
      with Suc.prems(4) have "root' = root2"
        by (simp only: process_rounds.simps pr Inr \<open>r = Inr p\<close> de prod.case sum.case prod.inject)
      with d2 show ?thesis by simp
    next
      case (Inr re)
      obtain res extra where re: "re = (res, extra)" by fastforce
      obtain ao root3 where cp: "commitPlan cfg (de_now (env n)) p res extra (others n root2) = (ao, root3)"
        by fastforce
      have d3: "on_disk root3"
        by (rule on_disk_commitPlan [OF cp Suc.prems(3) [OF d2]]) (use pk Suc.prems(2) in simp)
      let ?next = "if x_conflict extra \<noteq> [] then drop_conflict (x_conflict extra) root3 else root3"
      have d4: "on_disk ?next" using d3 by simp
      show ?thesis
      proof (cases ao)
        case None
        with Suc.prems(4) have "process_rounds n cfg env others k m side c base ?next = (a, root')"
          by (simp only: process_rounds.simps pr \<open>r = Inr p\<close> de Inr re cp prod.case sum.case option.case)
        with Suc.IH [OF d4 Suc.prems(2)] Suc.prems(3) show ?thesis by blast
      next
        case (Some x)
        with Suc.prems(4) have "root' = (if a_status x = Deferred \<and> x_conflict extra \<noteq> []
            then drop_conflict (x_conflict extra) root3 else root3)"
          by (simp only: process_rounds.simps pr \<open>r = Inr p\<close> de Inr re cp prod.case sum.case
              option.case prod.inject) blast
        with d3 show ?thesis by simp
      qed
    qed
  qed
qed

section \<open>Properties\<close>

text \<open>C12: nothing the hub holds is lost. After a reported change, opening the journal gives every
  entry of the root, with its content and rev, if that held before: whatever journal writes and
  snapshots failed on the way, as long as a failed write is cut off the log, and whatever ran
  between the rounds keeps it.\<close>

theorem process_durable:
  assumes "on_disk root" "CHR 0x00 \<notin> set (s_location side)" "\<And>i r. on_disk r \<Longrightarrow> on_disk (others i r)"
    and "process cfg env others side c stale root = (a, root')" "ents root' k = Some e"
  shows "\<exists>e'. map_of (snd (openJournal (hr_journal root'))) (journalKey k) = Some (EntryRec e') \<and>
    he_entry e' = he_entry e \<and> he_rev e' = he_rev e"
proof -
  have "on_disk root'"
    using assms(4)
  proof (cases rule: process_cases)
    case Ignored
    with assms(1) show ?thesis by simp
  next
    case (Rounds k m)
    from Rounds(3) assms(2) have "key_ok k" by (auto simp: keyFor_def key_ok_def split: option.splits if_splits)
    with on_disk_process_rounds [OF assms(1) _ _ Rounds(4)] assms(3) show ?thesis by blast
  qed
  with on_disk_entry assms(5) show ?thesis unfolding covered_def recovered_def by blast
qed

end
