(* ===== verification/HubWitness.thy ===== *)
theory HubWitness
  imports HubJournal
begin

text \<open>
  The hub run on concrete inputs: a new root of the default table takes the first change of a
  side. Each theorem applies a property of the hub to such a state, so its hypotheses can hold.
\<close>

section \<open>A root with one folder\<close>

text \<open>Concrete states for the witnesses: a root of the default table, new or with one folder the
  side \<open>host\<close> made.\<close>

definition plain_format :: "nat doc_format" where
  "plain_format = \<lparr>f_name = ''plain'', f_parse = (\<lambda>s. Inl ''unreadable''), f_seed = (\<lambda>v. False),
     f_render = (\<lambda>b s v. Inl ''unreadable'')\<rparr>"

abbreviation ex_cfg :: hub_cfg where "ex_cfg \<equiv> default_cfg plain_format plain_format"

definition ex_root :: hub_root where
  "ex_root = blank_root ''.claude'' 100 [] empty_journal"

definition ex_dir :: entry where
  "ex_dir = \<lparr>e_kind = Dir, e_mode = 493, e_size = 0, e_mtime = 1, e_hash = [], e_target = [], e_grew = []\<rparr>"

definition ex_root1 :: hub_root where
  "ex_root1 = root_count None (Some \<lparr>he_entry = ex_dir, he_rev = 1, he_origin = ''host'', he_base = 0, he_at = 0, he_hist = []\<rparr>)
     ([], ''x'') (ex_root\<lparr>hr_rev := 1, hr_entries := [(([], ''x''),
       \<lparr>he_entry = ex_dir, he_rev = 1, he_origin = ''host'', he_base = 0, he_at = 0, he_hist = []\<rparr>)]\<rparr>)"

definition ex_side :: "string \<Rightarrow> side_info" where
  "ex_side i = \<lparr>s_id = i, s_location = i, s_loginsOnly = False\<rparr>"

definition ex_change :: "entry \<Rightarrow> change" where
  "ex_change e = \<lparr>c_path = ''x'', c_base = 0, c_entry = e\<rparr>"

definition ex_env :: "nat \<Rightarrow> decide_env" where
  "ex_env i = \<lparr>de_now = 7, de_incoming = Inl ErrNoSource, de_current = Inl ErrNoSource, de_baseRead = None,
     de_put = None, de_room = None, de_loser = None, de_save = Inr ''c1''\<rparr>"

lemma ex_root_inv: "hub_inv ex_root"
  by (simp add: hub_inv_def tallies_ok_def tree_ok_def entries_ok_def ex_root_def blank_root_def
      live_children_def live_total_def wrap64_def)

lemma ex_policy: "table_PolicyFor defaultRoots (Join2 ''.claude'' ''x'') = Some Mirror"
  by code_simp

lemma ex_path: "validPath ''x''" "ancestors ''x'' = []" "path_Dir ''x'' = ''.''"
  by code_simp+

definition ex_file :: entry where
  "ex_file = \<lparr>e_kind = File, e_mode = 420, e_size = 10, e_mtime = 1, e_hash = replicate 64 CHR ''0'',
     e_target = [], e_grew = []\<rparr>"

lemma ex_check: "check ex_dir = None" "check ex_file = None"
  by code_simp+

lemma ex_live: "Live ex_dir" "Live ex_file"
  by (simp_all add: ex_dir_def ex_file_def Live_def)

lemma ex_key: "hr_name root = ''.claude'' \<Longrightarrow> keyFor ex_cfg root ''x'' loc = Some (([], ''x''), Mirror_merger)"
  using ex_policy
  by (simp add: keyFor_def merger_for_def default_cfg_def DefaultPolicies_def Mirror_merger_def)

lemma ex_name [simp]: "hr_name ex_root = ''.claude''" "hr_name ex_root1 = ''.claude''"
  by (simp_all add: ex_root_def ex_root1_def blank_root_def root_count_def recount_def uncount_def live_opt_def
      Let_def)

definition ex_plan :: "entry \<Rightarrow> plan" where
  "ex_plan e = \<lparr>p_k = ([], ''x''), p_m = Mirror_merger, p_side = ex_side ''host'', p_c = ex_change e,
     p_base = 0, p_cur = None, p_fast = True, p_shape = no_shape\<rparr>"

definition ex_root2 :: "entry \<Rightarrow> hub_root" where
  "ex_root2 e = snd (commitPlan ex_cfg 7 (ex_plan e) (result_of Accept False []) no_extra ex_root)"

lemma ex_room:
  assumes "e_kind e = File \<longrightarrow> 0 \<le> e_size e \<and> e_size e \<le> 100" "hr_cap root = 100" "hr_total root = 0"
  shows "\<not> (e_kind e = File \<and> overCap root (e_size e) None)"
  using assms by (auto simp: overCap_def liveSize_def wrap64_def)

lemma ex_prepare:
  assumes "Live e" "e_kind e = File \<longrightarrow> 0 \<le> e_size e \<and> e_size e \<le> 100"
  shows "prepare now ([], ''x'') Mirror_merger (ex_side ''host'') (ex_change e) 0 ex_root = (Inr (ex_plan e), ex_root)"
  using ex_path assms(1) ex_room [OF assms(2)]
  by (simp add: prepare_def Let_def ex_root_def blank_root_def map_side_def ex_change_def ex_side_def ex_plan_def
      checkShape_def)

lemma ex_decide:
  assumes "Live e"
  shows "decide (ex_env i) (ex_plan e) ex_root = (Inr (result_of Accept False [], no_extra), ex_root)"
  using assms
  by (simp add: decide_def policy_result_def ex_plan_def no_shape_def Mirror_merger_def newestWins_def
      merge_input_of_def decide_merged_def decide_conflict_def decide_hist_def)

lemma ex_commit:
  assumes "Live e" "e_kind e = File \<longrightarrow> 0 \<le> e_size e \<and> e_size e \<le> 100"
  shows "commitPlan ex_cfg 7 (ex_plan e) (result_of Accept False []) no_extra ex_root = (Some
   \<lparr>a_path = ''x'', a_rev = 1, a_status = Accepted, a_entry = e\<rparr>, ex_root2 e)"
proof -
  have "fst (commitPlan ex_cfg 7 (ex_plan e) (result_of Accept False []) no_extra ex_root) = Some
   \<lparr>a_path = ''x'', a_rev = 1, a_status = Accepted, a_entry = e\<rparr>"
    using assms(1) ex_path ex_room [OF assms(2)]
    by (simp add: commitPlan_def ex_plan_def ex_root_def blank_root_def Let_def moved_on_def shape_equal_def
      checkShape_def ex_change_def ex_side_def no_shape_def commit_change_def
      setEntry_def root_commit_def next_write_def root_put_def journal_put_def empty_journal_def journal_commit_def
      succ64_def split: prod.splits)
  then show ?thesis by (simp add: ex_root2_def prod_eq_iff)
qed

lemma ex_process:
  assumes "Live e" "check e = None" "e_kind e = File \<longrightarrow> 0 \<le> e_size e \<and> e_size e \<le> 100"
  shows "process ex_cfg ex_env (\<lambda>_ r. r) (ex_side ''host'') (ex_change e) False ex_root =
    (\<lparr>a_path = ''x'', a_rev = 1, a_status = Accepted, a_entry = e\<rparr>, ex_root2 e)"
proof -
  have c: "c_path (ex_change e) = ''x''" "c_entry (ex_change e) = e" "c_base (ex_change e) = 0"
    by (simp_all add: ex_change_def)
  have four: "(4 :: nat) = Suc 3" by simp
  have "process_rounds 4 ex_cfg ex_env (\<lambda>_ r. r) ([], ''x'') Mirror_merger (ex_side ''host'') (ex_change e) 0 ex_root =
    (\<lparr>a_path = ''x'', a_rev = 1, a_status = Accepted, a_entry = e\<rparr>, ex_root2 e)"
    unfolding four process_rounds.simps ex_prepare [OF assms(1,3)] prod.case sum.case ex_decide [OF assms(1)]
    using ex_commit [OF assms(1,3)] by (simp add: ex_env_def)
  then show ?thesis
    using assms(2) ex_path ex_key [of ex_root] c by (simp add: process_def ex_side_def del: process_rounds.simps)
qed

section \<open>The properties on these states\<close>

lemma ex_small: "e_kind ex_dir = File \<longrightarrow> 0 \<le> e_size ex_dir \<and> e_size ex_dir \<le> 100"
  "e_kind ex_file = File \<longrightarrow> 0 \<le> e_size ex_file \<and> e_size ex_file \<le> 100"
  by (simp_all add: ex_dir_def ex_file_def)

lemmas ex_run = ex_process [OF ex_live(1) ex_check(1) ex_small(1)]

theorem process_keeps_invariant_witness: "hub_inv (ex_root2 ex_dir)"
  using process_keeps_invariant [OF ex_root_inv, of "\<lambda>_ r. r" plain_format plain_format ex_env "ex_side ''host''"
      "ex_change ex_dir" False] ex_run by simp

theorem accepted_is_current_witness:
  "\<exists>e. ents (ex_root2 ex_dir) ([], ''x'') = Some e \<and> Same (he_entry e) ex_dir \<and> he_rev e = 1"
proof -
  have "keyFor ex_cfg ex_root (c_path (ex_change ex_dir)) (s_location (ex_side ''host'')) = Some (([], ''x''), Mirror_merger)"
    using ex_key [of ex_root] by (simp add: ex_change_def)
  from accepted_is_current [OF ex_root_inv this ex_run] ex_live(1) show ?thesis by (simp add: ex_change_def)
qed

theorem stale_delete_keeps_state_witness:
  "map_option he_entry (ents (snd (process ex_cfg ex_env (\<lambda>_ r. r) (ex_side ''pod'') (ex_change gone_entry) False ex_root1))
     ([], ''x'')) = Some ex_dir"
proof -
  let ?e = "\<lparr>he_entry = ex_dir, he_rev = 1, he_origin = ''host'', he_base = 0, he_at = 0, he_hist = []\<rparr>"
  have k: "keyFor ex_cfg ex_root1 (c_path (ex_change gone_entry)) (s_location (ex_side ''pod'')) = Some (([], ''x''), Mirror_merger)"
    using ex_key [of ex_root1] by (simp add: ex_change_def)
  have e: "ents ex_root1 ([], ''x'') = Some ?e"
    by (simp add: ex_root1_def root_count_fields ex_root_def blank_root_def)
  have d: "\<not> Live (c_entry (ex_change gone_entry))" by (simp add: ex_change_def gone_entry_def Live_def)
  have c: "concurrent ex_root1 (ex_side ''pod'') ?e (if False then 0 else c_base (ex_change gone_entry))"
    by (simp add: concurrent_def ex_change_def ex_side_def ex_root1_def ex_root_def blank_root_def
        root_count_def recount_def uncount_def live_opt_def Let_def)
  from stale_delete_keeps_state [OF k e d c, of ex_env] show ?thesis by simp
qed

theorem one_way_root_witness:
  "hr_entries (snd (process ex_cfg ex_env (\<lambda>_ r. r) (ex_side ''pod'') (ex_change ex_dir) False (ex_root\<lparr>hr_writer := ''host''\<rparr>))) = []"
  using one_way_root [of "ex_root\<lparr>hr_writer := ''host''\<rparr>" "ex_side ''pod''" ex_cfg ex_env "\<lambda>_ r. r" "ex_change ex_dir" False]
  by (simp add: ex_side_def ex_root_def blank_root_def)

theorem cap_respected_witness: "hr_total (ex_root2 ex_file) \<le> 100"
proof -
  have p: "plan_ok (ex_plan ex_file)" "decided (ex_plan ex_file) (result_of Accept False []) no_extra"
    using ex_path ex_check
    by (simp_all add: plan_ok_def decided_def ex_plan_def ex_change_def no_shape_def shape_wf_def)
  have f: "e_kind (c_entry (p_c (ex_plan ex_file))) = File" by (simp add: ex_plan_def ex_change_def ex_file_def)
  have r: "0 < hr_cap ex_root" "0 \<le> hr_total ex_root" "hr_total ex_root + 10 < 2 ^ 63"
    "liveSize (ents ex_root (p_k (ex_plan ex_file))) = 0"
    by (simp_all add: ex_root_def blank_root_def liveSize_def)
  have sz: "(10 :: int) = (if mr_decision (result_of Accept False []) = Merged then e_size (x_merged no_extra)
      else e_size (c_entry (p_c (ex_plan ex_file))))"
    by (simp add: ex_plan_def ex_change_def ex_file_def)
  have "hr_total (ex_root2 ex_file) \<le> max (hr_total ex_root) (hr_cap ex_root)"
    by (rule cap_respected [OF ex_root_inv p f ex_commit [OF ex_live(2) ex_small(2)] r(1,2) _ _ r(3) _ sz])
      (use r(4) in simp_all)
  then show ?thesis by (simp add: ex_root_def blank_root_def)
qed

theorem cap_check_wraps_witness: "\<not> overCap (ex_root\<lparr>hr_total := 1\<rparr>) max_int64 None"
  by (rule cap_check_wraps) (simp_all add: ex_root_def blank_root_def)

theorem commit_keeps_revs_witness: "revs_ok (ex_root2 ex_dir)"
proof -
  have "revs_ok ex_root" by (simp add: revs_ok_def ex_root_def blank_root_def)
  moreover have "hr_rev ex_root + length (sc_resurrect (p_shape (ex_plan ex_dir))) + 1 < 2 ^ 64"
    by (simp add: ex_root_def blank_root_def ex_plan_def no_shape_def)
  ultimately have "revs_ok (snd (commitPlan ex_cfg 7 (ex_plan ex_dir) (result_of Accept False []) no_extra ex_root))"
    using commit_keeps_revs [of ex_root "ex_plan ex_dir" ex_cfg 7 "result_of Accept False []" no_extra] by blast
  then show ?thesis by (simp only: ex_root2_def)
qed

lemma ex_entry: "ents (ex_root2 ex_dir) ([], ''x'') = Some (new_state 7 ex_dir ''host'' 0 [] ex_root)"
  using ex_path ex_live
  by (simp add: ex_root2_def commitPlan_def ex_plan_def ex_root_def blank_root_def Let_def moved_on_def shape_equal_def
      checkShape_def ex_change_def ex_side_def overCap_def liveSize_def wrap64_def no_shape_def commit_change_def
      setEntry_def root_commit_def next_write_def root_put_def journal_put_def empty_journal_def journal_commit_def
      succ64_def ex_dir_def held_def map_side_def markDirty_def root_count_fields journal_due_def new_hist_def
      Mirror_merger_def no_extra_def split: prod.splits)

lemma ex_on_disk: "on_disk ex_root"
  by (simp add: on_disk_def journal_sound_def ex_root_def blank_root_def empty_journal_def journal_ok_def)

theorem process_durable_witness:
  "\<exists>e'. map_of (snd (openJournal (hr_journal (ex_root2 ex_dir)))) (journalKey ([], ''x'')) = Some (EntryRec e') \<and> he_rev e' = 1"
proof -
  from ex_entry have e: "ents (ex_root2 ex_dir) ([], ''x'') = Some (new_state 7 ex_dir ''host'' 0 [] ex_root)"
    "he_rev (new_state 7 ex_dir ''host'' 0 [] ex_root) = 1"
    by (simp_all add: ex_root_def blank_root_def succ64_def)
  have "CHR 0x00 \<notin> set (s_location (ex_side ''host''))" by (simp add: ex_side_def)
  from process_durable [OF ex_on_disk this _ ex_run e(1)] e(2) show ?thesis by fastforce
qed

end
