(* ===== verification/HubNoLoss.thy ===== *)
theory HubNoLoss
  imports HubDelivery HubWitness
begin

text \<open>
  The delivery invariant over all sides of a root, kept by every step of the hub: planning and
  committing a reported change, collecting batches, taking their results, attaching and detaching.
\<close>

section \<open>Sides under changes of the root\<close>

definition seat :: "hub_root \<Rightarrow> string \<times> (string \<times> side_root) list" where
  "seat root = (hr_name root, hr_sides root)"

lemma seat_simps [simp]:
  "seat (root_put jk v root) = seat root"
  "seat (root\<lparr>hr_holds := hs\<rparr>) = seat root"
  "seat (root\<lparr>hr_journal := j\<rparr>) = seat root"
  "seat (root\<lparr>hr_conflicts := cs\<rparr>) = seat root"
  "seat (root\<lparr>hr_entries := es\<rparr>) = seat root"
  "seat (root\<lparr>hr_rev := r\<rparr>) = seat root"
  "seat (root\<lparr>hr_entries := es, hr_forgot := fg\<rparr>) = seat root"
  "seat (root\<lparr>hr_rev := r, hr_entries := es\<rparr>) = seat root"
  "seat (drop_conflict i root) = seat root"
  "seat (blob_remove h root) = seat root"
  "seat (blob_gc ks t root) = seat root"
  "seat (root_count old e k root) = seat root"
  by (simp_all add: seat_def root_put_def drop_conflict_def
      blob_remove_def blob_gc_def root_count_def recount_def uncount_def Let_def)

lemma seat_next [simp]: "seat (snd (next_write root)) = seat root" "seat (snd (next_snap root)) = seat root"
  by (simp_all add: seat_def next_write_def next_snap_def split: list.split)

lemma seat_root_commit [simp]: "seat (snd (root_commit root)) = seat root"
  using seat_next(1) [of root] by (auto simp: root_commit_def seat_def split: prod.splits)

lemma seat_forget [simp]: "seat (forget before kept root) = seat root"
proof -
  have "seat (fold (\<lambda>(r, h) rt. if h \<in> set (map snd kept) \<or> names rt h then rt else blob_remove h rt)
      xs rt) = seat rt" for xs rt
    by (induction xs arbitrary: rt) (auto simp del: set_map)
  then show ?thesis by (simp add: forget_def)
qed

lemma seat_compact [simp]: "seat (snd (compact cfg now root)) = seat root"
proof -
  let ?dropped = "filter (forgettable cfg now root) (hr_entries root)"
  let ?kept = "filter (\<lambda>ke. \<not> forgettable cfg now root ke) (hr_entries root)"
  define forgot where "forgot = fold (\<lambda>ke f. max f (he_rev (snd ke))) ?dropped (hr_forgot root)"
  define j where "j = fold (\<lambda>ke. journal_del (journalKey (fst ke))) ?dropped (hr_journal root)"
  define root1 where "root1 = root\<lparr>hr_entries := ?kept, hr_forgot := forgot\<rparr>"
  obtain w root2 where w: "next_write root1 = (w, root2)" by fastforce
  obtain sn root3 where sn: "next_snap root2 = (sn, root3)" by fastforce
  have "seat root1 = seat root" by (simp add: root1_def)
  then have "seat root3 = seat root"
    using seat_next(1) [of root1] seat_next(2) [of root2] w sn by simp
  then show ?thesis
    unfolding compact_def Let_def forgot_def [symmetric] j_def [symmetric] root1_def [symmetric]
    by (simp add: w sn split: prod.split)
qed

text \<open>The delivery invariant of a side, with the paths in \<open>P\<close> left out.\<close>

definition side_but :: "hub_cfg \<Rightarrow> hub_root \<Rightarrow> side_root \<Rightarrow> sync_op list \<Rightarrow> string set \<Rightarrow> bool" where
  "side_but cfg root sr fl P \<longleftrightarrow> flight_ok sr fl \<and> revs_behind cfg root sr fl \<and>
     (\<forall>p op. opFor cfg root sr p = Some op \<and> path_state cfg root sr p \<noteq> None \<and> p \<notin> P \<longrightarrow> waiting sr fl op)"

lemma side_ok_but: "side_ok cfg root sr fl \<longleftrightarrow> side_but cfg root sr fl {}"
  by (simp add: side_ok_def side_but_def all_waiting_def)

lemma side_but_mono: "side_but cfg root sr fl P \<Longrightarrow> P \<subseteq> Q \<Longrightarrow> side_but cfg root sr fl Q"
  unfolding side_but_def by blast

definition sides_but :: "hub_cfg \<Rightarrow> hub_root \<Rightarrow> (string \<Rightarrow> sync_op list) \<Rightarrow> (string \<Rightarrow> string set) \<Rightarrow> bool" where
  "sides_but cfg root fls P \<longleftrightarrow> distinct (map fst (hr_sides root)) \<and>
     (\<forall>sid sr. (sid, sr) \<in> set (hr_sides root) \<longrightarrow> sid \<noteq> [] \<and> s_id (sr_info sr) = sid \<and> side_but cfg root sr (fls sid) (P sid))"

definition sides_ok :: "hub_cfg \<Rightarrow> hub_root \<Rightarrow> (string \<Rightarrow> sync_op list) \<Rightarrow> bool" where
  "sides_ok cfg root fls \<longleftrightarrow> sides_but cfg root fls (\<lambda>_. {})"

text \<open>What the invariant needs of a change of the entries: paths keep their state or lose it, but
  those in \<open>P\<close>.\<close>

lemma keyFor_name: "hr_name root' = hr_name root \<Longrightarrow> keyFor cfg root' p loc = keyFor cfg root p loc"
  by (simp add: keyFor_def merger_for_def)

lemma side_but_entries:
  assumes "side_but cfg root sr fl P" "hr_rev root \<le> hr_rev root'"
    and "\<And>p e'. path_state cfg root' sr p = Some e' \<Longrightarrow>
      (\<exists>e. path_state cfg root sr p = Some e \<and> he_entry e' = he_entry e \<and> he_rev e' = he_rev e) \<or>
      (p \<in> Q \<and> hr_rev root < he_rev e')"
  shows "side_but cfg root' sr fl (P \<union> Q)"
proof -
  have f: "flight_ok sr fl" and r: "revs_behind cfg root sr fl"
    and w: "\<And>p op. opFor cfg root sr p = Some op \<Longrightarrow> path_state cfg root sr p \<noteq> None \<Longrightarrow> p \<notin> P \<Longrightarrow> waiting sr fl op"
    using assms(1) by (auto simp: side_but_def)
  have "revs_behind cfg root' sr fl"
    unfolding revs_behind_def
  proof (intro conjI allI impI ballI)
    fix p h assume "map_of (sr_held sr) p = Some h"
    with r have h: "h \<le> hr_rev root" "\<And>e. path_state cfg root sr p = Some e \<Longrightarrow> Live (he_entry e) \<Longrightarrow> h \<le> he_rev e"
      unfolding revs_behind_def by blast+
    then show "h \<le> hr_rev root'" using assms(2) by simp
    show "h \<le> he_rev e'" if "path_state cfg root' sr p = Some e' \<and> Live (he_entry e')" for e'
      using assms(3) [of p e'] that h by fastforce
  next
    fix x assume "x \<in> set fl" "Live (op_entry x)"
    with r have h: "op_rev x \<le> hr_rev root" "\<And>e. path_state cfg root sr (op_path x) = Some e \<Longrightarrow> Live (he_entry e) \<Longrightarrow> op_rev x \<le> he_rev e"
      unfolding revs_behind_def by blast+
    then show "op_rev x \<le> hr_rev root'" using assms(2) by simp
    show "op_rev x \<le> he_rev e'" if "path_state cfg root' sr (op_path x) = Some e' \<and> Live (he_entry e')" for e'
      using assms(3) [of "op_path x" e'] that h by fastforce
  qed
  moreover have "waiting sr fl op" if o: "opFor cfg root' sr p = Some op" and e': "path_state cfg root' sr p \<noteq> None" and p: "p \<notin> P \<union> Q" for p op
  proof -
    obtain e' e where e: "path_state cfg root' sr p = Some e'" "path_state cfg root sr p = Some e"
      "he_entry e' = he_entry e" "he_rev e' = he_rev e"
      using assms(3) [of p] e' p by blast
    have "opFor cfg root sr p = Some op" using o e(3,4) unfolding opFor_state [OF e(1)] opFor_state [OF e(2)] by (simp only:)
    with w e p show ?thesis by blast
  qed
  ultimately show ?thesis using f by (auto simp: side_but_def)
qed

text \<open>A change of the side's view of one path.\<close>

lemma side_but_touch:
  assumes e: "elsewhere p sr sr'" and b: "sr_blocked sr' = sr_blocked sr" and s: "side_but cfg root sr fl (insert p P)"
    and h: "\<And>h. map_of (sr_held sr') p = Some h \<Longrightarrow> map_of (sr_held sr) p = Some h \<or> h \<le> hr_rev root \<and>
        (\<forall>e. path_state cfg root sr p = Some e \<and> Live (he_entry e) \<longrightarrow> h \<le> he_rev e)"
    and w: "\<And>o2. opFor cfg root sr' p = Some o2 \<Longrightarrow> path_state cfg root sr p \<noteq> None \<Longrightarrow> waiting sr' fl o2"
  shows "side_but cfg root sr' fl (P - {p})"
proof -
  have i: "sr_info sr' = sr_info sr" using e by (simp add: elsewhere_def)
  note ps = path_state_info [OF i]
  have f: "flight_ok sr fl" and r: "revs_behind cfg root sr fl" using s by (auto simp: side_but_def)
  have "flight_ok sr' fl" using f e b by (simp add: flight_ok_def elsewhere_def)
  moreover have "revs_behind cfg root sr' fl"
  proof -
    have "h2 \<le> hr_rev root \<and> (\<forall>e. path_state cfg root sr q = Some e \<and> Live (he_entry e) \<longrightarrow> h2 \<le> he_rev e)"
      if "map_of (sr_held sr') q = Some h2" for q h2
    proof (cases "q = p")
      case True
      with h [of h2] that r show ?thesis unfolding revs_behind_def by blast
    next
      case False
      with that e have "map_of (sr_held sr) q = Some h2" by (simp add: elsewhere_def)
      with r show ?thesis unfolding revs_behind_def by blast
    qed
    with r show ?thesis unfolding revs_behind_def ps by blast
  qed
  moreover have "waiting sr' fl op"
    if o: "opFor cfg root sr' q = Some op" "path_state cfg root sr' q \<noteq> None" "q \<notin> P - {p}" for q op
  proof (cases "q = p")
    case True
    with o w ps show ?thesis by metis
  next
    case False
    have "opFor cfg root sr q = Some op" using o(1) opFor_elsewhere [OF e False] by metis
    moreover have "path_state cfg root sr q \<noteq> None" using o(2) ps by metis
    ultimately have "waiting sr fl op" using s o(3) False unfolding side_but_def by blast
    with False opFor_path [OF o(1)] e b show ?thesis by (simp add: waiting_def refused_def elsewhere_def)
  qed
  ultimately show ?thesis unfolding side_but_def by blast
qed

section \<open>A new state\<close>

lemma path_state_key: "path_state cfg root sr p = Some e \<Longrightarrow> \<exists>k m. keyFor cfg root p (s_location (sr_info sr)) = Some (k, m) \<and> ents root k = Some e"
  by (auto simp: path_state_def split: option.splits)

lemma keyFor_snd: "keyFor cfg root p loc = Some (k, m) \<Longrightarrow> snd k = p \<and> (fst k = [] \<or> fst k = loc)"
  by (auto simp: keyFor_def split: option.splits if_splits)

lemma sides_butI:
  assumes "distinct (map fst (hr_sides root))"
    and "\<And>sid sr. (sid, sr) \<in> set (hr_sides root) \<Longrightarrow> sid \<noteq> [] \<and> s_id (sr_info sr) = sid \<and> side_but cfg root sr (fls sid) (P sid)"
  shows "sides_but cfg root fls P"
  using assms unfolding sides_but_def by blast

lemma side_but_cong:
  assumes "core a = core b" "hr_rev a = hr_rev b" "hr_name a = hr_name b" "side_but cfg a sr fl P"
  shows "side_but cfg b sr fl P"
proof -
  have "path_state cfg b sr p = path_state cfg a sr p" for p
    unfolding path_state_def keyFor_name [OF assms(3) [symmetric]] core_eqD(1) [OF assms(1)] ..
  then have "side_but cfg b sr fl (P \<union> {})" using assms by (intro side_but_entries [OF assms(4)]) auto
  then show ?thesis by simp
qed

lemma sides_but_cong:
  assumes "core a = core b" "hr_rev a = hr_rev b" "seat a = seat b" "sides_but cfg a fls P"
  shows "sides_but cfg b fls P"
proof (rule sides_butI)
  have s: "hr_sides b = hr_sides a" "hr_name a = hr_name b" using assms(3) by (simp_all add: seat_def)
  show "distinct (map fst (hr_sides b))" using assms(4) s by (simp add: sides_but_def)
  show "sid \<noteq> [] \<and> s_id (sr_info sr) = sid \<and> side_but cfg b sr (fls sid) (P sid)" if "(sid, sr) \<in> set (hr_sides b)" for sid sr
    using assms(4) that s side_but_cong [OF assms(1,2) s(2)] unfolding sides_but_def by metis
qed

text \<open>Compaction forgets deletes only.\<close>

lemma sides_but_compact:
  assumes "sides_but cfg root fls P" "distinct (map fst (hr_entries root))"
  shows "sides_but cfg (snd (compact cfg now root)) fls P"
proof (rule sides_butI)
  let ?root = "snd (compact cfg now root)"
  have s: "hr_sides ?root = hr_sides root" "hr_name ?root = hr_name root"
    using seat_compact [of cfg now root] by (simp_all add: seat_def)
  have rev: "hr_rev ?root = hr_rev root" using frame_compact [of cfg now root] by (simp add: frame_def)
  have es: "hr_entries ?root = filter (\<lambda>ke. \<not> forgettable cfg now root ke) (hr_entries root)"
    using core_compact [of cfg now root] by (simp add: core_def)
  show "distinct (map fst (hr_sides ?root))" using assms(1) s by (simp add: sides_but_def)
  fix sid sr assume m: "(sid, sr) \<in> set (hr_sides ?root)"
  have "path_state cfg root sr p = Some e" if "path_state cfg ?root sr p = Some e" for p e
    using that keyFor_name [OF s(2)] map_of_filter_distinct [OF assms(2)]
    by (auto simp: path_state_def es split: option.splits if_splits)
  moreover have "side_but cfg root sr (fls sid) (P sid)" "sid \<noteq> [] \<and> s_id (sr_info sr) = sid"
    using assms(1) m s unfolding sides_but_def by metis+
  ultimately show "sid \<noteq> [] \<and> s_id (sr_info sr) = sid \<and> side_but cfg ?root sr (fls sid) (P sid)"
    using side_but_entries [of cfg root sr "fls sid" "P sid" ?root "{}"] rev by auto
qed

text \<open>A new state is marked for every side it is for, but the one excepted.\<close>

lemma side_but_mark:
  assumes "side_but cfg root sr fl (insert p P)"
  shows "side_but cfg root (mark p now sr) fl (P - {p})"
proof (rule side_but_touch [OF _ _ assms])
  show "elsewhere p sr (mark p now sr)" by simp
  show "sr_blocked (mark p now sr) = sr_blocked sr" by (simp add: mark_def mark_dirty_since_def)
  show "waiting (mark p now sr) fl o2" if "opFor cfg root (mark p now sr) p = Some o2" for o2
    using opFor_keeps [OF that] opFor_path [OF that] by (simp add: waiting_def)
qed simp

lemma setEntry_sides:
  assumes st: "setEntry cfg now k e origin base hist except root = (r, root')"
    and ok: "sides_but cfg root fls P" and d: "distinct (map fst (hr_entries root))"
    and room: "hr_rev root < 2 ^ 64 - 1"
  shows "sides_but cfg root' fls (\<lambda>sid. if sid = except \<and> r \<noteq> None then insert (snd k) (P sid) else P sid)"
    (is "sides_but cfg root' fls ?Q")
  using st
proof (cases rule: setEntry_cases)
  case (Fail err root1)
  have "core root1 = core root" using Fail(1) root_commit_core by (metis core_root_put)
  moreover have "seat root1 = seat root" "frame root1 = frame root"
    using Fail(1) by (metis seat_root_commit seat_simps(1) snd_conv, metis frame_root_commit frame_simps(4) snd_conv)
  ultimately have "sides_but cfg root1 fls P"
    using sides_but_cong [of root root1 cfg fls P] ok by (simp add: frame_def)
  then show ?thesis using Fail(2,3) by simp
next
  case (Done root1 root3)
  let ?ne = "new_state now e origin base hist root"
  define root2 where "root2 = root_count (ents root k) (Some ?ne) k
         (root1\<lparr>hr_rev := succ64 (hr_rev root), hr_entries := AList.update k ?ne (hr_entries root1)\<rparr>)"
  have c1: "core root1 = core root" using Done(1) root_commit_core by (metis core_root_put)
  have "seat root1 = seat root" using Done(1) by (metis seat_root_commit seat_simps(1) snd_conv)
  then have s2: "hr_sides root2 = hr_sides root" "hr_name root2 = hr_name root"
    unfolding root2_def using seat_simps(12) seat_simps(8) by (metis prod.inject seat_def)+
  have e2: "hr_entries root2 = AList.update k ?ne (hr_entries root)" "hr_rev root2 = Suc (hr_rev root)"
    using c1 room by (simp_all add: root2_def root_count_fields core_def)
  have r3: "root3 = markDirty now k except root2" using Done(3) by (simp add: root2_def)
  have "sides_but cfg root3 fls ?Q"
  proof (rule sides_butI)
    have fst3: "map fst (hr_sides root3) = map fst (hr_sides root)" by (simp add: r3 markDirty_def s2 case_prod_beta comp_def)
    then show "distinct (map fst (hr_sides root3))" using ok by (simp add: sides_but_def)
    fix sid sr3 assume "(sid, sr3) \<in> set (hr_sides root3)"
    then obtain sr where m: "(sid, sr) \<in> set (hr_sides root)"
      and sr3: "sr3 = (if sid = except \<or> fst k \<noteq> [] \<and> s_location (sr_info sr) \<noteq> fst k then sr else mark (snd k) now sr)"
      by (auto simp: r3 markDirty_def s2)
    then have id: "sid \<noteq> [] \<and> s_id (sr_info sr) = sid" and sb: "side_but cfg root sr (fls sid) (P sid)"
      using ok unfolding sides_but_def by blast+
    have ps: "path_state cfg root2 sr p = (case keyFor cfg root p (s_location (sr_info sr)) of None \<Rightarrow> None
        | Some (k', m) \<Rightarrow> if k' = k then Some ?ne else ents root k')" for p
      using keyFor_name [OF s2(2)] by (simp add: path_state_def e2 split: option.split)
    have concerned: "fst k = [] \<or> fst k = s_location (sr_info sr)" "p = snd k"
      if "keyFor cfg root p (s_location (sr_info sr)) = Some (k, m)" for p m
      using keyFor_snd [OF that] by auto
    have root3: "core root3 = core root2" "hr_rev root3 = hr_rev root2" "hr_name root3 = hr_name root2"
      by (simp_all add: r3 markDirty_def core_def)
    have news: "side_but cfg root3 sr (fls sid) (P sid \<union> Z)"
      if z: "\<And>p m. keyFor cfg root p (s_location (sr_info sr)) = Some (k, m) \<Longrightarrow> p \<in> Z" for Z
    proof -
      have "side_but cfg root2 sr (fls sid) (P sid \<union> Z)"
      proof (rule side_but_entries [OF sb])
        show "hr_rev root \<le> hr_rev root2" using e2 by simp
        fix p e' assume e': "path_state cfg root2 sr p = Some e'"
        obtain k' m' where k': "keyFor cfg root p (s_location (sr_info sr)) = Some (k', m')"
          using e' by (auto simp: ps split: option.splits)
        show "(\<exists>e. path_state cfg root sr p = Some e \<and> he_entry e' = he_entry e \<and> he_rev e' = he_rev e) \<or>
            p \<in> Z \<and> hr_rev root < he_rev e'"
        proof (cases "k' = k")
          case True
          then have "e' = ?ne" using e' k' by (simp add: ps)
          then show ?thesis using True k' z room by auto
        next
          case False
          then have "ents root k' = Some e'" using e' k' by (simp add: ps)
          then have "path_state cfg root sr p = Some e'" using k' by (simp add: path_state_def)
          then show ?thesis by blast
        qed
      qed
      then show ?thesis using side_but_cong [of root2 root3] root3 by simp
    qed
    have "side_but cfg root3 sr3 (fls sid) (?Q sid)"
    proof (cases "sid = except")
      case True
      then show ?thesis using news [of "{snd k}"] concerned(2) sr3 Done(2) by auto
    next
      case ne: False
      show ?thesis
      proof (cases "fst k \<noteq> [] \<and> s_location (sr_info sr) \<noteq> fst k")
        case True
        then have "side_but cfg root3 sr (fls sid) (P sid \<union> {})" by (intro news) (metis concerned(1))
        then show ?thesis using sr3 ne True by simp
      next
        case False
        have "side_but cfg root3 sr (fls sid) (insert (snd k) (P sid))"
          using news [of "{snd k}"] concerned(2) by simp
        from side_but_mark [OF this] sr3 False ne have "side_but cfg root3 sr3 (fls sid) (P sid - {snd k})" by simp
        then show ?thesis using ne side_but_mono [of cfg root3 sr3 "fls sid" "P sid - {snd k}" "P sid"] by auto
      qed
    qed
    moreover have "sr_info sr3 = sr_info sr" by (auto simp: sr3 mark_def mark_dirty_since_def)
    ultimately show "sid \<noteq> [] \<and> s_id (sr_info sr3) = sid \<and> side_but cfg root3 sr3 (fls sid) (?Q sid)" using id by simp
  qed
  moreover have "distinct (map fst (hr_entries root3))"
    using d e2 by (simp add: r3 markDirty_def)
  ultimately show ?thesis using Done(4) sides_but_compact by auto
qed

section \<open>Planning\<close>

lemma sides_but_map_side:
  assumes "sides_but cfg root fls P"
    and "\<And>sr. (sid, sr) \<in> set (hr_sides root) \<Longrightarrow> sr_info (f sr) = sr_info sr \<and> side_but cfg root (f sr) (fls sid) (Q sid)"
    and "\<And>s. s \<noteq> sid \<Longrightarrow> Q s = P s"
  shows "sides_but cfg (map_side sid f root) fls Q"
proof (rule sides_butI)
  have "map fst (hr_sides (map_side sid f root)) = map fst (hr_sides root)"
    by (simp add: map_side_def case_prod_beta comp_def)
  then show "distinct (map fst (hr_sides (map_side sid f root)))" using assms(1) by (simp add: sides_but_def)
  fix s sr' assume "(s, sr') \<in> set (hr_sides (map_side sid f root))"
  then obtain sr where m: "(s, sr) \<in> set (hr_sides root)" "sr' = (if s = sid then f sr else sr)"
    by (auto simp: map_side_def)
  have old: "s \<noteq> [] \<and> s_id (sr_info sr) = s \<and> side_but cfg root sr (fls s) (P s)"
    using assms(1) m(1) unfolding sides_but_def by blast
  have "sr_info sr' = sr_info sr \<and> side_but cfg root sr' (fls s) (Q s)"
    using m old assms(2,3) by (cases "s = sid") auto
  moreover have "side_but cfg root x y z \<Longrightarrow> side_but cfg (map_side sid f root) x y z" for x y z
    using side_but_cong [of root "map_side sid f root"] by (simp add: core_def map_side_def)
  ultimately show "s \<noteq> [] \<and> s_id (sr_info sr') = s \<and> side_but cfg (map_side sid f root) sr' (fls s) (Q s)"
    using old by simp
qed

lemma side_but_same:
  assumes "view sr = view sr'" "sr_dirty sr = sr_dirty sr'" "sr_blocked sr = sr_blocked sr'" "sr_inflight sr = sr_inflight sr'"
    and "side_but cfg root sr fl P"
  shows "side_but cfg root sr' fl P"
proof -
  have "waiting sr' fl op = waiting sr fl op" for op using assms(2,3) by (simp add: waiting_def refused_def)
  moreover have "flight_ok sr' fl" using assms(2-5) by (simp add: side_but_def flight_ok_def)
  ultimately show ?thesis
    using assms(5) opFor_view [OF assms(1)] path_state_view [OF assms(1)] revs_behind_cong [OF assms(1)]
    by (simp add: side_but_def)
qed

text \<open>The side that reports is the one attached under its id.\<close>

definition reporter :: "hub_root \<Rightarrow> side_info \<Rightarrow> bool" where
  "reporter root side \<longleftrightarrow> (\<forall>sr. (s_id side, sr) \<in> set (hr_sides root) \<longrightarrow> sr_info sr = side)"

lemma reporter_map_side: "(\<And>sr. sr_info (f sr) = sr_info sr) \<Longrightarrow> reporter root side \<Longrightarrow> reporter (map_side i f root) side"
  by (auto simp: reporter_def map_side_def)

text \<open>Its view of a path, once the hub has answered: it holds the path's state, or it is to get it.\<close>

lemma side_but_held:
  assumes "side_but cfg root sr fl (insert p P)" "he_rev e \<le> hr_rev root"
    and "path_state cfg root sr p = None \<or> path_state cfg root sr p = Some e"
  shows "side_but cfg root ((if Live (he_entry e) then set_held p (he_rev e) else drop_held p) sr) fl (P - {p})"
    (is "side_but cfg root ?sr fl _")
proof (rule side_but_touch [OF _ _ assms(1)])
  show "elsewhere p sr ?sr" by simp
  show "sr_blocked ?sr = sr_blocked sr" by (simp add: set_held_def drop_held_def)
  have i: "sr_info ?sr = sr_info sr" by (simp add: set_held_def drop_held_def)
  have h: "map_of (sr_held ?sr) p = (if Live (he_entry e) then Some (he_rev e) else None)"
    by (simp add: set_held_def drop_held_def)
  show "map_of (sr_held sr) p = Some h \<or> h \<le> hr_rev root \<and>
      (\<forall>e. path_state cfg root sr p = Some e \<and> Live (he_entry e) \<longrightarrow> h \<le> he_rev e)"
    if "map_of (sr_held ?sr) p = Some h" for h
    using that h assms(2,3) by (auto split: if_splits)
  show "waiting ?sr fl o2" if "opFor cfg root ?sr p = Some o2" "path_state cfg root sr p \<noteq> None" for o2
  proof -
    have ps: "path_state cfg root ?sr p = Some e" using assms(3) that(2) path_state_info [OF i] by metis
    from that(1) h show ?thesis unfolding opFor_state [OF ps] by (simp split: if_splits)
  qed
qed

lemma side_but_give_back:
  assumes "side_but cfg root sr fl (insert (c_path c) P)"
  shows "side_but cfg root (give_back c now sr) fl (P - {c_path c})"
proof (rule side_but_touch [OF _ _ assms])
  let ?p = "c_path c"
  let ?sr = "if Live (c_entry c) then set_held ?p 0 sr else drop_held ?p sr"
  have g: "give_back c now sr = mark ?p now ?sr" by (simp add: give_back_def)
  show "elsewhere ?p sr (give_back c now sr)"
    unfolding g by (cases "Live (c_entry c)")
      (auto intro: elsewhere_trans [OF elsewhere_simps(4) elsewhere_simps(1)] elsewhere_trans [OF elsewhere_simps(5) elsewhere_simps(1)])
  show "sr_blocked (give_back c now sr) = sr_blocked sr"
    by (simp add: g mark_def mark_dirty_since_def set_held_def drop_held_def)
  show "map_of (sr_held sr) ?p = Some h \<or> h \<le> hr_rev root \<and>
      (\<forall>e. path_state cfg root sr ?p = Some e \<and> Live (he_entry e) \<longrightarrow> h \<le> he_rev e)"
    if "map_of (sr_held (give_back c now sr)) ?p = Some h" for h
    using that by (auto simp: g set_held_def drop_held_def split: if_splits)
  show "waiting (give_back c now sr) fl o2" if "opFor cfg root (give_back c now sr) ?p = Some o2" for o2
    using opFor_keeps [OF that] opFor_path [OF that] by (simp add: waiting_def g)
qed

lemma give_back_info: "sr_info (give_back c now sr) = sr_info sr"
  by (simp add: give_back_def mark_def mark_dirty_since_def set_held_def drop_held_def)

lemma sides_but_give_back:
  assumes "sides_ok cfg root fls"
  shows "sides_ok cfg (map_side (s_id side) (give_back c now) root) fls"
  unfolding sides_ok_def
proof (rule sides_but_map_side [OF assms [unfolded sides_ok_def]])
  fix sr assume "(s_id side, sr) \<in> set (hr_sides root)"
  then have "side_but cfg root sr (fls (s_id side)) {}" using assms unfolding sides_ok_def sides_but_def by blast
  from side_but_give_back [OF side_but_mono [OF this, of "{c_path c}"], of now]
  show "sr_info (give_back c now sr) = sr_info sr \<and> side_but cfg root (give_back c now sr) (fls (s_id side)) {}"
    by (simp add: give_back_info)
qed simp

lemma sides_but_held:
  assumes ok: "sides_but cfg root fls P" and P: "\<And>s. s \<noteq> s_id side \<Longrightarrow> P s = {}" "P (s_id side) \<subseteq> {p}"
    and rep: "reporter root side" and rev: "he_rev e \<le> hr_rev root"
    and st: "keyFor cfg root p (s_location side) = Some (k, m)" "ents root k = None \<or> ents root k = Some e"
  shows "sides_ok cfg (held side p e root) fls"
  unfolding sides_ok_def held_def
proof (rule sides_but_map_side [OF ok])
  let ?f = "if Live (he_entry e) then set_held p (he_rev e) else drop_held p"
  fix sr assume m: "(s_id side, sr) \<in> set (hr_sides root)"
  then have sb: "side_but cfg root sr (fls (s_id side)) (P (s_id side))" and i: "sr_info sr = side"
    using ok rep unfolding sides_but_def reporter_def by blast+
  have "path_state cfg root sr p = None \<or> path_state cfg root sr p = Some e"
    using st i by (simp add: path_state_def)
  from side_but_held [OF side_but_mono [OF sb, of "insert p {}"] rev this] P(2)
  show "sr_info (?f sr) = sr_info sr \<and> side_but cfg root (?f sr) (fls (s_id side)) {}"
    by (auto simp: set_held_def drop_held_def split: if_splits)
qed (use P in simp)

lemma prepare_sides:
  assumes pr: "prepare now k m side c base root = (r, root')"
    and ok: "sides_ok cfg root fls" and rep: "reporter root side" and rv: "revs_ok root"
    and key: "keyFor cfg root (c_path c) (s_location side) = Some (k, m)"
  shows "sides_ok cfg root' fls"
proof -
  let ?n = "noted side c root"
  have n: "sides_ok cfg ?n fls"
  proof -
    have "sides_but cfg (map_side (s_id side) (note_report (c_path c)) root) fls (\<lambda>_. {})"
    proof (rule sides_but_map_side [OF ok [unfolded sides_ok_def]])
      fix sr assume "(s_id side, sr) \<in> set (hr_sides root)"
      then have "side_but cfg root sr (fls (s_id side)) {}" using ok unfolding sides_ok_def sides_but_def by blast
      from side_but_same [OF _ _ _ _ this, of "note_report (c_path c) sr"]
      show "sr_info (note_report (c_path c) sr) = sr_info sr \<and> side_but cfg root (note_report (c_path c) sr) (fls (s_id side)) {}"
        by (simp add: note_report_def view_def)
    qed simp
    then show ?thesis
      unfolding sides_ok_def by (rule sides_but_cong [rotated 3]) (simp_all add: map_side_def)
  qed
  have rep': "reporter ?n side"
    using reporter_map_side [OF _ rep, of "note_report (c_path c)"] by (simp add: note_report_def reporter_def)
  have ents: "ents ?n = ents root" "hr_rev ?n = hr_rev root" by (simp_all add: map_side_def)
  have key': "keyFor cfg ?n (c_path c) (s_location side) = Some (k, m)"
    using key keyFor_name [of ?n root] by (simp add: map_side_def)
  show ?thesis
  proof (cases r)
    case (Inr p)
    with prepare_InrD pr n show ?thesis by metis
  next
    case (Inl a)
    have held: "sides_ok cfg (held side (c_path c) e ?n) fls" if e: "ents root k = Some e" for e
      by (rule sides_but_held [OF n [unfolded sides_ok_def] _ _ rep' _ key'])
        (use e ents revs_okD [OF rv] in auto)
    have "root' = root \<or> root' = ?n \<or> (\<exists>e. ents root k = Some e \<and> root' = held side (c_path c) e ?n) \<or>
      root' = map_side (s_id side) (give_back c now) ?n \<or>
      root' = ?n\<lparr>hr_holds := (s_id side, c_path c) # hr_holds ?n\<rparr>"
      using pr unfolding Inl prepare_def Let_def noted_ents
      by (simp only: prod.inject sum.inject sum.distinct simp_thms split: if_split_asm) auto
    then consider "root' = root" | "root' = ?n" | e where "ents root k = Some e" "root' = held side (c_path c) e ?n"
      | "root' = map_side (s_id side) (give_back c now) ?n" | "root' = ?n\<lparr>hr_holds := (s_id side, c_path c) # hr_holds ?n\<rparr>"
      by blast
    then show ?thesis
    proof cases
      case 1
      with ok show ?thesis by simp
    next
      case 2
      with n show ?thesis by simp
    next
      case 3
      with held show ?thesis by simp
    next
      case 4
      with sides_but_give_back [OF n] show ?thesis by simp
    next
      case 5
      show ?thesis
        unfolding 5 sides_ok_def by (rule sides_but_cong [OF _ _ _ n [unfolded sides_ok_def]]) simp_all
    qed
  qed
qed

section \<open>Committing\<close>

lemma resurrect_sides:
  "resurrect cfg now side rs root = (done', root') \<Longrightarrow> sides_ok cfg root fls \<Longrightarrow> revs_ok root \<Longrightarrow>
   hr_rev root + length rs < 2 ^ 64 \<Longrightarrow> sides_ok cfg root' fls"
proof (induction cfg now side rs root rule: resurrect.induct)
  case (2 cfg now side a md rest root)
  obtain r root1 where st: "setEntry cfg now ([], a) (gone_entry\<lparr>e_kind := Dir, e_mode := fileMode Dir md\<rparr>)
      side 0 [] [] root = (r, root1)" by fastforce
  have room: "hr_rev root < 2 ^ 64 - 1" using 2(5) by simp
  have d: "distinct (map fst (hr_entries root))" using 2(4) by (simp add: revs_ok_def)
  have ok1: "sides_ok cfg root1 fls"
  proof -
    have but: "sides_but cfg root1 fls (\<lambda>sid. if sid = [] \<and> r \<noteq> None then insert (snd ([] :: string, a)) {} else {})"
      by (rule setEntry_sides [OF st 2(3) [unfolded sides_ok_def] d room])
    show ?thesis
      unfolding sides_ok_def
    proof (rule sides_butI)
      show "distinct (map fst (hr_sides root1))" using but by (simp add: sides_but_def)
      show "sid \<noteq> [] \<and> s_id (sr_info sr) = sid \<and> side_but cfg root1 sr (fls sid) {}" if "(sid, sr) \<in> set (hr_sides root1)" for sid sr
        using but that unfolding sides_but_def by fastforce
    qed
  qed
  note rv = setEntry_revs [OF st 2(4) room]
  show ?case
  proof (cases r)
    case None
    with 2(2) st ok1 show ?thesis by simp
  next
    case (Some ne)
    with st have "resurrect cfg now side rest root1 = (done', root')" using 2(2) by simp
    with 2(1) [OF st [symmetric] Some] ok1 rv Some 2(5) show ?thesis by auto
  qed
qed simp

lemma unvouch_sides:
  assumes "sides_ok cfg root fls" "ents root k = Some e"
  shows "sides_ok cfg (unvouch k e side root) fls"
proof (cases "he_origin e \<noteq> side \<or> he_base e = he_rev e")
  case True
  with assms show ?thesis by (simp add: unvouch_def)
next
  case False
  let ?e = "e\<lparr>he_base := he_rev e\<rparr>"
  let ?r = "root\<lparr>hr_entries := AList.update k ?e (hr_entries root)\<rparr>"
  let ?u = "unvouch k e side root"
  have u: "?u = snd (root_commit (root_put (journalKey k) (EntryRec ?e) ?r))"
    using False by (simp add: unvouch_def Let_def)
  have c: "core ?u = core ?r" "frame ?u = frame ?r" "seat ?u = seat root" unfolding u by simp_all
  then have s: "hr_sides ?u = hr_sides root" "hr_name ?u = hr_name root" "hr_rev ?u = hr_rev root" "hr_entries ?u = AList.update k ?e (hr_entries root)"
    by (simp_all add: seat_def frame_def core_def)
  show ?thesis
    unfolding sides_ok_def
  proof (rule sides_butI)
    show "distinct (map fst (hr_sides ?u))" using assms(1) s by (simp add: sides_ok_def sides_but_def)
    fix sid sr assume m: "(sid, sr) \<in> set (hr_sides ?u)"
    then have old: "sid \<noteq> [] \<and> s_id (sr_info sr) = sid" "side_but cfg root sr (fls sid) {}"
      using assms(1) s unfolding sides_ok_def sides_but_def by metis+
    have "\<exists>x. path_state cfg root sr p = Some x \<and> he_entry y = he_entry x \<and> he_rev y = he_rev x"
      if "path_state cfg ?u sr p = Some y" for p y
      using path_state_key [OF that] assms(2) keyFor_name [OF s(2)]
      by (auto simp: path_state_def s(4) split: if_splits)
    then have "side_but cfg ?u sr (fls sid) ({} \<union> {})"
      using s by (intro side_but_entries [OF old(2)]) auto
    with old show "sid \<noteq> [] \<and> s_id (sr_info sr) = sid \<and> side_but cfg ?u sr (fls sid) {}" by simp
  qed
qed

lemma setEntry_name:
  assumes "setEntry cfg now k e origin base hist except root = (r, root')"
  shows "hr_name root' = hr_name root"
  using assms
proof (cases rule: setEntry_cases)
  case (Fail err root1)
  then have "seat root' = seat root" by (metis seat_root_commit seat_simps(1) snd_conv)
  then show ?thesis by (simp add: seat_def)
next
  case (Done root1 root3)
  have "seat root1 = seat root" using Done(1) by (metis seat_root_commit seat_simps(1) snd_conv)
  moreover have "hr_name (markDirty now k except x) = hr_name x" for x by (simp add: markDirty_def)
  moreover have "hr_name (root_count a b k x) = hr_name x" for a b x using seat_simps(12) by (metis prod.inject seat_def)
  ultimately have "hr_name root3 = hr_name root" using Done(3) by (simp add: seat_def)
  then show ?thesis using Done(4) seat_compact [of cfg now root3] by (auto simp: seat_def)
qed

text \<open>Who is attached is left alone by commits.\<close>

lemma reporter_setEntry:
  assumes "setEntry cfg now k e origin base hist except root = (r, root')" "reporter root side"
  shows "reporter root' side"
  using assms(1)
proof (cases rule: setEntry_cases)
  case (Fail err root1)
  then have "seat root' = seat root" by (metis seat_root_commit seat_simps(1) snd_conv)
  with assms(2) show ?thesis by (simp add: seat_def reporter_def)
next
  case (Done root1 root3)
  let ?r = "root_count (ents root k) (Some (new_state now e origin base hist root)) k
         (root1\<lparr>hr_rev := succ64 (hr_rev root),
            hr_entries := AList.update k (new_state now e origin base hist root) (hr_entries root1)\<rparr>)"
  have "seat root1 = seat root" using Done(1) by (metis seat_root_commit seat_simps(1) snd_conv)
  then have "seat ?r = seat root" by (simp only: seat_simps)
  then have "hr_sides ?r = hr_sides root" by (simp add: seat_def)
  then have "reporter root3 side"
    using assms(2) unfolding Done(3) reporter_def
    by (auto simp: markDirty_def mark_def mark_dirty_since_def split: if_splits)
  then show ?thesis using Done(4) seat_compact [of cfg now root3] by (auto simp: seat_def reporter_def)
qed

lemma resurrect_keeps:
  "resurrect cfg now sid rs root = (done', root') \<Longrightarrow> reporter root side \<Longrightarrow> reporter root' side \<and> hr_name root' = hr_name root"
proof (induction cfg now sid rs root rule: resurrect.induct)
  case (2 cfg now sid a md rest root)
  obtain r root1 where st: "setEntry cfg now ([], a) (gone_entry\<lparr>e_kind := Dir, e_mode := fileMode Dir md\<rparr>)
      sid 0 [] [] root = (r, root1)" by fastforce
  note k = reporter_setEntry [OF st 2(3)] setEntry_name [OF st]
  show ?case
  proof (cases r)
    case None
    with 2(2) st k show ?thesis by simp
  next
    case (Some ne)
    with st have "resurrect cfg now sid rest root1 = (done', root')" using 2(2) by simp
    with 2(1) [OF st [symmetric] Some] k show ?thesis by auto
  qed
qed simp

text \<open>The state the hub gave the path, seen from the side that is told it holds it.\<close>

lemma setEntry_current:
  assumes "setEntry cfg now k e origin base hist except root = (Some ne, root')" "distinct (map fst (hr_entries root))"
    and "hr_rev root < 2 ^ 64 - 1"
  shows "(ents root' k = None \<or> ents root' k = Some ne) \<and> he_rev ne \<le> hr_rev root'"
proof -
  note en = setEntry_entries [OF assms(1,2)]
  have "((ents root)(k \<mapsto> ne)) k = Some x" if "ents root' k = Some x" for x using en that by blast
  then have "ents root' k = Some x \<Longrightarrow> x = ne" for x by simp
  moreover have "hr_rev root' = Suc (hr_rev root)"
    using frame_setEntry [OF assms(1)] assms(3) by (simp add: frame_def)
  moreover have "ne = new_state now e origin base hist root" using en by blast
  then have "he_rev ne = Suc (hr_rev root)" using assms(3) by simp
  ultimately show ?thesis by (cases "ents root' k") auto
qed

lemma setEntry_dirty:
  assumes "setEntry cfg now k e origin base hist except root = (Some ne, root')"
    and "(sid, sr) \<in> set (hr_sides root')" "sid \<noteq> except" "fst k = [] \<or> fst k = s_location (sr_info sr)" "keeps sr (snd k)"
  shows "map_of (sr_dirty sr) (snd k) \<noteq> None"
  using assms(1)
proof (cases rule: setEntry_cases)
  case (Done root1 root3)
  let ?r = "root_count (ents root k) (Some (new_state now e origin base hist root)) k
         (root1\<lparr>hr_rev := succ64 (hr_rev root),
            hr_entries := AList.update k (new_state now e origin base hist root) (hr_entries root1)\<rparr>)"
  have "hr_sides root' = hr_sides root3" using Done(4) seat_compact [of cfg now root3] by (auto simp: seat_def)
  with assms(2) obtain sr0 where sr: "sr = (if sid = except \<or> fst k \<noteq> [] \<and> s_location (sr_info sr0) \<noteq> fst k then sr0
      else mark (snd k) now sr0)"
    unfolding Done(3) markDirty_def by auto
  have "sr_info sr = sr_info sr0" by (auto simp: sr mark_def mark_dirty_since_def)
  with sr assms(3,4) have "sr = mark (snd k) now sr0" by metis
  with assms(5) show ?thesis by simp
qed simp

lemma commit_change_sides:
  assumes st: "commit_change cfg now p res extra now_e root = (a, root')"
    and ok: "sides_ok cfg root fls" and rep: "reporter root (p_side p)" and rv: "revs_ok root"
    and room: "hr_rev root + length (sc_resurrect (p_shape p)) + 1 < 2 ^ 64"
    and key: "keyFor cfg root (c_path (p_c p)) (s_location (p_side p)) = Some (p_k p, m)"
  shows "sides_ok cfg root' fls"
proof -
  let ?rs = "zip (sc_resurrect (p_shape p)) (sc_modes (p_shape p))"
  let ?e = "if mr_decision res = Merged then x_merged extra else c_entry (p_c p)"
  let ?side = "p_side p" and ?p = "c_path (p_c p)"
  obtain ok1 root1 where rs: "resurrect cfg now (s_id ?side) ?rs root = (ok1, root1)" by fastforce
  have len: "length ?rs \<le> length (sc_resurrect (p_shape p))" by simp
  then have room1: "hr_rev root + length ?rs < 2 ^ 64" using room by linarith
  note s1 = resurrect_sides [OF rs ok rv room1]
  note r1 = resurrect_revs [OF rs rv room1]
  note k1 = resurrect_keeps [OF rs rep]
  show ?thesis
  proof (cases ok1)
    case False
    with st rs s1 show ?thesis by (simp add: commit_change_def)
  next
    case True
    define hist where "hist = new_hist p now_e ?e (x_hist extra) (succ64 (hr_rev root1))"
    define origin where "origin = (if mr_decision res = Merged then [] else s_id ?side)"
    obtain r root2 where se: "setEntry cfg now (p_k p) ?e origin (c_base (p_c p)) hist origin root1 = (r, root2)"
      by fastforce
    have room2: "hr_rev root1 < 2 ^ 64 - 1" using r1 room len by linarith
    have d1: "distinct (map fst (hr_entries root1))" using r1 by (simp add: revs_ok_def)
    have pk: "snd (p_k p) = ?p" using keyFor_snd [OF key] by simp
    have b2: "sides_but cfg root2 fls (\<lambda>sid. if sid = origin \<and> r \<noteq> None then insert (snd (p_k p)) {} else {})"
      by (rule setEntry_sides [OF se s1 [unfolded sides_ok_def] d1 room2])
    have ids: "sid \<noteq> []" if "(sid, sr) \<in> set (hr_sides root2)" for sid sr
      using b2 that unfolding sides_but_def by blast
    define root3 where "root3 = (if m_scope (p_m p) = ScopeLocation
        then forget (case now_e of None \<Rightarrow> [] | Some cur \<Rightarrow> he_hist cur) hist root2 else root2)"
    have eq: "(a, root') = (case r of None \<Rightarrow> (ack_of (p_c p) Deferred 0, root2)
      | Some ne \<Rightarrow> if mr_decision res = Merged
          then (ack_of (p_c p) Superseded (he_rev ne), map_side (s_id ?side) (set_held ?p 0) root3)
          else (ack_of (p_c p) Accepted (he_rev ne), held ?side ?p ne root3))"
      using st [symmetric] rs True se unfolding root3_def commit_change_def Let_def hist_def origin_def
      by (simp split del: if_split split: option.split)
    show ?thesis
    proof (cases r)
      case None
      have "root' = root2" using eq None by simp
      with b2 None show ?thesis by (simp add: sides_ok_def)
    next
      case (Some ne)
      have r3: "core root3 = core root2" "frame root3 = frame root2" "seat root3 = seat root2" by (simp_all add: root3_def)
      then have r3': "hr_rev root3 = hr_rev root2" "hr_sides root3 = hr_sides root2" "hr_name root3 = hr_name root2" "ents root3 = ents root2"
        by (simp_all add: frame_def seat_def core_def)
      have b3: "sides_but cfg root3 fls (\<lambda>sid. if sid = origin \<and> r \<noteq> None then insert (snd (p_k p)) {} else {})"
        by (rule sides_but_cong [OF _ _ _ b2]) (use r3 r3' in simp_all)
      have rep3: "reporter root3 ?side"
        using reporter_setEntry [OF se conjunct1 [OF k1]] unfolding reporter_def r3'(2) .
      have name3: "hr_name root3 = hr_name root" using setEntry_name [OF se] k1 r3' by simp
      have key3: "keyFor cfg root3 ?p (s_location ?side) = Some (p_k p, m)" using key keyFor_name [OF name3] by simp
      note cur = setEntry_current [OF se [unfolded Some] d1 room2]
      show ?thesis
      proof (cases "mr_decision res = Merged")
        case False
        have root': "root' = held ?side ?p ne root3"
          using eq Some False by simp
        show ?thesis
          unfolding root'
          by (rule sides_but_held [OF b3 _ _ rep3 _ key3]) (use cur r3' False pk in \<open>auto simp: origin_def split: if_splits\<close>)
      next
        case merged: True
        have root': "root' = map_side (s_id ?side) (set_held ?p 0) root3"
          using eq Some merged by simp
        have ok3: "sides_ok cfg root3 fls"
          unfolding sides_ok_def
        proof (rule sides_butI)
          show "distinct (map fst (hr_sides root3))" using b3 by (simp add: sides_but_def)
          show "sid \<noteq> [] \<and> s_id (sr_info sr) = sid \<and> side_but cfg root3 sr (fls sid) {}" if "(sid, sr) \<in> set (hr_sides root3)" for sid sr
            using b3 that merged unfolding sides_but_def by (fastforce simp: origin_def)
        qed
        show ?thesis
          unfolding root' sides_ok_def
        proof (rule sides_but_map_side [OF ok3 [unfolded sides_ok_def]])
          fix sr assume m: "(s_id ?side, sr) \<in> set (hr_sides root3)"
          then have sb: "side_but cfg root3 sr (fls (s_id ?side)) (insert ?p {})" and i: "sr_info sr = ?side"
            using ok3 rep3 side_but_mono unfolding sides_ok_def sides_but_def reporter_def by blast+
          have dirty: "map_of (sr_dirty sr) ?p \<noteq> None" if "keeps sr ?p"
            using setEntry_dirty [OF se [unfolded Some], of "s_id ?side" sr] m r3' ids merged that pk i keyFor_snd [OF key]
            by (auto simp: origin_def)
          have "side_but cfg root3 (set_held ?p 0 sr) (fls (s_id ?side)) ({} - {?p})"
          proof (rule side_but_touch [OF elsewhere_simps(4) _ sb])
            show "waiting (set_held ?p 0 sr) (fls (s_id ?side)) o2" if "opFor cfg root3 (set_held ?p 0 sr) ?p = Some o2" for o2
              using dirty opFor_keeps [OF that] opFor_path [OF that] by (simp add: waiting_def set_held_def keeps_def)
          qed (auto simp: set_held_def)
          then show "sr_info (set_held ?p 0 sr) = sr_info sr \<and> side_but cfg root3 (set_held ?p 0 sr) (fls (s_id ?side)) {}"
            by (simp add: set_held_def)
        qed simp
      qed
    qed
  qed
qed

lemma commitPlan_sides:
  assumes st: "commitPlan cfg now p res extra root = (a, root')"
    and ok: "sides_ok cfg root fls" and rep: "reporter root (p_side p)" and rv: "revs_ok root"
    and room: "hr_rev root + length (sc_resurrect (p_shape p)) + 1 < 2 ^ 64"
    and key: "keyFor cfg root (c_path (p_c p)) (s_location (p_side p)) = Some (p_k p, m)"
  shows "sides_ok cfg root' fls"
proof -
  let ?now = "ents root (p_k p)"
  have ch: "sides_ok cfg r fls" if "commit_change cfg now p res extra ?now root = (x, r)" for x r
    by (rule commit_change_sides [OF that ok rep rv room key])
  let ?m = "map_side (s_id (p_side p)) (give_back (p_c p) now) root"
  have m: "sides_ok cfg ?m fls" by (rule sides_but_give_back [OF ok])
  have em: "ents ?m = ents root" by (simp add: map_side_def)
  have kp: "sides_ok cfg r fls" if "commit_keep now p ?now root = (x, r)" for x r
    using that m em unvouch_sides [OF m, of "p_k p"]
    by (auto simp: commit_keep_def Let_def split: option.splits if_splits)
  have ho: "sides_ok cfg (root\<lparr>hr_holds := hs\<rparr>) fls" for hs
    unfolding sides_ok_def by (rule sides_but_cong [OF _ _ _ ok [unfolded sides_ok_def]]) simp_all
  show ?thesis
    using st ok ch kp ho by (auto simp: commitPlan_def Let_def split: if_splits prod.splits)
qed

section \<open>Attaching\<close>

definition marks :: "(side_root \<Rightarrow> side_root) \<Rightarrow> bool" where
  "marks f \<longleftrightarrow> (\<forall>sr. f sr = sr \<or> (\<exists>p now. f sr = mark p now sr))"

lemma mark_fields [simp]:
  "sr_info (mark p now sr) = sr_info sr" "sr_only (mark p now sr) = sr_only sr" "sr_inflight (mark p now sr) = sr_inflight sr"
  "sr_blocked (mark p now sr) = sr_blocked sr"
  by (simp_all add: mark_def mark_dirty_since_def)

lemma mark_dirty_grows: "map_of (sr_dirty sr) q \<noteq> None \<Longrightarrow> map_of (sr_dirty (mark p now sr)) q \<noteq> None"
  by (simp add: mark_def mark_dirty_since_def)

lemma mark_dirty_distinct: "distinct (map fst (sr_dirty sr)) \<Longrightarrow> distinct (map fst (sr_dirty (mark p now sr)))"
  by (simp add: mark_def mark_dirty_since_def)

lemma fold_marks:
  assumes "\<And>x. marks (f x)"
  shows "view (fold f xs sr) = view sr \<and> sr_inflight (fold f xs sr) = sr_inflight sr \<and> sr_blocked (fold f xs sr) = sr_blocked sr \<and>
    (distinct (map fst (sr_dirty sr)) \<longrightarrow> distinct (map fst (sr_dirty (fold f xs sr)))) \<and>
    (map_of (sr_dirty sr) q \<noteq> None \<longrightarrow> map_of (sr_dirty (fold f xs sr)) q \<noteq> None)"
proof (induction xs arbitrary: sr)
  case (Cons x xs)
  have "f x sr = sr \<or> (\<exists>p now. f x sr = mark p now sr)" using assms unfolding marks_def by blast
  then show ?case
    using Cons.IH [of "f x sr"] mark_dirty_grows mark_dirty_distinct by (elim disjE exE) (auto simp: view_def)
qed simp

lemma fold_marks_dirty:
  assumes "\<And>x. marks (f x)" "x \<in> set xs"
    and "\<And>sr'. view sr' = view sr \<Longrightarrow> f x sr' = mark p now sr'" "keeps sr p"
  shows "map_of (sr_dirty (fold f xs sr)) p \<noteq> None"
proof -
  obtain ys zs where xs: "xs = ys @ x # zs" using split_list [OF assms(2)] by blast
  let ?sr = "fold f ys sr"
  have v: "view ?sr = view sr" using fold_marks [of f ys sr, OF assms(1)] by blast
  then have "keeps ?sr p" using assms(4) by (simp add: view_def keeps_def)
  then have "map_of (sr_dirty (f x ?sr)) p \<noteq> None" using assms(3) [OF v] by simp
  then show ?thesis using fold_marks [of f zs "f x ?sr" p, OF assms(1)] xs by simp
qed

lemma update_new: "k \<notin> fst ` set xs \<Longrightarrow> AList.update k v xs = xs @ [(k, v)]"
  by (induction xs) auto

text \<open>What the loop over the held paths leaves: revs the hub has given out, and only those the side
  said it held.\<close>

definition hello_current :: "hub_cfg \<Rightarrow> hub_root \<Rightarrow> side_info \<Rightarrow> root_hello \<Rightarrow> bool" where
  "hello_current cfg root info rh \<longleftrightarrow>
     (\<forall>h \<in> set (rh_held rh). case keyFor cfg root (h_path h) (s_location info) of None \<Rightarrow> True
        | Some (k, m) \<Rightarrow> (case map_of (hr_entries root) k of None \<Rightarrow> True
            | Some e \<Rightarrow> Live (he_entry e) \<longrightarrow> h_rev h \<le> he_rev e))"

definition attaching :: "hub_cfg \<Rightarrow> side_info \<Rightarrow> hub_root \<Rightarrow> hub_root \<times> side_root \<times> held list \<times> bool \<Rightarrow> bool" where
  "attaching cfg info root st \<longleftrightarrow> (let (root1, sr, stale, rg) = st in
     core root1 = core root \<and> seat root1 = seat root \<and> hr_rev root \<le> hr_rev root1 \<and> hr_journal root1 = hr_journal root \<and>
     sr_info sr = info \<and> sr_dirty sr = [] \<and> sr_inflight sr = [] \<and> sr_blocked sr = (\<lambda>_. None) \<and> distinct (map fst (sr_held sr)) \<and>
     (\<forall>p h. map_of (sr_held sr) p = Some h \<longrightarrow> h \<le> hr_rev root1 \<and>
        (\<forall>e. path_state cfg root sr p = Some e \<and> Live (he_entry e) \<longrightarrow> h \<le> he_rev e)))"

lemma attach_held_attaching:
  assumes "attaching cfg info root st" "hello_current cfg root info rh" "h \<in> set (rh_held rh)" "revs_ok root"
  shows "attaching cfg info root (attach_held cfg info matching h st)"
proof -
  obtain root1 sr stale rg where st: "st = (root1, sr, stale, rg)" by (cases st)
  note a = assms(1) [unfolded attaching_def st Let_def prod.case]
  have i: "sr_info sr = info" using a by blast
  have name: "hr_name root1 = hr_name root" using a by (simp add: seat_def)
  have ps: "path_state cfg root (set_held q r sr) p = path_state cfg root sr p" for p q r
    by (rule path_state_info) (simp add: set_held_def)
  have set0: "attaching cfg info root (root2, set_held (h_path h) r sr, stale', rg')"
    if r2: "core root2 = core root1" "seat root2 = seat root1" "hr_rev root1 \<le> hr_rev root2" "hr_journal root2 = hr_journal root1"
      and r: "r \<le> hr_rev root2" "\<And>e. path_state cfg root sr (h_path h) = Some e \<Longrightarrow> Live (he_entry e) \<Longrightarrow> r \<le> he_rev e"
    for root2 r stale' rg'
  proof -
    have "h' \<le> hr_rev root2 \<and> (\<forall>e. path_state cfg root sr p = Some e \<and> Live (he_entry e) \<longrightarrow> h' \<le> he_rev e)"
      if "map_of (sr_held (set_held (h_path h) r sr)) p = Some h'" for p h'
    proof (cases "p = h_path h")
      case True
      with that r show ?thesis by (simp add: set_held_def)
    next
      case False
      with that have "map_of (sr_held sr) p = Some h'" by (simp add: set_held_def)
      with a r2(3) show ?thesis by (meson le_trans)
    qed
    then show ?thesis
      unfolding attaching_def Let_def prod.case ps using a r2 by (simp add: set_held_def)
  qed
  have known: "h_rev h \<le> he_rev e" if "path_state cfg root sr (h_path h) = Some e" "Live (he_entry e)" for e
    using assms(2,3) that i unfolding hello_current_def path_state_def by (fastforce split: option.splits)
  have raised: "core (root1\<lparr>hr_rev := n\<rparr>) = core root1" "seat (root1\<lparr>hr_rev := n\<rparr>) = seat root1" for n
    by (simp_all add: core_def)
  let ?skip = "\<not> validPath (h_path h) \<or> check (h_entry h) \<noteq> None \<or> \<not> Live (h_entry h) \<or> \<not> keeps sr (h_path h)"
  have "attach_held cfg info matching h st = st \<or>
      (\<exists>stale' rg'. attach_held cfg info matching h st = (root1, set_held (h_path h) 0 sr, stale', rg')) \<or>
      (h_rev h > hr_rev root1 \<and> (\<exists>stale' rg'. attach_held cfg info matching h st = (root1\<lparr>hr_rev := h_rev h\<rparr>, set_held (h_path h) 0 sr, stale', rg'))) \<or>
      (h_rev h \<le> hr_rev root1 \<and> (\<exists>stale' rg'. attach_held cfg info matching h st = (root1, set_held (h_path h) (h_rev h) sr, stale', rg')))"
    unfolding attach_held_def st Let_def prod.case by (simp split del: if_split) (auto split: if_split)
  then show ?thesis
  proof (elim disjE exE conjE)
    assume "attach_held cfg info matching h st = st"
    with assms(1) show ?thesis by simp
  next
    fix stale' rg' assume e: "attach_held cfg info matching h st = (root1, set_held (h_path h) 0 sr, stale', rg')"
    show ?thesis unfolding e by (rule set0) simp_all
  next
    fix stale' rg' assume "h_rev h > hr_rev root1" and e: "attach_held cfg info matching h st = (root1\<lparr>hr_rev := h_rev h\<rparr>, set_held (h_path h) 0 sr, stale', rg')"
    then show ?thesis unfolding e by (intro set0) (simp_all add: raised)
  next
    fix stale' rg' assume "h_rev h \<le> hr_rev root1" and e: "attach_held cfg info matching h st = (root1, set_held (h_path h) (h_rev h) sr, stale', rg')"
    then show ?thesis unfolding e using known by (intro set0) simp_all
  qed
qed

lemma attach_fold_attaching:
  "attaching cfg info root st \<Longrightarrow> hello_current cfg root info rh \<Longrightarrow> set hs \<subseteq> set (rh_held rh) \<Longrightarrow> revs_ok root \<Longrightarrow>
   attaching cfg info root (fold (attach_held cfg info matching) hs st)"
proof (induction hs arbitrary: st)
  case (Cons h hs)
  have "attaching cfg info root (attach_held cfg info matching h st)"
    by (rule attach_held_attaching [OF Cons.prems(1,2) _ Cons.prems(4)]) (use Cons.prems(3) in simp)
  from Cons.IH [OF this Cons.prems(2) _ Cons.prems(4)] Cons.prems(3) show ?case by simp
qed simp

lemma marks_lacking: "marks (mark_lacking now loc ke)"
  by (auto simp: marks_def mark_lacking_def Let_def split: prod.splits)

lemma marks_held: "marks ((\<lambda>(p, r). mark p now) pr)"
  by (auto simp: marks_def split: prod.splits)

lemma putMeta_keeps: "core (snd (putMeta root)) = core root" "seat (snd (putMeta root)) = seat root" "hr_rev (snd (putMeta root)) = hr_rev root"
  using frame_root_commit [of "root_put metaKey (MetaRec (hr_epoch root) (hr_rev root) (hr_forgot root)) root"]
  by (simp_all add: putMeta_def frame_def root_put_def)

lemma attach_root_sides:
  assumes at: "attach_root cfg now info rh root = (stale, root')"
    and ok: "sides_ok cfg root fls" and rv: "revs_ok root" and cur: "hello_current cfg root info rh"
    and new: "s_id info \<notin> fst ` set (hr_sides root)" "s_id info \<noteq> []" "hr_broken root = None"
  shows "sides_ok cfg root' (fls(s_id info := [])) \<and> revs_ok root'"
proof -
  define sr0 where "sr0 = (newSideRoot info)\<lparr>sr_only := if s_loginsOnly info then Some (locationScoped cfg root) else None\<rparr>"
  define matching where "matching = (rh_epoch rh \<noteq> [] \<and> rh_epoch rh = hr_epoch root)"
  obtain root1 sr1 st rg where f: "fold (attach_held cfg info matching) (rh_held rh) (root, sr0, [], False) = (root1, sr1, st, rg)"
    by (cases "fold (attach_held cfg info matching) (rh_held rh) (root, sr0, [], False)")
  define root2 where "root2 = (if rg then snd (putMeta root1) else root1)"
  define sr2 where "sr2 = fold (mark_lacking now (s_location info)) (hr_entries root2) sr1"
  define sr3 where "sr3 = fold (\<lambda>(p, r). mark p now) (sr_held sr2) sr2"
  have root': "root' = root2\<lparr>hr_sides := AList.update (s_id info) sr3 (hr_sides root2)\<rparr>"
    using at new(3) f unfolding attach_root_def sr0_def [symmetric] matching_def [symmetric]
    by (simp add: Let_def root2_def sr2_def sr3_def)
  have "attaching cfg info root (root, sr0, [], False)" by (simp add: attaching_def sr0_def newSideRoot_def)
  from attach_fold_attaching [OF this cur order_refl rv, of matching] f
  have a: "attaching cfg info root (root1, sr1, st, rg)" by simp
  then have a1: "core root1 = core root" "seat root1 = seat root" "hr_rev root \<le> hr_rev root1" "sr_info sr1 = info" "sr_dirty sr1 = []"
    "sr_inflight sr1 = []" "sr_blocked sr1 = (\<lambda>_. None)"
    and h1: "\<And>p h. map_of (sr_held sr1) p = Some h \<Longrightarrow> h \<le> hr_rev root1 \<and>
        (\<forall>e. path_state cfg root sr1 p = Some e \<and> Live (he_entry e) \<longrightarrow> h \<le> he_rev e)"
    by (simp_all add: attaching_def)
  have r2: "core root2 = core root" "seat root2 = seat root" "hr_rev root2 = hr_rev root1"
    using a1 putMeta_keeps [of root1] by (simp_all add: root2_def)
  have sides: "hr_sides root' = AList.update (s_id info) sr3 (hr_sides root)" "hr_name root' = hr_name root"
    "hr_entries root' = hr_entries root" "hr_rev root' = hr_rev root1"
    using root' r2 by (simp_all add: seat_def core_def)
  have v2: "view sr2 = view sr1" "sr_inflight sr2 = []" "sr_blocked sr2 = (\<lambda>_. None)" "distinct (map fst (sr_dirty sr2))"
    using fold_marks [of "mark_lacking now (s_location info)" "hr_entries root2" sr1, OF marks_lacking] a1 unfolding sr2_def by auto
  note f3 = fold_marks [of "\<lambda>(p, r). mark p now" "sr_held sr2" sr2, OF marks_held, folded sr3_def]
  have v3: "view sr3 = view sr1" "sr_inflight sr3 = []" "sr_blocked sr3 = (\<lambda>_. None)" "distinct (map fst (sr_dirty sr3))"
    using f3 v2 by simp_all
  have up: "map_of (sr_dirty sr3) q \<noteq> None" if "map_of (sr_dirty sr2) q \<noteq> None" for q
    using f3 [of q] that by blast
  have info3: "sr_info sr3 = info" "sr_held sr3 = sr_held sr1" using v3 a1 by (simp_all add: view_def)
  have ps: "path_state cfg root' sr p = path_state cfg root sr p" for sr p
    unfolding path_state_def keyFor_name [OF sides(2)] sides(3) ..
  have "side_but cfg root' sr3 [] {}"
    unfolding side_but_def
  proof (intro conjI allI impI)
    show "flight_ok sr3 []" using v3 by (simp add: flight_ok_def)
    show "revs_behind cfg root' sr3 []"
      using h1 path_state_view [OF v3(1)] info3 ps sides(4) by (simp add: revs_behind_def)
    fix p op assume o: "opFor cfg root' sr3 p = Some op \<and> path_state cfg root' sr3 p \<noteq> None \<and> p \<notin> {}"
    then obtain e where e: "path_state cfg root' sr3 p = Some e" by blast
    obtain k m where k: "keyFor cfg root p (s_location info) = Some (k, m)" "ents root k = Some e"
      using path_state_key [OF e] info3 keyFor_name [OF sides(2)] sides(3) by auto
    have keeps: "keeps sr1 p" using opFor_keeps [of cfg root' sr3 p op] o v3(1) by (simp add: view_def keeps_def)
    have op: "op_path op = p" using o opFor_path by blast
    have "map_of (sr_dirty sr3) p \<noteq> None"
    proof (cases "Live (he_entry e)")
      case True
      have ne: "map_of (sr_held sr1) p \<noteq> Some (he_rev e)"
        using o True info3 unfolding opFor_state [OF e] by (auto split: if_splits)
      have m: "(k, e) \<in> set (hr_entries root2)" using k(2) r2(1) by (simp add: core_def map_of_SomeD)
      have "mark_lacking now (s_location info) (k, e) sr = mark p now sr" if "view sr = view sr1" for sr
        using that ne True keyFor_snd [OF k(1)] by (auto simp: mark_lacking_def view_def)
      from fold_marks_dirty [of "mark_lacking now (s_location info)", OF marks_lacking m this keeps]
      show ?thesis using up unfolding sr2_def by blast
    next
      case False
      then have "map_of (sr_held sr1) p \<noteq> None" using o info3 unfolding opFor_state [OF e] by (auto split: if_splits)
      then obtain h where "(p, h) \<in> set (sr_held sr2)" using v2(1) by (auto simp: view_def dest: map_of_SomeD)
      moreover have "keeps sr2 p" using keeps v2(1) by (simp add: view_def keeps_def)
      ultimately show ?thesis
        using fold_marks_dirty [of "\<lambda>(p, r). mark p now" "(p, h)" "sr_held sr2" sr2 p now, OF marks_held] unfolding sr3_def by simp
    qed
    then show "waiting sr3 [] op" using op by (simp add: waiting_def)
  qed
  moreover have "side_but cfg root' sr (fls sid) {}" "sid \<noteq> [] \<and> s_id (sr_info sr) = sid" if "(sid, sr) \<in> set (hr_sides root)" for sid sr
  proof -
    have old: "sid \<noteq> [] \<and> s_id (sr_info sr) = sid \<and> side_but cfg root sr (fls sid) {}"
      using ok that unfolding sides_ok_def sides_but_def by blast
    then have "side_but cfg root' sr (fls sid) ({} \<union> {})"
      using sides(4) a1(3) ps by (intro side_but_entries [of cfg root]) auto
    with old show "side_but cfg root' sr (fls sid) {}" "sid \<noteq> [] \<and> s_id (sr_info sr) = sid" by simp_all
  qed
  moreover have upd: "AList.update (s_id info) sr3 (hr_sides root) = hr_sides root @ [(s_id info, sr3)]"
    by (rule update_new [OF new(1)])
  ultimately have "sides_ok cfg root' (fls(s_id info := []))"
    unfolding sides_ok_def
    using new ok sides(1) info3(1) unfolding sides_ok_def sides_but_def upd by (auto simp: image_iff)
  moreover have "revs_ok root'"
    using rv sides a1(3) unfolding revs_ok_def by (metis le_trans)
  ultimately show ?thesis by blast
qed

section \<open>The steps of a root\<close>

text \<open>What runs under a root's lock, in any order: a round's plan and commit for a reporter, the slow
  work between them, a dispatcher's collect and finish, attaching, detaching and retrying. The
  second component of a state is the ops in flight to each side.\<close>

inductive hub_step :: "hub_cfg \<Rightarrow> hub_root \<times> (string \<Rightarrow> sync_op list) \<Rightarrow> hub_root \<times> (string \<Rightarrow> sync_op list) \<Rightarrow> bool"
  for cfg :: hub_cfg where
  Plan: "prepare now k m side c base root = (r, root') \<Longrightarrow> reporter root side \<Longrightarrow>
    keyFor cfg root (c_path c) (s_location side) = Some (k, m) \<Longrightarrow> hub_step cfg (root, fls) (root', fls)"
| Decide: "decide env p root = (d, root') \<Longrightarrow> hub_step cfg (root, fls) (root', fls)"
| Commit: "commitPlan cfg now p res extra root = (a, root') \<Longrightarrow> reporter root (p_side p) \<Longrightarrow>
    keyFor cfg root (c_path (p_c p)) (s_location (p_side p)) = Some (p_k p, m) \<Longrightarrow>
    hr_rev root + length (sc_resurrect (p_shape p)) + 1 < 2 ^ 64 \<Longrightarrow> hub_step cfg (root, fls) (root', fls)"
| Collect: "collect cfg now flush sid root = (bs, nx, root') \<Longrightarrow>
    hub_step cfg (root, fls) (root', fls(sid := fls sid @ concat (map b_ops bs)))"
| Finish: "fls sid = b_ops b @ rest \<Longrightarrow>
    (\<forall>sr op. (sid, sr) \<in> set (hr_sides root) \<and> op \<in> set (b_ops b) \<and>
       (\<exists>rs. answer = Inr rs \<and> fst (result_for rs op) = Applied) \<longrightarrow> \<not> late_result cfg root sr op) \<Longrightarrow>
    hub_step cfg (root, fls) (finish cfg now sid b answer root, fls(sid := rest))"
| Attach: "attach_root cfg now info rh root = (stale, root') \<Longrightarrow> hello_current cfg root info rh \<Longrightarrow>
    s_id info \<notin> fst ` set (hr_sides root) \<Longrightarrow> s_id info \<noteq> [] \<Longrightarrow> hr_broken root = None \<Longrightarrow>
    hub_step cfg (root, fls) (root', fls(s_id info := []))"
| Detach: "hub_step cfg (root, fls) (detach_root sid root, fls(sid := []))"
| Unseen: "hub_step cfg (root, fls) (map_side sid (unseen_side p now) root, fls)"
| Kicked: "hub_step cfg (root, fls) (map_side sid kick_side root, fls)"

inductive_cases hub_stepE: "hub_step cfg st st'"

abbreviation hub_steps :: "hub_cfg \<Rightarrow> hub_root \<times> (string \<Rightarrow> sync_op list) \<Rightarrow> hub_root \<times> (string \<Rightarrow> sync_op list) \<Rightarrow> bool" where
  "hub_steps cfg \<equiv> (hub_step cfg)\<^sup>*\<^sup>*"

definition delivery_ok :: "hub_cfg \<Rightarrow> hub_root \<times> (string \<Rightarrow> sync_op list) \<Rightarrow> bool" where
  "delivery_ok cfg st \<longleftrightarrow> revs_ok (fst st) \<and> sides_ok cfg (fst st) (snd st)"

lemma seat_decide:
  assumes "decide env p root = (r, root')"
  shows "seat root' = seat root"
proof -
  have b: "blob_put t f data root = (x, rt) \<Longrightarrow> seat rt = seat root" for t f data root x rt
    by (auto simp: blob_put_def Let_def seat_def split: if_splits option.splits)
  have k: "keepConflict env p res root = (x, rt) \<Longrightarrow> seat rt = seat root" for res root x rt
    unfolding keepConflict_def Let_def
    by (simp split: option.split_asm prod.split_asm kind.split_asm sum.split_asm if_split_asm) auto
  have m: "seat rt = seat root" if "decide_merged env p res root = (x, rt)" for res x rt root
    using that by (auto simp: decide_merged_def Let_def split: if_splits prod.splits sum.splits dest: b)
  have c: "seat rt = seat root" if "decide_conflict env p res x1 root = (x, rt)" for res x x1 rt root
    using that by (auto simp: decide_conflict_def split: if_splits prod.splits sum.splits dest: k)
  have h: "seat rt = seat root" if "decide_hist env p res v x1 root = (x, rt)" for res v x x1 rt root
    using that by (auto simp: decide_hist_def split: if_splits prod.splits sum.splits dest: b)
  show ?thesis
    using assms by (auto simp: decide_def split: sum.splits prod.splits dest!: m c h)
qed

text \<open>A step of one side's view, with what is in flight to it.\<close>

lemma sides_ok_map_side:
  assumes "sides_ok cfg root fls"
    and f: "\<And>sr. (sid, sr) \<in> set (hr_sides root) \<Longrightarrow> side_ok cfg root sr (fls sid) \<Longrightarrow>
      sr_info (f sr) = sr_info sr \<and> side_ok cfg root (f sr) fl"
  shows "sides_ok cfg (map_side sid f root) (fls(sid := fl))"
  unfolding sides_ok_def
proof (rule sides_butI)
  have "map fst (hr_sides (map_side sid f root)) = map fst (hr_sides root)"
    by (simp add: map_side_def case_prod_beta comp_def)
  then show "distinct (map fst (hr_sides (map_side sid f root)))" using assms(1) by (simp add: sides_ok_def sides_but_def)
  fix s x assume "(s, x) \<in> set (hr_sides (map_side sid f root))"
  then obtain y where y: "(s, y) \<in> set (hr_sides root)" "x = (if s = sid then f y else y)"
    by (auto simp: map_side_def)
  have old: "s \<noteq> [] \<and> s_id (sr_info y) = s" "side_ok cfg root y (fls s)"
    using assms(1) y(1) unfolding sides_ok_def sides_but_def side_ok_but by blast+
  have "sr_info x = sr_info y \<and> side_ok cfg root x ((fls(sid := fl)) s)"
    using old y f [of y] by (cases "s = sid") auto
  moreover have "side_but cfg (map_side sid f root) x z {}" if "side_but cfg root x z {}" for z
    using side_but_cong [OF _ _ _ that, of "map_side sid f root"] by (simp add: core_def map_side_def)
  ultimately show "s \<noteq> [] \<and> s_id (sr_info x) = s \<and> side_but cfg (map_side sid f root) x ((fls(sid := fl)) s) {}"
    using old by (simp add: side_ok_but)
qed

lemma sides_ok_collect:
  assumes "collect cfg now flush sid root = (bs, nx, root')" "sides_ok cfg root fls" "revs_ok root" "0 < cf_maxBatch cfg"
  shows "sides_ok cfg root' (fls(sid := fls sid @ concat (map b_ops bs))) \<and> revs_ok root'"
proof (cases "map_of (hr_sides root) sid = None \<or> hr_broken root \<noteq> None")
  case True
  then have "bs = []" "root' = root" using assms(1) by (auto simp: collect_def split: option.splits)
  with assms(2,3) show ?thesis by simp
next
  case False
  then obtain sr where sr: "map_of (hr_sides root) sid = Some sr" by auto
  obtain bs' nx' sr' where c: "collect_side cfg now flush root sr = (bs', nx', sr')" by (cases "collect_side cfg now flush root sr")
  with False sr assms(1) have e: "bs' = bs" "root' = map_side sid (\<lambda>_. sr') root" by (auto simp: collect_def)
  have d: "distinct (map fst (hr_sides root))" using assms(2) by (simp add: sides_ok_def sides_but_def)
  have "sides_ok cfg (map_side sid (\<lambda>_. sr') root) (fls(sid := fls sid @ concat (map b_ops bs)))"
  proof (rule sides_ok_map_side [OF assms(2)])
    fix y assume y: "(sid, y) \<in> set (hr_sides root)" and ok: "side_ok cfg root y (fls sid)"
    have "y = sr" using y sr d by (metis map_of_is_SomeI option.inject)
    with collect_side_ok [OF ok assms(4,3), of now flush bs' nx' sr'] c e(1)
    show "sr_info sr' = sr_info y \<and> side_ok cfg root sr' (fls sid @ concat (map b_ops bs))" by (simp add: view_def)
  qed
  moreover have "revs_ok (map_side sid (\<lambda>_. sr') root)"
    using assms(3) revs_core [of "map_side sid (\<lambda>_. sr') root" root] by simp
  ultimately show ?thesis using e by simp
qed

lemma sides_ok_finish:
  assumes "sides_ok cfg root fls" "fls sid = b_ops b @ rest"
    and "\<forall>sr op. (sid, sr) \<in> set (hr_sides root) \<and> op \<in> set (b_ops b) \<and>
       (\<exists>rs. answer = Inr rs \<and> fst (result_for rs op) = Applied) \<longrightarrow> \<not> late_result cfg root sr op"
  shows "sides_ok cfg (finish cfg now sid b answer root) (fls(sid := rest))"
  unfolding finish_def
proof (rule sides_ok_map_side [OF assms(1)])
  fix sr assume sr: "(sid, sr) \<in> set (hr_sides root)" and ok: "side_ok cfg root sr (fls sid)"
  then have "side_ok cfg root sr (b_ops b @ rest)" using assms(2) by simp
  from finish_side_ok [OF this, of answer now] assms(3) sr
  show "sr_info (finish_side cfg now b answer sr) = sr_info sr \<and> side_ok cfg root (finish_side cfg now b answer sr) rest"
    by auto
qed

lemma sides_ok_kick: "sides_ok cfg root fls \<Longrightarrow> sides_ok cfg (map_side sid kick_side root) fls"
proof -
  assume ok: "sides_ok cfg root fls"
  have "sides_ok cfg (map_side sid kick_side root) (fls(sid := fls sid))"
  proof (rule sides_ok_map_side [OF ok])
    fix sr assume s: "side_ok cfg root sr (fls sid)"
    have v: "view (kick_side sr) = view sr" by (simp add: kick_side_def view_def)
    have k: "sr_dirty (kick_side sr) = sr_dirty sr" "sr_inflight (kick_side sr) = sr_inflight sr"
      "sr_blocked (kick_side sr) = sr_blocked sr" "sr_held (kick_side sr) = sr_held sr"
      by (simp_all add: kick_side_def)
    have "side_ok cfg root (kick_side sr) (fls sid)"
      using s unfolding side_ok_def flight_ok_def revs_behind_def all_waiting_def waiting_def refused_def
        k opFor_view [OF v] path_state_view [OF v] .
    then show "sr_info (kick_side sr) = sr_info sr \<and> side_ok cfg root (kick_side sr) (fls sid)"
      by (simp add: kick_side_def)
  qed
  then show ?thesis by simp
qed

lemma sides_ok_unseen: "sides_ok cfg root fls \<Longrightarrow> sides_ok cfg (map_side sid (unseen_side p now) root) fls"
proof -
  assume ok: "sides_ok cfg root fls"
  have "sides_ok cfg (map_side sid (unseen_side p now) root) (fls(sid := fls sid))"
  proof (rule sides_ok_map_side [OF ok])
    fix sr assume "side_ok cfg root sr (fls sid)"
    then have s: "side_but cfg root sr (fls sid) {p}" using side_but_mono unfolding side_ok_but by blast
    let ?sr = "unseen_side p now sr"
    have "elsewhere p sr ?sr"
      unfolding unseen_side_def by (rule elsewhere_trans [of _ _ "set_held p 0 sr"]) simp_all
    moreover have "waiting ?sr (fls sid) o2" if "opFor cfg root ?sr p = Some o2" for o2
    proof -
      have "keeps ?sr p" using that by (auto simp: opFor_def Let_def split: option.splits if_splits)
      then have "keeps (set_held p 0 sr) p" by (simp add: unseen_side_def keeps_def)
      then have "map_of (sr_dirty ?sr) p \<noteq> None" by (simp add: unseen_side_def)
      then show ?thesis using opFor_path [OF that] by (simp add: waiting_def)
    qed
    moreover have "sr_blocked ?sr = sr_blocked sr" "map_of (sr_held ?sr) p = Some 0"
      by (simp_all add: unseen_side_def set_held_def mark_def mark_dirty_since_def)
    ultimately have "side_but cfg root ?sr (fls sid) ({} - {p})"
      using side_but_touch [of p sr ?sr cfg root "fls sid" "{}"] s by auto
    then show "sr_info ?sr = sr_info sr \<and> side_ok cfg root ?sr (fls sid)"
      by (simp add: side_ok_but) (simp add: unseen_side_def set_held_def)
  qed
  then show ?thesis by simp
qed

lemma sides_ok_detach:
  assumes "sides_ok cfg root fls"
  shows "sides_ok cfg (detach_root sid root) (fls(sid := []))"
  unfolding sides_ok_def
proof (rule sides_butI)
  show "distinct (map fst (hr_sides (detach_root sid root)))"
    using assms by (simp add: detach_root_def sides_ok_def sides_but_def)
  fix s x assume "(s, x) \<in> set (hr_sides (detach_root sid root))"
  then have "(s, x) \<in> set (hr_sides root)" "s \<noteq> sid" by (auto simp: detach_root_def AList.delete_eq)
  then have old: "s \<noteq> [] \<and> s_id (sr_info x) = s \<and> side_but cfg root x (fls s) {}" "s \<noteq> sid"
    using assms unfolding sides_ok_def sides_but_def by blast+
  moreover have "side_but cfg (detach_root sid root) x (fls s) {}"
    using side_but_cong [of root "detach_root sid root"] old by (simp add: core_def detach_root_def)
  ultimately show "s \<noteq> [] \<and> s_id (sr_info x) = s \<and> side_but cfg (detach_root sid root) x ((fls(sid := [])) s) {}" by simp
qed

lemma hub_step_ok:
  assumes "hub_step cfg st st'" "delivery_ok cfg st" "0 < cf_maxBatch cfg"
  shows "delivery_ok cfg st'"
  using assms
proof (induction rule: hub_step.induct)
  case (Plan now k m side c base root r root' fls)
  have "frame root' = frame root"
  proof (cases r)
    case (Inl x)
    have "frame (noted side c root) = frame root" by simp
    with prepare_InlD [OF Plan(1) [unfolded Inl]] show ?thesis by (elim disjE) (simp_all only: frame_simps)
  next
    case (Inr p)
    from prepare_InrD [OF Plan(1) [unfolded Inr]] show ?thesis by simp
  qed
  with Plan prepare_core [OF Plan(1)] prepare_sides [OF Plan(1) _ Plan(2) _ Plan(3)] revs_core [of root' root]
  show ?case by (auto simp: delivery_ok_def)
next
  case (Decide env p root d root' fls)
  have e: "core root' = core root" "frame root' = frame root" "seat root' = seat root"
    using decide_core frame_decide seat_decide Decide(1) by blast+
  then have "sides_ok cfg root' fls"
    using sides_but_cong [of root root' cfg fls] Decide(2) by (simp add: delivery_ok_def sides_ok_def frame_def)
  with e revs_core [of root' root] Decide(2) show ?case by (simp add: delivery_ok_def)
next
  case (Commit now p res extra root a root' m fls)
  then show ?case
    using commitPlan_sides [OF Commit(1) _ Commit(2) _ Commit(4,3)] commitPlan_revs [OF Commit(1) _ Commit(4)]
    by (auto simp: delivery_ok_def)
next
  case (Collect now flush sid root bs nx root' fls)
  then show ?case using sides_ok_collect [OF Collect(1)] by (auto simp: delivery_ok_def)
next
  case (Finish fls sid b rest root answer now)
  have "revs_ok (finish cfg now sid b answer root) = revs_ok root"
    unfolding finish_def by (rule revs_core) simp_all
  with Finish sides_ok_finish [of cfg root fls sid b rest answer now] show ?case by (auto simp: delivery_ok_def)
next
  case (Attach now info rh root stale root' fls)
  then show ?case using attach_root_sides [OF Attach(1) _ _ Attach(2-5)] by (auto simp: delivery_ok_def)
next
  case (Detach root fls sid)
  have "revs_ok (detach_root sid root) = revs_ok root"
    by (rule revs_core) (simp_all add: detach_root_def core_def frame_def)
  with Detach sides_ok_detach show ?case by (auto simp: delivery_ok_def)
next
  case (Unseen root fls sid p now)
  have "revs_ok (map_side sid (unseen_side p now) root) = revs_ok root" by (rule revs_core) simp_all
  with Unseen sides_ok_unseen show ?case by (auto simp: delivery_ok_def)
next
  case (Kicked root fls sid)
  have "revs_ok (map_side sid kick_side root) = revs_ok root" by (rule revs_core) simp_all
  with Kicked sides_ok_kick show ?case by (auto simp: delivery_ok_def)
qed

lemma hub_steps_ok:
  "hub_steps cfg st st' \<Longrightarrow> delivery_ok cfg st \<Longrightarrow> 0 < cf_maxBatch cfg \<Longrightarrow> delivery_ok cfg st'"
  by (induction rule: rtranclp_induct) (auto intro: hub_step_ok)

lemma delivery_start: "revs_ok root \<Longrightarrow> hr_sides root = [] \<Longrightarrow> delivery_ok cfg (root, fls)"
  by (simp add: delivery_ok_def sides_ok_def sides_but_def)

section \<open>Properties\<close>


section \<open>On a concrete run\<close>

text \<open>A side attaches to the root that holds one folder: it is owed the folder, and gets it.\<close>

definition ex_hello :: root_hello where
  "ex_hello = \<lparr>rh_root = ''.claude'', rh_epoch = [], rh_held = []\<rparr>"

definition ex_attached :: hub_root where
  "ex_attached = snd (attach_root ex_cfg 5 (ex_side ''pod'') ex_hello ex_root1)"

definition ex_op :: sync_op where "ex_op = \<lparr>op_path = ''x'', op_rev = 1, op_entry = ex_dir\<rparr>"

lemma ex_root1_fields [simp]:
  "hr_entries ex_root1 = [(([], ''x''), \<lparr>he_entry = ex_dir, he_rev = 1, he_origin = ''host'', he_base = 0, he_at = 0, he_hist = []\<rparr>)]"
  "hr_rev ex_root1 = 1" "hr_sides ex_root1 = []" "hr_broken ex_root1 = None"
  by (simp_all add: ex_root1_def root_count_def recount_def uncount_def live_opt_def Let_def ex_root_def blank_root_def)

definition ex_pod :: side_root where
  "ex_pod = mark ''x'' 5 ((newSideRoot (ex_side ''pod''))\<lparr>sr_only := None\<rparr>)"

lemma ex_attached_eq: "ex_attached = ex_root1\<lparr>hr_sides := [(''pod'', ex_pod)]\<rparr>"
  using ex_live
  by (simp add: ex_attached_def attach_root_def ex_hello_def ex_side_def ex_pod_def mark_lacking_def newSideRoot_def
      mark_def mark_dirty_since_def keeps_def Let_def)

lemma ex_attach_step: "hub_steps ex_cfg (ex_root1, \<lambda>_. []) (ex_attached, (\<lambda>_. [])(''pod'' := []))"
proof -
  have "attach_root ex_cfg 5 (ex_side ''pod'') ex_hello ex_root1 =
      (fst (attach_root ex_cfg 5 (ex_side ''pod'') ex_hello ex_root1), ex_attached)"
    by (simp add: ex_attached_def)
  moreover have "hello_current ex_cfg ex_root1 (ex_side ''pod'') ex_hello" by (simp add: hello_current_def ex_hello_def)
  moreover have "s_id (ex_side ''pod'') = ''pod''" by (simp add: ex_side_def)
  ultimately have "hub_step ex_cfg (ex_root1, \<lambda>_. []) (ex_attached, (\<lambda>_. [])(''pod'' := []))"
    using hub_step.Attach [of ex_cfg 5 "ex_side ''pod''" ex_hello ex_root1 _ ex_attached "\<lambda>_. []"] by simp
  then show ?thesis by blast
qed

lemma ex_revs1: "revs_ok ex_root1" by (simp add: revs_ok_def)

lemma ex_maxBatch: "0 < cf_maxBatch ex_cfg" by (simp add: default_cfg_def)

lemma ex_path_state: "hr_entries root = hr_entries ex_root1 \<Longrightarrow> hr_name root = ''.claude'' \<Longrightarrow> path_state ex_cfg root sr ''x'' =
   Some \<lparr>he_entry = ex_dir, he_rev = 1, he_origin = ''host'', he_base = 0, he_at = 0, he_hist = []\<rparr>"
  using ex_key [of root] by (simp add: path_state_def)

lemma ex_opFor: "opFor ex_cfg ex_attached ex_pod ''x'' = Some ex_op"
  using ex_path_state [of ex_attached ex_pod] ex_live
  by (simp add: opFor_state ex_attached_eq ex_op_def)
     (simp add: ex_pod_def newSideRoot_def mark_def mark_dirty_since_def keeps_def)


end
