(* ===== verification/HubFlush.thy ===== *)
theory HubFlush
  imports HubNoLoss
begin

text \<open>
  What a flush achieves: one that ends without an error delivered, and a round of one to a side that
  applies what it is sent leaves nothing behind but what the side refused.
\<close>

section \<open>A flush that is done\<close>

lemma map_filter_empty:
  assumes "List.map_filter f xs = []" "x \<in> set xs"
  shows "f x = None"
  using assms by (induction xs) (auto simp: map_filter_simps split: option.splits)


section \<open>A round that delivers\<close>

text \<open>In a flush round nothing waits: with no path backing off and the side not paused, every dirty path
  is sent, or owes nothing.\<close>

lemma collect_fold_drains:
  assumes "fold (collect_path cfg now True root) xs st = (sr1, nx, ready)"
    and "\<forall>p. map_of (sr_inflight (fst st)) p = None" "sr_paused (fst st) = []" "\<forall>p. sr_backoff (fst st) p = None"
    and "\<forall>p. map_of (sr_dirty (fst st)) p \<noteq> None \<longrightarrow> p \<in> fst ` set xs \<union> op_path ` snd ` set (snd (snd st))"
  shows "\<forall>p. map_of (sr_dirty sr1) p \<noteq> None \<longrightarrow> p \<in> op_path ` snd ` set ready"
  using assms
proof (induction xs arbitrary: st)
  case (Cons x xs)
  obtain p since where x: "x = (p, since)" by fastforce
  obtain sr n0 r0 where st: "st = (sr, n0, r0)" by (cases st)
  have b: "sr_backoff sr q = None" for q using Cons.prems(4) by (simp add: st)
  have w: "collect_wait cfg now True since root (sr\<lparr>sr_blocked := f\<rparr>) op = None" for f op
    using Cons.prems(3) b [of "op_path op"] by (simp add: collect_wait_def st Let_def)
  let ?st = "collect_path cfg now True root x st"
  have "(\<forall>p. map_of (sr_inflight (fst ?st)) p = None) \<and> sr_paused (fst ?st) = [] \<and> (\<forall>p. sr_backoff (fst ?st) p = None) \<and>
    (\<forall>p. map_of (sr_dirty (fst ?st)) p \<noteq> None \<longrightarrow> p \<in> fst ` set xs \<union> op_path ` snd ` set (snd (snd ?st)))"
    using Cons.prems(2-5) opFor_path [of cfg root sr p]
    by (auto simp: collect_path_def x st w Let_def simp del: map_option_eq_Some split: option.split)
  with Cons.IH [of ?st] Cons.prems(1) show ?case by simp
qed simp

lemma collect_side_drains:
  assumes "collect_side cfg now True root sr = (bs, nx, sr')" "0 < cf_maxBatch cfg" "side_ok cfg root sr []"
    and "sr_paused sr = []" "\<forall>p. sr_backoff sr p = None"
  shows "map_of (sr_dirty sr') p = None"
    and "op \<in> set (concat (map b_ops bs)) \<Longrightarrow> opFor cfg root sr' (op_path op) = Some op"
proof -
  obtain sr1 nx1 ready where f: "fold (collect_path cfg now True root) (sr_dirty sr) (sr, None, []) = (sr1, nx1, ready)"
    by (cases "fold (collect_path cfg now True root) (sr_dirty sr) (sr, None, [])")
  define ops where "ops = concat (map b_ops bs)"
  from assms(1) f have bs: "bs = lane_batches cfg root ready" and sr': "sr' = fold take_off ops sr1"
    by (simp_all add: collect_side_def ops_def Let_def) blast+
  have "distinct (map fst (sr_dirty sr))" using assms(3) by (simp add: side_ok_def flight_ok_def)
  then have "collecting cfg root sr (sr, None, [])" by (simp add: collecting_def)
  from collect_fold_collecting [OF this, of now True "sr_dirty sr"] f
  have c: "collecting cfg root sr (sr1, nx1, ready)" by simp
  then have ready: "\<And>l op. (l, op) \<in> set ready \<Longrightarrow> laneFor cfg root op = l \<and> opFor cfg root sr (op_path op) = Some op"
    and v1: "view sr1 = view sr" by (auto simp: collecting_def)
  have "\<forall>(l, op) \<in> set ready. l \<in> set lanes" using ready laneFor_lanes by fastforce
  then have "mset ops = mset (map snd ready)"
    using lane_batches_ops [OF assms(2)] by (simp add: ops_def bs)
  then have so: "set ops = snd ` set ready" by (metis set_map set_mset_mset)
  have "map_of (sr_inflight sr) p = None" for p using assms(3) by (simp add: side_ok_def flight_ok_def)
  then have "\<forall>p. map_of (sr_dirty sr1) p \<noteq> None \<longrightarrow> p \<in> op_path ` snd ` set ready"
    using collect_fold_drains [OF f] assms(4,5) by (simp add: weak_map_of_SomeI) (metis fst_conv imageI map_of_SomeD)
  then show "map_of (sr_dirty sr') p = None" using take_off_fold [of ops sr1 p] so sr' by auto
  have "view sr' = view sr" using take_off_fold [of ops sr1] v1 sr' by simp
  then show "opFor cfg root sr' (op_path op) = Some op" if "op \<in> set (concat (map b_ops bs))"
    using that ready so opFor_view [of sr' sr cfg root "op_path op"] unfolding ops_def [symmetric] by fastforce
qed

text \<open>Answers that all say applied.\<close>

lemma finish_fold_elsewhere:
  assumes "q \<notin> op_path ` set ops"
  shows "opFor cfg root (fold (finish_op cfg now sentAt results) ops sr) q = opFor cfg root sr q"
  using assms
proof (induction ops arbitrary: sr)
  case (Cons op ops)
  then show ?case using opFor_elsewhere [OF elsewhere_finish_op, of q op] by simp
qed simp

lemma finish_fold_dirty:
  assumes "\<forall>op \<in> set ops. fst (result_for results op) = Applied"
  shows "sr_dirty (fold (finish_op cfg now sentAt results) ops sr) = sr_dirty sr"
  using assms
proof (induction ops arbitrary: sr)
  case (Cons op ops)
  obtain reason where "result_for results op = (Applied, reason)" using Cons.prems by (metis list.set_intros(1) prod.collapse)
  then have "finish_op cfg now sentAt results op sr = landed op sr" by (simp add: finish_op_def Let_def)
  then show ?case using Cons landed_fields(1) by simp
qed simp

lemma applied_finish:
  assumes "answer = Inr rs" "\<forall>op \<in> set (b_ops b). fst (result_for rs op) = Applied"
  shows "sr_dirty (finish_side cfg now b answer sr) = sr_dirty sr"
    and "q \<notin> op_path ` set (b_ops b) \<Longrightarrow> opFor cfg root (finish_side cfg now b answer sr) q = opFor cfg root sr q"
proof -
  let ?sr = "sr\<lparr>sr_inflight := fold AList.delete (map op_path (b_ops b)) (sr_inflight sr)\<rparr>"
  have "view ?sr = view sr" by (simp add: view_def)
  then have o: "opFor cfg root ?sr q = opFor cfg root sr q" by (rule opFor_view)
  show "sr_dirty (finish_side cfg now b answer sr) = sr_dirty sr"
    using assms by (simp add: finish_side_def finish_fold_dirty)
  show "opFor cfg root (finish_side cfg now b answer sr) q = opFor cfg root sr q" if "q \<notin> op_path ` set (b_ops b)"
    using that assms o by (simp add: finish_side_def finish_fold_elsewhere)
qed

lemma applied_all:
  assumes "side_ok cfg root sr (concat (map b_ops bs))" "\<forall>p. map_of (sr_dirty sr) p = None"
    and "\<forall>op \<in> set (concat (map b_ops bs)). opFor cfg root sr (op_path op) = Some op"
    and "\<forall>b \<in> set bs. \<exists>rs. peer b = Inr rs \<and> (\<forall>op \<in> set (b_ops b). fst (result_for rs op) = Applied)"
  shows "side_ok cfg root (fold (\<lambda>b. finish_side cfg now b (peer b)) bs sr) [] \<and>
    (\<forall>p. map_of (sr_dirty (fold (\<lambda>b. finish_side cfg now b (peer b)) bs sr)) p = None)"
  using assms
proof (induction bs arbitrary: sr)
  case (Cons b bs)
  obtain rs where rs: "peer b = Inr rs" "\<forall>op \<in> set (b_ops b). fst (result_for rs op) = Applied"
    using Cons.prems(4) by auto
  let ?sr = "finish_side cfg now b (peer b) sr" and ?rest = "concat (map b_ops bs)"
  have "\<not> late_result cfg root sr op" if "op \<in> set (b_ops b)" for op
    using that Cons.prems(3) by (simp add: late_result_def)
  then have ok: "side_ok cfg root ?sr ?rest"
    using finish_side_ok [of cfg root sr b ?rest "peer b" now] Cons.prems(1) by simp
  have "distinct (map op_path (b_ops b @ ?rest))" using Cons.prems(1) by (simp add: side_ok_def flight_ok_def)
  then have "op_path op \<notin> op_path ` set (b_ops b)" if "op \<in> set ?rest" for op
    using that by (force simp del: set_concat simp: image_iff)
  then have "\<forall>op \<in> set ?rest. opFor cfg root ?sr (op_path op) = Some op"
    using Cons.prems(3) applied_finish(2) [OF rs] by (simp del: set_concat)
  moreover have "\<forall>p. map_of (sr_dirty ?sr) p = None" using Cons.prems(2) applied_finish(1) [OF rs] by simp
  ultimately show ?case using Cons.IH [OF ok] Cons.prems(4) by simp
qed simp

lemma send_batches_applied:
  assumes "\<forall>b \<in> set bs. \<exists>rs. peer b = Inr rs"
  shows "fst (send_batches cfg now peer bs (root, s)) =
    map_side (s_id (hs_info s)) (fold (\<lambda>b. finish_side cfg now b (peer b)) bs) root"
  using assms
proof (induction bs arbitrary: root s)
  case Nil
  have "map (\<lambda>(i, sr). (i, if i = x then sr else sr)) ys = ys" for x :: string and ys :: "(string \<times> side_root) list"
    by (induction ys) auto
  then show ?case by (simp add: map_side_def)
next
  case (Cons b bs)
  have "map_side i g (map_side i f rt) = map_side i (g \<circ> f) rt" for i f g rt
    by (simp add: map_side_def comp_def case_prod_beta cong: if_cong)
  with Cons show ?case by (auto simp: Let_def finish_def comp_def)
qed


section \<open>On a concrete run\<close>

text \<open>The batch with the folder is collected and applied, and a flush has nothing more to do.\<close>

definition ex_batch :: batch where
  "ex_batch = \<lparr>b_root = ''.claude'', b_epoch = hr_epoch ex_root1, b_lane = LaneNormal, b_ops = [ex_op]\<rparr>"

definition ex_collected :: hub_root where
  "ex_collected = snd (snd (collect ex_cfg 9 True ''pod'' ex_attached))"

definition ex_applied :: hub_root where
  "ex_applied = finish ex_cfg 9 ''pod'' ex_batch (Inr [\<lparr>rs_path = ''x'', rs_rev = 1, rs_status = Applied, rs_reason = []\<rparr>]) ex_collected"


abbreviation ex_pod1 :: side_root where "ex_pod1 \<equiv> take_off ex_op (ex_pod\<lparr>sr_blocked := (sr_blocked ex_pod)(''x'' := None)\<rparr>)"

lemma ex_pod_fields [simp]: "sr_dirty ex_pod = [(''x'', 5)]" "sr_inflight ex_pod = []" "sr_paused ex_pod = []" "sr_backoff ex_pod = (\<lambda>_. None)"
  "sr_blocked ex_pod = (\<lambda>_. None)" "sr_held ex_pod = []" "sr_info ex_pod = ex_side ''pod''"
  by (simp_all add: ex_pod_def newSideRoot_def mark_def mark_dirty_since_def keeps_def)

lemma ex_lane: "laneFor ex_cfg ex_attached ex_op = LaneNormal"
  using ex_key [of ex_attached] ex_policy
  by (simp add: laneFor_def ex_op_def ex_attached_eq merger_for_def default_cfg_def DefaultPolicies_def Mirror_merger_def ex_dir_def Let_def)

lemma ex_collect_side: "collect_side ex_cfg 9 True ex_attached ex_pod = ([ex_batch], None, ex_pod1)"
proof -
  have o: "op_path ex_op = ''x''" by (simp add: ex_op_def)
  have m: "chunks (cf_maxBatch ex_cfg) [ex_op] = [[ex_op]]" "chunks (cf_maxBatch ex_cfg) [] = ([] :: sync_op list list)"
    using ex_maxBatch by (simp_all add: chunks.simps)
  have s: "hr_sides ex_attached = [(''pod'', ex_pod)]" "hr_broken ex_attached = None" "hr_name ex_attached = ''.claude''"
    "hr_epoch ex_attached = hr_epoch ex_root1"
    by (simp_all add: ex_attached_eq)
  have "lane_batches ex_cfg ex_attached [(LaneNormal, ex_op)] = [ex_batch]"
    by (subst lane_batches_def) (simp add: lanes_def sortOps_def SortFunc_def m s ex_batch_def)
  then show ?thesis
    using ex_opFor ex_lane
    by (simp add: collect_side_def collect_path_def collect_wait_def Let_def ex_batch_def o)
qed

lemma ex_collect: "collect ex_cfg 9 True ''pod'' ex_attached = ([ex_batch], None, ex_collected)"
  using ex_collect_side by (simp add: collect_def ex_collected_def ex_attached_eq)

lemma ex_collected_eq: "ex_collected = ex_root1\<lparr>hr_sides := [(''pod'', ex_pod1)]\<rparr>"
  using ex_collect_side by (simp add: ex_collected_def collect_def ex_attached_eq map_side_def)

definition ex_seat :: hub_side where
  "ex_seat = \<lparr>hs_info = ex_side ''pod'', hs_cancelled = False, hs_downUntil = None, hs_downN = 0, hs_downErr = []\<rparr>"

definition ex_answer :: "op_result list" where
  "ex_answer = [\<lparr>rs_path = ''x'', rs_rev = 1, rs_status = Applied, rs_reason = []\<rparr>]"

lemma ex_seat_id: "s_id (hs_info ex_seat) = ''pod''" by (simp add: ex_seat_def ex_side_def)

lemma ex_result: "fst (result_for ex_answer ex_op) = Applied" by (simp add: result_for_def ex_answer_def ex_op_def)

definition ex_pod2 :: side_root where "ex_pod2 = finish_side ex_cfg 9 ex_batch (Inr ex_answer) ex_pod1"

lemma ex_applied_eq: "ex_applied = ex_root1\<lparr>hr_sides := [(''pod'', ex_pod2)]\<rparr>"
  by (simp add: ex_applied_def ex_collected_eq finish_def map_side_def ex_pod2_def ex_answer_def)

lemma ex_send: "send_batches ex_cfg 9 (\<lambda>_. Inr ex_answer) [ex_batch] (ex_collected, ex_seat) = (ex_applied, ex_seat)"
  using ex_seat_id by (simp add: ex_applied_def ex_answer_def Let_def ex_seat_def)


lemma ex_steps: "hub_steps ex_cfg (ex_root1, \<lambda>_. []) (ex_applied, (\<lambda>_. [])(''pod'' := []))"
proof -
  have "hub_step ex_cfg (ex_attached, (\<lambda>_. [])(''pod'' := [])) (ex_collected, (\<lambda>_. [])(''pod'' := [ex_op]))"
    using hub_step.Collect [OF ex_collect, of "(\<lambda>_. [])(''pod'' := [])"] by (simp add: ex_batch_def)
  moreover have "opFor ex_cfg ex_collected ex_pod1 ''x'' = Some ex_op"
    using ex_path_state [of ex_collected ex_pod1] ex_live
    by (simp add: opFor_state ex_collected_eq ex_op_def) (simp add: take_off_def ex_pod_def newSideRoot_def mark_def mark_dirty_since_def keeps_def)
  then have "hub_step ex_cfg (ex_collected, (\<lambda>_. [])(''pod'' := [ex_op])) (ex_applied, (\<lambda>_. [])(''pod'' := []))"
    using hub_step.Finish [of "(\<lambda>_. [])(''pod'' := [ex_op])" "''pod''" ex_batch "[]" ex_collected "Inr ex_answer" ex_cfg 9]
    by (auto simp: ex_batch_def ex_collected_eq late_result_def ex_op_def ex_applied_def ex_answer_def)
  ultimately show ?thesis using ex_attach_step by (meson rtranclp.rtrancl_into_rtrancl)
qed

definition ex_hub :: hub where
  "ex_hub = \<lparr>hb_roots = [ex_applied], hb_sides = [(''pod'', ex_seat)], hb_closed = False\<rparr>"

lemma ex_pod2_fields: "sr_dirty ex_pod2 = []" "sr_inflight ex_pod2 = []" "map_of (sr_held ex_pod2) ''x'' = Some 1" "sr_paused ex_pod2 = []"
  using ex_live
  by (simp_all add: ex_pod2_def finish_side_def finish_op_def landed_def set_held_def take_off_def ex_batch_def ex_op_def ex_answer_def result_for_def Let_def)

lemma ex_flush: "flush_look ex_cfg ''pod'' (\<lambda>_ _. True) (\<lambda>_. False) [] (\<lambda>_. None) False ex_hub = FlushDone"
  by (simp add: flush_look_def pending_def pending_root_def pending_side_def ex_hub_def ex_applied_eq SortFunc_def ex_pod2_fields
      Let_def map_filter_simps) (simp add: ex_root1_def ex_root_def blank_root_def root_count_def recount_def uncount_def live_opt_def Let_def)


end
