(* ===== verification/HubLimits.thy ===== *)
theory HubLimits
  imports HubFlush
begin

text \<open>
  Where the hub's promises end: states in which what a side is owed is forgotten, a rev the hub lost
  is taken as one it knows, the rev counter starts again, and a root grows beyond its cap.
\<close>

section \<open>A result that comes late\<close>

text \<open>C39: a delete that is answered late unseats the side that made the newer state. The side applied
  a delete, then made the path again and the hub accepted that: the side holds the current state.
  When the answer to the delete arrives after that, the hub takes the side to hold nothing there. It
  owes the side a state the side itself made, will not send it, and no longer counts the side among
  those it can fetch the content from.\<close>

theorem late_delete_unseats_holder:
  assumes "fst (result_for results op) = Applied" "\<not> Live (op_entry op)"
    and "keyFor cfg root (op_path op) (s_location (sr_info sr)) = Some (k, m)" "ents root k = Some e" "Live (he_entry e)"
    and "map_of (sr_held sr) (op_path op) = Some (he_rev e)" "keeps sr (op_path op)"
    and "map_of (sr_dirty sr) (op_path op) = None" "sr_blocked sr (op_path op) = None"
    and "hr_sides root = [(sid, sr)]" "0 < he_rev e" "sid \<noteq> except"
    and "sr' = finish_op cfg now sentAt results op sr"
  shows "opFor cfg root sr (op_path op) = None \<and>
    opFor cfg root sr' (op_path op) = Some \<lparr>op_path = op_path op, op_rev = he_rev e, op_entry = he_entry e\<rparr> \<and>
    map_of (sr_dirty sr') (op_path op) = None \<and> sr_blocked sr' (op_path op) = None \<and>
    holders (map_side sid (\<lambda>_. sr') root) k (he_rev e) except = []"
proof (intro conjI)
  have l: "sr' = landed op sr" using assms(1,13) by (cases "result_for results op") (simp add: finish_op_def Let_def)
  have ps: "path_state cfg root sr (op_path op) = Some e" "path_state cfg root sr' (op_path op) = Some e"
    using assms(3,4) landed_fields(4) [of op sr] by (simp_all add: path_state_def l)
  have h: "map_of (sr_held sr') (op_path op) = None" using landed_fields(5) [of op sr] assms(2) by (simp add: l)
  have p: "snd k = op_path op" using keyFor_snd [OF assms(3)] by blast
  show "opFor cfg root sr (op_path op) = None" using opFor_state [OF ps(1)] assms(5-7) by simp
  show "opFor cfg root sr' (op_path op) = Some \<lparr>op_path = op_path op, op_rev = he_rev e, op_entry = he_entry e\<rparr>"
    using opFor_state [OF ps(2)] assms(5,7) h landed_fields(3) [of op sr] by (simp add: l)
  show "map_of (sr_dirty sr') (op_path op) = None" "sr_blocked sr' (op_path op) = None"
    using assms(8,9) landed_fields(1,2) [of op sr] by (simp_all add: l)
  show "holders (map_side sid (\<lambda>_. sr') root) k (he_rev e) except = []"
    using assms(10,11) h by (simp add: holders_def map_side_def p SortFunc_def Let_def)
qed

section \<open>Revs the hub lost\<close>

text \<open>Whether a rev the hub lost is noticed depends on the paths' order. Of two paths a side holds
  at revs beyond the hub's, the one with the lower rev is content the hub has not seen when it comes
  first, and a state the side holds, of a rev the hub never recorded, when it comes second.\<close>

theorem lost_rev_depends_on_order:
  assumes "hr_rev root < h_rev b" "h_rev b < h_rev a" "h_path a \<noteq> h_path b"
    and "\<And>h. h \<in> {a, b} \<Longrightarrow> validPath (h_path h) \<and> check (h_entry h) = None \<and> Live (h_entry h) \<and> keeps sr (h_path h)"
    and "\<And>k m e. keyFor cfg root (h_path b) (s_location info) = Some (k, m) \<Longrightarrow> ents root k = Some e \<Longrightarrow> he_rev e \<le> hr_rev root"
    and "fold (attach_held cfg info True) [b, a] (root, sr, [], False) = (root1, sr1, stale1, rg1)"
    and "fold (attach_held cfg info True) [a, b] (root, sr, [], False) = (root2, sr2, stale2, rg2)"
  shows "stale1 = [b, a] \<and> map_of (sr_held sr1) (h_path b) = Some 0 \<and>
    stale2 = [a] \<and> map_of (sr_held sr2) (h_path b) = Some (h_rev b)"
proof -
  have k: "keeps (set_held q r sr) p = keeps sr p" for p q r by (simp add: keeps_def set_held_def)
  have n: "keyFor cfg (root\<lparr>hr_rev := n\<rparr>) p loc = keyFor cfg root p loc" for n p loc by (rule keyFor_name) simp
  have a: "attach_held cfg info True a (root\<lparr>hr_rev := h_rev b\<rparr>, set_held (h_path b) 0 sr, [b], True) =
      (root\<lparr>hr_rev := h_rev a\<rparr>, set_held (h_path a) 0 (set_held (h_path b) 0 sr), [b, a], True)"
    "attach_held cfg info True a (root, sr, [], False) = (root\<lparr>hr_rev := h_rev a\<rparr>, set_held (h_path a) 0 sr, [a], True)"
    using assms(1,2) assms(4) [of a] k by (simp_all add: attach_held_def Let_def)
  have b: "attach_held cfg info True b (root, sr, [], False) = (root\<lparr>hr_rev := h_rev b\<rparr>, set_held (h_path b) 0 sr, [b], True)"
    using assms(1) assms(4) [of b] by (simp add: attach_held_def Let_def)
  have "he_rev e \<noteq> h_rev b" if "keyFor cfg root (h_path b) (s_location info) = Some (k, m)" "ents root k = Some e" for k m e
    using assms(5) [OF that] assms(1) by simp
  then have b2: "attach_held cfg info True b (root\<lparr>hr_rev := h_rev a\<rparr>, set_held (h_path a) 0 sr, [a], True) =
      (root\<lparr>hr_rev := h_rev a\<rparr>, set_held (h_path b) (h_rev b) (set_held (h_path a) 0 sr), [a], True)"
    using assms(2) assms(4) [of b] k n by (auto simp: attach_held_def Let_def split: option.splits)
  have "stale1 = [b, a] \<and> map_of (sr_held sr1) (h_path b) = Some 0"
    using assms(3,6) a(1) b by (auto simp: set_held_def)
  moreover have "stale2 = [a] \<and> map_of (sr_held sr2) (h_path b) = Some (h_rev b)"
    using assms(7) a(2) b2 by (auto simp: set_held_def)
  ultimately show ?thesis by blast
qed

text \<open>A side can make the rev counter start again. When it says it holds the largest rev, the hub
  takes that as its own, and the next state it records gets rev 0, the rev of no state.\<close>

theorem attach_can_end_revs:
  assumes "hr_broken root = None" "rh_epoch rh \<noteq> []" "rh_epoch rh = hr_epoch root" "rh_held rh = [h]"
    and "h_rev h = 2 ^ 64 - 1" "hr_rev root < h_rev h" "validPath (h_path h)" "check (h_entry h) = None" "Live (h_entry h)"
    and "\<not> s_loginsOnly info" "attach_root cfg now info rh root = (stale, root1)"
  shows "hr_rev root1 = 2 ^ 64 - 1 \<and> he_rev (new_state now e origin base hist root1) = 0"
proof -
  have p: "hr_rev (snd (putMeta rt)) = hr_rev rt" for rt
    by (auto simp: putMeta_def root_commit_def next_write_def root_put_def Let_def split: prod.splits list.splits)
  have "keeps ((newSideRoot info)\<lparr>sr_only := None\<rparr>) q" for q by (simp add: keeps_def newSideRoot_def)
  then have "hr_rev root1 = 2 ^ 64 - 1"
    using assms p by (auto simp: attach_root_def attach_held_def Let_def)
  then show ?thesis by (simp add: succ64_def)
qed

section \<open>On concrete states\<close>

lemma ex_pod2_more: "keeps ex_pod2 p" "sr_blocked ex_pod2 ''x'' = None" "s_location (sr_info ex_pod2) = ''pod''"
  using ex_live
  by (simp_all add: ex_pod2_def finish_side_def finish_op_def landed_def set_held_def take_off_def ex_batch_def ex_op_def
      ex_answer_def result_for_def Let_def ex_pod_def newSideRoot_def mark_def mark_dirty_since_def keeps_def ex_side_def)

definition ex_gone_op :: sync_op where "ex_gone_op = \<lparr>op_path = ''x'', op_rev = 1, op_entry = gone_entry\<rparr>"

theorem late_delete_unseats_holder_witness:
  "holders (map_side ''pod'' (\<lambda>_. finish_op ex_cfg 9 (\<lambda>_. 0) ex_answer ex_gone_op ex_pod2) ex_applied) ([], ''x'') 1 ''other'' = []"
proof -
  let ?e = "\<lparr>he_entry = ex_dir, he_rev = 1, he_origin = ''host'', he_base = 0, he_at = 0, he_hist = []\<rparr>"
  have p: "op_path ex_gone_op = ''x''" by (simp add: ex_gone_op_def)
  have "fst (result_for ex_answer ex_gone_op) = Applied" "\<not> Live (op_entry ex_gone_op)"
    by (simp_all add: result_for_def ex_answer_def ex_gone_op_def gone_entry_def Live_def)
  moreover have "keyFor ex_cfg ex_applied (op_path ex_gone_op) (s_location (sr_info ex_pod2)) = Some (([], ''x''), Mirror_merger)"
    using ex_key [of ex_applied] by (simp add: p ex_applied_eq)
  moreover have "ents ex_applied ([], ''x'') = Some ?e" "hr_sides ex_applied = [(''pod'', ex_pod2)]" by (simp_all add: ex_applied_eq)
  moreover have "Live (he_entry ?e)" "(0 :: nat) < he_rev ?e" "''pod'' \<noteq> ''other''" using ex_live by simp_all
  ultimately show ?thesis
    using late_delete_unseats_holder [of ex_answer ex_gone_op ex_cfg ex_applied ex_pod2 "([], ''x'')" Mirror_merger ?e "''pod''" "''other''" _ 9 "\<lambda>_. 0"]
      ex_pod2_fields ex_pod2_more p by simp
qed

definition ex_held :: "string \<Rightarrow> nat \<Rightarrow> held" where "ex_held p r = \<lparr>h_path = p, h_rev = r, h_entry = ex_dir\<rparr>"

theorem lost_rev_depends_on_order_witness:
  "fst (snd (snd (fold (attach_held ex_cfg (ex_side ''pod'') True) [ex_held ''y'' 7, ex_held ''x'' 9]
      (ex_root, newSideRoot (ex_side ''pod''), [], False)))) = [ex_held ''y'' 7, ex_held ''x'' 9] \<and>
   fst (snd (snd (fold (attach_held ex_cfg (ex_side ''pod'') True) [ex_held ''x'' 9, ex_held ''y'' 7]
      (ex_root, newSideRoot (ex_side ''pod''), [], False)))) = [ex_held ''x'' 9]"
proof -
  let ?run = "\<lambda>hs. fold (attach_held ex_cfg (ex_side ''pod'') True) hs (ex_root, newSideRoot (ex_side ''pod''), [], False)"
  have y: "validPath ''y''" by code_simp
  have "hr_rev ex_root < h_rev (ex_held ''y'' 7)" "h_rev (ex_held ''y'' 7) < h_rev (ex_held ''x'' 9)" "h_path (ex_held ''x'' 9) \<noteq> h_path (ex_held ''y'' 7)"
    by (simp_all add: ex_held_def ex_root_def blank_root_def)
  moreover have "validPath (h_path h) \<and> check (h_entry h) = None \<and> Live (h_entry h) \<and> keeps (newSideRoot (ex_side ''pod'')) (h_path h)"
    if "h \<in> {ex_held ''x'' 9, ex_held ''y'' 7}" for h
    using that y ex_path ex_check ex_live by (auto simp: ex_held_def keeps_def newSideRoot_def)
  moreover have "he_rev e \<le> hr_rev ex_root" if "ents ex_root k = Some e" for k e
    using that by (simp add: ex_root_def blank_root_def)
  moreover obtain root1 sr1 stale1 rg1 root2 sr2 stale2 rg2 where
    runs: "?run [ex_held ''y'' 7, ex_held ''x'' 9] = (root1, sr1, stale1, rg1)" "?run [ex_held ''x'' 9, ex_held ''y'' 7] = (root2, sr2, stale2, rg2)"
    by (metis prod_cases4)
  ultimately show ?thesis
    using lost_rev_depends_on_order [of ex_root "ex_held ''y'' 7" "ex_held ''x'' 9" "newSideRoot (ex_side ''pod'')" ex_cfg "ex_side ''pod''",
      OF _ _ _ _ _ runs] unfolding runs by simp
qed

theorem attach_can_end_revs_witness:
  "hr_rev (snd (attach_root ex_cfg 5 (ex_side ''pod'') \<lparr>rh_root = ''.claude'', rh_epoch = ''e'', rh_held = [ex_held ''x'' (2 ^ 64 - 1)]\<rparr>
     (ex_root\<lparr>hr_epoch := ''e''\<rparr>))) = 2 ^ 64 - 1"
proof -
  let ?rh = "\<lparr>rh_root = ''.claude'', rh_epoch = ''e'', rh_held = [ex_held ''x'' (2 ^ 64 - 1)]\<rparr>"
  let ?root = "ex_root\<lparr>hr_epoch := ''e''\<rparr>"
  have f: "hr_broken ?root = None" "rh_epoch ?rh \<noteq> []" "rh_epoch ?rh = hr_epoch ?root" "rh_held ?rh = [ex_held ''x'' (2 ^ 64 - 1)]"
    "h_rev (ex_held ''x'' (2 ^ 64 - 1)) = 2 ^ 64 - 1" "hr_rev ?root < h_rev (ex_held ''x'' (2 ^ 64 - 1))"
    "validPath (h_path (ex_held ''x'' (2 ^ 64 - 1)))" "check (h_entry (ex_held ''x'' (2 ^ 64 - 1))) = None" "Live (h_entry (ex_held ''x'' (2 ^ 64 - 1)))"
    "\<not> s_loginsOnly (ex_side ''pod'')"
    using ex_path ex_check ex_live by (simp_all add: ex_root_def blank_root_def ex_held_def ex_side_def)
  obtain stale root1 where r: "attach_root ex_cfg 5 (ex_side ''pod'') ?rh ?root = (stale, root1)" by fastforce
  from attach_can_end_revs [OF f r] show ?thesis unfolding r by simp
qed

section \<open>The cap and folders\<close>

definition ex_big :: entry where "ex_big = ex_dir\<lparr>e_size := 1000\<rparr>"

lemma ex_big_ok: "Live ex_big" "check ex_big = None" "e_kind ex_big = File \<longrightarrow> 0 \<le> e_size ex_big \<and> e_size ex_big \<le> 100"
  by code_simp+

lemma ex_big_total: "hr_total (ex_root2 ex_big) = 1000"
  using ex_path ex_big_ok
  by (simp add: ex_root2_def commitPlan_def ex_plan_def ex_root_def blank_root_def Let_def moved_on_def shape_equal_def
      checkShape_def ex_change_def ex_side_def overCap_def liveSize_def wrap64_def no_shape_def commit_change_def
      setEntry_def root_commit_def next_write_def root_put_def journal_put_def empty_journal_def journal_commit_def
      succ64_def ex_dir_def ex_big_def held_def map_side_def markDirty_def root_count_def recount_def uncount_def
      live_opt_def journal_due_def new_hist_def Mirror_merger_def no_extra_def split: prod.splits)

text \<open>The cap is a cap on files alone. The size a folder's entry claims is checked nowhere, and added
  to the tally the cap is about: one report of a new folder takes a root with a cap of 100 bytes
  to a tally of 1000.\<close>

theorem folder_size_passes_cap:
  "hr_cap ex_root = 100 \<and> check ex_big = None \<and>
   (case process ex_cfg ex_env (\<lambda>_ r. r) (ex_side ''host'') (ex_change ex_big) False ex_root of
      (a, root) \<Rightarrow> a_status a = Accepted \<and> hr_total root = 1000)"
  using ex_process [OF ex_big_ok] ex_big_ok(2) ex_big_total by (simp add: ex_root_def blank_root_def)

end
