(* ===== verification/Disk.thy ===== *)
theory Disk
  imports Messages Sha256
begin

text \<open>
  A side's folder as its tree sees it through \<open>internal/safefs\<close>: the entries below it by path, each
  with what \<open>Lstat\<close> tells of it and its content. Every call may fail, which is an input of the model:
  the disk carries what each call in turn answers. A call that fails has done nothing, but for a
  recursive removal, which may have removed some entries, and a write, which may have written some
  bytes. Of safefs itself the guards of reserved paths and the refusals of links, missing folders and
  non-folders on the way to a path are modelled; how it holds on to the folders it walked is not.

  \<open>internal/sharesync/fingerprint.go\<close> is here too: what a scan compares to tell that a path changed.
\<close>

unbundle bit_operations_syntax

section \<open>Entries\<close>

record finfo =
  fi_size :: int
  fi_mtime :: int
  fi_mode :: "32 word"
  fi_ino :: nat
  fi_dev :: nat
  fi_ctime :: int

text \<open>The type bits of Go's \<open>fs.FileMode\<close>.\<close>

definition ModeDir :: "32 word" where "ModeDir = push_bit 31 1"

definition ModeSymlink :: "32 word" where "ModeSymlink = push_bit 27 1"

definition ModeType :: "32 word" where
  "ModeType = ModeDir OR ModeSymlink OR push_bit 26 1 OR push_bit 25 1 OR push_bit 24 1 OR push_bit 21 1 OR push_bit 19 1"

definition IsDir :: "finfo \<Rightarrow> bool" where
  "IsDir i \<longleftrightarrow> fi_mode i AND ModeDir \<noteq> 0"

definition IsLink :: "finfo \<Rightarrow> bool" where
  "IsLink i \<longleftrightarrow> fi_mode i AND ModeSymlink \<noteq> 0"

definition IsRegular :: "finfo \<Rightarrow> bool" where
  "IsRegular i \<longleftrightarrow> fi_mode i AND ModeType = 0"

definition SameFile :: "finfo \<Rightarrow> finfo \<Rightarrow> bool" where
  "SameFile a b \<longleftrightarrow> fi_ino a = fi_ino b \<and> fi_dev a = fi_dev b"

text \<open>\<open>fingerprint.go\<close>.\<close>

record fingerprint =
  fp_size :: int
  fp_mtime :: int
  fp_mode :: "32 word"
  fp_ino :: nat
  fp_dev :: nat
  fp_ctime :: int

definition no_fingerprint :: fingerprint where
  "no_fingerprint = \<lparr>fp_size = 0, fp_mtime = 0, fp_mode = 0, fp_ino = 0, fp_dev = 0, fp_ctime = 0\<rparr>"

definition fingerprintOf :: "finfo \<Rightarrow> fingerprint" where
  "fingerprintOf i =
     (let fp = no_fingerprint\<lparr>fp_mode := fi_mode i, fp_ino := fi_ino i, fp_dev := fi_dev i\<rparr>
      in if IsDir i then fp
         else fp\<lparr>fp_size := fi_size i, fp_mtime := fi_mtime i, fp_ctime := fi_ctime i\<rparr>)"

definition kindOf :: "finfo \<Rightarrow> kind option" where
  "kindOf i =
     (if IsRegular i then Some File else if IsDir i then Some Dir else if IsLink i then Some Symlink else None)"

section \<open>The folder\<close>

record node =
  nd_info :: finfo
  nd_data :: string
  nd_target :: string

text \<open>A failure: the error, the entries a recursive removal had removed by then, the bytes a write had
  written.\<close>

record failure =
  fl_err :: sync_error
  fl_gone :: "string list"
  fl_wrote :: nat

record disk =
  dk_nodes :: "(string \<times> node) list"
  dk_fails :: "failure option list"
  dk_fresh :: nat
  dk_dev :: nat
  dk_now :: int
  dk_umask :: "32 word"
  dk_space :: "(int \<times> int) option"
  dk_reserved :: "string list"

abbreviation node_at :: "disk \<Rightarrow> string \<Rightarrow> node option" where
  "node_at d p \<equiv> map_of (dk_nodes d) p"

definition next_fail :: "disk \<Rightarrow> failure option \<times> disk" where
  "next_fail d = (case dk_fails d of [] \<Rightarrow> (None, d) | f # fs \<Rightarrow> (f, d\<lparr>dk_fails := fs\<rparr>))"

text \<open>A change of the entry at a path sets its change time; what is made gets an inode of its own.\<close>

definition put_node :: "string \<Rightarrow> node \<Rightarrow> disk \<Rightarrow> disk" where
  "put_node p n d = d\<lparr>dk_nodes := AList.update p (n\<lparr>nd_info := (nd_info n)\<lparr>fi_ctime := dk_now d\<rparr>\<rparr>) (dk_nodes d)\<rparr>"

definition make_node :: "string \<Rightarrow> 32 word \<Rightarrow> int \<Rightarrow> string \<Rightarrow> string \<Rightarrow> disk \<Rightarrow> disk" where
  "make_node p mode mtime data target d =
     (put_node p \<lparr>nd_info = \<lparr>fi_size = int (length data), fi_mtime = mtime, fi_mode = mode, fi_ino = dk_fresh d,
        fi_dev = dk_dev d, fi_ctime = dk_now d\<rparr>, nd_data = data, nd_target = target\<rparr> d)\<lparr>dk_fresh := dk_fresh d + 1\<rparr>"

definition below :: "string \<Rightarrow> string \<Rightarrow> bool" where
  "below q p \<longleftrightarrow> prefix (p @ ''/'') q"

section \<open>Reserved paths\<close>

definition checkReserved :: "string list \<Rightarrow> string \<Rightarrow> bool" where
  "checkReserved rs name \<longleftrightarrow> list_ex (\<lambda>r. r = name \<or> below r name) rs"

definition checkAboveReserved :: "string list \<Rightarrow> string \<Rightarrow> bool" where
  "checkAboveReserved rs name \<longleftrightarrow> list_ex (\<lambda>r. below r name) rs"

definition guardedAt :: "string list \<Rightarrow> nat \<Rightarrow> string list" where
  "guardedAt rs depth =
     remdups (map (\<lambda>r. join_with CHR ''/'' (take depth (split_on CHR ''/'' r)))
       (filter (\<lambda>r. depth \<le> length (split_on CHR ''/'' r)) rs))"

definition guardReserved :: "disk \<Rightarrow> string \<Rightarrow> bool" where
  "guardReserved d name \<longleftrightarrow> checkReserved (dk_reserved d) name \<or>
     (case node_at d name of None \<Rightarrow> False
      | Some n \<Rightarrow> list_ex (\<lambda>g. case node_at d g of None \<Rightarrow> False | Some m \<Rightarrow> SameFile (nd_info m) (nd_info n))
          (guardedAt (dk_reserved d) (count_list name CHR ''/'' + 1)))"

section \<open>Calls\<close>

text \<open>The folders above a path are walked from the top: each must be there, and be a folder.\<close>

fun walk_error :: "disk \<Rightarrow> string list \<Rightarrow> sync_error option" where
  "walk_error d [] = None"
| "walk_error d (a # as) =
     (case node_at d a of
        None \<Rightarrow> Some ErrNotExist
      | Some n \<Rightarrow> if IsLink (nd_info n) then Some ErrSymlink else if IsDir (nd_info n) then walk_error d as else Some ErrNotDir)"

definition parent_error :: "disk \<Rightarrow> string \<Rightarrow> sync_error option" where
  "parent_error d p = walk_error d (ancestors p)"

text \<open>Why a path that is not there is not.\<close>

definition missing_error :: "disk \<Rightarrow> string \<Rightarrow> sync_error" where
  "missing_error d p = (case parent_error d p of Some e \<Rightarrow> e | None \<Rightarrow> ErrNotExist)"

definition Lstat :: "string \<Rightarrow> disk \<Rightarrow> (sync_error + finfo) \<times> disk" where
  "Lstat p d =
     (case next_fail d of
        (Some f, d') \<Rightarrow> (Inl (fl_err f), d')
      | (None, d') \<Rightarrow> (case node_at d' p of None \<Rightarrow> Inl (missing_error d' p) | Some n \<Rightarrow> Inr (nd_info n), d'))"

definition disk_call :: "(disk \<Rightarrow> sync_error option) \<Rightarrow> (disk \<Rightarrow> disk) \<Rightarrow> disk \<Rightarrow> sync_error option \<times> disk" where
  "disk_call refuse act d =
     (case next_fail d of
        (Some f, d') \<Rightarrow> (Some (fl_err f), d')
      | (None, d') \<Rightarrow> (case refuse d' of Some e \<Rightarrow> (Some e, d') | None \<Rightarrow> (None, act d')))"

definition Remove :: "string \<Rightarrow> disk \<Rightarrow> sync_error option \<times> disk" where
  "Remove p =
     disk_call (\<lambda>d. if guardReserved d p then Some ErrReserved
          else if node_at d p = None then Some (missing_error d p)
          else if list_ex (\<lambda>(q, n). below q p) (dk_nodes d) then Some ErrENOTEMPTY else None)
       (\<lambda>d. d\<lparr>dk_nodes := AList.delete p (dk_nodes d)\<rparr>)"

definition RemoveAll :: "string \<Rightarrow> disk \<Rightarrow> sync_error option \<times> disk" where
  "RemoveAll p d =
     (case next_fail d of
        (Some f, d') \<Rightarrow> (Some (fl_err f), d'\<lparr>dk_nodes := filter (\<lambda>(q, n). \<not> (below q p \<and> q \<in> set (fl_gone f))) (dk_nodes d')\<rparr>)
      | (None, d') \<Rightarrow>
          if guardReserved d' p then (Some ErrReserved, d')
          else if node_at d' p = None \<and> missing_error d' p \<noteq> ErrNotExist then (Some (missing_error d' p), d')
          else (None, d'\<lparr>dk_nodes := filter (\<lambda>(q, n). \<not> (q = p \<or> below q p)) (dk_nodes d')\<rparr>))"

definition safeMode :: "32 word \<Rightarrow> 32 word" where
  "safeMode m = m AND (ModePerm OR ModeSticky)"

definition createMode :: "32 word \<Rightarrow> 32 word" where
  "createMode m = m AND ModePerm"

definition Mkdir :: "string \<Rightarrow> 32 word \<Rightarrow> disk \<Rightarrow> sync_error option \<times> disk" where
  "Mkdir p perm =
     disk_call (\<lambda>d. if parent_error d p \<noteq> None then parent_error d p
          else if node_at d p \<noteq> None then Some ErrExist else None)
       (\<lambda>d. make_node p (ModeDir OR (createMode perm AND NOT (dk_umask d))) (dk_now d) [] [] d)"

text \<open>\<open>MkdirAll\<close>: each element in turn, from the top.\<close>

fun mkdir_elems :: "32 word \<Rightarrow> string list \<Rightarrow> disk \<Rightarrow> sync_error option \<times> disk" where
  "mkdir_elems perm [] d = (None, d)"
| "mkdir_elems perm (p # ps) d =
     (case node_at d p of
        Some n \<Rightarrow> if IsLink (nd_info n) then (Some ErrSymlink, d)
          else if IsDir (nd_info n) then mkdir_elems perm ps d else (Some ErrNotDir, d)
      | None \<Rightarrow> (case Mkdir p perm d of (Some e, d') \<Rightarrow> (Some e, d') | (None, d') \<Rightarrow> mkdir_elems perm ps d'))"

definition MkdirAll :: "string \<Rightarrow> 32 word \<Rightarrow> disk \<Rightarrow> sync_error option \<times> disk" where
  "MkdirAll p perm = mkdir_elems perm (ancestors p @ [p])"

definition no_link :: "disk \<Rightarrow> string \<Rightarrow> sync_error option" where
  "no_link d p =
     (case node_at d p of None \<Rightarrow> Some (missing_error d p)
      | Some n \<Rightarrow> if IsLink (nd_info n) then Some ErrSymlink else None)"

abbreviation edit_info :: "string \<Rightarrow> (finfo \<Rightarrow> finfo) \<Rightarrow> disk \<Rightarrow> disk" where
  "edit_info p f d \<equiv> (case node_at d p of None \<Rightarrow> d | Some n \<Rightarrow> put_node p (n\<lparr>nd_info := f (nd_info n)\<rparr>) d)"

definition Chmod :: "string \<Rightarrow> 32 word \<Rightarrow> disk \<Rightarrow> sync_error option \<times> disk" where
  "Chmod p mode =
     disk_call (\<lambda>d. no_link d p)
       (edit_info p (\<lambda>i. i\<lparr>fi_mode := (fi_mode i AND ModeType) OR
          (if IsDir i then safeMode mode else createMode (safeMode mode))\<rparr>))"

definition Chtimes :: "string \<Rightarrow> int \<Rightarrow> disk \<Rightarrow> sync_error option \<times> disk" where
  "Chtimes p mtime = disk_call (\<lambda>d. no_link d p) (edit_info p (\<lambda>i. i\<lparr>fi_mtime := mtime\<rparr>))"

definition SymlinkAt :: "string \<Rightarrow> string \<Rightarrow> disk \<Rightarrow> sync_error option \<times> disk" where
  "SymlinkAt target p =
     disk_call (\<lambda>d. if checkReserved (dk_reserved d) p then Some ErrReserved
          else if parent_error d p \<noteq> None then parent_error d p
          else if node_at d p \<noteq> None then Some ErrExist else None)
       (\<lambda>d. make_node p (ModeSymlink OR ModePerm) (dk_now d) [] target d)"

definition Readlink :: "string \<Rightarrow> disk \<Rightarrow> (sync_error + string) \<times> disk" where
  "Readlink p d =
     (case next_fail d of
        (Some f, d') \<Rightarrow> (Inl (fl_err f), d')
      | (None, d') \<Rightarrow> (case node_at d' p of None \<Rightarrow> Inl (missing_error d' p)
          | Some n \<Rightarrow> if IsLink (nd_info n) then Inr (nd_target n) else Inl (ErrOther ''invalid argument''), d'))"

text \<open>Opening a file: what it is and holds.\<close>

definition OpenFile :: "string \<Rightarrow> disk \<Rightarrow> (sync_error + node) \<times> disk" where
  "OpenFile p d =
     (case next_fail d of
        (Some f, d') \<Rightarrow> (Inl (fl_err f), d')
      | (None, d') \<Rightarrow> (case node_at d' p of None \<Rightarrow> Inl (missing_error d' p)
          | Some n \<Rightarrow> if IsLink (nd_info n) then Inl ErrSymlink
              else if IsRegular (nd_info n) then Inr n else Inl ErrNotRegular, d'))"

text \<open>Setting the content of an open file sets its size and times.\<close>

definition set_data :: "string \<Rightarrow> string \<Rightarrow> disk \<Rightarrow> disk" where
  "set_data p data d =
     (case node_at d p of None \<Rightarrow> d
      | Some n \<Rightarrow> put_node p (n\<lparr>nd_data := data,
          nd_info := (nd_info n)\<lparr>fi_size := int (length data), fi_mtime := dk_now d\<rparr>\<rparr>) d)"

text \<open>\<open>ReplaceFile\<close> in two parts: the temp file is filled, then, once the caller's check passed, renamed
  into place. The temp file itself is not modelled. \<open>data\<close> is what reading the source gives.\<close>

definition replace_begin :: "string \<Rightarrow> sync_error + string \<Rightarrow> disk \<Rightarrow> (sync_error + string) \<times> disk" where
  "replace_begin p data d =
     (if checkAboveReserved (dk_reserved d) p then (Inl ErrReserved, d)
      else case next_fail d of
        (Some f, d') \<Rightarrow> (Inl (fl_err f), d')
      | (None, d') \<Rightarrow>
          (case parent_error d' p of
             Some e \<Rightarrow> (Inl e, d')
           | None \<Rightarrow>
               (case node_at d' p of
                  Some n \<Rightarrow> if IsDir (nd_info n) then (Inl (ErrOther ''is a directory''), d') else (data, d')
                | None \<Rightarrow> (data, d'))))"

text \<open>The rename may fail, and so may the look at the file afterwards.\<close>

definition replace_end :: "string \<Rightarrow> string \<Rightarrow> 32 word \<Rightarrow> int \<Rightarrow> disk \<Rightarrow> sync_error option \<times> disk" where
  "replace_end p data perm mtime d =
     (case disk_call (\<lambda>d. None) (make_node p (createMode perm) mtime data []) d of
        (Some e, d1) \<Rightarrow> (Some e, d1)
      | (None, d1) \<Rightarrow> (case next_fail d1 of (Some f, d2) \<Rightarrow> (Some (fl_err f), d2) | (None, d2) \<Rightarrow> (None, d2)))"

end
