(* ===== verification/TreeState.thy ===== *)
theory TreeState
  imports Disk Journal HubState TreeOrder
begin

text \<open>
  One side's record of a root (\<open>internal/sharesync/tree.go\<close>): what it last synced of every path, what it
  tells the hub when it attaches, and how it takes the hub's answers. A record has an identity besides
  its value, since the code compares pointers to tell that a record was written anew: \<open>tr_alloc\<close>
  counts the records made.
\<close>

section \<open>State\<close>

record srec =
  rc_rev :: nat
  rc_entry :: entry
  rc_fp :: fingerprint
  rc_sent :: bool
  rc_made :: bool

text \<open>What the journal keeps: a path's record, the root's epoch and the identity of its folder, or
  something that cannot be read.\<close>

datatype tree_record = SideRec srec | TreeMeta string "fingerprint option" | BadRec

record tree_cfg =
  tc_table :: table
  tc_settle :: int
  tc_mergeSettle :: int
  tc_keep :: "int \<Rightarrow> int"
  tc_fullReason :: string
  tc_msg :: "sync_error \<Rightarrow> string"

record tree_root =
  tr_name :: string
  tr_skip :: "string list"
  tr_only :: "string list"
  tr_readOnly :: bool
  tr_opened :: finfo
  tr_there :: bool
  tr_epoch :: string
  tr_records :: "(string \<times> nat \<times> srec) list"
  tr_alloc :: nat
  tr_journal :: "tree_record journal"
  tr_closed :: bool
  tr_io :: "(write_outcome \<times> sync_error) list"
  tr_snapIo :: "(snapshot_outcome \<times> sync_error) list"
  tr_failing :: "(string \<times> nat) list"
  tr_scans :: nat
  tr_settling :: "(string \<times> fingerprint \<times> int) list"
  tr_disk :: disk

abbreviation rec_at :: "tree_root \<Rightarrow> string \<Rightarrow> (nat \<times> srec) option" where
  "rec_at tr p \<equiv> map_of (tr_records tr) p"

abbreviation tr_node :: "tree_root \<Rightarrow> string \<Rightarrow> node option" where
  "tr_node tr p \<equiv> node_at (tr_disk tr) p"

section \<open>Records\<close>

definition putRecord :: "string \<Rightarrow> srec \<Rightarrow> tree_root \<Rightarrow> tree_root" where
  "putRecord p rec tr =
     tr\<lparr>tr_records := AList.update p (tr_alloc tr, rec) (tr_records tr), tr_alloc := tr_alloc tr + 1,
        tr_journal := journal_put p (SideRec rec) (tr_journal tr)\<rparr>"

definition dropRecord :: "string \<Rightarrow> tree_root \<Rightarrow> tree_root" where
  "dropRecord p tr =
     (if rec_at tr p = None then tr
      else tr\<lparr>tr_records := AList.delete p (tr_records tr), tr_journal := journal_del p (tr_journal tr)\<rparr>)"

definition next_tree_write :: "tree_root \<Rightarrow> (write_outcome \<times> sync_error) \<times> tree_root" where
  "next_tree_write tr = (case tr_io tr of [] \<Rightarrow> ((WriteOk, ErrENOSPC), tr) | w # ws \<Rightarrow> (w, tr\<lparr>tr_io := ws\<rparr>))"

definition next_tree_snap :: "tree_root \<Rightarrow> (snapshot_outcome \<times> sync_error) \<times> tree_root" where
  "next_tree_snap tr = (case tr_snapIo tr of [] \<Rightarrow> ((SnapOk, ErrENOSPC), tr) | w # ws \<Rightarrow> (w, tr\<lparr>tr_snapIo := ws\<rparr>))"

definition tree_meta :: "tree_root \<Rightarrow> tree_record" where
  "tree_meta tr = TreeMeta (tr_epoch tr) (Some (fingerprintOf (tr_opened tr)))"

definition compact_tree :: "tree_root \<Rightarrow> sync_error option \<times> tree_root" where
  "compact_tree tr =
     (let ((w, werr), tr1) = next_tree_write tr; ((s, serr), tr2) = next_tree_snap tr1;
          records = (metaKey, tree_meta tr) # map (\<lambda>(p, i, rec). (p, SideRec rec)) (tr_records tr);
          (e, j) = journal_compact w s records (tr_journal tr2)
      in (if e = None then None else Some (if w \<noteq> WriteOk then werr else serr), tr2\<lparr>tr_journal := j\<rparr>))"

definition commit_tree :: "tree_root \<Rightarrow> sync_error option \<times> tree_root" where
  "commit_tree tr =
     (if tr_closed tr then (Some ErrClosed, tr)
      else
        let ((w, werr), tr1) = next_tree_write tr; (e, j) = journal_commit w (tr_journal tr1);
            tr2 = tr1\<lparr>tr_journal := j\<rparr>
        in if e \<noteq> None then (Some werr, tr2)
           else if journal_due (tr_journal tr2) (length (tr_records tr2)) then compact_tree tr2
           else (None, tr2))"

definition tree_putMeta :: "tree_root \<Rightarrow> sync_error option \<times> tree_root" where
  "tree_putMeta tr = commit_tree (tr\<lparr>tr_journal := journal_put metaKey (tree_meta tr) (tr_journal tr)\<rparr>)"

section \<open>Which paths\<close>

definition IsTemp :: "string \<Rightarrow> bool" where
  "IsTemp name \<longleftrightarrow> prefix ''.fleet-safefs-'' name \<and> suffix ''.tmp'' name"

definition synced :: "tree_cfg \<Rightarrow> tree_root \<Rightarrow> string \<Rightarrow> bool" where
  "synced cfg tr name \<longleftrightarrow>
     validPath name \<and> \<not> list_ex IsTemp (split_on CHR ''/'' name) \<and> \<not> list_ex (within name) (tr_skip tr) \<and>
     (tr_only tr = [] \<or> fst (cut_at CHR ''/'' name) \<in> set (tr_only tr)) \<and>
     (case table_PolicyFor (tc_table cfg) (Join2 (tr_name tr) name) of
        None \<Rightarrow> False | Some pol \<Rightarrow> pol \<noteq> LocationLocal)"

definition merging :: "tree_cfg \<Rightarrow> tree_root \<Rightarrow> string \<Rightarrow> bool" where
  "merging cfg tr name \<longleftrightarrow> (case table_PolicyFor (tc_table cfg) (Join2 (tr_name tr) name) of
     None \<Rightarrow> False | Some pol \<Rightarrow> pol \<in> {policy.JSON3, policy.TOML3, policy.Credential})"

section \<open>Attaching\<close>

definition Hello_root :: "tree_root \<Rightarrow> root_hello" where
  "Hello_root tr =
     \<lparr>rh_root = tr_name tr, rh_epoch = tr_epoch tr,
      rh_held = SortFunc (\<lambda>a b. h_path a \<le> h_path b)
        (map (\<lambda>(p, i, rec). \<lparr>h_path = p, h_rev = rc_rev rec, h_entry = rc_entry rec\<rparr>)
          (filter (\<lambda>(p, i, rec). \<not> rc_sent rec \<and> \<not> rc_made rec \<and> Live (rc_entry rec)) (tr_records tr)))\<rparr>"

definition adopt :: "string \<Rightarrow> bool \<Rightarrow> tree_root \<Rightarrow> sync_error option \<times> tree_root" where
  "adopt epoch unseen tr =
     (if epoch = [] \<or> epoch = tr_epoch tr then (None, tr)
      else tree_putMeta (fold (\<lambda>(p, i, rec). putRecord p (rec\<lparr>rc_rev := 0,
             rc_sent := rc_sent rec \<or> unseen \<and> Live (rc_entry rec)\<rparr>)) (tr_records tr) (tr\<lparr>tr_epoch := epoch\<rparr>)))"

section \<open>Answers\<close>

definition ack_record :: "ack \<Rightarrow> tree_root \<Rightarrow> tree_root" where
  "ack_record a tr =
     (case rec_at tr (a_path a) of
        None \<Rightarrow> tr
      | Some (i, old) \<Rightarrow>
          if \<not> rc_sent old then tr
          else
            let same = Same (rc_entry old) (a_entry a)
            in case a_status a of
                 Accepted \<Rightarrow>
                   if same \<and> \<not> Live (rc_entry old) then dropRecord (a_path a) tr
                   else putRecord (a_path a) (old\<lparr>rc_rev := a_rev a, rc_sent := \<not> same\<rparr>) tr
               | Superseded \<Rightarrow>
                   if \<not> same then tr
                   else putRecord (a_path a) (old\<lparr>rc_sent := False, rc_rev := if a_rev a = 0 then 0 else rc_rev old\<rparr>) tr
               | _ \<Rightarrow> tr)"

definition Acked :: "reply \<Rightarrow> tree_root \<Rightarrow> sync_error option \<times> tree_root" where
  "Acked ry tr =
     (case adopt (ry_epoch ry) True tr of
        (Some e, tr1) \<Rightarrow> (Some e, tr1)
      | (None, tr1) \<Rightarrow> commit_tree (fold ack_record (ry_acks ry) tr1))"

section \<open>Settling\<close>

definition settled :: "tree_cfg \<Rightarrow> int \<Rightarrow> string \<Rightarrow> finfo \<Rightarrow> tree_root \<Rightarrow> bool \<times> tree_root" where
  "settled cfg now name info tr =
     (let wait = tc_mergeSettle cfg; fp = fingerprintOf info; rest = AList.delete name (tr_settling tr)
      in if wait \<le> 0 \<or> \<not> merging cfg tr name then (True, tr)
         else if now - fi_mtime info \<ge> wait then (True, tr\<lparr>tr_settling := rest\<rparr>)
         else case map_of (tr_settling tr) name of
           Some (mfp, mat) \<Rightarrow>
             if mfp = fp \<and> now - mat \<ge> wait then (True, tr\<lparr>tr_settling := rest\<rparr>)
             else if mfp \<noteq> fp then (False, tr\<lparr>tr_settling := AList.update name (fp, now) (tr_settling tr)\<rparr>)
             else (False, tr)
         | None \<Rightarrow> (False, tr\<lparr>tr_settling := AList.update name (fp, now) (tr_settling tr)\<rparr>))"

section \<open>Opening\<close>

text \<open>\<open>openRoot\<close>: \<open>failed\<close> is what the self-test of the folder, opening it or opening the journal failed
  with. Records of another folder, unreadable ones and those that do not pass the checks are dropped.\<close>

definition load_side :: "string \<times> tree_record \<Rightarrow> tree_root \<Rightarrow> tree_root" where
  "load_side kv tr =
     (case snd kv of
        SideRec rec \<Rightarrow>
          if validPath (fst kv) \<and> check (rc_entry rec) = None
          then tr\<lparr>tr_records := AList.update (fst kv) (tr_alloc tr, rec) (tr_records tr), tr_alloc := tr_alloc tr + 1\<rparr>
          else tr\<lparr>tr_journal := journal_del (fst kv) (tr_journal tr)\<rparr>
      | _ \<Rightarrow> tr\<lparr>tr_journal := journal_del (fst kv) (tr_journal tr)\<rparr>)"

definition openRoot :: "tree_cfg \<Rightarrow> string list \<Rightarrow> sync_error option \<Rightarrow> tree_root \<Rightarrow> tree_record journal \<Rightarrow> sync_error + tree_root" where
  "openRoot cfg opened failed spec j0 =
     (if \<not> validPath (tr_name spec) then Inl (ErrOther ''sharesync: invalid root name'')
      else if tr_name spec \<in> set opened then Inl (ErrOther ''sharesync: root given twice'')
      else if table_Root (tc_table cfg) (tr_name spec) = None then Inl (ErrOther ''sharesync: no policy root covers it'')
      else if failed \<noteq> None then Inl (the failed)
      else
        let (j, records) = openJournal j0; raw = AList.clearjunk records;
            folder = fingerprintOf (tr_opened spec);
            (epoch, was) = (case map_of raw metaKey of Some (TreeMeta ep f) \<Rightarrow> (ep, f) | _ \<Rightarrow> ([], None));
            side = filter (\<lambda>kv. fst kv \<noteq> metaKey) raw;
            tr = spec\<lparr>tr_epoch := epoch, tr_records := [], tr_journal := j\<rparr>;
            other = (case was of None \<Rightarrow> False | Some f \<Rightarrow> fp_ino f \<noteq> fp_ino folder \<or> fp_dev f \<noteq> fp_dev folder);
            tr1 = (if other then fold (\<lambda>kv tr. tr\<lparr>tr_journal := journal_del (fst kv) (tr_journal tr)\<rparr>) side tr
                   else fold load_side side tr)
        in case tree_putMeta tr1 of (Some e, _) \<Rightarrow> Inl e | (None, tr2) \<Rightarrow> Inr tr2)"

definition Close_root :: "tree_root \<Rightarrow> sync_error option \<times> tree_root" where
  "Close_root tr =
     (if tr_closed tr then (None, tr)
      else let (e, tr1) = compact_tree tr; ((w, werr), tr2) = next_tree_write tr1;
               (e', j) = journal_close w (tr_journal tr2)
           in (if e \<noteq> None then e else if e' \<noteq> None then Some werr else None, tr2\<lparr>tr_journal := j, tr_closed := True\<rparr>))"

end
