(* ===== verification/TreeApply.thy ===== *)
theory TreeApply
  imports TreeState
begin

text \<open>
  Applying the hub's ops to a side's folder, and serving content from it
  (\<open>internal/sharesync/apply.go\<close>). What runs under the root's lock runs on one state; where the code
  lets go of the lock, \<open>others n\<close> is what scans, answers and other programs do to the root and its
  folder meanwhile. \<open>content\<close> is what reading the op's content from an offset gives.
\<close>

abbreviation ErrENOTDIR :: sync_error where "ErrENOTDIR \<equiv> ErrOther ''not a directory''"

definition cannotExist :: "sync_error \<Rightarrow> bool" where
  "cannotExist e \<longleftrightarrow> e \<in> {ErrNotExist, ErrNotDir, ErrSymlink, ErrENOTDIR}"

definition tr_call :: "(disk \<Rightarrow> 'a \<times> disk) \<Rightarrow> tree_root \<Rightarrow> 'a \<times> tree_root" where
  "tr_call f tr = (let (r, d) = f (tr_disk tr) in (r, tr\<lparr>tr_disk := d\<rparr>))"

section \<open>What an op meets\<close>

record local_state =
  at_rec :: "(nat \<times> srec) option"
  at_info :: "finfo option"

definition unchanged :: "local_state \<Rightarrow> sync_error option" where
  "unchanged at =
     (case at_rec at of
        None \<Rightarrow> if at_info at \<noteq> None then Some ErrLocalChange else None
      | Some (i, rec) \<Rightarrow>
          if rc_sent rec then Some ErrLocalChange
          else if Live (rc_entry rec) then
            (case at_info at of None \<Rightarrow> Some ErrLocalChange
             | Some info \<Rightarrow> if fingerprintOf info \<noteq> rc_fp rec then Some ErrLocalChange else None)
          else if at_info at \<noteq> None then Some ErrLocalChange else None)"

definition look :: "string \<Rightarrow> tree_root \<Rightarrow> (sync_error + local_state) \<times> tree_root" where
  "look p tr =
     (case tr_call (Lstat p) tr of
        (Inr info, tr1) \<Rightarrow>
          (let at = \<lparr>at_rec = rec_at tr p, at_info = Some info\<rparr>
           in (case unchanged at of None \<Rightarrow> Inr at | Some e \<Rightarrow> Inl e, tr1))
      | (Inl e, tr1) \<Rightarrow>
          if \<not> cannotExist e then (Inl e, tr1)
          else (let at = \<lparr>at_rec = rec_at tr p, at_info = None\<rparr>
                in (case unchanged at of None \<Rightarrow> Inr at | Some e \<Rightarrow> Inl e, tr1)))"

definition same_record :: "(nat \<times> srec) option \<Rightarrow> (nat \<times> srec) option \<Rightarrow> bool" where
  "same_record a b \<longleftrightarrow> map_option fst a = map_option fst b"

definition same_print :: "finfo option \<Rightarrow> finfo option \<Rightarrow> bool" where
  "same_print a b \<longleftrightarrow> map_option fingerprintOf a = map_option fingerprintOf b"

definition still :: "string \<Rightarrow> local_state \<Rightarrow> tree_root \<Rightarrow> sync_error option \<times> tree_root" where
  "still p at tr =
     (if \<not> same_record (rec_at tr p) (at_rec at) then (Some ErrLocalChange, tr)
      else case tr_call (Lstat p) tr of
        (Inl e, tr1) \<Rightarrow>
          (if cannotExist e then (if at_info at \<noteq> None then Some ErrLocalChange else None) else Some e, tr1)
      | (Inr info, tr1) \<Rightarrow> (if same_print (Some info) (at_info at) then None else Some ErrLocalChange, tr1))"

section \<open>Recording\<close>

definition recordOp :: "sync_op \<Rightarrow> finfo option \<Rightarrow> tree_root \<Rightarrow> sync_error option \<times> tree_root" where
  "recordOp op info tr =
     (if \<not> Live (op_entry op) then commit_tree (dropRecord (op_path op) tr)
      else commit_tree (putRecord (op_path op) \<lparr>rc_rev = op_rev op, rc_entry = op_entry op,
             rc_fp = (case info of None \<Rightarrow> no_fingerprint | Some i \<Rightarrow> fingerprintOf i), rc_sent = False, rc_made = False\<rparr> tr))"

definition recordNow :: "sync_op \<Rightarrow> tree_root \<Rightarrow> sync_error option \<times> tree_root" where
  "recordNow op tr =
     (if \<not> Live (op_entry op) then recordOp op None tr
      else case tr_call (Lstat (op_path op)) tr of
        (Inl e, tr1) \<Rightarrow> (Some e, tr1)
      | (Inr info, tr1) \<Rightarrow> recordOp op (Some info) tr1)"

definition dirtyFingerprint :: fingerprint where
  "dirtyFingerprint = no_fingerprint\<lparr>fp_size := -1\<rparr>"

definition ourTime :: "int \<Rightarrow> int \<Rightarrow> bool" where
  "ourTime stored set_to \<longleftrightarrow> (let d = set_to - stored in d \<ge> 0 \<and> d < 1000000000)"

definition recordWritten :: "sync_op \<Rightarrow> tree_root \<Rightarrow> sync_error option \<times> tree_root" where
  "recordWritten op tr =
     (case tr_call (Lstat (op_path op)) tr of
        (Inl e, tr1) \<Rightarrow> (Some e, tr1)
      | (Inr info, tr1) \<Rightarrow>
          let fp = (if fi_size info \<noteq> e_size (op_entry op) \<or> \<not> ourTime (fi_mtime info) (e_mtime (op_entry op))
                then dirtyFingerprint else fingerprintOf info)
          in commit_tree (putRecord (op_path op) \<lparr>rc_rev = op_rev op, rc_entry = op_entry op, rc_fp = fp,
               rc_sent = False, rc_made = False\<rparr> tr1))"

section \<open>Deletes, folders and links\<close>

text \<open>In \<open>clear\<close> the walk of a folder looks at the entries directly in it: it stops at the first synced
  one and never goes into a folder that is not synced.\<close>

definition clear :: "tree_cfg \<Rightarrow> string \<Rightarrow> local_state \<Rightarrow> tree_root \<Rightarrow> sync_error option \<times> tree_root" where
  "clear cfg p at tr =
     (case at_info at of
        None \<Rightarrow> (None, tr)
      | Some info \<Rightarrow>
          (case tr_call (Remove p) tr of
             (None, tr1) \<Rightarrow> (None, tr1)
           | (Some err, tr1) \<Rightarrow>
               if err = ErrNotExist then (None, tr1)
               else if \<not> IsDir info then (Some err, tr1)
               else if list_ex (\<lambda>skip. within skip p) (tr_skip tr1) then (Some err, tr1)
               else case tr_call next_fail tr1 of
                 (Some f, tr2) \<Rightarrow> (Some (fl_err f), tr2)
               | (None, tr2) \<Rightarrow>
                   if list_ex (\<lambda>(q, n). path_Dir q = p \<and> synced cfg tr2 q) (dk_nodes (tr_disk tr2)) then (Some err, tr2)
                   else tr_call (RemoveAll p) tr2))"

definition remove_op :: "tree_cfg \<Rightarrow> sync_op \<Rightarrow> local_state \<Rightarrow> tree_root \<Rightarrow> sync_error option \<times> tree_root" where
  "remove_op cfg op at tr =
     (case clear cfg (op_path op) at tr of
        (Some e, tr1) \<Rightarrow> (Some e, tr1)
      | (None, tr1) \<Rightarrow> recordNow op tr1)"

fun find_missing :: "string list \<Rightarrow> string list \<Rightarrow> tree_root \<Rightarrow> (sync_error + string list) \<times> tree_root" where
  "find_missing [] missing tr = (Inr missing, tr)"
| "find_missing (a # as) missing tr =
     (let live = (case rec_at tr a of None \<Rightarrow> False | Some (i, rec) \<Rightarrow> Live (rc_entry rec));
          (r, tr1) = (if live then tr_call (Lstat a) tr else (Inl ErrNotExist, tr))
      in if live \<and> (case r of Inl e \<Rightarrow> True | Inr info \<Rightarrow> \<not> IsDir info) then (Inl ErrLocalChange, tr1)
         else case tr_call (Lstat a) tr1 of
           (Inl e, tr2) \<Rightarrow> find_missing as (if cannotExist e then missing @ [a] else missing) tr2
         | (Inr info, tr2) \<Rightarrow> find_missing as missing tr2)"

fun record_made :: "tree_cfg \<Rightarrow> string list \<Rightarrow> tree_root \<Rightarrow> sync_error option \<times> tree_root" where
  "record_made cfg [] tr = (None, tr)"
| "record_made cfg (a # as) tr =
     (if \<not> synced cfg tr a then record_made cfg as tr
      else case tr_call (Lstat a) tr of
        (Inl e, tr1) \<Rightarrow> (Some e, tr1)
      | (Inr info, tr1) \<Rightarrow>
          record_made cfg as (putRecord a \<lparr>rc_rev = 0, rc_entry = gone_entry\<lparr>e_kind := Dir, e_mode := fileMode Dir (fi_mode info)\<rparr>,
            rc_fp = fingerprintOf info, rc_sent = False, rc_made = True\<rparr> tr1))"

definition mkdirParents :: "tree_cfg \<Rightarrow> string \<Rightarrow> tree_root \<Rightarrow> sync_error option \<times> tree_root" where
  "mkdirParents cfg p tr =
     (let parent = path_Dir p
      in if parent = ''.'' then (None, tr)
         else case tr_call (Lstat parent) tr of
           (r, tr1) \<Rightarrow>
             if (case r of Inl e \<Rightarrow> False | Inr info \<Rightarrow> IsDir info) then (None, tr1)
             else case find_missing (ancestors parent @ [parent]) [] tr1 of
               (Inl e, tr2) \<Rightarrow> (Some e, tr2)
             | (Inr missing, tr2) \<Rightarrow>
                 (case tr_call (MkdirAll parent 493) tr2 of
                    (Some e, tr3) \<Rightarrow> (Some e, tr3)
                  | (None, tr3) \<Rightarrow> record_made cfg missing tr3))"

text \<open>A chain of calls that ends at the first error.\<close>

definition andThen :: "(tree_root \<Rightarrow> sync_error option \<times> tree_root) \<Rightarrow> (tree_root \<Rightarrow> sync_error option \<times> tree_root) \<Rightarrow>
    tree_root \<Rightarrow> sync_error option \<times> tree_root" where
  "andThen f g tr = (case f tr of (Some e, tr1) \<Rightarrow> (Some e, tr1) | (None, tr1) \<Rightarrow> g tr1)"

definition makeDir :: "tree_cfg \<Rightarrow> sync_op \<Rightarrow> local_state \<Rightarrow> tree_root \<Rightarrow> sync_error option \<times> tree_root" where
  "makeDir cfg op at =
     (let p = op_path op; mode = fileMode Dir (e_mode (op_entry op))
      in case at_info at of
           Some info \<Rightarrow>
             if IsDir info then
               (if fileMode Dir (fi_mode info) \<noteq> mode then andThen (tr_call (Chmod p mode)) (recordNow op) else recordNow op)
             else andThen (clear cfg p at) (andThen (mkdirParents cfg p) (andThen (tr_call (Mkdir p mode))
               (andThen (tr_call (Chmod p mode)) (recordNow op))))
         | None \<Rightarrow> andThen (clear cfg p at) (andThen (mkdirParents cfg p) (andThen (tr_call (Mkdir p mode))
               (andThen (tr_call (Chmod p mode)) (recordNow op)))))"

definition makeLink :: "tree_cfg \<Rightarrow> sync_op \<Rightarrow> local_state \<Rightarrow> tree_root \<Rightarrow> sync_error option \<times> tree_root" where
  "makeLink cfg op at tr =
     (let p = op_path op;
          (kept, tr1) = (if (case at_info at of None \<Rightarrow> False | Some info \<Rightarrow> IsLink info)
            then (case tr_call (Readlink p) tr of (r, tr') \<Rightarrow> (r = Inr (e_target (op_entry op)), tr')) else (False, tr))
      in if kept then recordNow op tr1
         else andThen (clear cfg p at) (andThen (mkdirParents cfg p)
           (andThen (tr_call (SymlinkAt (e_target (op_entry op)) p)) (recordNow op))) tr1)"

section \<open>Files\<close>

definition maxAppend :: int where "maxAppend = 8 * 2 ^ 20"

definition room :: "tree_cfg \<Rightarrow> int \<Rightarrow> tree_root \<Rightarrow> sync_error option" where
  "room cfg need tr =
     (if need \<le> 0 then None
      else case dk_space (tr_disk tr) of
        None \<Rightarrow> None
      | Some (sz, free) \<Rightarrow>
          if sz \<le> 0 then None
          else if wrap64 (free - need) < tc_keep cfg sz then Some ErrNoSpaceLeft else None)"

text \<open>\<open>verifier\<close>: content that is not the size and hash of the op fails at its end.\<close>

definition verify :: "entry \<Rightarrow> string \<Rightarrow> sync_error + string" where
  "verify e data = (if int (length data) \<noteq> e_size e \<or> hashOf data \<noteq> e_hash e then Inl ErrStale else Inr data)"

definition undoAppend :: "string \<Rightarrow> finfo \<Rightarrow> nat \<Rightarrow> tree_root \<Rightarrow> tree_root" where
  "undoAppend p was landed tr =
     (case tr_call (OpenFile p) tr of
        (Inl e, tr1) \<Rightarrow> tr1
      | (Inr n, tr1) \<Rightarrow>
          if SameFile (nd_info n) was \<and> fi_size (nd_info n) > fi_size was \<and> fi_size (nd_info n) \<le> fi_size was + int landed then
            (case tr_call (disk_call (\<lambda>d. None) (set_data p (take (nat (fi_size was)) (nd_data n)))) tr1 of
               (Some e, tr2) \<Rightarrow> tr2
             | (None, tr2) \<Rightarrow> snd (tr_call (Chtimes p (fi_mtime was)) tr2))
          else tr1)"

datatype append_result = AppendErr sync_error | NoAppend | Appended

definition append_of :: "sync_error option \<Rightarrow> append_result" where
  "append_of e = (case e of None \<Rightarrow> Appended | Some x \<Rightarrow> AppendErr x)"

text \<open>The write itself: a failed write has written what its failure says, a failed close all of it.\<close>

definition write_append :: "string \<Rightarrow> string \<Rightarrow> node \<Rightarrow> tree_root \<Rightarrow> (sync_error \<times> nat) option \<times> tree_root" where
  "write_append p suff n tr =
     (case tr_call next_fail tr of
        (Some f, tr1) \<Rightarrow>
          (let k = min (fl_wrote f) (length suff)
           in (Some (fl_err f, k), if k = 0 then tr1 else tr1\<lparr>tr_disk := set_data p (nd_data n @ take k suff) (tr_disk tr1)\<rparr>))
      | (None, tr1) \<Rightarrow>
          (case tr_call next_fail (tr1\<lparr>tr_disk := set_data p (nd_data n @ suff) (tr_disk tr1)\<rparr>) of
             (Some f, tr2) \<Rightarrow> (Some (fl_err f, length suff), tr2)
           | (None, tr2) \<Rightarrow> (None, tr2)))"

definition append_locked :: "tree_cfg \<Rightarrow> sync_op \<Rightarrow> local_state \<Rightarrow> finfo \<Rightarrow> string \<Rightarrow> tree_root \<Rightarrow> sync_error option \<times> tree_root" where
  "append_locked cfg op at was suff tr =
     (let p = op_path op
      in case still p at tr of
           (Some e, tr1) \<Rightarrow> (Some e, tr1)
         | (None, tr1) \<Rightarrow>
             (case tr_call (OpenFile p) tr1 of
                (Inl e, tr2) \<Rightarrow> (Some e, tr2)
              | (Inr n, tr2) \<Rightarrow>
                  if fingerprintOf (nd_info n) \<noteq> fingerprintOf was then (Some ErrLocalChange, tr2)
                  else case write_append p suff n tr2 of
                    (Some (e, landed), tr3) \<Rightarrow> (Some e, if landed > 0 then undoAppend p was landed tr3 else tr3)
                  | (None, tr3) \<Rightarrow>
                      andThen (if fileMode File (fi_mode was) \<noteq> e_mode (op_entry op)
                               then tr_call (Chmod p (e_mode (op_entry op))) else Pair None)
                        (andThen (tr_call (Chtimes p (e_mtime (op_entry op)))) (recordWritten op)) tr3))"

definition appendFile :: "tree_cfg \<Rightarrow> (nat \<Rightarrow> tree_root \<Rightarrow> tree_root) \<Rightarrow> sync_op \<Rightarrow> local_state \<Rightarrow> finfo \<Rightarrow> int \<Rightarrow>
    (int \<Rightarrow> sync_error + string) \<Rightarrow> tree_root \<Rightarrow> append_result \<times> tree_root" where
  "appendFile cfg others op at was offset fetch tr =
     (let p = op_path op; need = e_size (op_entry op) - offset
      in case room cfg need tr of
           Some e \<Rightarrow> (AppendErr e, tr)
         | None \<Rightarrow>
             (case fetch offset of
                Inl e \<Rightarrow> (AppendErr e, tr)
              | Inr stream \<Rightarrow>
                  let suff = take (nat (need + 1)) stream
                  in if int (length suff) \<noteq> need then (NoAppend, tr)
                     else case tr_call (OpenFile p) tr of
                       (Inl e, tr1) \<Rightarrow> (AppendErr e, tr1)
                     | (Inr n, tr1) \<Rightarrow>
                         if fingerprintOf (nd_info n) \<noteq> fingerprintOf was then (AppendErr ErrLocalChange, tr1)
                         else if int (length (nd_data n)) < offset then (AppendErr (ErrOther ''EOF''), tr1)
                         else if hashOf (take (nat offset) (nd_data n) @ suff) \<noteq> e_hash (op_entry op) then (NoAppend, tr1)
                         else case append_locked cfg op at was suff (others 3 tr1) of (e, tr2) \<Rightarrow> (append_of e, tr2)))"

text \<open>Replacing the whole file.\<close>

definition replace_op :: "tree_cfg \<Rightarrow> (nat \<Rightarrow> tree_root \<Rightarrow> tree_root) \<Rightarrow> sync_op \<Rightarrow> local_state \<Rightarrow>
    (int \<Rightarrow> sync_error + string) \<Rightarrow> tree_root \<Rightarrow> sync_error option \<times> tree_root" where
  "replace_op cfg others op at fetch tr =
     (let p = op_path op; e = op_entry op
      in case fetch 0 of
           Inl err \<Rightarrow> (Some err, tr)
         | Inr stream \<Rightarrow>
             (case tr_call (replace_begin p (verify e stream)) tr of
                (Inl err, tr1) \<Rightarrow> (Some err, tr1)
              | (Inr data, tr1) \<Rightarrow>
                  let tr2 = others 2 tr1
                  in if \<not> same_record (rec_at tr2 p) (at_rec at) then (Some ErrLocalChange, tr2)
                     else case tr_call (Lstat p) tr2 of
                       (r, tr3) \<Rightarrow>
                         (case r of
                            Inl err \<Rightarrow>
                              if err \<noteq> ErrNotExist then (Some err, tr3)
                              else if at_info at \<noteq> None then (Some ErrLocalChange, tr3)
                              else andThen (tr_call (replace_end p data (e_mode e) (e_mtime e))) (recordWritten op) tr3
                          | Inr info \<Rightarrow>
                              if \<not> same_print (Some info) (at_info at) then (Some ErrLocalChange, tr3)
                              else andThen (tr_call (replace_end p data (e_mode e) (e_mtime e))) (recordWritten op) tr3)))"

definition write_whole :: "tree_cfg \<Rightarrow> (nat \<Rightarrow> tree_root \<Rightarrow> tree_root) \<Rightarrow> sync_op \<Rightarrow> local_state \<Rightarrow>
    (int \<Rightarrow> sync_error + string) \<Rightarrow> tree_root \<Rightarrow> sync_error option \<times> tree_root" where
  "write_whole cfg others op at fetch tr =
     (case room cfg (e_size (op_entry op)) tr of
        Some e \<Rightarrow> (Some e, tr)
      | None \<Rightarrow>
          andThen (if at_info at = None then mkdirParents cfg (op_path op) \<circ> others 1 else Pair None)
            (replace_op cfg others op at fetch) tr)"

definition writeFile :: "tree_cfg \<Rightarrow> (nat \<Rightarrow> tree_root \<Rightarrow> tree_root) \<Rightarrow> sync_op \<Rightarrow> local_state \<Rightarrow>
    (int \<Rightarrow> sync_error + string) option \<Rightarrow> tree_root \<Rightarrow> sync_error option \<times> tree_root" where
  "writeFile cfg others op at content tr =
     (let p = op_path op
      in case content of
           None \<Rightarrow> (Some ErrNoSource, tr)
         | Some fetch \<Rightarrow>
             if (case at_info at of None \<Rightarrow> False | Some info \<Rightarrow> IsDir info) then
               andThen (still p at) (andThen (clear cfg p at)
                 (write_whole cfg others op \<lparr>at_rec = at_rec at, at_info = None\<rparr> fetch)) (others 0 tr)
             else
               let tr0 = others 0 tr
               in case (at_info at, at_rec at) of
                    (Some was, Some (i, rec)) \<Rightarrow>
                      let offset = extends (op_entry op) (rc_entry rec)
                      in if offset > 0 \<and> e_size (op_entry op) - offset \<le> maxAppend then
                           (case appendFile cfg others op at was offset fetch tr0 of
                              (AppendErr e, tr1) \<Rightarrow> (Some e, tr1)
                            | (Appended, tr1) \<Rightarrow> (None, tr1)
                            | (NoAppend, tr1) \<Rightarrow> write_whole cfg others op at fetch tr1)
                         else write_whole cfg others op at fetch tr0
                  | _ \<Rightarrow> write_whole cfg others op at fetch tr0)"

section \<open>Ops\<close>

definition applyReadOnly :: "tree_cfg \<Rightarrow> sync_op \<Rightarrow> tree_root \<Rightarrow> (result_status \<times> string) \<times> tree_root" where
  "applyReadOnly cfg op tr =
     (case look (op_path op) tr of
        (r, tr1) \<Rightarrow>
          if (case r of Inr at \<Rightarrow> (case (at_rec at, at_info at) of (Some (i, rec), Some info) \<Rightarrow> Same (rc_entry rec) (op_entry op) | _ \<Rightarrow> False)
                | Inl e \<Rightarrow> False) then
            (case r of Inr at \<Rightarrow> (case recordOp op (at_info at) tr1 of (e, tr2) \<Rightarrow> (classify (tc_msg cfg) e, tr2)) | Inl e \<Rightarrow> ((Changed, []), tr1))
          else if (case r of Inr at \<Rightarrow> at_rec at = None \<and> at_info at = None | Inl e \<Rightarrow> False) \<and> \<not> Live (op_entry op) then
            ((Applied, []), tr1)
          else
            case commit_tree (putRecord (op_path op) \<lparr>rc_rev = op_rev op,
                rc_entry = (if Live (op_entry op) then op_entry op else tombstone (op_entry op)),
                rc_fp = no_fingerprint, rc_sent = False, rc_made = False\<rparr> tr1) of
              (Some e, tr2) \<Rightarrow> (classify (tc_msg cfg) (Some e), tr2)
            | (None, tr2) \<Rightarrow> ((Changed, ''read-only on this side: its folder's state stands''), tr2))"

definition apply_op :: "tree_cfg \<Rightarrow> (nat \<Rightarrow> tree_root \<Rightarrow> tree_root) \<Rightarrow> sync_op \<Rightarrow> (int \<Rightarrow> sync_error + string) option \<Rightarrow>
    tree_root \<Rightarrow> (result_status \<times> string) \<times> tree_root" where
  "apply_op cfg others op content tr =
     (let p = op_path op; e = op_entry op; answer = (\<lambda>(err, tr'). (classify (tc_msg cfg) err, tr'))
      in if \<not> synced cfg tr p then ((Refused, ''not synced on this side''), tr)
         else if tr_readOnly tr then applyReadOnly cfg op tr
         else if check e \<noteq> None then ((Refused, ''entry check''), tr)
         else if (case rec_at tr p of None \<Rightarrow> False | Some (i, rec) \<Rightarrow> rc_rev rec > op_rev op) then
           ((Stale, ''the side holds a newer rev''), tr)
         else case look p tr of
           (Inl err, tr1) \<Rightarrow> (classify (tc_msg cfg) (Some err), tr1)
         | (Inr at, tr1) \<Rightarrow>
             if (case (at_rec at, at_info at) of (Some (i, rec), Some info) \<Rightarrow> Same (rc_entry rec) e | _ \<Rightarrow> False) then
               answer (recordOp op (at_info at) tr1)
             else if at_info at = None \<and> \<not> Live e then answer (commit_tree (dropRecord p tr1))
             else case e_kind e of
               File \<Rightarrow> answer (writeFile cfg others op at content tr1)
             | Gone \<Rightarrow> answer (remove_op cfg op at tr1)
             | Dir \<Rightarrow> answer (makeDir cfg op at tr1)
             | _ \<Rightarrow> answer (makeLink cfg op at tr1))"

text \<open>A batch: \<open>ctx\<close> is what the context says before each op.\<close>

fun apply_ops :: "tree_cfg \<Rightarrow> (nat \<Rightarrow> nat \<Rightarrow> tree_root \<Rightarrow> tree_root) \<Rightarrow> (nat \<Rightarrow> sync_error option) \<Rightarrow>
    (sync_op \<Rightarrow> (int \<Rightarrow> sync_error + string) option) \<Rightarrow> nat \<Rightarrow> sync_op list \<Rightarrow> tree_root \<Rightarrow>
    (sync_error + op_result list) \<times> tree_root" where
  "apply_ops cfg others ctx content i [] tr = (Inr [], tr)"
| "apply_ops cfg others ctx content i (op # ops) tr =
     (case ctx i of
        Some e \<Rightarrow> (Inl e, tr)
      | None \<Rightarrow>
          let ((st, reason), tr1) = apply_op cfg (others i) op (content op) tr;
              r = \<lparr>rs_path = op_path op, rs_rev = op_rev op, rs_status = st,
                   rs_reason = (if st = NoSpace \<and> reason = [] then tc_fullReason cfg else reason)\<rparr>
          in (case apply_ops cfg others ctx content (Suc i) ops tr1 of
                (Inl e, tr2) \<Rightarrow> (Inl e, tr2)
              | (Inr rs, tr2) \<Rightarrow> (Inr (r # rs), tr2)))"

abbreviation ErrRootMoved :: sync_error where "ErrRootMoved \<equiv> ErrOther ''the folder is not the one sync opened''"

definition Apply :: "tree_cfg \<Rightarrow> (nat \<Rightarrow> nat \<Rightarrow> tree_root \<Rightarrow> tree_root) \<Rightarrow> (nat \<Rightarrow> sync_error option) \<Rightarrow>
    (sync_op \<Rightarrow> (int \<Rightarrow> sync_error + string) option) \<Rightarrow> batch \<Rightarrow> tree_root \<Rightarrow> (sync_error + op_result list) \<times> tree_root" where
  "Apply cfg others ctx content b tr =
     (if tr_closed tr then (Inl ErrClosed, tr)
      else if \<not> tr_there tr then (Inl ErrRootMoved, tr)
      else case adopt (b_epoch b) True tr of
        (Some e, tr1) \<Rightarrow> (Inl e, tr1)
      | (None, tr1) \<Rightarrow> apply_ops cfg others ctx content 0 (b_ops b) tr1)"

section \<open>Serving content\<close>

text \<open>\<open>Fetch\<close> and its reader: \<open>got\<close> is what reading the open file gives and \<open>at_end\<close> what \<open>Stat\<close> says of it
  at the end.\<close>

definition fetch_end :: "entry \<Rightarrow> int \<Rightarrow> fingerprint \<Rightarrow> string \<Rightarrow> finfo \<Rightarrow> sync_error + string" where
  "fetch_end e offset fp got at_end =
     (if int (length got) \<noteq> e_size e - offset \<or> fingerprintOf at_end \<noteq> fp then Inl ErrStale
      else if offset = 0 \<and> hashOf got \<noteq> e_hash e then Inl ErrStale
      else Inr got)"

definition Fetch :: "string \<Rightarrow> entry \<Rightarrow> int \<Rightarrow> (node \<Rightarrow> string \<times> finfo) \<Rightarrow> tree_root \<Rightarrow> (sync_error + string) \<times> tree_root" where
  "Fetch name e offset reading tr =
     (if tr_closed tr then (Inl ErrClosed, tr)
      else case rec_at tr name of
        None \<Rightarrow> (Inl ErrStale, tr)
      | Some (i, rec) \<Rightarrow>
          if e_kind (rc_entry rec) \<noteq> File \<or> e_kind e \<noteq> File \<or> e_hash (rc_entry rec) \<noteq> e_hash e \<or>
             e_size (rc_entry rec) \<noteq> e_size e then (Inl ErrStale, tr)
          else if offset < 0 \<or> offset > e_size e then (Inl (ErrOther ''invalid argument''), tr)
          else case tr_call (OpenFile name) tr of
            (Inl err, tr1) \<Rightarrow> (Inl ErrStale, tr1)
          | (Inr n, tr1) \<Rightarrow>
              if fingerprintOf (nd_info n) \<noteq> rc_fp rec then (Inl ErrStale, tr1)
              else case reading n of (got, at_end) \<Rightarrow> (fetch_end e offset (rc_fp rec) got at_end, tr1))"

end
