(* ===== verification/TreeScan.thy ===== *)
theory TreeScan
  imports TreeApply
begin

text \<open>
  Scanning a side's folder for changes (\<open>internal/sharesync/scan.go\<close>). The walk itself is an input:
  what it observed at each path, the paths it had problems with and those to scan again; so are what
  examining a candidate gives and what each path is at the end, since other programs write the folder
  meanwhile. What the scan makes of it, candidates, records, changes and what it remembers of failing
  and settling paths, is the model.
\<close>

section \<open>Areas\<close>

definition inAny :: "string \<Rightarrow> string list \<Rightarrow> bool" where
  "inAny name folders \<longleftrightarrow> list_ex (within name) folders"

text \<open>\<open>cover\<close>: the loop that keeps a path unless the one kept last covers it.\<close>

fun cover_kept :: "string list \<Rightarrow> string list \<Rightarrow> string list" where
  "cover_kept kept [] = kept"
| "cover_kept kept (p # ps) = cover_kept (if kept \<noteq> [] \<and> within p (last kept) then kept else kept @ [p]) ps"

definition cover :: "string list \<Rightarrow> string list" where
  "cover paths =
     (let ps = map Clean paths
      in if list_ex (\<lambda>p. p = ''.'' \<or> p = []) ps then [''.'']
         else let out = filter validPath ps
              in if out = [] then [''.''] else cover_kept [] (SortFunc (\<le>) out))"

text \<open>\<open>reach\<close>: up to the nearest folder that is there. The length of the path is enough fuel.\<close>

fun reach_up :: "nat \<Rightarrow> (string \<Rightarrow> bool) \<Rightarrow> string \<Rightarrow> string" where
  "reach_up 0 missing area = area"
| "reach_up (Suc n) missing area =
     (if area = ''.'' \<or> \<not> missing area then area else reach_up n missing (path_Dir area))"

definition reach :: "(string \<Rightarrow> bool) \<Rightarrow> string list \<Rightarrow> string list" where
  "reach missing areas = cover (map (\<lambda>a. reach_up (length a + 1) missing a) areas)"

section \<open>The walk\<close>

text \<open>What \<open>WalkDir\<close> calls back with, in order: an error at a path (and whether the path is known to be a
  folder), or an entry with what its \<open>Info\<close> answers.\<close>

datatype walk_event = WalkErr string sync_error bool | WalkEntry string bool "sync_error + finfo"

definition ev_name :: "walk_event \<Rightarrow> string" where
  "ev_name ev = (case ev of WalkErr name err d \<Rightarrow> name | WalkEntry name d i \<Rightarrow> name)"

record walked =
  wk_observed :: "(string \<times> finfo) list"
  wk_problems :: "string list"
  wk_again :: "string list"
  wk_failed :: "(string \<times> sync_error) list"

definition errUnsettled :: sync_error where "errUnsettled = ErrOther ''changed while it was read''"

definition transient :: "sync_error \<Rightarrow> bool" where
  "transient e \<longleftrightarrow> fst (classify (\<lambda>_. []) (Some e)) = Changed \<or> e = ErrNotExist"

text \<open>The callback: what it notes, and whether it answers \<open>SkipDir\<close>.\<close>

definition visit :: "tree_cfg \<Rightarrow> tree_root \<Rightarrow> string \<Rightarrow> walk_event \<Rightarrow> walked \<Rightarrow> bool \<times> walked" where
  "visit cfg tr area ev w =
     (case ev of
        WalkErr name err d \<Rightarrow>
          if name = area \<and> err = ErrNotExist then (False, w)
          else (d, if transient err then w\<lparr>wk_problems := wk_problems w @ [name], wk_again := wk_again w @ [name]\<rparr>
                   else w\<lparr>wk_problems := wk_problems w @ [name], wk_failed := AList.update name err (wk_failed w)\<rparr>)
      | WalkEntry name d i \<Rightarrow>
          if name = ''.'' then (False, w)
          else if \<not> synced cfg tr name then (d, w)
          else (False, case i of
              Inl e \<Rightarrow> w\<lparr>wk_problems := wk_problems w @ [name], wk_again := wk_again w @ [name]\<rparr>
            | Inr info \<Rightarrow>
                if kindOf info = None then w\<lparr>wk_problems := wk_problems w @ [name]\<rparr>
                else w\<lparr>wk_observed := AList.update name info (wk_observed w)\<rparr>))"

text \<open>One area. A folder skipped takes what is below it with it. Every call looks at one event, so the
  number of events is enough fuel.\<close>

fun walk_area :: "nat \<Rightarrow> tree_cfg \<Rightarrow> tree_root \<Rightarrow> string \<Rightarrow> walk_event list \<Rightarrow> walked \<Rightarrow> walked" where
  "walk_area 0 cfg tr area evs w = w"
| "walk_area (Suc n) cfg tr area [] w = w"
| "walk_area (Suc n) cfg tr area (ev # evs) w =
     (let (skip, w1) = visit cfg tr area ev w
      in walk_area n cfg tr area (if skip then filter (\<lambda>e. \<not> below (ev_name e) (ev_name ev)) evs else evs) w1)"

definition no_walk :: walked where
  "no_walk = \<lparr>wk_observed = [], wk_problems = [], wk_again = [], wk_failed = []\<rparr>"

definition walk_areas :: "tree_cfg \<Rightarrow> tree_root \<Rightarrow> (string \<Rightarrow> walk_event list) \<Rightarrow> string list \<Rightarrow> walked" where
  "walk_areas cfg tr events areas =
     fold (\<lambda>area w. if area \<noteq> ''.'' \<and> \<not> synced cfg tr area then w
       else walk_area (length (events area)) cfg tr area (events area) w) areas no_walk"

text \<open>\<open>refusedAt\<close>: \<open>pe_path\<close> is the path an error carries, relative to the root.\<close>

definition refused_at :: "(sync_error \<Rightarrow> string option) \<Rightarrow> string \<Rightarrow> sync_error \<Rightarrow> string" where
  "refused_at pe_path name err =
     (case pe_path err of None \<Rightarrow> name
      | Some at \<Rightarrow> if at \<noteq> ''.'' \<and> prefix (at @ ''/'') name then at else name)"

section \<open>Candidates\<close>

record candidate =
  cd_name :: string
  cd_info :: "finfo option"
  cd_prev :: entry

text \<open>A candidate without an info is a recorded path that is no longer there.\<close>

abbreviation cd_gone :: "candidate \<Rightarrow> bool" where "cd_gone c \<equiv> cd_info c = None"

definition prev_entry :: "(nat \<times> srec) option \<Rightarrow> entry" where
  "prev_entry r = (case r of None \<Rightarrow> gone_entry | Some (i, rec) \<Rightarrow> rc_entry rec)"

definition change_of :: "string \<Rightarrow> srec \<Rightarrow> change" where
  "change_of name rec = \<lparr>c_path = name, c_base = rc_rev rec, c_entry = rc_entry rec\<rparr>"

definition as_recorded :: "tree_root \<Rightarrow> string \<times> finfo \<Rightarrow> bool" where
  "as_recorded tr x = (case rec_at tr (fst x) of None \<Rightarrow> False
     | Some (i, rec) \<Rightarrow> Live (rc_entry rec) \<and> rc_fp rec = fingerprintOf (snd x))"

text \<open>What was observed and is not as recorded, and what is recorded and was not observed.\<close>

definition seen_cands :: "tree_root \<Rightarrow> (string \<times> finfo) list \<Rightarrow> candidate list" where
  "seen_cands tr observed =
     map (\<lambda>(name, info). \<lparr>cd_name = name, cd_info = Some info, cd_prev = prev_entry (rec_at tr name)\<rparr>)
       (filter (\<lambda>x. \<not> as_recorded tr x) observed)"

definition unseen :: "tree_cfg \<Rightarrow> tree_root \<Rightarrow> (string \<times> finfo) list \<Rightarrow> string list \<Rightarrow> string list \<Rightarrow> string \<Rightarrow> bool" where
  "unseen cfg tr observed areas problems name \<longleftrightarrow>
     map_of observed name = None \<and> inAny name areas \<and> \<not> inAny name problems \<and> synced cfg tr name"

definition gone_cands :: "tree_cfg \<Rightarrow> tree_root \<Rightarrow> (string \<times> finfo) list \<Rightarrow> string list \<Rightarrow> string list \<Rightarrow> candidate list" where
  "gone_cands cfg tr observed areas problems =
     map (\<lambda>(name, i, rec). \<lparr>cd_name = name, cd_info = None, cd_prev = rc_entry rec\<rparr>)
       (filter (\<lambda>(name, i, rec). unseen cfg tr observed areas problems name \<and> Live (rc_entry rec)) (tr_records tr))"

text \<open>Changes the hub has not acknowledged are reported again.\<close>

definition resent :: "tree_cfg \<Rightarrow> tree_root \<Rightarrow> (string \<times> finfo) list \<Rightarrow> string list \<Rightarrow> string list \<Rightarrow> change list" where
  "resent cfg tr observed areas problems =
     List.map_filter (\<lambda>x. case rec_at tr (fst x) of None \<Rightarrow> None
        | Some (i, rec) \<Rightarrow> if rc_sent rec then Some (change_of (fst x) rec) else None) (filter (as_recorded tr) observed) @
     List.map_filter (\<lambda>(name, i, rec). if unseen cfg tr observed areas problems name \<and> \<not> Live (rc_entry rec) \<and> rc_sent rec
        then Some (change_of name rec) else None) (tr_records tr)"

section \<open>Examining\<close>

text \<open>\<open>examine\<close>: the state of a changed path. \<open>link\<close> is what reading a link answers; \<open>opened\<close> what opening
  the file answers, its \<open>Stat\<close>, its content and its \<open>Stat\<close> once read.\<close>

definition examine :: "tree_cfg \<Rightarrow> int \<Rightarrow> string \<Rightarrow> finfo \<Rightarrow> entry \<Rightarrow> sync_error + string \<Rightarrow>
    sync_error + (finfo \<times> (sync_error + string) \<times> finfo) \<Rightarrow> tree_root \<Rightarrow> (sync_error + entry) \<times> tree_root" where
  "examine cfg now name info prev link opened tr =
     (case kindOf info of
        Some Dir \<Rightarrow> (Inr (gone_entry\<lparr>e_kind := Dir, e_mode := fileMode Dir (fi_mode info)\<rparr>), tr)
      | Some Symlink \<Rightarrow>
          (case link of
             Inl e \<Rightarrow> Inl errUnsettled
           | Inr target \<Rightarrow> if target = [] then Inl errUnsettled else Inr (gone_entry\<lparr>e_kind := Symlink, e_target := target\<rparr>), tr)
      | _ \<Rightarrow>
          if fi_size info > BulkSize \<and> tc_settle cfg > 0 \<and> now - fi_mtime info < tc_settle cfg then (Inl errUnsettled, tr)
          else let (ok, tr1) = settled cfg now name info tr
               in if \<not> ok then (Inl errUnsettled, tr1)
                  else (case opened of
                     Inl e \<Rightarrow> Inl e
                   | Inr (st1, body, st2) \<Rightarrow>
                       if fingerprintOf st1 \<noteq> fingerprintOf info then Inl errUnsettled
                       else (case body of
                          Inl e \<Rightarrow> Inl (if e = ErrOther ''EOF'' then errUnsettled else e)
                        | Inr data \<Rightarrow>
                            let grew = (e_kind prev = File \<and> e_size prev > 0 \<and> e_size prev < fi_size info);
                                e = \<lparr>e_kind = File, e_mode = fileMode File (fi_mode info), e_size = fi_size info,
                                     e_mtime = fi_mtime info, e_hash = hashOf data, e_target = [], e_grew = []\<rparr>
                            in if grew \<and> int (length data) < e_size prev then Inl errUnsettled
                               else if fingerprintOf st2 \<noteq> fingerprintOf info then Inl errUnsettled
                               else Inr (if grew \<and> hashOf (take (nat (e_size prev)) data) = e_hash prev
                                         then grownFrom e prev else e)), tr1))"

text \<open>The candidates examined, with their states; the others are scanned again or cannot be read.\<close>

type_synonym examined = "(candidate \<times> entry) list"

abbreviation exam_of :: "tree_cfg \<Rightarrow> int \<Rightarrow> (string \<Rightarrow> sync_error + string) \<Rightarrow>
    (string \<Rightarrow> sync_error + (finfo \<times> (sync_error + string) \<times> finfo)) \<Rightarrow> candidate \<Rightarrow> tree_root \<Rightarrow> (sync_error + entry) \<times> tree_root" where
  "exam_of cfg now link opened c \<equiv>
     examine cfg now (cd_name c) (the (cd_info c)) (cd_prev c) (link (cd_name c)) (opened (cd_name c))"

fun examine_all :: "(candidate \<Rightarrow> tree_root \<Rightarrow> (sync_error + entry) \<times> tree_root) \<Rightarrow> candidate list \<Rightarrow> tree_root \<Rightarrow>
    examined \<times> string list \<times> (string \<times> sync_error) list \<times> tree_root" where
  "examine_all exam [] tr = ([], [], [], tr)"
| "examine_all exam (c # cs) tr =
     (if cd_gone c then
        (let (ex, again, failed, tr1) = examine_all exam cs tr in ((c, gone_entry) # ex, again, failed, tr1))
      else case exam c tr of
        (Inr e, tr1) \<Rightarrow>
          (let (ex, again, failed, tr2) = examine_all exam cs tr1 in ((c, e) # ex, again, failed, tr2))
      | (Inl err, tr1) \<Rightarrow>
          (let (ex, again, failed, tr2) = examine_all exam cs tr1
           in if err = errUnsettled \<or> transient err then (ex, cd_name c # again, failed, tr2)
              else (ex, again, (cd_name c, err) # failed, tr2)))"

section \<open>Recording what changed\<close>

text \<open>\<open>now_at\<close> is what \<open>Lstat\<close> answers of each path at the end.\<close>

definition still_so :: "(string \<Rightarrow> sync_error + finfo) \<Rightarrow> candidate \<Rightarrow> bool" where
  "still_so now_at c \<longleftrightarrow>
     (case (cd_info c, now_at (cd_name c)) of
        (None, Inl e) \<Rightarrow> cannotExist e
      | (Some info, Inr cur) \<Rightarrow> fingerprintOf cur = fingerprintOf info
      | _ \<Rightarrow> False)"

definition found_record :: "tree_root \<Rightarrow> candidate \<Rightarrow> entry \<Rightarrow> srec" where
  "found_record tr c e =
     \<lparr>rc_rev = (case rec_at tr (cd_name c) of None \<Rightarrow> 0 | Some (i, rec) \<Rightarrow> rc_rev rec),
      rc_entry = (if cd_gone c then tombstone (cd_prev c) else e),
      rc_fp = (case cd_info c of None \<Rightarrow> no_fingerprint | Some info \<Rightarrow> fingerprintOf info),
      rc_sent = True, rc_made = False\<rparr>"

definition record_found :: "(string \<Rightarrow> sync_error + finfo) \<Rightarrow> candidate \<times> entry \<Rightarrow>
    change list \<times> string list \<times> tree_root \<Rightarrow> change list \<times> string list \<times> tree_root" where
  "record_found now_at ce st =
     (let (c, e) = ce; (changes, again, tr) = st; name = cd_name c
      in if \<not> still_so now_at c then (changes, again @ [name], tr)
         else case rec_at tr name of
           Some (i, rec) \<Rightarrow>
             if \<not> cd_gone c \<and> Same (rc_entry rec) e then
               (let fresh = rec\<lparr>rc_fp := (case cd_info c of None \<Rightarrow> no_fingerprint | Some info \<Rightarrow> fingerprintOf info)\<rparr>
                in (if rc_sent fresh then changes @ [change_of name fresh] else changes, again, putRecord name fresh tr))
             else if cd_gone c \<and> \<not> Live (rc_entry rec) then st
             else (changes @ [change_of name (found_record tr c e)], again, putRecord name (found_record tr c e) tr)
         | None \<Rightarrow>
             if cd_gone c then st
             else (changes @ [change_of name (found_record tr c e)], again, putRecord name (found_record tr c e) tr))"

definition note_failing :: "nat \<Rightarrow> (string \<Rightarrow> sync_error \<Rightarrow> string) \<Rightarrow> (string \<times> sync_error) list \<Rightarrow> string list \<Rightarrow>
    (string \<times> nat) list \<Rightarrow> (string \<times> nat) list" where
  "note_failing scan refusedAt failed areas failing =
     (let refused = map (\<lambda>(name, err). refusedAt name err) failed;
          marked = fold (\<lambda>at fs. AList.update at (max (case map_of fs at of None \<Rightarrow> 0 | Some n \<Rightarrow> n) scan) fs) refused failing
      in filter (\<lambda>(name, by_scan). name \<in> set refused \<or> \<not> inAny name areas \<or> \<not> by_scan < scan) marked)"

text \<open>The last part of a scan, under the lock again: the folder must still be the one opened, failing and
  settling paths are noted, and what was examined is recorded.\<close>

definition scan_finish :: "nat \<Rightarrow> string list \<Rightarrow> string list \<Rightarrow> (string \<Rightarrow> sync_error + finfo) \<Rightarrow>
    (string \<Rightarrow> sync_error \<Rightarrow> string) \<Rightarrow> (string \<times> sync_error) list \<Rightarrow> examined \<Rightarrow> change list \<Rightarrow> string list \<Rightarrow>
    tree_root \<Rightarrow> (sync_error + report \<times> string list) \<times> tree_root" where
  "scan_finish scan areas looked now_at refusedAt failed ex changes0 again0 tr =
     (if \<not> tr_there tr then (Inl ErrRootMoved, tr)
      else
        let tr1 = tr\<lparr>tr_failing := note_failing scan refusedAt failed areas (tr_failing tr),
              tr_settling := filter (\<lambda>(name, m). name \<in> set looked \<or> \<not> inAny name areas) (tr_settling tr)\<rparr>;
            (changes, again, tr2) = fold (record_found now_at) ex (changes0, again0, tr1)
        in (case commit_tree tr2 of
              (Some e, tr3) \<Rightarrow> (Inl e, tr3)
            | (None, tr3) \<Rightarrow> (Inr (\<lparr>rp_root = tr_name tr, rp_epoch = tr_epoch tr3, rp_changes = sortChanges changes\<rparr>, again), tr3)))"

text \<open>One scan. \<open>walk\<close> is what the walk of the areas gives: what it observed, its problems, the paths to
  scan again, and the paths it cannot read; \<open>link\<close> and \<open>opened\<close> what reading each path gives. \<open>meanwhile\<close> is what happens between the two looks at the
  records.\<close>

definition Scan :: "tree_cfg \<Rightarrow> string list \<Rightarrow>
    (string \<times> finfo) list \<times> string list \<times> string list \<times> (string \<times> sync_error) list \<Rightarrow>
    int \<Rightarrow> (string \<Rightarrow> sync_error + string) \<Rightarrow> (string \<Rightarrow> sync_error + (finfo \<times> (sync_error + string) \<times> finfo)) \<Rightarrow>
    (tree_root \<Rightarrow> tree_root) \<Rightarrow> (string \<Rightarrow> sync_error + finfo) \<Rightarrow> (string \<Rightarrow> sync_error \<Rightarrow> string) \<Rightarrow> tree_root \<Rightarrow>
    (sync_error + report \<times> string list) \<times> tree_root" where
  "Scan cfg areas walk now link opened meanwhile now_at refusedAt tr =
     (if tr_closed tr then (Inl ErrClosed, tr)
      else if \<not> tr_there tr then (Inl ErrRootMoved, tr)
      else
        let tr0 = tr\<lparr>tr_scans := tr_scans tr + 1\<rparr>; scan = tr_scans tr0;
            (observed, problems, again0, failed0) = walk;
            cands = seen_cands tr0 observed @ gone_cands cfg tr0 observed areas problems;
            (ex, again1, failed1, tr1) = examine_all (exam_of cfg now link opened) cands tr0
        in scan_finish scan areas (map cd_name (filter (\<lambda>c. \<not> cd_gone c) cands)) now_at refusedAt (failed0 @ failed1) ex
             (resent cfg tr0 observed areas problems) (again0 @ again1) (meanwhile tr1))"

end
