(* ===== verification/SideTree.thy ===== *)
theory SideTree
  imports TreeScan
begin

text \<open>
  A side's tree (\<open>internal/sharesync/tree.go\<close>): its roots under their names, opened and closed together.
  Each operation finds its root and hands on to it.
\<close>

record side_tree =
  tt_roots :: "(string \<times> tree_root) list"
  tt_closed :: bool

abbreviation no_such_root :: "string \<Rightarrow> sync_error" where
  "no_such_root root \<equiv> ErrOther (''sharesync: no root '' @ root)"

fun open_tree_roots :: "tree_cfg \<Rightarrow> (sync_error option \<times> tree_root \<times> tree_record journal) list \<Rightarrow>
    (string \<times> tree_root) list \<Rightarrow> sync_error + (string \<times> tree_root) list" where
  "open_tree_roots cfg [] opened = Inr opened"
| "open_tree_roots cfg ((failed, spec, j) # specs) opened =
     (case openRoot cfg (map fst opened) failed spec j of
        Inl e \<Rightarrow> Inl e
      | Inr tr \<Rightarrow> open_tree_roots cfg specs (opened @ [(tr_name spec, tr)]))"

definition OpenTree :: "tree_cfg \<Rightarrow> string \<Rightarrow> (sync_error option \<times> tree_root \<times> tree_record journal) list \<Rightarrow> sync_error + side_tree" where
  "OpenTree cfg stateDir specs =
     (if stateDir = [] then Inl (ErrOther ''sharesync: tree needs a state directory'')
      else case open_tree_roots (cfg\<lparr>tc_table := if tc_table cfg = [] then defaultRoots else tc_table cfg,
             tc_settle := if tc_settle cfg = 0 then 1000000000 else tc_settle cfg,
             tc_mergeSettle := if tc_mergeSettle cfg = 0 then 100000000 else tc_mergeSettle cfg,
             tc_fullReason := if tc_fullReason cfg = [] then ''disk full'' else tc_fullReason cfg\<rparr>) specs [] of
        Inl e \<Rightarrow> Inl e
      | Inr roots \<Rightarrow> Inr \<lparr>tt_roots = roots, tt_closed = False\<rparr>)"

definition tree_Roots :: "side_tree \<Rightarrow> string list" where
  "tree_Roots t = map fst (tt_roots t)"

text \<open>\<open>Close\<close> answers all the errors it met, joined.\<close>

definition tree_Close :: "side_tree \<Rightarrow> sync_error list \<times> side_tree" where
  "tree_Close t =
     (if tt_closed t then ([], t)
      else let closed = map (\<lambda>(name, tr). (name, Close_root tr)) (tt_roots t)
           in (List.map_filter (\<lambda>(name, e, tr). e) closed,
               \<lparr>tt_roots = map (\<lambda>(name, e, tr). (name, tr)) closed, tt_closed = True\<rparr>))"

definition tree_Hello :: "side_tree \<Rightarrow> hello" where
  "tree_Hello t = (if tt_closed t then [] else map (\<lambda>(name, tr). Hello_root tr) (tt_roots t))"

definition on_root :: "string \<Rightarrow> (tree_root \<Rightarrow> 'a \<times> tree_root) \<Rightarrow> (sync_error \<Rightarrow> 'a) \<Rightarrow> side_tree \<Rightarrow> 'a \<times> side_tree" where
  "on_root root f fail t =
     (if tt_closed t then (fail ErrClosed, t)
      else case map_of (tt_roots t) root of
        None \<Rightarrow> (fail (no_such_root root), t)
      | Some tr \<Rightarrow> (let (r, tr1) = f tr in (r, t\<lparr>tt_roots := AList.update root tr1 (tt_roots t)\<rparr>)))"

text \<open>The epochs of a welcome, in the order the map gives them.\<close>

fun tree_Welcome :: "welcome_msg \<Rightarrow> side_tree \<Rightarrow> sync_error option \<times> side_tree" where
  "tree_Welcome [] t = (if tt_closed t then Some ErrClosed else None, t)"
| "tree_Welcome ((root, epoch) # rest) t =
     (if tt_closed t then (Some ErrClosed, t)
      else if map_of (tt_roots t) root = None then tree_Welcome rest t
      else case on_root root (adopt epoch False) Some t of
        (Some e, t1) \<Rightarrow> (Some e, t1)
      | (None, t1) \<Rightarrow> tree_Welcome rest t1)"

definition tree_Acked :: "string \<Rightarrow> reply \<Rightarrow> side_tree \<Rightarrow> sync_error option \<times> side_tree" where
  "tree_Acked root ry = on_root root (Acked ry) Some"

definition tree_Apply :: "tree_cfg \<Rightarrow> (nat \<Rightarrow> nat \<Rightarrow> tree_root \<Rightarrow> tree_root) \<Rightarrow> (nat \<Rightarrow> sync_error option) \<Rightarrow>
    (sync_op \<Rightarrow> (int \<Rightarrow> sync_error + string) option) \<Rightarrow> batch \<Rightarrow> side_tree \<Rightarrow> (sync_error + op_result list) \<times> side_tree" where
  "tree_Apply cfg others ctx content b t =
     (if \<not> tt_closed t \<and> map_of (tt_roots t) (b_root b) = None then
        (Inr (map (\<lambda>op. \<lparr>rs_path = op_path op, rs_rev = op_rev op, rs_status = Refused, rs_reason = ''not a root of this side''\<rparr>) (b_ops b)), t)
      else on_root (b_root b) (Apply cfg others ctx content b) Inl t)"

definition tree_Fetch :: "string \<Rightarrow> string \<Rightarrow> entry \<Rightarrow> int \<Rightarrow> (node \<Rightarrow> string \<times> finfo) \<Rightarrow> side_tree \<Rightarrow> (sync_error + string) \<times> side_tree" where
  "tree_Fetch root name e offset reading = on_root root (Fetch name e offset reading) Inl"

definition tree_settling :: "string \<Rightarrow> side_tree \<Rightarrow> string list" where
  "tree_settling root t =
     (if tt_closed t then [] else case map_of (tt_roots t) root of None \<Rightarrow> [] | Some tr \<Rightarrow> map fst (tr_settling tr))"

text \<open>A scan of some paths: the areas it comes to, the walk of each, and what the scan makes of it.\<close>

definition tree_Scan :: "tree_cfg \<Rightarrow> string \<Rightarrow> string list \<Rightarrow> (string \<Rightarrow> bool) \<Rightarrow> (string \<Rightarrow> walk_event list) \<Rightarrow>
    int \<Rightarrow> (string \<Rightarrow> sync_error + string) \<Rightarrow> (string \<Rightarrow> sync_error + (finfo \<times> (sync_error + string) \<times> finfo)) \<Rightarrow>
    (tree_root \<Rightarrow> tree_root) \<Rightarrow> (string \<Rightarrow> sync_error + finfo) \<Rightarrow> (sync_error \<Rightarrow> string option) \<Rightarrow> side_tree \<Rightarrow>
    (sync_error + report \<times> string list) \<times> side_tree" where
  "tree_Scan cfg root paths missing events now link opened meanwhile now_at pe_path =
     on_root root (\<lambda>tr.
       let areas = reach missing (cover paths); w = walk_areas cfg tr events areas
       in Scan cfg areas (wk_observed w, wk_problems w, wk_again w, wk_failed w) now link opened meanwhile now_at (refused_at pe_path) tr) Inl"

section \<open>What a scan covers\<close>

lemma cover_kept_grows: "set kept \<subseteq> set (cover_kept kept ps)"
  by (induction kept ps rule: cover_kept.induct) auto

lemma within_simps [simp]: "within p p" "within p ''.''" by (simp_all add: within_def)

lemma within_trans: "within p a \<Longrightarrow> within a b \<Longrightarrow> within p b"
  by (auto simp: within_def prefix_def Cons_eq_append_conv)

lemma cover_kept_covers: "p \<in> set ps \<Longrightarrow> \<exists>k \<in> set (cover_kept kept ps). within p k"
proof (induction kept ps rule: cover_kept.induct)
  case (2 kept q ps)
  show ?case
  proof (cases "p = q")
    case True
    show ?thesis
    proof (cases "kept \<noteq> [] \<and> within q (last kept)")
      case True
      then have "last kept \<in> set (cover_kept kept ps)" using cover_kept_grows [of kept ps] by auto
      with True \<open>p = q\<close> show ?thesis by auto
    next
      case False
      then have "q \<in> set (cover_kept (kept @ [q]) ps)" using cover_kept_grows [of "kept @ [q]" ps] by auto
      with False \<open>p = q\<close> show ?thesis by (auto intro!: bexI [of _ q])
    qed
  qed (use 2 in auto)
qed simp

lemma cover_covers: "p \<in> set paths \<Longrightarrow> validPath (Clean p) \<Longrightarrow> inAny (Clean p) (cover paths)"
proof -
  assume p: "p \<in> set paths" "validPath (Clean p)"
  show ?thesis
  proof (cases "list_ex (\<lambda>p. p = ''.'' \<or> p = []) (map Clean paths)")
    case True
    then show ?thesis by (simp add: cover_def Let_def inAny_def within_def)
  next
    case False
    let ?out = "filter validPath (map Clean paths)"
    have "Clean p \<in> set (SortFunc (\<le>) ?out)" using p by auto
    from cover_kept_covers [OF this, of "[]"] False p show ?thesis
      by (auto simp: cover_def Let_def inAny_def list_ex_iff)
  qed
qed


lemma cover_valid: "a \<in> set (cover paths) \<Longrightarrow> a = ''.'' \<or> validPath a"
proof -
  have "set (cover_kept kept ps) \<subseteq> set kept \<union> set ps" for kept ps
    by (induction kept ps rule: cover_kept.induct) auto
  from this [of "[]" "SortFunc (\<le>) (filter validPath (map Clean paths))"]
  show "a \<in> set (cover paths) \<Longrightarrow> a = ''.'' \<or> validPath a" by (auto simp: cover_def Let_def split: if_splits)
qed

lemma validPath_within: "validPath a \<Longrightarrow> path_Dir a = ''.'' \<or> validPath (path_Dir a) \<and> within a (path_Dir a)"
  using validPath_Dir [of a] path_Dir_split [OF validPath_elems, of a] by (auto simp: within_def prefix_def)

lemma reach_up_covers: "a = ''.'' \<or> validPath a \<Longrightarrow>
    (reach_up n missing a = ''.'' \<or> validPath (reach_up n missing a)) \<and> within a (reach_up n missing a)"
proof (induction n arbitrary: a)
  case (Suc n)
  have "within a (path_Dir a)" "path_Dir a = ''.'' \<or> validPath (path_Dir a)" if "validPath a"
    using validPath_within [OF that] by auto
  with Suc.IH [of "path_Dir a"] Suc.prems within_trans [of a "path_Dir a"] show ?case by auto
qed simp

lemma Clean_dot: "Clean ''.'' = ''.''" by code_simp

lemma cover_dot: "''.'' \<in> set ps \<Longrightarrow> cover ps = [''.'']"
  using Clean_dot by (force simp: cover_def Let_def list_ex_iff)

text \<open>A scan of some paths looks at every one of them. Whatever is gone on the way, each valid path
  given is one of the areas scanned or below one, so what made it unreachable is in an area too.\<close>

theorem scan_areas_cover:
  "p \<in> set paths \<Longrightarrow> validPath (Clean p) \<Longrightarrow> inAny (Clean p) (reach missing (cover paths))"
proof -
  assume p: "p \<in> set paths" "validPath (Clean p)"
  from cover_covers [OF p] obtain a where a: "a \<in> set (cover paths)" "within (Clean p) a" by (auto simp: inAny_def list_ex_iff)
  let ?f = "\<lambda>a. reach_up (length a + 1) missing a"
  note u = reach_up_covers [OF cover_valid [OF a(1)], of "length a + 1" missing]
  show ?thesis
  proof (cases "?f a = ''.''")
    case True
    have "?f a \<in> set (map ?f (cover paths))" unfolding set_map by (rule imageI [OF a(1)])
    then have "''.'' \<in> set (map ?f (cover paths))" unfolding True .
    from cover_dot [OF this] show ?thesis by (simp add: reach_def inAny_def)
  next
    case False
    with u have v: "validPath (?f a)" by blast
    then have "Clean (?f a) = ?f a" by (simp add: Clean_valid validPath_elems)
    with cover_covers [of "?f a" "map ?f (cover paths)"] a(1) v have "inAny (?f a) (reach missing (cover paths))"
      by (simp add: reach_def)
    with u a(2) show ?thesis by (auto simp: inAny_def list_ex_iff intro: within_trans)
  qed
qed


theorem scan_areas_cover_witness: "inAny ''a/b'' (reach (\<lambda>p. p = ''a/b'') (cover [''x'', ''./a/b'']))"
proof -
  have "''./a/b'' \<in> set [''x'', ''./a/b'']" "validPath (Clean ''./a/b'')" "Clean ''./a/b'' = ''a/b''" by code_simp+
  with scan_areas_cover [of "''./a/b''" "[''x'', ''./a/b'']" "\<lambda>p. p = ''a/b''"] show ?thesis by simp
qed

text \<open>The areas are not always the shortest: a path whose name sorts between a folder and what is below
  it hides the folder from the comparison with the area kept last.\<close>

lemma cover_not_shortest:
  "cover [''a'', ''a-b'', ''a/b''] = [''a'', ''a-b'', ''a/b''] \<and> within ''a/b'' ''a''"
  by code_simp

end
