(* ===== verification/TreeReport.thy ===== *)
theory TreeReport
  imports SideTree
begin

text \<open>
  What a side tells the hub: a scan reports everything it found changed, a change made after a report
  survives its answer, and what a side says it holds passes the hub's checks.
\<close>

section \<open>Records\<close>

lemma rec_at_put [simp]:
  "rec_at (putRecord p rec tr) q = (if q = p then Some (tr_alloc tr, rec) else rec_at tr q)"
  by (simp add: putRecord_def)

lemma rec_at_drop [simp]: "rec_at (dropRecord p tr) q = (if q = p then None else rec_at tr q)"
  by (simp add: dropRecord_def)

text \<open>Writing the journal leaves everything else of the root as it is.\<close>

definition desk :: "tree_root \<Rightarrow> tree_root" where
  "desk tr = tr\<lparr>tr_journal := undefined, tr_io := undefined, tr_snapIo := undefined\<rparr>"

lemma desk_fields:
  assumes "desk tr = desk tr'"
  shows "tr_records tr = tr_records tr'" "tr_disk tr = tr_disk tr'" "tr_name tr = tr_name tr'" "tr_skip tr = tr_skip tr'"
    "tr_only tr = tr_only tr'" "tr_readOnly tr = tr_readOnly tr'" "tr_epoch tr = tr_epoch tr'" "tr_alloc tr = tr_alloc tr'"
    "tr_there tr = tr_there tr'" "tr_closed tr = tr_closed tr'"
  using assms by (cases tr; cases tr'; simp add: desk_def)+

lemma desk_compact: "desk (snd (compact_tree tr)) = desk tr"
  by (auto simp: compact_tree_def next_tree_write_def next_tree_snap_def desk_def Let_def split: prod.splits list.splits)

lemma desk_commit: "desk (snd (commit_tree tr)) = desk tr"
  using desk_compact
  by (auto simp: commit_tree_def next_tree_write_def desk_def Let_def split: prod.splits list.splits)

lemmas commit_fields = desk_fields [OF desk_commit]

section \<open>Answers\<close>

lemma adopt_record:
  assumes "adopt epoch uns tr = (e, tr')" "rec_at tr p = Some (i, rec)" "distinct (map fst (tr_records tr))"
  shows "\<exists>i' rec'. rec_at tr' p = Some (i', rec') \<and> rc_entry rec' = rc_entry rec \<and> rc_fp rec' = rc_fp rec \<and>
    rc_made rec' = rc_made rec \<and> (rc_sent rec \<longrightarrow> rc_sent rec')"
proof (cases "epoch = [] \<or> epoch = tr_epoch tr")
  case True
  with assms show ?thesis by (simp add: adopt_def)
next
  case False
  let ?f = "\<lambda>(p, i, rec). putRecord p (rec\<lparr>rc_rev := 0, rc_sent := rc_sent rec \<or> uns \<and> Live (rc_entry rec)\<rparr>)"
  have other: "p \<notin> fst ` set xs \<Longrightarrow> rec_at (fold ?f xs t) p = rec_at t p" for xs t
    by (induction xs arbitrary: t) auto
  have "\<exists>i'. rec_at (fold ?f xs t) p = Some (i', rec\<lparr>rc_rev := 0, rc_sent := rc_sent rec \<or> uns \<and> Live (rc_entry rec)\<rparr>)"
    if "map_of xs p = Some (i, rec)" "distinct (map fst xs)" for xs t
    using that
  proof (induction xs arbitrary: t)
    case (Cons x xs)
    show ?case
    proof (cases "fst x = p")
      case True
      with Cons.prems have "x = (p, i, rec)" "p \<notin> fst ` set xs" by (cases x; auto)+
      then show ?thesis by (simp add: other)
    next
      case False
      with Cons show ?thesis by (cases x) auto
    qed
  qed simp
  from this [OF assms(2,3), of "tr\<lparr>tr_epoch := epoch\<rparr>"] obtain i' where
    "rec_at (fold ?f (tr_records tr) (tr\<lparr>tr_epoch := epoch\<rparr>)) p =
      Some (i', rec\<lparr>rc_rev := 0, rc_sent := rc_sent rec \<or> uns \<and> Live (rc_entry rec)\<rparr>)" by blast
  moreover have "tr_records tr' = tr_records (fold ?f (tr_records tr) (tr\<lparr>tr_epoch := epoch\<rparr>))"
    using False assms(1) by (auto simp: adopt_def tree_putMeta_def commit_fields dest!: arg_cong [where f = snd])
  ultimately show ?thesis using False by simp
qed

text \<open>A record that is still a change to report, with the same state.\<close>

definition still_sent :: "tree_root \<Rightarrow> string \<Rightarrow> srec \<Rightarrow> bool" where
  "still_sent tr p rec \<longleftrightarrow> (\<exists>i rec'. rec_at tr p = Some (i, rec') \<and> rc_sent rec' \<and> rc_entry rec' = rc_entry rec \<and> rc_fp rec' = rc_fp rec)"

lemma ack_keeps:
  assumes "still_sent tr p rec" "a_path a = p \<longrightarrow> \<not> Same (rc_entry rec) (a_entry a)"
  shows "still_sent (ack_record a tr) p rec"
proof (cases "a_path a = p")
  case True
  with assms show ?thesis
    by (cases "a_status a") (auto simp: ack_record_def still_sent_def Let_def)
next
  case False
  then have "rec_at (ack_record a tr) p = rec_at tr p"
    by (auto simp: ack_record_def Let_def split: option.splits ack_status.splits)
  with assms(1) show ?thesis by (simp add: still_sent_def)
qed

lemma acks_keep:
  "still_sent tr p rec \<Longrightarrow> \<forall>a \<in> set as. a_path a = p \<longrightarrow> \<not> Same (rc_entry rec) (a_entry a) \<Longrightarrow>
   still_sent (fold ack_record as tr) p rec"
  by (induction as arbitrary: tr) (simp_all add: ack_keeps)

text \<open>C18: a change made after a report survives its answer. Unless the hub answered for the very state
  the side now has at a path, the path stays marked as a change the hub has not seen, with the same
  state, whatever the answers say and even when the hub turned out to be a new one.\<close>

theorem answer_keeps_newer_change:
  assumes "rec_at tr p = Some (i, rec)" "rc_sent rec" "distinct (map fst (tr_records tr))"
    and "\<forall>a \<in> set (ry_acks ry). a_path a = p \<longrightarrow> \<not> Same (rc_entry rec) (a_entry a)"
    and "Acked ry tr = (err, tr')"
  shows "\<exists>i' rec'. rec_at tr' p = Some (i', rec') \<and> rc_sent rec' \<and> rc_entry rec' = rc_entry rec \<and> rc_fp rec' = rc_fp rec"
proof -
  obtain e tr1 where a: "adopt (ry_epoch ry) True tr = (e, tr1)" by fastforce
  have s1: "still_sent tr1 p rec" using adopt_record [OF a assms(1,3)] assms(2) by (auto simp: still_sent_def)
  show ?thesis
  proof (cases e)
    case None
    have "tr_records tr' = tr_records (fold ack_record (ry_acks ry) tr1)"
      using assms(5) a None commit_fields(1) [of "fold ack_record (ry_acks ry) tr1"] by (simp add: Acked_def)
    with acks_keep [OF s1 assms(4)] show ?thesis by (simp add: still_sent_def)
  next
    case (Some x)
    with assms(5) a s1 show ?thesis by (auto simp: Acked_def still_sent_def)
  qed
qed

section \<open>Attaching\<close>

definition records_valid :: "tree_root \<Rightarrow> bool" where
  "records_valid tr \<longleftrightarrow> distinct (map fst (tr_records tr)) \<and>
     (\<forall>(p, i, rec) \<in> set (tr_records tr). validPath p \<and> check (rc_entry rec) = None)"

section \<open>Scanning\<close>

lemma settled_records [simp]:
  "tr_records (snd (settled cfg now name info tr)) = tr_records tr"
  by (auto simp: settled_def Let_def split: option.split)

lemma examine_records [simp]:
  "tr_records (snd (examine cfg now name info prev link opened tr)) = tr_records tr"
proof -
  obtain ok tr1 where s: "settled cfg now name info tr = (ok, tr1)" by fastforce
  have "tr_records tr1 = tr_records tr" using settled_records [of cfg now name info tr] by (simp add: s)
  then show ?thesis by (auto simp: examine_def s split: option.split kind.split)
qed

lemma examine_recordsD:
  "examine cfg now name info prev link opened tr = (r, tr') \<Longrightarrow> tr_records tr' = tr_records tr"
  using examine_records [of cfg now name info prev link opened tr] by simp

lemma examine_all_records:
  "examine_all (exam_of cfg now link opened) cs tr = (ex, again, failed, tr') \<Longrightarrow> tr_records tr' = tr_records tr"
proof (induction cs arbitrary: tr ex again failed)
  case (Cons c cs)
  then show ?case
    by (auto simp: Let_def split: if_split_asm sum.split_asm prod.split_asm dest!: examine_recordsD)
qed simp

lemma examine_all_names:
  assumes "examine_all exam cs tr = (ex, again, failed, tr')"
  shows "set (map fst ex) \<subseteq> set cs \<and> (distinct (map cd_name cs) \<longrightarrow> distinct (map (cd_name \<circ> fst) ex)) \<and>
    (\<forall>c \<in> set cs. c \<in> fst ` set ex \<or> \<not> cd_gone c \<and> (cd_name c \<in> set again \<or> (\<exists>err. (cd_name c, err) \<in> set failed)))"
  using assms
proof (induction cs arbitrary: tr tr' ex again failed)
  case (Cons c cs)
  obtain ex1 again1 failed1 tr1 where r: "examine_all exam cs (if cd_gone c then tr else snd (exam c tr)) = (ex1, again1, failed1, tr1)"
    by (metis prod_cases4)
  note IH = Cons.IH [OF r]
  have n: "cd_name c \<notin> set (map cd_name cs) \<Longrightarrow> cd_name c \<notin> set (map (cd_name \<circ> fst) ex1)"
    using IH by auto
  consider (gone) "cd_gone c" "ex = (c, gone_entry) # ex1" "again = again1" "failed = failed1"
    | (ok) e where "\<not> cd_gone c" "ex = (c, e) # ex1" "again = again1" "failed = failed1"
    | (again) "\<not> cd_gone c" "ex = ex1" "again = cd_name c # again1" "failed = failed1"
    | (failed) err where "\<not> cd_gone c" "ex = ex1" "again = again1" "failed = (cd_name c, err) # failed1"
    using Cons.prems r by (auto simp: Let_def split: if_split_asm sum.split_asm prod.split_asm)
  then show ?case
  proof cases
    case gone
    then show ?thesis using IH n by auto
  next
    case ok
    then show ?thesis using IH n by auto
  next
    case again
    then show ?thesis using IH by auto
  next
    case failed
    then show ?thesis using IH by auto
  qed
qed simp

text \<open>What a scan leaves of a path: the path is scanned again, or its record is what was seen of it and a
  record the hub has not acknowledged is among the changes.\<close>

definition taken :: "string \<Rightarrow> finfo option \<Rightarrow> change list \<times> string list \<times> tree_root \<Rightarrow> bool" where
  "taken name info st \<longleftrightarrow> (let (changes, again, tr) = st in name \<in> set again \<or>
     (\<exists>i rec. rec_at tr name = Some (i, rec) \<and> (rc_sent rec \<longrightarrow> change_of name rec \<in> set changes) \<and>
        (case info of Some x \<Rightarrow> rc_fp rec = fingerprintOf x | None \<Rightarrow> \<not> Live (rc_entry rec) \<and> rc_sent rec)))"

lemma tombstone_gone [simp]: "\<not> Live (tombstone e)" by (simp add: tombstone_def Live_def gone_entry_def)

lemma record_found_takes:
  assumes "cd_gone c \<longrightarrow> (\<exists>i rec. rec_at (snd (snd st)) (cd_name c) = Some (i, rec) \<and> Live (rc_entry rec))"
  shows "taken (cd_name c) (cd_info c) (record_found now_at (c, e) st)"
proof -
  obtain changes again tr where st: "st = (changes, again, tr)" by (cases st)
  show ?thesis
    using assms
    by (auto simp: st record_found_def taken_def Let_def found_record_def split: option.splits)
qed

lemma record_found_other:
  assumes "cd_name c \<noteq> name"
  shows "rec_at (snd (snd (record_found now_at (c, e) st))) name = rec_at (snd (snd st)) name \<and>
    set (fst st) \<subseteq> set (fst (record_found now_at (c, e) st)) \<and>
    set (fst (snd st)) \<subseteq> set (fst (snd (record_found now_at (c, e) st)))"
  using assms by (cases st) (auto simp: record_found_def Let_def split: option.splits)

lemma taken_other: "cd_name c \<noteq> name \<Longrightarrow> taken name info st \<Longrightarrow> taken name info (record_found now_at (c, e) st)"
  using record_found_other [of c name now_at e st]
  by (cases st; cases "record_found now_at (c, e) st") (auto simp: taken_def)

lemma fold_other:
  "name \<notin> set (map (cd_name \<circ> fst) ex) \<Longrightarrow>
   rec_at (snd (snd (fold (record_found now_at) ex st))) name = rec_at (snd (snd st)) name \<and>
   set (fst st) \<subseteq> set (fst (fold (record_found now_at) ex st)) \<and>
   set (fst (snd st)) \<subseteq> set (fst (snd (fold (record_found now_at) ex st))) \<and>
   (taken name info st \<longrightarrow> taken name info (fold (record_found now_at) ex st))"
proof (induction ex arbitrary: st)
  case (Cons x ex)
  obtain c e where x: "x = (c, e)" by fastforce
  with Cons.prems have n: "cd_name c \<noteq> name" "name \<notin> set (map (cd_name \<circ> fst) ex)" by auto
  from Cons.IH [OF n(2), of "record_found now_at x st"] record_found_other [OF n(1), of now_at e st] taken_other [OF n(1), of info st now_at e]
  show ?case by (auto simp: x)
qed simp

lemma fold_takes:
  assumes "distinct (map (cd_name \<circ> fst) ex)" "c \<in> fst ` set ex"
    and "cd_gone c \<longrightarrow> (\<exists>i rec. rec_at (snd (snd st)) (cd_name c) = Some (i, rec) \<and> Live (rc_entry rec))"
  shows "taken (cd_name c) (cd_info c) (fold (record_found now_at) ex st)"
proof -
  from assms(2) obtain e where "(c, e) \<in> set ex" by auto
  then obtain ys zs where ex: "ex = ys @ (c, e) # zs" by (meson split_list)
  with assms(1) have n: "cd_name c \<notin> set (map (cd_name \<circ> fst) ys)" "cd_name c \<notin> set (map (cd_name \<circ> fst) zs)" by auto
  let ?st = "fold (record_found now_at) ys st"
  have "taken (cd_name c) (cd_info c) (record_found now_at (c, e) ?st)"
    by (rule record_found_takes) (use assms(3) fold_other [OF n(1), of now_at st] in simp)
  then show ?thesis using fold_other [OF n(2), of now_at "record_found now_at (c, e) ?st" "cd_info c"] by (simp add: ex)
qed

lemma failing_noted:
  assumes "(name, err) \<in> set failed"
  shows "refusedAt name err \<in> fst ` set (note_failing scan refusedAt failed areas failing)"
proof -
  let ?f = "\<lambda>at fs. AList.update at (max (case map_of fs at of None \<Rightarrow> 0 | Some n \<Rightarrow> n) scan) fs"
  have grow: "fst ` set fs \<subseteq> fst ` set (fold ?f rs fs)" for rs fs
  proof (induction rs arbitrary: fs)
    case (Cons r rs)
    from Cons.IH [of "?f r fs"] show ?case by (auto simp: dom_update)
  qed simp
  have "r \<in> set rs \<Longrightarrow> r \<in> fst ` set (fold ?f rs fs)" for r rs fs
  proof (induction rs arbitrary: fs)
    case (Cons x rs)
    show ?case
    proof (cases "r \<in> set rs")
      case False
      with Cons.prems have "r \<in> fst ` set (?f r fs)" "x = r" by (simp_all add: dom_update)
      with grow [of "?f r fs" rs] show ?thesis by auto
    qed (simp add: Cons.IH)
  qed simp
  from this [of "refusedAt name err"] assms show ?thesis
    unfolding note_failing_def Let_def by (force simp: image_iff)
qed

lemma sorted_changes [simp]: "set (sortChanges cs) = set cs"
  by (simp add: sortChanges_def)

lemma in_map_filter: "x \<in> set xs \<Longrightarrow> f x = Some y \<Longrightarrow> y \<in> set (List.map_filter f xs)"
  by (induction xs) (auto simp: map_filter_simps split: option.split)

lemma resent_seen:
  assumes "(name, info) \<in> set observed" "as_recorded tr (name, info)" "rec_at tr name = Some (i, rec)" "rc_sent rec"
  shows "change_of name rec \<in> set (resent cfg tr observed areas problems)"
  unfolding resent_def set_append
  by (rule UnI1, rule in_map_filter [of "(name, info)"]) (use assms in simp_all)

lemma resent_unseen:
  assumes "unseen cfg tr observed areas problems name" "rec_at tr name = Some (i, rec)" "\<not> Live (rc_entry rec)" "rc_sent rec"
  shows "change_of name rec \<in> set (resent cfg tr observed areas problems)"
  unfolding resent_def set_append
  by (rule UnI2, rule in_map_filter [OF map_of_SomeD [OF assms(2)]]) (use assms in simp)

lemma cands_distinct:
  assumes "distinct (map fst observed)" "distinct (map fst (tr_records tr))"
  shows "distinct (map cd_name (seen_cands tr observed @ gone_cands cfg tr observed areas problems))"
proof -
  have "map cd_name (seen_cands tr observed) = map fst (filter (\<lambda>x. \<not> as_recorded tr x) observed)"
    by (simp add: seen_cands_def case_prod_beta comp_def)
  moreover have "map cd_name (gone_cands cfg tr observed areas problems) =
      map fst (filter (\<lambda>(name, i, rec). unseen cfg tr observed areas problems name \<and> Live (rc_entry rec)) (tr_records tr))"
    by (simp add: gone_cands_def case_prod_beta comp_def)
  ultimately show ?thesis
    using assms by (auto simp: distinct_map_filter unseen_def map_of_eq_None_iff image_iff)
qed

lemma record_found_failing [simp]: "tr_failing (snd (snd (record_found now_at ce st))) = tr_failing (snd (snd st))"
  by (cases st; cases ce) (auto simp: record_found_def putRecord_def Let_def split: option.splits)

lemma fold_failing: "tr_failing (snd (snd (fold (record_found now_at) ex st))) = tr_failing (snd (snd st))"
  by (induction ex arbitrary: st) simp_all

lemma fold_grows:
  "set (fst st) \<subseteq> set (fst (fold (record_found now_at) ex st)) \<and> set (fst (snd st)) \<subseteq> set (fst (snd (fold (record_found now_at) ex st)))"
proof (induction ex arbitrary: st)
  case (Cons x ex)
  have "set (fst st) \<subseteq> set (fst (record_found now_at x st)) \<and> set (fst (snd st)) \<subseteq> set (fst (snd (record_found now_at x st)))"
    by (cases st; cases x) (auto simp: record_found_def Let_def split: option.splits)
  with Cons.IH [of "record_found now_at x st"] show ?case by auto
qed simp

lemma scan_finish_cases:
  assumes "scan_finish scan areas looked now_at refusedAt failed ex changes0 again0 tr = (Inr (rep, again), tr')"
  shows "\<exists>tr2 changes tr3. tr_records tr2 = tr_records tr \<and>
    (\<forall>name err. (name, err) \<in> set failed \<longrightarrow> refusedAt name err \<in> fst ` set (tr_failing tr2)) \<and>
    fold (record_found now_at) ex (changes0, again0, tr2) = (changes, again, tr3) \<and>
    tr_records tr' = tr_records tr3 \<and> tr_failing tr' = tr_failing tr2 \<and> set (rp_changes rep) = set changes"
proof -
  let ?tr2 = "tr\<lparr>tr_failing := note_failing scan refusedAt failed areas (tr_failing tr),
      tr_settling := filter (\<lambda>(name, m). name \<in> set looked \<or> \<not> inAny name areas) (tr_settling tr)\<rparr>"
  obtain changes ag tr3 where run: "fold (record_found now_at) ex (changes0, again0, ?tr2) = (changes, ag, tr3)"
    by (cases "fold (record_found now_at) ex (changes0, again0, ?tr2)")
  obtain tr4 where c: "commit_tree tr3 = (None, tr4)" "tr' = tr4" "ag = again" "rp_changes rep = sortChanges changes"
    using assms run by (auto simp: scan_finish_def Let_def split: if_split_asm prod.split_asm option.split_asm)
  have "tr_records tr4 = tr_records tr3" "tr_failing tr4 = tr_failing tr3"
    using desk_commit [of tr3] c(1) by (cases tr3; cases tr4; simp add: desk_def)+
  moreover have "tr_failing tr3 = tr_failing ?tr2" using fold_failing [of now_at ex "(changes0, again0, ?tr2)"] run by simp
  ultimately show ?thesis using run c failing_noted by (intro exI [of _ ?tr2]) auto
qed

abbreviation cands_of :: "tree_cfg \<Rightarrow> tree_root \<Rightarrow> (string \<times> finfo) list \<Rightarrow> string list \<Rightarrow> string list \<Rightarrow> candidate list" where
  "cands_of cfg tr observed areas problems \<equiv> seen_cands tr observed @ gone_cands cfg tr observed areas problems"

lemma scans_irrelevant:
  "seen_cands (tr\<lparr>tr_scans := n\<rparr>) observed = seen_cands tr observed"
  "gone_cands cfg (tr\<lparr>tr_scans := n\<rparr>) observed areas problems = gone_cands cfg tr observed areas problems"
  "resent cfg (tr\<lparr>tr_scans := n\<rparr>) observed areas problems = resent cfg tr observed areas problems"
proof -
  have s: "synced cfg (tr\<lparr>tr_scans := n\<rparr>) = synced cfg tr" by (simp add: synced_def fun_eq_iff)
  have a: "as_recorded (tr\<lparr>tr_scans := n\<rparr>) = as_recorded tr" by (simp add: as_recorded_def fun_eq_iff)
  show "seen_cands (tr\<lparr>tr_scans := n\<rparr>) observed = seen_cands tr observed" by (simp add: seen_cands_def a)
  show "gone_cands cfg (tr\<lparr>tr_scans := n\<rparr>) observed areas problems = gone_cands cfg tr observed areas problems"
    by (simp add: gone_cands_def unseen_def s)
  show "resent cfg (tr\<lparr>tr_scans := n\<rparr>) observed areas problems = resent cfg tr observed areas problems"
    by (simp add: resent_def unseen_def s a)
qed

text \<open>The parts of a scan that ended well.\<close>

lemma scan_parts:
  assumes "Scan cfg areas (observed, problems, again0, failed0) now link opened meanwhile now_at refusedAt tr = (Inr (rep, again), tr')"
  obtains ex again1 failed1 tr1 tr2 changes tr3 where
    "examine_all (exam_of cfg now link opened) (cands_of cfg tr observed areas problems) (tr\<lparr>tr_scans := tr_scans tr + 1\<rparr>) = (ex, again1, failed1, tr1)"
    "tr_records tr2 = tr_records (meanwhile tr1)"
    "\<And>name err. (name, err) \<in> set (failed0 @ failed1) \<Longrightarrow> refusedAt name err \<in> fst ` set (tr_failing tr2)"
    "fold (record_found now_at) ex (resent cfg tr observed areas problems, again0 @ again1, tr2) = (changes, again, tr3)"
    "tr_records tr' = tr_records tr3" "tr_failing tr' = tr_failing tr2" "set (rp_changes rep) = set changes"
proof -
  let ?cands = "cands_of cfg tr observed areas problems" and ?tr0 = "tr\<lparr>tr_scans := tr_scans tr + 1\<rparr>"
  obtain ex again1 failed1 tr1 where ex: "examine_all (exam_of cfg now link opened) ?cands ?tr0 = (ex, again1, failed1, tr1)"
    by (cases "examine_all (exam_of cfg now link opened) ?cands ?tr0")
  have "scan_finish (tr_scans ?tr0) areas (map cd_name (filter (\<lambda>c. \<not> cd_gone c) ?cands)) now_at refusedAt (failed0 @ failed1) ex
      (resent cfg tr observed areas problems) (again0 @ again1) (meanwhile tr1) = (Inr (rep, again), tr')"
    using assms ex by (simp add: Scan_def Let_def scans_irrelevant split: if_split_asm)
  from scan_finish_cases [OF this] obtain tr2 changes tr3 where
    "tr_records tr2 = tr_records (meanwhile tr1)"
    "\<And>name err. (name, err) \<in> set (failed0 @ failed1) \<Longrightarrow> refusedAt name err \<in> fst ` set (tr_failing tr2)"
    "fold (record_found now_at) ex (resent cfg tr observed areas problems, again0 @ again1, tr2) = (changes, again, tr3)"
    "tr_records tr' = tr_records tr3" "tr_failing tr' = tr_failing tr2" "set (rp_changes rep) = set changes" by metis
  with ex that show thesis by blast
qed

text \<open>What the scan must account for: a path it saw, or one recorded and not seen.\<close>

definition in_scan :: "tree_cfg \<Rightarrow> tree_root \<Rightarrow> (string \<times> finfo) list \<Rightarrow> string list \<Rightarrow> string list \<Rightarrow> string \<Rightarrow> finfo option \<Rightarrow> bool" where
  "in_scan cfg tr observed areas problems name info \<longleftrightarrow>
     (case info of Some x \<Rightarrow> (name, x) \<in> set observed
      | None \<Rightarrow> unseen cfg tr observed areas problems name \<and> (\<exists>i rec. rec_at tr name = Some (i, rec) \<and> (Live (rc_entry rec) \<or> rc_sent rec)))"

text \<open>Such a path is a candidate, or as recorded and, if the hub has not acknowledged it, among the changes
  reported again.\<close>

lemma candidate_or_kept:
  assumes dist: "distinct (map fst observed)" "distinct (map fst (tr_records tr))"
    and path: "in_scan cfg tr observed areas problems name info"
  obtains c where "c \<in> set (cands_of cfg tr observed areas problems)" "cd_name c = name" "cd_info c = info"
  | i rec where "name \<notin> cd_name ` set (cands_of cfg tr observed areas problems)" "rec_at tr name = Some (i, rec)"
    "rc_sent rec \<longrightarrow> change_of name rec \<in> set (resent cfg tr observed areas problems)"
    "case info of Some x \<Rightarrow> rc_fp rec = fingerprintOf x | None \<Rightarrow> \<not> Live (rc_entry rec) \<and> rc_sent rec"
proof (cases info)
  case (Some x)
  with path have o: "(name, x) \<in> set observed" by (simp add: in_scan_def)
  show thesis
  proof (cases "as_recorded tr (name, x)")
    case True
    then obtain i rec where rec: "rec_at tr name = Some (i, rec)" "rc_fp rec = fingerprintOf x"
      by (auto simp: as_recorded_def split: option.splits)
    have "name \<notin> cd_name ` set (cands_of cfg tr observed areas problems)"
      using True o dist(1)
      by (auto simp: seen_cands_def gone_cands_def unseen_def map_of_eq_None_iff image_iff) (metis eq_key_imp_eq_value)
    moreover have "rc_sent rec \<longrightarrow> change_of name rec \<in> set (resent cfg tr observed areas problems)"
      using resent_seen [OF o True] rec(1) by simp
    ultimately show thesis using that(2) rec Some by simp
  next
    case False
    have "\<lparr>cd_name = name, cd_info = Some x, cd_prev = prev_entry (rec_at tr name)\<rparr> \<in> set (cands_of cfg tr observed areas problems)"
      using False o by (force simp: seen_cands_def)
    from that(1) [OF this] Some show thesis by simp
  qed
next
  case None
  with path obtain i rec where u: "unseen cfg tr observed areas problems name" and rec: "rec_at tr name = Some (i, rec)"
    "Live (rc_entry rec) \<or> rc_sent rec" by (auto simp: in_scan_def)
  show thesis
  proof (cases "Live (rc_entry rec)")
    case True
    have "\<lparr>cd_name = name, cd_info = None, cd_prev = rc_entry rec\<rparr> \<in> set (cands_of cfg tr observed areas problems)"
      using True u map_of_SomeD [OF rec(1)] by (force simp: gone_cands_def)
    from that(1) [OF this] None show thesis by simp
  next
    case False
    have "name \<notin> cd_name ` set (cands_of cfg tr observed areas problems)"
      using False u rec(1) dist(2)
      by (auto simp: seen_cands_def gone_cands_def unseen_def map_of_eq_None_iff image_iff)
         (metis map_of_is_SomeI option.inject prod.inject)+
    moreover have "change_of name rec \<in> set (resent cfg tr observed areas problems)"
      using resent_unseen [of cfg tr observed areas problems name i rec] u rec False by simp
    ultimately show thesis using that(2) rec False None by simp
  qed
qed

lemma gone_cand_record:
  assumes "distinct (map fst (tr_records tr))" "c \<in> set (cands_of cfg tr observed areas problems)" "cd_gone c"
  shows "\<exists>i rec. rec_at tr (cd_name c) = Some (i, rec) \<and> Live (rc_entry rec)"
  using assms by (auto simp: seen_cands_def gone_cands_def) blast

text \<open>C17: a scan leaves nothing out. For every path the walk saw, and every recorded path in the areas
  scanned that is no longer there, the scan ends in one of three ways: the path is scanned again
  soon; the path, or a folder above it, is remembered as one that cannot be read; or the tree's record
  is what the walk saw of the path (nothing, for one that is gone) and, unless the hub has
  acknowledged that state, the report holds it as a change on the rev the side held before.\<close>

theorem scan_leaves_nothing_out:
  assumes scan: "Scan cfg areas (observed, problems, again0, failed0) now link opened meanwhile now_at refusedAt tr = (Inr (rep, again), tr')"
    and dist: "distinct (map fst observed)" "distinct (map fst (tr_records tr))"
    and mean: "\<And>t. rec_at (meanwhile t) name = rec_at t name"
    and path: "in_scan cfg tr observed areas problems name info"
  shows "name \<in> set again \<or> (\<exists>err. refusedAt name err \<in> fst ` set (tr_failing tr')) \<or>
    (\<exists>i rec. rec_at tr' name = Some (i, rec) \<and> (rc_sent rec \<longrightarrow> change_of name rec \<in> set (rp_changes rep)) \<and>
       (case info of Some x \<Rightarrow> rc_fp rec = fingerprintOf x | None \<Rightarrow> \<not> Live (rc_entry rec) \<and> rc_sent rec))"
proof -
  let ?changes0 = "resent cfg tr observed areas problems"
  obtain ex again1 failed1 tr1 tr2 changes tr3 where
    ex: "examine_all (exam_of cfg now link opened) (cands_of cfg tr observed areas problems) (tr\<lparr>tr_scans := tr_scans tr + 1\<rparr>) = (ex, again1, failed1, tr1)"
    and r2: "tr_records tr2 = tr_records (meanwhile tr1)"
    and f2: "\<And>name err. (name, err) \<in> set (failed0 @ failed1) \<Longrightarrow> refusedAt name err \<in> fst ` set (tr_failing tr2)"
    and run: "fold (record_found now_at) ex (?changes0, again0 @ again1, tr2) = (changes, again, tr3)"
    and fin: "tr_records tr' = tr_records tr3" "tr_failing tr' = tr_failing tr2" "set (rp_changes rep) = set changes"
    by (rule scan_parts [OF scan], rule that)
  have r: "rec_at tr2 name = rec_at tr name" using mean examine_all_records [OF ex] r2 by simp
  note names = examine_all_names [OF ex] and d = cands_distinct [OF dist]
  have ag: "set (again0 @ again1) \<subseteq> set again \<and> set ?changes0 \<subseteq> set changes"
    using fold_grows [of "(?changes0, again0 @ again1, tr2)" now_at ex] run by simp
  from dist path show ?thesis
  proof (cases rule: candidate_or_kept)
    case (1 c)
    from names 1(1) consider "c \<in> fst ` set ex" | "name \<in> set again1" | err where "(name, err) \<in> set failed1"
      using 1(2) by blast
    then show ?thesis
    proof cases
      assume "c \<in> fst ` set ex"
      moreover have "cd_gone c \<longrightarrow> (\<exists>i rec. rec_at tr2 (cd_name c) = Some (i, rec) \<and> Live (rc_entry rec))"
        using gone_cand_record [OF dist(2) 1(1)] r 1(2) by simp
      ultimately show ?thesis
        using fold_takes [of ex c "(?changes0, again0 @ again1, tr2)" now_at] names d 1(2,3) run fin(1,3) by (auto simp: taken_def)
    next
      assume "name \<in> set again1"
      with ag show ?thesis by auto
    next
      fix err assume "(name, err) \<in> set failed1"
      with f2 fin(2) show ?thesis by fastforce
    qed
  next
    case (2 i rec)
    then have "name \<notin> set (map (cd_name \<circ> fst) ex)" using names by auto
    from fold_other [OF this, of now_at "(?changes0, again0 @ again1, tr2)"] run r have "rec_at tr3 name = rec_at tr name" by simp
    with 2 fin(1,3) ag show ?thesis by auto
  qed
qed

end
