(* ===== verification/TreeTruth.thy ===== *)
theory TreeTruth
  imports TreeReport
begin

text \<open>
  A tree never replaces what the hub has not seen, and never takes a file for what it is not: while a
  path's fingerprint is the recorded one, the path holds the recorded state, through every op, failure
  and write of another program the guards allow for.
\<close>

unbundle bit_operations_syntax

section \<open>Modes\<close>

lemma mode_bits:
  "ModeDir AND ModeDir = ModeDir" "ModeDir \<noteq> 0" "ModeDir AND ModePerm = 0" "ModeSymlink AND ModePerm = 0" "ModeSymlink \<noteq> 0"
  "ModePerm AND ModeType = 0" "ModeSticky AND ModeType = 0" "ModeDir AND ModeType = ModeDir" "ModeSymlink AND ModeType = ModeSymlink"
  "ModePerm AND ModeDir = 0" "ModePerm AND ModeSymlink = 0" "ModeSticky AND ModeDir = 0" "ModeSticky AND ModeSymlink = 0"
  "ModeType AND ModePerm = 0" "ModeType AND ModeSticky = 0" "ModeType AND ModeDir = ModeDir" "ModeType AND ModeSymlink = ModeSymlink"
  "ModeSymlink AND ModeDir = 0" "ModePerm AND ModeSticky = 0" "ModeSticky AND ModePerm = 0"
  by (simp_all add: ModeDir_def ModeSymlink_def ModeType_def ModePerm_def ModeSticky_def)

definition chmodded :: "finfo \<Rightarrow> 32 word \<Rightarrow> finfo" where
  "chmodded i mode = i\<lparr>fi_mode := (fi_mode i AND ModeType) OR (if IsDir i then safeMode mode else createMode (safeMode mode))\<rparr>"

lemma safe_type [simp]: "safeMode m AND ModeType = 0" "safeMode m AND ModeDir = 0" "safeMode m AND ModeSymlink = 0"
  "createMode m AND ModeType = 0" "createMode m AND ModeDir = 0" "createMode m AND ModeSymlink = 0"
  by (simp_all add: safeMode_def createMode_def and.assoc bit.conj_disj_distrib2 mode_bits)

lemma chmodded_kind [simp]:
  "IsDir (chmodded i m) = IsDir i" "IsLink (chmodded i m) = IsLink i" "IsRegular (chmodded i m) = IsRegular i"
proof -
  have "(fi_mode i AND ModeType OR x) AND t = fi_mode i AND t" if "x AND t = 0" "ModeType AND t = t" for x t
    using that by (simp add: bit.conj_disj_distrib2 and.assoc)
  from this [of _ ModeDir] this [of _ ModeSymlink] this [of _ ModeType]
  show "IsDir (chmodded i m) = IsDir i" "IsLink (chmodded i m) = IsLink i" "IsRegular (chmodded i m) = IsRegular i"
    by (simp_all add: IsDir_def IsLink_def IsRegular_def chmodded_def mode_bits)
qed

lemma chmodded_fields [simp]: "fi_size (chmodded i m) = fi_size i" "fi_ino (chmodded i m) = fi_ino i" "fi_mtime (chmodded i m) = fi_mtime i"
  by (simp_all add: chmodded_def)

lemma masked_or: "t AND p = 0 \<Longrightarrow> (a AND t OR m AND p) AND p = m AND p" for t :: "32 word"
  by (simp add: bit.conj_disj_distrib2 and.assoc)

lemma chmodded_mode:
  "IsDir i \<Longrightarrow> fileMode Dir (fi_mode (chmodded i m)) = fileMode Dir m"
  "\<not> IsDir i \<Longrightarrow> fileMode File (fi_mode (chmodded i m)) = fileMode File m"
proof -
  have "ModeType AND (ModePerm OR ModeSticky) = 0" by (simp add: bit.conj_disj_distrib mode_bits)
  from masked_or [OF this] show "fileMode Dir (fi_mode (chmodded i m)) = fileMode Dir m" if "IsDir i"
    using that by (simp add: chmodded_def fileMode_def safeMode_def)
  have "(ModePerm OR ModeSticky) AND ModePerm = ModePerm" by (simp add: bit.conj_disj_distrib2 mode_bits)
  then have "(m AND (ModePerm OR ModeSticky)) AND ModePerm = m AND ModePerm" by (simp only: and.assoc)
  with masked_or [OF mode_bits(14), of "fi_mode i" m] show "fileMode File (fi_mode (chmodded i m)) = fileMode File m" if "\<not> IsDir i"
    using that by (simp add: chmodded_def fileMode_def safeMode_def createMode_def)
qed

lemma made_kinds:
  "fi_mode i = ModeDir OR (createMode m AND x) \<Longrightarrow> IsDir i"
  "fi_mode i = ModeSymlink OR ModePerm \<Longrightarrow> IsLink i \<and> \<not> IsDir i \<and> \<not> IsRegular i"
  "fi_mode i = createMode m \<Longrightarrow> IsRegular i \<and> \<not> IsDir i \<and> \<not> IsLink i"
proof -
  have "createMode m AND (x AND ModeDir) = x AND (createMode m AND ModeDir)" by (rule and.left_commute)
  then have "createMode m AND (x AND ModeDir) = 0" by simp
  then show "fi_mode i = ModeDir OR (createMode m AND x) \<Longrightarrow> IsDir i"
    by (simp add: IsDir_def bit.conj_disj_distrib2 mode_bits and.assoc)
  show "fi_mode i = ModeSymlink OR ModePerm \<Longrightarrow> IsLink i \<and> \<not> IsDir i \<and> \<not> IsRegular i"
    by (simp add: IsLink_def IsDir_def IsRegular_def bit.conj_disj_distrib2 mode_bits)
  show "fi_mode i = createMode m \<Longrightarrow> IsRegular i \<and> \<not> IsDir i \<and> \<not> IsLink i"
    by (simp add: IsLink_def IsDir_def IsRegular_def)
qed

lemma fileMode_create: "fileMode File (createMode m) = fileMode File m"
  by (simp add: fileMode_def createMode_def and.assoc)

section \<open>Truth\<close>

definition node_matches :: "node \<Rightarrow> entry \<Rightarrow> bool" where
  "node_matches n e \<longleftrightarrow>
     (case e_kind e of
        File \<Rightarrow> IsRegular (nd_info n) \<and> fileMode File (fi_mode (nd_info n)) = e_mode e \<and>
          int (length (nd_data n)) = e_size e \<and> hashOf (nd_data n) = e_hash e
      | Dir \<Rightarrow> IsDir (nd_info n) \<and> fileMode Dir (fi_mode (nd_info n)) = e_mode e
      | Symlink \<Rightarrow> IsLink (nd_info n) \<and> nd_target n = e_target e
      | _ \<Rightarrow> False)"

definition truth_at :: "tree_root \<Rightarrow> string \<Rightarrow> bool" where
  "truth_at tr p \<longleftrightarrow> (\<forall>i rec n. rec_at tr p = Some (i, rec) \<and> tr_node tr p = Some n \<and> Live (rc_entry rec) \<and>
     rc_fp rec = fingerprintOf (nd_info n) \<longrightarrow> node_matches n (rc_entry rec))"

text \<open>A disk whose sizes are right and whose inode numbers, like those recorded, are all given out
  already.\<close>

definition sized :: "node \<Rightarrow> bool" where
  "sized n \<longleftrightarrow> 0 < fi_ino (nd_info n) \<and> 0 \<le> fi_size (nd_info n) \<and>
     (IsRegular (nd_info n) \<longrightarrow> fi_size (nd_info n) = int (length (nd_data n)))"

definition sound :: "tree_root \<Rightarrow> bool" where
  "sound tr \<longleftrightarrow> 0 < dk_fresh (tr_disk tr) \<and> distinct (map fst (tr_records tr)) \<and>
     (\<forall>p n. tr_node tr p = Some n \<longrightarrow> sized n \<and> fi_ino (nd_info n) < dk_fresh (tr_disk tr)) \<and>
     (\<forall>p i rec. rec_at tr p = Some (i, rec) \<longrightarrow> fp_ino (rc_fp rec) < dk_fresh (tr_disk tr) \<and> i < tr_alloc tr)"

definition root_true :: "tree_root \<Rightarrow> bool" where
  "root_true tr \<longleftrightarrow> sound tr \<and> (\<forall>p. truth_at tr p)"

lemma fp_fields [simp]: "fp_ino (fingerprintOf i) = fi_ino i" "fp_mode (fingerprintOf i) = fi_mode i"
  "fp_size (fingerprintOf i) = (if IsDir i then 0 else fi_size i)"
  by (simp_all add: fingerprintOf_def Let_def no_fingerprint_def)

section \<open>Calm steps\<close>

text \<open>A calm step drops records and removes entries, or makes entries of inodes never used before: it
  cannot make a record match what it should not.\<close>

definition dcalm :: "disk \<Rightarrow> disk \<Rightarrow> bool" where
  "dcalm d d' \<longleftrightarrow> dk_fresh d \<le> dk_fresh d' \<and>
     (\<forall>q n. node_at d' q = Some n \<longrightarrow> node_at d q = Some n \<or>
        sized n \<and> dk_fresh d \<le> fi_ino (nd_info n) \<and> fi_ino (nd_info n) < dk_fresh d')"

definition calm :: "tree_root \<Rightarrow> tree_root \<Rightarrow> bool" where
  "calm tr tr' \<longleftrightarrow> dcalm (tr_disk tr) (tr_disk tr') \<and> tr_alloc tr \<le> tr_alloc tr' \<and>
     (distinct (map fst (tr_records tr)) \<longrightarrow> distinct (map fst (tr_records tr'))) \<and>
     (\<forall>q. rec_at tr' q = rec_at tr q \<or> rec_at tr' q = None)"

lemma dcalm_refl [simp]: "dcalm d d" by (simp add: dcalm_def)

lemma dcalm_trans: "dcalm a b \<Longrightarrow> dcalm b c \<Longrightarrow> dcalm a c"
  unfolding dcalm_def by (meson order_trans order_less_le_trans)

lemma calm_refl [simp]: "calm tr tr" by (simp add: calm_def)

lemma calm_trans: "calm a b \<Longrightarrow> calm b c \<Longrightarrow> calm a c"
  unfolding calm_def by (metis dcalm_trans order_trans)

lemma calm_ok:
  assumes "root_true tr" "calm tr tr'"
  shows "root_true tr'"
proof -
  have "truth_at tr' p" for p
    unfolding truth_at_def
  proof (intro allI impI, elim conjE)
    fix i rec n
    assume r: "rec_at tr' p = Some (i, rec)" and n: "tr_node tr' p = Some n" and l: "Live (rc_entry rec)"
      and f: "rc_fp rec = fingerprintOf (nd_info n)"
    from r assms(2) have r0: "rec_at tr p = Some (i, rec)" unfolding calm_def by (metis option.distinct(1))
    with assms(1) have "fp_ino (rc_fp rec) < dk_fresh (tr_disk tr)" by (auto simp: root_true_def sound_def)
    with n f assms(2) have "tr_node tr p = Some n" by (fastforce simp: calm_def dcalm_def)
    with r0 l f assms(1) show "node_matches n (rc_entry rec)" by (auto simp: root_true_def truth_at_def)
  qed
  moreover have "sound tr'"
  proof -
    have d: "dk_fresh (tr_disk tr) \<le> dk_fresh (tr_disk tr')" "tr_alloc tr \<le> tr_alloc tr'" "sound tr" "distinct (map fst (tr_records tr'))"
      using assms by (simp_all add: calm_def dcalm_def root_true_def sound_def)
    have n: "sized n \<and> fi_ino (nd_info n) < dk_fresh (tr_disk tr')" if "tr_node tr' q = Some n" for q n
      using that assms(2) d(1,3) by (fastforce simp: calm_def dcalm_def sound_def)
    have r: "rec_at tr q = Some x" if "rec_at tr' q = Some x" for q x
      using that assms(2) unfolding calm_def by (metis option.distinct(1))
    have "fp_ino (rc_fp rec) < dk_fresh (tr_disk tr') \<and> i < tr_alloc tr'" if "rec_at tr' q = Some (i, rec)" for q i rec
      using r [OF that] d(1-3) unfolding sound_def by (meson order_less_le_trans)
    with d n show ?thesis by (simp add: sound_def del: map_of_eq_Some_iff)
  qed
  ultimately show ?thesis by (simp add: root_true_def)
qed

lemma next_fail_same [simp]:
  "node_at (snd (next_fail d)) = node_at d" "dk_fresh (snd (next_fail d)) = dk_fresh d"
  "dk_nodes (snd (next_fail d)) = dk_nodes d" "dk_reserved (snd (next_fail d)) = dk_reserved d"
  by (auto simp: next_fail_def split: list.splits)

lemma next_failD: "next_fail d = (r, d') \<Longrightarrow> dk_nodes d' = dk_nodes d \<and> dk_fresh d' = dk_fresh d \<and> dk_reserved d' = dk_reserved d"
  using next_fail_same [of d] by simp

named_theorems calms

lemma dcalm_same: "dk_nodes d' = dk_nodes d \<Longrightarrow> dk_fresh d' = dk_fresh d \<Longrightarrow> dcalm d d'"
  by (simp add: dcalm_def)

lemma dcalm_fail [calms]: "dcalm d (snd (next_fail d))" by (rule dcalm_same) simp_all

lemma dcalm_failD: "next_fail d = (r, d') \<Longrightarrow> dcalm d d'" by (rule dcalm_same) (auto dest: next_failD)

lemma map_of_filter_key: "map_of (filter (\<lambda>(q, n). P q) xs) q = (if P q then map_of xs q else None)"
  by (induction xs) auto

lemma dcalm_make [calms]:
  assumes "0 < dk_fresh d"
  shows "dcalm d (make_node p mode mtime data target d)"
  using assms by (auto simp: dcalm_def make_node_def put_node_def sized_def)

lemma dcalm_call:
  assumes "\<And>d. 0 < dk_fresh d \<Longrightarrow> dcalm d (act d)" "0 < dk_fresh d"
  shows "dcalm d (snd (disk_call refuse act d))"
proof (cases "next_fail d")
  case (Pair r d')
  from next_failD [OF this] assms(2) have "0 < dk_fresh d'" by simp
  with assms(1) dcalm_failD [OF Pair] show ?thesis
    by (auto simp: disk_call_def Pair split: option.splits intro: dcalm_trans)
qed


lemma dcalm_calls [calms]:
  assumes "0 < dk_fresh d"
  shows "dcalm d (snd (Lstat p d))" "dcalm d (snd (Readlink p d))" "dcalm d (snd (OpenFile p d))"
    "dcalm d (snd (replace_begin p b d))" "dcalm d (snd (Remove p d))" "dcalm d (snd (RemoveAll p d))"
    "dcalm d (snd (Mkdir p perm d))" "dcalm d (snd (SymlinkAt target p d))" "dcalm d (snd (replace_end p data perm mtime d))"
proof -
  show "dcalm d (snd (Lstat p d))" "dcalm d (snd (Readlink p d))" "dcalm d (snd (OpenFile p d))" "dcalm d (snd (replace_begin p b d))"
    using dcalm_failD [of d]
    by (auto simp: Lstat_def Readlink_def OpenFile_def replace_begin_def split: prod.splits option.splits)
  show "dcalm d (snd (Remove p d))"
    unfolding Remove_def by (rule dcalm_call [OF _ assms]) (simp add: dcalm_def)
  show "dcalm d (snd (RemoveAll p d))"
    by (auto simp: RemoveAll_def dcalm_def map_of_filter_key split: prod.splits option.splits if_split_asm dest!: next_failD)
  show "dcalm d (snd (Mkdir p perm d))"
    unfolding Mkdir_def by (rule dcalm_call [OF _ assms]) (simp add: dcalm_make)
  show "dcalm d (snd (SymlinkAt target p d))"
    unfolding SymlinkAt_def by (rule dcalm_call [OF _ assms]) (simp add: dcalm_make)
  have "dcalm d (snd (disk_call (\<lambda>d. None) (make_node p (createMode perm) mtime data []) d))"
    by (rule dcalm_call [OF _ assms]) (simp add: dcalm_make)
  then show "dcalm d (snd (replace_end p data perm mtime d))"
    by (auto simp: replace_end_def split: prod.splits option.splits intro: dcalm_trans dest: dcalm_failD)
qed

lemma dcalm_MkdirAll [calms]: "0 < dk_fresh d \<Longrightarrow> dcalm d (snd (MkdirAll p perm d))"
proof -
  have "0 < dk_fresh d \<Longrightarrow> dcalm d (snd (mkdir_elems perm ps d))" for ps
  proof (induction ps arbitrary: d)
    case (Cons a ps)
    show ?case
    proof (cases "Mkdir a perm d")
      case (Pair r d')
      from dcalm_calls(7) [OF Cons.prems, of a perm] have c: "dcalm d d'" by (simp add: Pair)
      with Cons.prems have "0 < dk_fresh d'" by (auto simp: dcalm_def)
      from dcalm_trans [OF c Cons.IH [OF this]] c Cons show ?thesis by (auto simp: Pair split: option.splits)
    qed
  qed simp
  then show "0 < dk_fresh d \<Longrightarrow> dcalm d (snd (MkdirAll p perm d))" by (simp add: MkdirAll_def)
qed

lemma calm_call:
  assumes "root_true tr" "\<And>d. 0 < dk_fresh d \<Longrightarrow> dcalm d (snd (f d))"
  shows "calm tr (snd (tr_call f tr))"
  using assms by (auto simp: tr_call_def calm_def root_true_def sound_def split: prod.splits) (metis snd_conv)

lemma tr_call_records [simp]: "tr_records (snd (tr_call f tr)) = tr_records tr" "tr_disk (snd (tr_call f tr)) = snd (f (tr_disk tr))"
  "fst (tr_call f tr) = fst (f (tr_disk tr))" "tr_alloc (snd (tr_call f tr)) = tr_alloc tr"
  by (simp_all add: tr_call_def split: prod.splits)

lemma tr_callD: "tr_call f tr = (r, tr') \<Longrightarrow> tr_records tr' = tr_records tr \<and> f (tr_disk tr) = (r, tr_disk tr') \<and> tr_alloc tr' = tr_alloc tr"
  by (auto simp: tr_call_def split: prod.splits)

lemma calm_commit: "calm tr (snd (commit_tree tr))"
  using commit_fields [of tr] by (simp add: calm_def)

lemma calm_drop: "calm tr (dropRecord p tr)"
  by (simp add: calm_def dropRecord_def)

text \<open>A new record must tell the truth.\<close>

lemma put_ok:
  assumes "root_true tr" "fp_ino (rc_fp rec) < dk_fresh (tr_disk tr)"
    and "\<And>n. tr_node tr p = Some n \<Longrightarrow> rc_fp rec = fingerprintOf (nd_info n) \<Longrightarrow> Live (rc_entry rec) \<Longrightarrow> node_matches n (rc_entry rec)"
  shows "root_true (putRecord p rec tr)"
proof -
  have d: "tr_disk (putRecord p rec tr) = tr_disk tr" "tr_alloc (putRecord p rec tr) = Suc (tr_alloc tr)"
    by (simp_all add: putRecord_def)
  have "truth_at (putRecord p rec tr) q" for q
    using assms(1,3) by (auto simp: truth_at_def root_true_def d)
  moreover have "distinct (map fst (tr_records (putRecord p rec tr)))"
    using assms(1) by (simp add: root_true_def sound_def putRecord_def)
  then have "sound (putRecord p rec tr)"
    using assms(1,2) by (auto simp: root_true_def sound_def d less_Suc_eq simp del: map_of_eq_Some_iff)
  ultimately show ?thesis by (simp add: root_true_def)
qed

text \<open>An edit in place of one entry, when the record there does not match it afterwards or still does.\<close>

lemma edit_ok:
  assumes ok: "root_true tr" and r: "tr_records tr' = tr_records tr" "tr_alloc tr' = tr_alloc tr"
    and f: "dk_fresh (tr_disk tr') = dk_fresh (tr_disk tr)"
    and n: "tr_node tr p = Some n" "tr_node tr' p = Some n'" "sized n'" "fi_ino (nd_info n') = fi_ino (nd_info n)"
    and q: "\<And>q. q \<noteq> p \<Longrightarrow> tr_node tr' q = tr_node tr q"
    and t: "\<And>i rec. rec_at tr p = Some (i, rec) \<Longrightarrow> Live (rc_entry rec) \<Longrightarrow> rc_fp rec = fingerprintOf (nd_info n') \<Longrightarrow>
      node_matches n' (rc_entry rec)"
  shows "root_true tr'"
proof -
  have "truth_at tr' a" for a
  proof (cases "a = p")
    case True
    with t r n(2) show ?thesis by (auto simp: truth_at_def)
  next
    case False
    with ok q [OF False] r show ?thesis by (auto simp: truth_at_def root_true_def)
  qed
  moreover have "sized m \<and> fi_ino (nd_info m) < dk_fresh (tr_disk tr)" if "tr_node tr' a = Some m" for a m
    using that ok q [of a] n by (cases "a = p") (auto simp: root_true_def sound_def)
  moreover have "sound tr" using ok by (simp add: root_true_def)
  ultimately show ?thesis unfolding root_true_def sound_def by (auto simp: r f)
qed


section \<open>Recording\<close>

text \<open>Where an op left its path: recorded as the op's state, and holding it.\<close>

definition in_place :: "sync_op \<Rightarrow> tree_root \<Rightarrow> bool" where
  "in_place op tr \<longleftrightarrow> (\<exists>i fp n. rec_at tr (op_path op) = Some (i, \<lparr>rc_rev = op_rev op, rc_entry = op_entry op, rc_fp = fp,
     rc_sent = False, rc_made = False\<rparr>) \<and> tr_node tr (op_path op) = Some n \<and> node_matches n (op_entry op))"

definition arrives :: "sync_op \<Rightarrow> sync_error option \<times> tree_root \<Rightarrow> bool" where
  "arrives op x \<longleftrightarrow> root_true (snd x) \<and> (fst x = None \<and> Live (op_entry op) \<longrightarrow> in_place op (snd x))"

lemma arrives_err [simp]: "arrives op (Some e, tr) \<longleftrightarrow> root_true tr" by (simp add: arrives_def)

lemma arrives_then:
  assumes "\<And>e tr1. f tr = (Some e, tr1) \<Longrightarrow> root_true tr1" "\<And>tr1. f tr = (None, tr1) \<Longrightarrow> arrives op (g tr1)"
  shows "arrives op (andThen f g tr)"
  using assms by (auto simp: andThen_def split: prod.splits option.splits)

lemma in_place_commit [simp]: "in_place op (snd (commit_tree tr)) = in_place op tr"
  using commit_fields [of tr] by (simp add: in_place_def)

lemma ok_commit [simp]: "root_true tr \<Longrightarrow> root_true (snd (commit_tree tr))"
  using calm_ok calm_commit by blast

lemma arrives_commit: "root_true tr \<Longrightarrow> (Live (op_entry op) \<Longrightarrow> in_place op tr) \<Longrightarrow> arrives op (commit_tree tr)"
  by (simp add: arrives_def)

lemma arrives_drop [simp]: "root_true tr \<Longrightarrow> \<not> Live (op_entry op) \<Longrightarrow> arrives op (commit_tree (dropRecord p tr))"
  using calm_ok [OF _ calm_drop] by (intro arrives_commit) auto

lemma sound_at: "root_true tr \<Longrightarrow> tr_node tr p = Some n \<Longrightarrow> fi_ino (nd_info n) < dk_fresh (tr_disk tr) \<and> sized n"
  by (auto simp: root_true_def sound_def)

lemma put_node_at [simp]: "tr_node (putRecord p rec tr) = tr_node tr" "tr_disk (putRecord p rec tr) = tr_disk tr" by (simp_all add: putRecord_def)

lemma recordOp_arrives:
  assumes "root_true tr" "tr_node tr (op_path op) = Some n" "node_matches n (op_entry op)"
  shows "arrives op (recordOp op (Some (nd_info n)) tr)"
proof (cases "Live (op_entry op)")
  case True
  let ?rec = "\<lparr>rc_rev = op_rev op, rc_entry = op_entry op, rc_fp = fingerprintOf (nd_info n), rc_sent = False, rc_made = False\<rparr>"
  have "root_true (putRecord (op_path op) ?rec tr)"
    by (rule put_ok) (use assms sound_at [OF assms(1,2)] in auto)
  moreover have "in_place op (putRecord (op_path op) ?rec tr)"
    using assms(2,3) by (auto simp: in_place_def)
  ultimately show ?thesis
    using True by (simp add: recordOp_def arrives_commit)
next
  case False
  with assms show ?thesis by (simp add: recordOp_def)
qed

lemma Lstat_Inr: "tr_call (Lstat p) tr = (Inr info, tr1) \<Longrightarrow> \<exists>n. tr_node tr1 p = Some n \<and> tr_node tr p = Some n \<and> nd_info n = info"
  by (auto simp: tr_call_def Lstat_def split: prod.splits option.splits dest!: next_failD)

lemma Lstat_same: "tr_call (Lstat p) tr = (r, tr1) \<Longrightarrow> tr_node tr1 = tr_node tr"
  by (auto simp: tr_call_def Lstat_def split: prod.splits option.splits dest!: next_failD)

lemma ok_callD: "tr_call f tr = (r, tr1) \<Longrightarrow> root_true tr \<Longrightarrow> (\<And>d. 0 < dk_fresh d \<Longrightarrow> dcalm d (snd (f d))) \<Longrightarrow> root_true tr1"
  using calm_ok [OF _ calm_call] by (metis snd_conv)

lemma recordNow_arrives:
  assumes "root_true tr" "\<And>n. Live (op_entry op) \<Longrightarrow> tr_node tr (op_path op) = Some n \<Longrightarrow> node_matches n (op_entry op)"
  shows "arrives op (recordNow op tr)"
proof (cases "Live (op_entry op)")
  case False
  with assms(1) show ?thesis by (simp add: recordNow_def recordOp_def)
next
  case True
  obtain r tr1 where c: "tr_call (Lstat (op_path op)) tr = (r, tr1)" by (cases "tr_call (Lstat (op_path op)) tr")
  have ok: "root_true tr1" by (rule ok_callD [OF c assms(1)]) (rule calms)
  show ?thesis
  proof (cases r)
    case (Inr info)
    from Lstat_Inr [OF c [unfolded Inr]] obtain n where n: "tr_node tr1 (op_path op) = Some n" "tr_node tr (op_path op) = Some n" "nd_info n = info"
      by blast
    from recordOp_arrives [OF ok n(1) assms(2) [OF True n(2)]] n(3) show ?thesis
      by (simp add: recordNow_def c Inr True)
  qed (simp add: recordNow_def c True ok)
qed

section \<open>Folders and links\<close>

lemma ok_clear: "root_true tr \<Longrightarrow> root_true (snd (clear cfg p at tr))"
proof -
  assume ok: "root_true tr"
  have step: "root_true tr2" if "tr_call f tr1 = (r, tr2)" "root_true tr1" "\<And>d. 0 < dk_fresh d \<Longrightarrow> dcalm d (snd (f d))" for f r tr1 tr2
    using ok_callD [OF that] .
  show ?thesis
    using ok by (auto simp: clear_def split: option.splits prod.splits dest!: step [where f = "Remove p", OF _ _ dcalm_calls(5)]
      step [where f = next_fail, OF _ _ dcalm_fail] intro: calm_ok [OF _ calm_call [OF _ dcalm_calls(6)]])
qed

lemma find_missing_ok:
  "root_true tr \<Longrightarrow> find_missing as ms tr = (r, tr') \<Longrightarrow> root_true tr' \<and> (\<forall>xs. r = Inr xs \<longrightarrow> set xs \<subseteq> set ms \<union> set as)"
proof (induction as arbitrary: ms tr)
  case (Cons a as)
  let ?live = "case rec_at tr a of None \<Rightarrow> False | Some (i, rec) \<Rightarrow> Live (rc_entry rec)"
  obtain r1 tr1 where c1: "(if ?live then tr_call (Lstat a) tr else (Inl ErrNotExist, tr)) = (r1, tr1)" by fastforce
  have ok1: "root_true tr1"
    using c1 Cons.prems(1) ok_callD [of "Lstat a" tr r1 tr1, OF _ _ dcalm_calls(1)] by (auto split: if_splits)
  obtain r2 tr2 where c2: "tr_call (Lstat a) tr1 = (r2, tr2)" by fastforce
  have ok2: "root_true tr2" by (rule ok_callD [OF c2 ok1]) (rule calms)
  show ?case
  proof (cases "?live \<and> (case r1 of Inl e \<Rightarrow> True | Inr info \<Rightarrow> \<not> IsDir info)")
    case True
    with Cons.prems(2) c1 ok1 show ?thesis by (auto simp: Let_def split: option.split_asm prod.split_asm sum.split_asm if_split_asm)
  next
    case False
    with Cons.prems(2) c1 c2 have "\<exists>ms'. find_missing as ms' tr2 = (r, tr') \<and> set ms' \<subseteq> insert a (set ms)"
      by (simp add: Let_def split: sum.split_asm if_split_asm) fastforce+
    then obtain ms' where "find_missing as ms' tr2 = (r, tr')" "set ms' \<subseteq> insert a (set ms)" by blast
    with Cons.IH [OF ok2, of ms'] show ?thesis by auto
  qed
qed auto


definition folder_at :: "disk \<Rightarrow> string \<Rightarrow> bool" where
  "folder_at d a \<longleftrightarrow> (\<exists>n. node_at d a = Some n \<and> IsDir (nd_info n))"

lemma IsDir_made [simp]: "IsDir \<lparr>fi_size = s, fi_mtime = t, fi_mode = ModeDir OR (createMode m AND x), fi_ino = i, fi_dev = d, fi_ctime = c\<rparr>"
  by (rule made_kinds) simp

lemma make_node_at: "node_at (make_node p mode mtime data target d) =
    (node_at d)(p \<mapsto> \<lparr>nd_info = \<lparr>fi_size = int (length data), fi_mtime = mtime, fi_mode = mode, fi_ino = dk_fresh d,
        fi_dev = dk_dev d, fi_ctime = dk_now d\<rparr>, nd_data = data, nd_target = target\<rparr>)"
  by (simp add: make_node_def put_node_def fun_eq_iff)

lemma disk_callD:
  "disk_call refuse act d = (r, d') \<Longrightarrow>
   \<exists>d1. dk_nodes d1 = dk_nodes d \<and> dk_fresh d1 = dk_fresh d \<and> (r = None \<longrightarrow> refuse d1 = None \<and> d' = act d1) \<and> (r \<noteq> None \<longrightarrow> d' = d1)"
  by (auto simp: disk_call_def split: prod.splits option.splits dest!: next_failD)

lemma Mkdir_dirs:
  assumes "Mkdir p perm d = (r, d')"
  shows "folder_at d a \<Longrightarrow> folder_at d' a" "r = None \<Longrightarrow> folder_at d' p"
proof -
  from disk_callD [OF assms [unfolded Mkdir_def]] obtain d1 where "dk_nodes d1 = dk_nodes d"
    "r = None \<longrightarrow> d' = make_node p (ModeDir OR (createMode perm AND NOT (dk_umask d1))) (dk_now d1) [] [] d1" "r \<noteq> None \<longrightarrow> d' = d1"
    by blast
  then show "folder_at d a \<Longrightarrow> folder_at d' a" "r = None \<Longrightarrow> folder_at d' p"
    by (cases r; auto simp: folder_at_def make_node_at)+
qed

lemma mkdir_elems_dirs:
  "mkdir_elems perm ps d = (r, d') \<Longrightarrow> (\<forall>a. folder_at d a \<longrightarrow> folder_at d' a) \<and> (r = None \<longrightarrow> (\<forall>a \<in> set ps. folder_at d' a))"
proof (induction ps arbitrary: d)
  case (Cons p ps)
  show ?case
  proof (cases "node_at d p")
    case (Some n)
    with Cons show ?thesis by (auto split: if_splits) (auto simp: folder_at_def)
  next
    case None
    obtain r1 d1 where m: "Mkdir p perm d = (r1, d1)" by fastforce
    from Mkdir_dirs [OF m] Cons.prems Cons.IH [of d1] None show ?thesis by (cases r1) (auto simp: m)
  qed
qed simp

lemma record_made_ok:
  "root_true tr \<Longrightarrow> (\<And>a. a \<in> set as \<Longrightarrow> folder_at (tr_disk tr) a) \<Longrightarrow> root_true (snd (record_made cfg as tr))"
proof (induction as arbitrary: tr)
  case (Cons a as)
  obtain r tr1 where c: "tr_call (Lstat a) tr = (r, tr1)" by fastforce
  have ok: "root_true tr1" by (rule ok_callD [OF c Cons.prems(1)]) (rule calms)
  show ?case
  proof (cases r)
    case (Inr info)
    from Lstat_Inr [OF c [unfolded Inr]] obtain n where n: "tr_node tr1 a = Some n" "tr_node tr a = Some n" "nd_info n = info" by blast
    let ?rec = "\<lparr>rc_rev = 0, rc_entry = gone_entry\<lparr>e_kind := Dir, e_mode := fileMode Dir (fi_mode info)\<rparr>,
            rc_fp = fingerprintOf info, rc_sent = False, rc_made = True\<rparr>"
    have "IsDir info" using Cons.prems(2) [of a] n by (auto simp: folder_at_def)
    then have "root_true (putRecord a ?rec tr1)"
      by (intro put_ok ok) (use sound_at [OF ok n(1)] n in \<open>auto simp: node_matches_def gone_entry_def\<close>)
    moreover have "folder_at (tr_disk (putRecord a ?rec tr1)) b" if "b \<in> set as" for b
      using Cons.prems(2) [of b] that Lstat_same [OF c] by (simp add: folder_at_def)
    ultimately show ?thesis using Cons by (simp add: c Inr)
  qed (use Cons in \<open>simp add: c ok\<close>)
qed simp

lemma ok_mkdirParents: "root_true tr \<Longrightarrow> root_true (snd (mkdirParents cfg p tr))"
proof -
  assume ok: "root_true tr"
  obtain r tr1 where c1: "tr_call (Lstat (path_Dir p)) tr = (r, tr1)" by fastforce
  have ok1: "root_true tr1" by (rule ok_callD [OF c1 ok]) (rule calms)
  obtain m tr2 where c2: "find_missing (ancestors (path_Dir p) @ [path_Dir p]) [] tr1 = (m, tr2)" by fastforce
  note ok2 = find_missing_ok [OF ok1 c2]
  obtain r3 tr3 where c3: "tr_call (MkdirAll (path_Dir p) 493) tr2 = (r3, tr3)" by fastforce
  have ok3: "root_true tr3" by (rule ok_callD [OF c3]) (use ok2 in \<open>auto intro: calms\<close>)
  have "root_true (snd (record_made cfg ms tr3))" if "r3 = None" "m = Inr ms" for ms
    using that ok2 mkdir_elems_dirs [of 493 "ancestors (path_Dir p) @ [path_Dir p]" "tr_disk tr2"] tr_callD [OF c3]
    by (intro record_made_ok ok3) (auto simp: MkdirAll_def)
  with ok ok1 ok2 ok3 show ?thesis
    by (auto simp: mkdirParents_def Let_def c1 c2 c3 split: sum.split option.split)
qed


lemma ctime_kinds [simp]:
  "IsDir (i\<lparr>fi_ctime := t\<rparr>) = IsDir i" "IsLink (i\<lparr>fi_ctime := t\<rparr>) = IsLink i" "IsRegular (i\<lparr>fi_ctime := t\<rparr>) = IsRegular i"
  "IsDir (i\<lparr>fi_mtime := t\<rparr>) = IsDir i" "IsLink (i\<lparr>fi_mtime := t\<rparr>) = IsLink i" "IsRegular (i\<lparr>fi_mtime := t\<rparr>) = IsRegular i"
  "IsDir (i\<lparr>fi_size := s\<rparr>) = IsDir i" "IsLink (i\<lparr>fi_size := s\<rparr>) = IsLink i" "IsRegular (i\<lparr>fi_size := s\<rparr>) = IsRegular i"
  by (simp_all add: IsDir_def IsLink_def IsRegular_def)

text \<open>An edit in place, of one entry that keeps its inode.\<close>

definition edits :: "string \<Rightarrow> node \<Rightarrow> node \<Rightarrow> tree_root \<Rightarrow> tree_root \<Rightarrow> bool" where
  "edits p n n' tr tr' \<longleftrightarrow> tr_records tr' = tr_records tr \<and> tr_alloc tr' = tr_alloc tr \<and>
     dk_fresh (tr_disk tr') = dk_fresh (tr_disk tr) \<and> tr_node tr p = Some n \<and> tr_node tr' = (tr_node tr)(p \<mapsto> n') \<and>
     fi_ino (nd_info n') = fi_ino (nd_info n)"

lemma edits_ok:
  assumes "root_true tr" "edits p n n' tr tr'" "sized n'"
    and "\<And>i rec. rec_at tr p = Some (i, rec) \<Longrightarrow> Live (rc_entry rec) \<Longrightarrow> rc_fp rec = fingerprintOf (nd_info n') \<Longrightarrow>
      node_matches n' (rc_entry rec)"
  shows "root_true tr'"
  by (rule edit_ok [of tr tr' p n n']) (use assms in \<open>auto simp: edits_def\<close>)

lemma put_node_fields [simp]: "dk_fresh (put_node p n d) = dk_fresh d"
  "node_at (put_node p n d) = (node_at d)(p \<mapsto> n\<lparr>nd_info := (nd_info n)\<lparr>fi_ctime := dk_now d\<rparr>\<rparr>)"
  by (simp_all add: put_node_def fun_eq_iff)

lemma tr_node_call: "tr_call f tr = (r, tr') \<Longrightarrow> tr' = tr\<lparr>tr_disk := tr_disk tr'\<rparr>"
  by (auto simp: tr_call_def split: prod.splits)

lemma edit_call:
  assumes "tr_call (disk_call (\<lambda>d. no_link d p) (edit_info p f)) tr = (r, tr')" "\<And>i. fi_ino (f i) = fi_ino i"
  shows "r = None \<Longrightarrow> \<exists>n t. \<not> IsLink (nd_info n) \<and> edits p n (n\<lparr>nd_info := (f (nd_info n))\<lparr>fi_ctime := t\<rparr>\<rparr>) tr tr'"
    and "r \<noteq> None \<Longrightarrow> calm tr tr'"
proof -
  note c = tr_callD [OF assms(1)]
  from c have "disk_call (\<lambda>d. no_link d p) (edit_info p f) (tr_disk tr) = (r, tr_disk tr')" by blast
  from disk_callD [OF this] obtain d1 where
    d1: "dk_nodes d1 = dk_nodes (tr_disk tr)" "dk_fresh d1 = dk_fresh (tr_disk tr)"
    "r = None \<longrightarrow> no_link d1 p = None \<and> tr_disk tr' = edit_info p f d1" "r \<noteq> None \<longrightarrow> tr_disk tr' = d1" by blast
  show "\<exists>n t. \<not> IsLink (nd_info n) \<and> edits p n (n\<lparr>nd_info := (f (nd_info n))\<lparr>fi_ctime := t\<rparr>\<rparr>) tr tr'" if "r = None"
  proof -
    from that d1(3) obtain n where n: "node_at d1 p = Some n" "\<not> IsLink (nd_info n)" by (auto simp: no_link_def split: option.splits if_splits)
    with d1 that c assms(2) have "edits p n (n\<lparr>nd_info := (f (nd_info n))\<lparr>fi_ctime := dk_now d1\<rparr>\<rparr>) tr tr'"
      by (simp add: edits_def fun_eq_iff)
    with n(2) show ?thesis by blast
  qed
  show "calm tr tr'" if "r \<noteq> None"
    using that d1 c by (simp add: calm_def dcalm_def)
qed

lemma Chmod_edits:
  assumes "tr_call (Chmod p m) tr = (r, tr')"
  shows "r = None \<Longrightarrow> \<exists>n t. \<not> IsLink (nd_info n) \<and> edits p n (n\<lparr>nd_info := (chmodded (nd_info n) m)\<lparr>fi_ctime := t\<rparr>\<rparr>) tr tr'"
    and "r \<noteq> None \<Longrightarrow> calm tr tr'"
proof -
  have "Chmod p m = disk_call (\<lambda>d. no_link d p) (edit_info p (\<lambda>i. chmodded i m))"
    unfolding Chmod_def chmodded_def ..
  note c = edit_call [OF assms [unfolded this]]
  show "r = None \<Longrightarrow> \<exists>n t. \<not> IsLink (nd_info n) \<and> edits p n (n\<lparr>nd_info := (chmodded (nd_info n) m)\<lparr>fi_ctime := t\<rparr>\<rparr>) tr tr'"
    by (rule c(1)) simp_all
  show "r \<noteq> None \<Longrightarrow> calm tr tr'" by (rule c(2)) simp_all
qed

lemma Chtimes_edits:
  assumes "tr_call (Chtimes p m) tr = (r, tr')"
  shows "r = None \<Longrightarrow> \<exists>n t. \<not> IsLink (nd_info n) \<and> edits p n (n\<lparr>nd_info := ((nd_info n)\<lparr>fi_mtime := m\<rparr>)\<lparr>fi_ctime := t\<rparr>\<rparr>) tr tr'"
    and "r \<noteq> None \<Longrightarrow> calm tr tr'"
proof -
  note c = edit_call [OF assms [unfolded Chtimes_def]]
  show "r = None \<Longrightarrow> \<exists>n t. \<not> IsLink (nd_info n) \<and> edits p n (n\<lparr>nd_info := ((nd_info n)\<lparr>fi_mtime := m\<rparr>)\<lparr>fi_ctime := t\<rparr>\<rparr>) tr tr'"
    by (rule c(1)) simp_all
  show "r \<noteq> None \<Longrightarrow> calm tr tr'" by (rule c(2)) simp_all
qed

lemma matches_chmodded_dir:
  "IsDir (nd_info n) \<Longrightarrow> e_kind e = Dir \<Longrightarrow> check e = None \<Longrightarrow>
   node_matches (n\<lparr>nd_info := (chmodded (nd_info n) (fileMode Dir (e_mode e)))\<lparr>fi_ctime := t\<rparr>\<rparr>) e"
  by (auto simp: node_matches_def check_def chmodded_mode split: if_splits)

lemma sized_chmodded: "sized n \<Longrightarrow> sized (n\<lparr>nd_info := (chmodded (nd_info n) m)\<lparr>fi_ctime := t\<rparr>\<rparr>)"
  by (simp add: sized_def)


text \<open>An entry made anew, of an inode no record has.\<close>

definition makes :: "string \<Rightarrow> node \<Rightarrow> tree_root \<Rightarrow> tree_root \<Rightarrow> bool" where
  "makes p n tr tr' \<longleftrightarrow> tr_node tr' = (tr_node tr)(p \<mapsto> n) \<and> tr_records tr' = tr_records tr \<and> fi_ino (nd_info n) = dk_fresh (tr_disk tr)"

lemma makes_apart:
  "root_true tr \<Longrightarrow> makes p n tr tr' \<Longrightarrow> rec_at tr' p = Some (i, rec) \<Longrightarrow> fi_ino info = fi_ino (nd_info n) \<Longrightarrow> rc_fp rec \<noteq> fingerprintOf info"
  by (fastforce simp: makes_def root_true_def sound_def)

lemma call_makes:
  assumes "tr_call (disk_call refuse (\<lambda>d. make_node p (mode d) (mtime d) data target d)) tr = (None, tr')"
  shows "\<exists>n d. makes p n tr tr' \<and> fi_mode (nd_info n) = mode d \<and> nd_data n = data \<and> nd_target n = target \<and>
    fi_mtime (nd_info n) = mtime d \<and> fi_size (nd_info n) = int (length data)"
proof -
  note c = tr_callD [OF assms(1)]
  then have "disk_call refuse (\<lambda>d. make_node p (mode d) (mtime d) data target d) (tr_disk tr) = (None, tr_disk tr')" by blast
  from disk_callD [OF this] obtain d where d: "dk_nodes d = dk_nodes (tr_disk tr)" "dk_fresh d = dk_fresh (tr_disk tr)"
    "tr_disk tr' = make_node p (mode d) (mtime d) data target d" by blast
  then show ?thesis
    by (intro exI [of _ d] exI [of _ "\<lparr>nd_info = \<lparr>fi_size = int (length data), fi_mtime = mtime d, fi_mode = mode d, fi_ino = dk_fresh d,
        fi_dev = dk_dev d, fi_ctime = dk_now d\<rparr>, nd_data = data, nd_target = target\<rparr>"])
       (use c in \<open>simp add: makes_def make_node_at fun_eq_iff\<close>)
qed

lemma Mkdir_makes: "tr_call (Mkdir p m) tr = (None, tr') \<Longrightarrow> \<exists>n. makes p n tr tr' \<and> IsDir (nd_info n)"
  unfolding Mkdir_def by (drule call_makes) (blast intro: made_kinds(1))

lemma SymlinkAt_makes: "tr_call (SymlinkAt target p) tr = (None, tr') \<Longrightarrow> \<exists>n. makes p n tr tr' \<and> IsLink (nd_info n) \<and> nd_target n = target"
  unfolding SymlinkAt_def by (drule call_makes) (blast dest: made_kinds(2))

lemma new_dir_arrives:
  assumes ok: "root_true tr" and e: "check (op_entry op) = None" "e_kind (op_entry op) = Dir"
  shows "arrives op (andThen (tr_call (Mkdir (op_path op) mode)) (andThen (tr_call (Chmod (op_path op) (fileMode Dir (e_mode (op_entry op)))))
    (recordNow op)) tr)"
proof (rule arrives_then)
  let ?p = "op_path op" and ?m = "fileMode Dir (e_mode (op_entry op))"
  show "root_true tr1" if "tr_call (Mkdir ?p mode) tr = (Some x, tr1)" for x tr1
    by (rule ok_callD [OF that ok]) (rule calms)
  fix tr1 assume c: "tr_call (Mkdir ?p mode) tr = (None, tr1)"
  have ok1: "root_true tr1" by (rule ok_callD [OF c ok]) (rule calms)
  from Mkdir_makes [OF c] obtain n where n: "makes ?p n tr tr1" "IsDir (nd_info n)" by blast
  show "arrives op (andThen (tr_call (Chmod ?p ?m)) (recordNow op) tr1)"
  proof (rule arrives_then)
    show "root_true tr2" if "tr_call (Chmod ?p ?m) tr1 = (Some x, tr2)" for x tr2
      using calm_ok [OF ok1 Chmod_edits(2) [OF that]] by simp
    fix tr2 assume "tr_call (Chmod ?p ?m) tr1 = (None, tr2)"
    from Chmod_edits(1) [OF this] n(1) obtain t where
      ed: "edits ?p n (n\<lparr>nd_info := (chmodded (nd_info n) ?m)\<lparr>fi_ctime := t\<rparr>\<rparr>) tr1 tr2"
      by (auto simp: edits_def makes_def)
    have "tr_node tr1 ?p = Some n" using ed by (simp add: edits_def)
    then have sz: "sized n" using sound_at [OF ok1] by blast
    have "root_true tr2"
      by (rule edits_ok [OF ok1 ed sized_chmodded [OF sz]]) (use makes_apart [OF ok n(1)] in auto)
    then show "arrives op (recordNow op tr2)"
      by (rule recordNow_arrives) (use ed matches_chmodded_dir [OF n(2) e(2,1)] in \<open>auto simp: edits_def\<close>)
  qed
qed

text \<open>What \<open>look\<close> found.\<close>

definition met :: "tree_root \<Rightarrow> string \<Rightarrow> local_state \<Rightarrow> bool" where
  "met tr p at \<longleftrightarrow> at_rec at = rec_at tr p \<and> unchanged at = None \<and>
     (\<forall>info. at_info at = Some info \<longrightarrow> (\<exists>n. tr_node tr p = Some n \<and> nd_info n = info))"

lemma look_met: "look p tr = (Inr at, tr1) \<Longrightarrow> met tr1 p at"
  by (auto simp: look_def met_def Let_def split: prod.splits sum.splits if_splits option.splits dest: Lstat_Inr tr_callD)

lemma met_rec: "met tr p at \<Longrightarrow> at_info at = Some info \<Longrightarrow>
    \<exists>i rec. rec_at tr p = Some (i, rec) \<and> \<not> rc_sent rec \<and> Live (rc_entry rec) \<and> rc_fp rec = fingerprintOf info"
  by (auto simp: met_def unchanged_def split: option.splits if_splits)

lemma makeDir_arrives:
  assumes ok: "root_true tr" and e: "check (op_entry op) = None" "e_kind (op_entry op) = Dir" and met: "met tr (op_path op) at"
  shows "arrives op (makeDir cfg op at tr)"
proof -
  let ?p = "op_path op" and ?m = "fileMode Dir (e_mode (op_entry op))"
  have anew: "arrives op (andThen (clear cfg ?p at) (andThen (mkdirParents cfg ?p) (andThen (tr_call (Mkdir ?p ?m))
               (andThen (tr_call (Chmod ?p ?m)) (recordNow op)))) tr)"
    by (intro arrives_then new_dir_arrives e) (metis ok ok_clear ok_mkdirParents snd_conv)+
  show ?thesis
  proof (cases "\<exists>info. at_info at = Some info \<and> IsDir info")
    case True
    then obtain info where info: "at_info at = Some info" "IsDir info" by blast
    with met obtain n where n: "tr_node tr ?p = Some n" "nd_info n = info" by (auto simp: met_def)
    from met_rec [OF met info(1)] obtain i rec where r: "rec_at tr ?p = Some (i, rec)" "rc_fp rec = fingerprintOf info" by blast
    have m: "e_mode (op_entry op) = ?m" using e by (auto simp: check_def split: if_splits)
    have same: "arrives op (recordNow op tr)" if "fileMode Dir (fi_mode info) = ?m"
      by (rule recordNow_arrives [OF ok]) (use that n info e m in \<open>auto simp: node_matches_def\<close>)
    have "arrives op (andThen (tr_call (Chmod ?p ?m)) (recordNow op) tr)" if d: "fileMode Dir (fi_mode info) \<noteq> ?m"
    proof (rule arrives_then)
      show "root_true tr2" if "tr_call (Chmod ?p ?m) tr = (Some x, tr2)" for x tr2
        using calm_ok [OF ok Chmod_edits(2) [OF that]] by simp
      fix tr2 assume "tr_call (Chmod ?p ?m) tr = (None, tr2)"
      from Chmod_edits(1) [OF this] n(1) obtain t where
        ed: "edits ?p n (n\<lparr>nd_info := (chmodded (nd_info n) ?m)\<lparr>fi_ctime := t\<rparr>\<rparr>) tr tr2" by (auto simp: edits_def)
      have "fi_mode info \<noteq> fi_mode (chmodded info ?m)" using d chmodded_mode(1) [OF info(2), of ?m] m by metis
      then have "rc_fp rec \<noteq> fingerprintOf (chmodded info ?m\<lparr>fi_ctime := t\<rparr>)"
        using r(2) by (auto dest: arg_cong [of _ _ fp_mode])
      then have "root_true tr2"
        by (intro edits_ok [OF ok ed]) (use sound_at [OF ok n(1)] r(1) n(2) in \<open>auto simp: sized_chmodded\<close>)
      then show "arrives op (recordNow op tr2)"
        by (rule recordNow_arrives) (use ed info n matches_chmodded_dir [of n] e in \<open>auto simp: edits_def\<close>)
    qed
    with same show ?thesis by (simp add: makeDir_def Let_def info)
  next
    case False
    with anew show ?thesis by (auto simp: makeDir_def Let_def split: option.split)
  qed
qed

lemma makeLink_arrives:
  assumes ok: "root_true tr" and e: "e_kind (op_entry op) = Symlink"
  shows "arrives op (makeLink cfg op at tr)"
proof -
  let ?p = "op_path op" and ?t = "e_target (op_entry op)"
  obtain r tr1 where c: "tr_call (Readlink ?p) tr = (r, tr1)" by fastforce
  have ok1: "root_true tr1" by (rule ok_callD [OF c ok]) (rule calms)
  have kept: "arrives op (recordNow op tr1)" if "r = Inr ?t"
  proof (rule recordNow_arrives [OF ok1])
    fix n assume "tr_node tr1 ?p = Some n"
    with that c e show "node_matches n (op_entry op)"
      by (auto simp: tr_call_def Readlink_def node_matches_def split: prod.splits option.splits if_splits)
  qed
  have link: "arrives op (andThen (tr_call (SymlinkAt ?t ?p)) (recordNow op) t1)" if "root_true t1" for t1
  proof (rule arrives_then)
    show "root_true t2" if "tr_call (SymlinkAt ?t ?p) t1 = (Some x, t2)" for x t2
      by (rule ok_callD [OF that \<open>root_true t1\<close>]) (rule calms)
    fix t2 assume c: "tr_call (SymlinkAt ?t ?p) t1 = (None, t2)"
    have "root_true t2" by (rule ok_callD [OF c that]) (rule calms)
    then show "arrives op (recordNow op t2)"
      by (rule recordNow_arrives) (use SymlinkAt_makes [OF c] e in \<open>auto simp: makes_def node_matches_def\<close>)
  qed
  have anew: "arrives op (andThen (clear cfg ?p at) (andThen (mkdirParents cfg ?p) (andThen (tr_call (SymlinkAt ?t ?p)) (recordNow op))) t1)"
    if "root_true t1" for t1
    by (intro arrives_then link) (metis that ok_clear ok_mkdirParents snd_conv)+
  show ?thesis
    using kept anew [OF ok] anew [OF ok1] by (auto simp: makeLink_def Let_def c)
qed


section \<open>Files\<close>

lemma recordWritten_arrives:
  assumes "root_true tr" "\<And>n. tr_node tr (op_path op) = Some n \<Longrightarrow> node_matches n (op_entry op)"
  shows "arrives op (recordWritten op tr)"
proof -
  obtain r tr1 where c: "tr_call (Lstat (op_path op)) tr = (r, tr1)" by fastforce
  have ok: "root_true tr1" by (rule ok_callD [OF c assms(1)]) (rule calms)
  show ?thesis
  proof (cases r)
    case (Inr info)
    from Lstat_Inr [OF c [unfolded Inr]] obtain n where n: "tr_node tr1 (op_path op) = Some n" "tr_node tr (op_path op) = Some n" "nd_info n = info"
      by blast
    define fp where "fp = (if fi_size info \<noteq> e_size (op_entry op) \<or> \<not> ourTime (fi_mtime info) (e_mtime (op_entry op))
                then dirtyFingerprint else fingerprintOf info)"
    let ?rec = "\<lparr>rc_rev = op_rev op, rc_entry = op_entry op, rc_fp = fp, rc_sent = False, rc_made = False\<rparr>"
    have "fp_ino fp < dk_fresh (tr_disk tr1)"
      using sound_at [OF ok n(1)] n(3) by (auto simp: fp_def dirtyFingerprint_def no_fingerprint_def)
    then have "root_true (putRecord (op_path op) ?rec tr1)"
      by (intro put_ok ok) (use n assms(2) in auto)
    moreover have "in_place op (putRecord (op_path op) ?rec tr1)"
      using n assms(2) by (auto simp: in_place_def)
    ultimately have "arrives op (commit_tree (putRecord (op_path op) ?rec tr1))" by (rule arrives_commit)
    then show ?thesis unfolding recordWritten_def c Inr Let_def fp_def by simp
  qed (simp add: recordWritten_def c ok)
qed

lemma replace_end_makes:
  assumes "tr_call (replace_end p data perm mtime) tr = (None, tr')"
  shows "\<exists>n. makes p n tr tr' \<and> fi_mode (nd_info n) = createMode perm \<and> nd_data n = data"
proof -
  note c = tr_callD [OF assms]
  then obtain d1 where d1: "disk_call (\<lambda>d. None) (make_node p (createMode perm) mtime data []) (tr_disk tr) = (None, d1)"
      "next_fail d1 = (None, tr_disk tr')"
    by (auto simp: replace_end_def split: prod.splits option.splits)
  have "tr_call (disk_call (\<lambda>d. None) (make_node p (createMode perm) mtime data [])) tr = (None, tr\<lparr>tr_disk := d1\<rparr>)"
    by (simp add: tr_call_def d1)
  from call_makes [OF this] obtain n where "makes p n tr (tr\<lparr>tr_disk := d1\<rparr>)" "fi_mode (nd_info n) = createMode perm" "nd_data n = data"
    by blast
  with c next_failD [OF d1(2)] show ?thesis by (intro exI [of _ n]) (simp add: makes_def fun_eq_iff)
qed

lemma matches_written:
  assumes "e_kind e = File" "check e = None" "fi_mode (nd_info n) = createMode (e_mode e)" "verify e (nd_data n) = Inr d"
  shows "node_matches n e"
  using assms made_kinds(3) [of "nd_info n" "e_mode e"]
  by (auto simp: node_matches_def check_def verify_def fileMode_create split: if_splits)

text \<open>What others may do to a root while it is not locked: they keep its records true, a record they
  write is a new one, and a file whose fingerprint they leave keeps its content.\<close>

definition follows :: "tree_root \<Rightarrow> tree_root \<Rightarrow> bool" where
  "follows tr tr' \<longleftrightarrow> tr_alloc tr \<le> tr_alloc tr' \<and>
     (\<forall>p i rec. rec_at tr' p = Some (i, rec) \<longrightarrow> rec_at tr p = Some (i, rec) \<or> tr_alloc tr \<le> i)"

definition meddles :: "(tree_root \<Rightarrow> tree_root) \<Rightarrow> bool" where
  "meddles f \<longleftrightarrow> (\<forall>tr. root_true tr \<longrightarrow> root_true (f tr) \<and> follows tr (f tr) \<and>
     (\<forall>p n n'. tr_node tr p = Some n \<and> tr_node (f tr) p = Some n' \<and> fingerprintOf (nd_info n') = fingerprintOf (nd_info n) \<longrightarrow>
        nd_data n' = nd_data n))"

lemma follows_refl [simp]: "follows tr tr" by (simp add: follows_def)

lemma follows_trans: "follows a b \<Longrightarrow> follows b c \<Longrightarrow> follows a c"
  unfolding follows_def by (metis order_trans)

lemma follows_call: "tr_call f tr = (r, tr') \<Longrightarrow> follows tr tr'"
  by (auto simp: follows_def dest: tr_callD)

lemma meddlesD: "meddles f \<Longrightarrow> root_true tr \<Longrightarrow> root_true (f tr)" "meddles f \<Longrightarrow> root_true tr \<Longrightarrow> follows tr (f tr)"
  by (simp_all add: meddles_def)

lemma meddles_data:
  "meddles f \<Longrightarrow> root_true tr \<Longrightarrow> tr_node tr p = Some n \<Longrightarrow> tr_node (f tr) p = Some n' \<Longrightarrow>
   fingerprintOf (nd_info n') = fingerprintOf (nd_info n) \<Longrightarrow> nd_data n' = nd_data n"
  unfolding meddles_def by blast

lemma same_recordD:
  assumes "root_true tr" "follows tr tr'" "rec_at tr p = Some (i, rec)" "same_record (rec_at tr' p) (rec_at tr p)"
  shows "rec_at tr' p = Some (i, rec)"
proof -
  obtain rec' where r: "rec_at tr' p = Some (i, rec')" using assms(3,4) by (auto simp: same_record_def)
  have "i < tr_alloc tr" using assms(1,3) by (auto simp: root_true_def sound_def)
  with r assms(2,3) show ?thesis unfolding follows_def by (metis leD option.inject)
qed

lemma replace_op_arrives:
  assumes ok: "root_true tr" and m: "meddles (others 2)" and e: "check (op_entry op) = None" "e_kind (op_entry op) = File"
  shows "arrives op (replace_op cfg others op at fetch tr)"
proof (cases "fetch 0")
  case (Inr stream)
  let ?p = "op_path op" and ?e = "op_entry op"
  obtain b tr1 where c1: "tr_call (replace_begin ?p (verify ?e stream)) tr = (b, tr1)" by fastforce
  have ok1: "root_true tr1" by (rule ok_callD [OF c1 ok]) (rule calms)
  note ok2 = meddlesD(1) [OF m ok1]
  obtain r tr3 where c3: "tr_call (Lstat ?p) (others 2 tr1) = (r, tr3)" by fastforce
  have ok3: "root_true tr3" by (rule ok_callD [OF c3 ok2]) (rule calms)
  have "arrives op (andThen (tr_call (replace_end ?p data (e_mode ?e) (e_mtime ?e))) (recordWritten op) tr3)" if "b = Inr data" for data
  proof (rule arrives_then)
    show "root_true t" if "tr_call (replace_end ?p data (e_mode ?e) (e_mtime ?e)) tr3 = (Some x, t)" for x t
      by (rule ok_callD [OF that ok3]) (rule calms)
    fix t assume c: "tr_call (replace_end ?p data (e_mode ?e) (e_mtime ?e)) tr3 = (None, t)"
    have okt: "root_true t" by (rule ok_callD [OF c ok3]) (rule calms)
    have "verify ?e stream = Inr data"
      using that c1 by (auto simp: tr_call_def replace_begin_def split: prod.splits option.splits if_splits)
    then have "verify ?e data = Inr data" by (auto simp: verify_def split: if_splits)
    with replace_end_makes [OF c] matches_written [OF e(2,1)] show "arrives op (recordWritten op t)"
      by (intro recordWritten_arrives okt) (auto simp: makes_def)
  qed
  with ok1 ok2 ok3 show ?thesis
    by (auto simp: replace_op_def Let_def Inr c1 c3 split: sum.split)
qed (simp add: replace_op_def ok)

lemma write_whole_arrives:
  assumes ok: "root_true tr" and m: "\<And>k. meddles (others k)" and e: "check (op_entry op) = None" "e_kind (op_entry op) = File"
  shows "arrives op (write_whole cfg others op at fetch tr)"
proof -
  have "arrives op (andThen (if at_info at = None then mkdirParents cfg (op_path op) \<circ> others 1 else Pair None) (replace_op cfg others op at fetch) tr)"
  proof (rule arrives_then)
    have step: "root_true t" if "(if at_info at = None then mkdirParents cfg (op_path op) \<circ> others 1 else Pair None) tr = (r, t)" for r t
      using that ok ok_mkdirParents [OF meddlesD(1) [OF m ok]] by (auto split: if_splits) (metis snd_conv)
    show "root_true t" if "(if at_info at = None then mkdirParents cfg (op_path op) \<circ> others 1 else Pair None) tr = (Some x, t)" for x t
      using step [OF that] .
    show "arrives op (replace_op cfg others op at fetch t)"
      if "(if at_info at = None then mkdirParents cfg (op_path op) \<circ> others 1 else Pair None) tr = (None, t)" for t
      by (rule replace_op_arrives [OF step [OF that] m e])
  qed
  with ok show ?thesis
    unfolding write_whole_def by (cases "room cfg (e_size (op_entry op)) tr") (simp_all only: option.case arrives_err)
qed


section \<open>Appends\<close>

lemma mode_kinds: "fi_mode a = fi_mode b \<Longrightarrow> IsDir a = IsDir b \<and> IsLink a = IsLink b \<and> IsRegular a = IsRegular b"
  by (simp add: IsDir_def IsLink_def IsRegular_def)

lemma set_data_edits:
  assumes "tr_node tr p = Some m"
  shows "\<exists>n'. edits p m n' tr (tr\<lparr>tr_disk := set_data p data (tr_disk tr)\<rparr>) \<and> nd_data n' = data \<and>
    fi_size (nd_info n') = int (length data) \<and> fi_mode (nd_info n') = fi_mode (nd_info m)"
  by (rule exI [of _ "m\<lparr>nd_data := data, nd_info := (nd_info m)\<lparr>fi_size := int (length data),
        fi_mtime := dk_now (tr_disk tr), fi_ctime := dk_now (tr_disk tr)\<rparr>\<rparr>"])
     (simp add: assms set_data_def edits_def fun_eq_iff)

lemma edits_sized:
  assumes "root_true tr" "edits p m n' tr tr'" "fi_size (nd_info n') = int (length (nd_data n'))"
  shows "sized n'"
  using assms sound_at [OF assms(1), of p m] by (simp add: sized_def edits_def)

lemma Regular_not_Dir: "IsRegular i \<Longrightarrow> \<not> IsDir i"
proof -
  have "fi_mode i AND ModeDir = (fi_mode i AND ModeType) AND ModeDir" by (simp only: and.assoc mode_bits)
  then show "IsRegular i \<Longrightarrow> \<not> IsDir i" by (simp add: IsRegular_def IsDir_def)
qed

text \<open>A file that grew in place matches no record of it as it was.\<close>

lemma grown_apart: "IsRegular was \<Longrightarrow> fi_size was < fi_size i \<Longrightarrow> fingerprintOf was \<noteq> fingerprintOf i"
proof
  assume a: "IsRegular was" "fi_size was < fi_size i" "fingerprintOf was = fingerprintOf i"
  then have "fi_mode was = fi_mode i" "fp_size (fingerprintOf was) = fp_size (fingerprintOf i)"
    by (metis fp_fields(2), simp)
  with mode_kinds [of was i] Regular_not_Dir [OF a(1)] a(2) show False by simp
qed

lemma grown_ok:
  assumes "root_true tr" "edits p m m' tr tr'" "sized m'" "rec_at tr p = Some (i, rec)" "rc_fp rec = fingerprintOf was"
    "IsRegular was" "fi_size was < fi_size (nd_info m')"
  shows "root_true tr'"
  by (rule edits_ok [OF assms(1-3)]) (use assms(4-) grown_apart [OF assms(6,7)] in auto)

lemma matches_file_cong:
  "e_kind e = File \<Longrightarrow> fi_mode (nd_info n') = fi_mode (nd_info n) \<Longrightarrow> nd_data n' = nd_data n \<Longrightarrow> node_matches n' e = node_matches n e"
  by (simp add: node_matches_def mode_kinds [of "nd_info n'" "nd_info n"])

text \<open>An append that is undone leaves the file as it was recorded.\<close>

lemma chtimes_ok:
  assumes ok: "root_true tr" and rec: "rec_at tr p = Some (i, rec)" "e_kind (rc_entry rec) = File"
    and n: "tr_node tr p = Some n" "node_matches n (rc_entry rec)"
  shows "root_true (snd (tr_call (Chtimes p x) tr))"
proof -
  obtain r tr1 where c: "tr_call (Chtimes p x) tr = (r, tr1)" by fastforce
  show ?thesis
  proof (cases r)
    case None
    from Chtimes_edits(1) [OF c None] n(1) obtain s where
      ed: "edits p n (n\<lparr>nd_info := ((nd_info n)\<lparr>fi_mtime := x\<rparr>)\<lparr>fi_ctime := s\<rparr>\<rparr>) tr tr1" by (auto simp: edits_def)
    have "root_true tr1"
      by (rule edits_ok [OF ok ed])
         (use sound_at [OF ok n(1)] n(2) rec matches_file_cong [OF rec(2), of "n\<lparr>nd_info := ((nd_info n)\<lparr>fi_mtime := x\<rparr>)\<lparr>fi_ctime := s\<rparr>\<rparr>" n]
          in \<open>auto simp: sized_def\<close>)
    then show ?thesis by (simp add: c)
  next
    case (Some e)
    with calm_ok [OF ok Chtimes_edits(2) [OF c]] show ?thesis by (simp add: c)
  qed
qed

lemma truncate_ok:
  assumes ok: "root_true tr" and rec: "rec_at tr p = Some (i, rec)" "e_kind (rc_entry rec) = File" "node_matches n (rc_entry rec)"
    and m: "tr_node tr p = Some m" "fi_mode (nd_info m) = fi_mode (nd_info n)"
    and c: "tr_call (disk_call (\<lambda>d. None) (set_data p (nd_data n))) tr = (r, tr')"
  shows "root_true tr'" "r = None \<Longrightarrow> rec_at tr' p = Some (i, rec) \<and> (\<exists>n'. tr_node tr' p = Some n' \<and> node_matches n' (rc_entry rec))"
proof -
  have "disk_call (\<lambda>d. None) (set_data p (nd_data n)) (tr_disk tr) = (r, tr_disk tr')" using tr_callD [OF c] by blast
  from disk_callD [OF this] obtain d1 where d1: "dk_nodes d1 = dk_nodes (tr_disk tr)" "dk_fresh d1 = dk_fresh (tr_disk tr)"
      "r = None \<longrightarrow> tr_disk tr' = set_data p (nd_data n) d1" "r \<noteq> None \<longrightarrow> tr_disk tr' = d1" by blast
  let ?t = "tr\<lparr>tr_disk := d1\<rparr>" and ?t' = "tr\<lparr>tr_disk := set_data p (nd_data n) d1\<rparr>"
  have okt: "root_true ?t" by (rule calm_ok [OF ok]) (simp add: calm_def dcalm_def d1)
  have eq: "tr' = (if r = None then ?t' else ?t)" using d1(3,4) tr_node_call [OF c] by (cases r) simp_all
  have t: "tr_node ?t p = Some m" "rec_at ?t p = Some (i, rec)" using d1(1) m(1) rec(1) by simp_all
  from set_data_edits [OF t(1), of "nd_data n"] obtain n' where ed: "edits p m n' ?t ?t'"
    "nd_data n' = nd_data n" "fi_size (nd_info n') = int (length (nd_data n))" "fi_mode (nd_info n') = fi_mode (nd_info m)" by auto
  have sz: "sized n'" using edits_sized [OF okt ed(1)] ed(2,3) by simp
  have mt: "node_matches n' (rc_entry rec)" using matches_file_cong [OF rec(2), of n' n] rec(3) ed(2,4) m(2) by simp
  have "root_true ?t'" by (rule edits_ok [OF okt ed(1) sz]) (use t(2) mt in auto)
  with eq okt show "root_true tr'" by simp
  show "rec_at tr' p = Some (i, rec) \<and> (\<exists>n'. tr_node tr' p = Some n' \<and> node_matches n' (rc_entry rec))" if "r = None"
    using eq that ed(1) t(2) mt by (simp add: edits_def)
qed

lemma OpenFileD:
  assumes "tr_call (OpenFile p) tr = (r, tr1)"
  shows "tr_node tr1 = tr_node tr" "tr_records tr1 = tr_records tr" "r = Inr n \<Longrightarrow> tr_node tr p = Some n \<and> IsRegular (nd_info n)"
  using assms by (auto simp: tr_call_def OpenFile_def split: prod.splits option.splits if_splits dest!: next_failD)

lemma undo_ok:
  assumes ok: "root_true tr" and rec: "rec_at tr p = Some (i, rec)" "e_kind (rc_entry rec) = File" "node_matches n (rc_entry rec)"
    and m: "tr_node tr p = Some m" "nd_data m = nd_data n @ x" "fi_mode (nd_info m) = fi_mode (nd_info n)"
    and was: "fi_size was = int (length (nd_data n))"
  shows "root_true (undoAppend p was landed tr)"
proof -
  obtain r tr1 where c1: "tr_call (OpenFile p) tr = (r, tr1)" by fastforce
  have ok1: "root_true tr1" by (rule ok_callD [OF c1 ok]) (rule calms)
  note s1 = OpenFileD [OF c1]
  have take: "take (nat (fi_size was)) (nd_data m) = nd_data n" by (simp add: was m(2))
  obtain r2 tr2 where c2: "tr_call (disk_call (\<lambda>d. None) (set_data p (nd_data n))) tr1 = (r2, tr2)" by fastforce
  have t1: "rec_at tr1 p = Some (i, rec)" "tr_node tr1 p = Some m" using s1 rec(1) m(1) by simp_all
  note t2 = truncate_ok [OF ok1 t1(1) rec(2,3) t1(2) m(3) c2]
  have "root_true (snd (tr_call (Chtimes p y) tr2))" if "r2 = None" for y
    using t2(2) [OF that] chtimes_ok [OF t2(1) _ rec(2)] by blast
  with ok1 t2(1) s1(3) m(1) show ?thesis
    by (auto simp: undoAppend_def c1 take c2 split: option.split sum.split)
qed

lemma write_append_ok:
  assumes ok: "root_true tr" and rec: "rec_at tr p = Some (i, rec)" "rc_fp rec = fingerprintOf was"
    and n: "tr_node tr p = Some n" "IsRegular was" "fi_size was = int (length (nd_data n))" and suff: "suff \<noteq> []"
    and c: "write_append p suff n tr = (r, tr')"
  shows "root_true tr' \<and> rec_at tr' = rec_at tr \<and>
    (r = None \<or> (\<exists>x k. r = Some (x, k) \<and> 0 < k) \<longrightarrow> (\<exists>m x. tr_node tr' p = Some m \<and> nd_data m = nd_data n @ x \<and>
       fi_mode (nd_info m) = fi_mode (nd_info n) \<and> fi_size was < fi_size (nd_info m) \<and> (r = None \<longrightarrow> x = suff)))"
proof -
  have w: "\<exists>m. root_true (t\<lparr>tr_disk := set_data p (nd_data n @ x) (tr_disk t)\<rparr>) \<and>
      tr_node (t\<lparr>tr_disk := set_data p (nd_data n @ x) (tr_disk t)\<rparr>) p = Some m \<and> nd_data m = nd_data n @ x \<and>
      fi_mode (nd_info m) = fi_mode (nd_info n) \<and> fi_size was < fi_size (nd_info m)"
    if t: "tr_call next_fail tr = (f, t)" and x: "x \<noteq> []" for t x f
  proof -
    have okt: "root_true t" by (rule ok_callD [OF t ok]) (rule calms)
    have s: "tr_node t p = Some n" "rec_at t p = Some (i, rec)"
      using t n(1) rec(1) by (auto simp: tr_call_def split: prod.splits dest!: next_failD)
    from set_data_edits [OF s(1), of "nd_data n @ x"] obtain m where ed: "edits p n m t (t\<lparr>tr_disk := set_data p (nd_data n @ x) (tr_disk t)\<rparr>)"
      "nd_data m = nd_data n @ x" "fi_size (nd_info m) = int (length (nd_data n @ x))" "fi_mode (nd_info m) = fi_mode (nd_info n)" by blast
    have sz: "sized m" using edits_sized [OF okt ed(1)] ed(2,3) by simp
    have g: "fi_size was < fi_size (nd_info m)" using n(3) ed(3) x by simp
    show ?thesis using grown_ok [OF okt ed(1) sz s(2) rec(2) n(2) g] ed g by (auto simp: edits_def)
  qed
  obtain f tr1 where c1: "tr_call next_fail tr = (f, tr1)" by fastforce
  have ok1: "root_true tr1" by (rule ok_callD [OF c1 ok]) (rule calms)
  have r1: "rec_at tr1 = rec_at tr" using tr_callD [OF c1] by simp
  show ?thesis
  proof (cases f)
    case (Some g)
    let ?k = "min (fl_wrote g) (length suff)"
    have "0 < ?k \<Longrightarrow> take ?k suff \<noteq> []" using suff by auto
    with w [OF c1, of "take ?k suff"] c ok1 r1 show ?thesis
      by (cases "?k = 0") (auto simp: write_append_def c1 Some Let_def)
  next
    case None
    let ?t = "tr1\<lparr>tr_disk := set_data p (nd_data n @ suff) (tr_disk tr1)\<rparr>"
    from w [OF c1 suff] obtain m where m: "root_true ?t" "tr_node ?t p = Some m" "nd_data m = nd_data n @ suff"
      "fi_mode (nd_info m) = fi_mode (nd_info n)" "fi_size was < fi_size (nd_info m)" by blast
    obtain f2 tr2 where c2: "tr_call next_fail ?t = (f2, tr2)" by fastforce
    have ok2: "root_true tr2" by (rule ok_callD [OF c2 m(1)]) (rule calms)
    have "tr_node tr2 p = Some m" "rec_at tr2 = rec_at tr"
      using tr_callD [OF c2] r1 m(2) by (auto dest!: next_failD)
    with c ok2 m show ?thesis by (cases f2) (auto simp: write_append_def c1 c2 None)
  qed
qed


lemma matches_appended:
  assumes "e_kind e = File" "IsRegular (nd_info m)" "fileMode File (fi_mode (nd_info m)) = e_mode e"
    "int (length (nd_data m)) = e_size e" "hashOf (nd_data m) = e_hash e"
  shows "node_matches m e"
  using assms by (simp add: node_matches_def)

lemma append_times_arrives:
  assumes ok: "root_true tr" and rec: "rec_at tr p = Some (i, rec)" "rc_fp rec = fingerprintOf was" "IsRegular was"
    and m: "tr_node tr p = Some m" "node_matches m (op_entry op)" "fi_size was < fi_size (nd_info m)" "e_kind (op_entry op) = File"
    and p: "p = op_path op"
  shows "arrives op (andThen (tr_call (Chtimes p x)) (recordWritten op) tr)"
proof (rule arrives_then)
  show "root_true t" if "tr_call (Chtimes p x) tr = (Some y, t)" for y t
    using calm_ok [OF ok Chtimes_edits(2) [OF that]] by simp
  fix t assume c: "tr_call (Chtimes p x) tr = (None, t)"
  from Chtimes_edits(1) [OF c] m(1) obtain s where
    ed: "edits p m (m\<lparr>nd_info := ((nd_info m)\<lparr>fi_mtime := x\<rparr>)\<lparr>fi_ctime := s\<rparr>\<rparr>) tr t" by (auto simp: edits_def)
  have "root_true t"
    by (rule grown_ok [OF ok ed _ rec]) (use sound_at [OF ok m(1)] m(3) in \<open>auto simp: sized_def\<close>)
  then show "arrives op (recordWritten op t)"
    by (rule recordWritten_arrives)
       (use ed m(2,4) p matches_file_cong [of "op_entry op" "m\<lparr>nd_info := ((nd_info m)\<lparr>fi_mtime := x\<rparr>)\<lparr>fi_ctime := s\<rparr>\<rparr>" m]
        in \<open>auto simp: edits_def\<close>)
qed

text \<open>The end of an append: the mode, the times and the record.\<close>

lemma append_end_arrives:
  assumes ok: "root_true tr" and rec: "rec_at tr p = Some (i, rec)" "rc_fp rec = fingerprintOf was" "IsRegular was"
    and m: "tr_node tr p = Some m" "IsRegular (nd_info m)" "fi_mode (nd_info m) = fi_mode was" "fi_size was < fi_size (nd_info m)"
    and e: "e_kind (op_entry op) = File" "check (op_entry op) = None"
      "int (length (nd_data m)) = e_size (op_entry op)" "hashOf (nd_data m) = e_hash (op_entry op)"
    and p: "p = op_path op"
  shows "arrives op (andThen (if fileMode File (fi_mode was) \<noteq> e_mode (op_entry op)
                               then tr_call (Chmod p (e_mode (op_entry op))) else Pair None)
                        (andThen (tr_call (Chtimes p (e_mtime (op_entry op)))) (recordWritten op)) tr)"
    (is "arrives op (andThen ?f _ tr)")
proof (rule arrives_then)
  show "root_true t" if "?f tr = (Some y, t)" for y t
    using that calm_ok [OF ok Chmod_edits(2)] by (auto split: if_splits)
  fix t assume c: "?f tr = (None, t)"
  show "arrives op (andThen (tr_call (Chtimes p (e_mtime (op_entry op)))) (recordWritten op) t)"
  proof (cases "fileMode File (fi_mode was) = e_mode (op_entry op)")
    case True
    have "node_matches m (op_entry op)" by (rule matches_appended) (use e m True in auto)
    from append_times_arrives [OF ok rec m(1) this m(4) e(1) p] c True show ?thesis by simp
  next
    case False
    with c have c: "tr_call (Chmod p (e_mode (op_entry op))) tr = (None, t)" by simp
    from Chmod_edits(1) [OF this] m(1) obtain s where
      ed: "edits p m (m\<lparr>nd_info := (chmodded (nd_info m) (e_mode (op_entry op)))\<lparr>fi_ctime := s\<rparr>\<rparr>) tr t" by (auto simp: edits_def)
    let ?m = "m\<lparr>nd_info := (chmodded (nd_info m) (e_mode (op_entry op)))\<lparr>fi_ctime := s\<rparr>\<rparr>"
    have "root_true t"
      by (rule grown_ok [OF ok ed _ rec]) (use sound_at [OF ok m(1)] m(4) in \<open>auto simp: sized_def\<close>)
    moreover have "rec_at t p = Some (i, rec)" "tr_node t p = Some ?m" using ed rec(1) by (simp_all add: edits_def)
    moreover have "node_matches ?m (op_entry op)"
      by (rule matches_appended) (use e m(2) chmodded_mode(2) [OF Regular_not_Dir [OF m(2)]] in \<open>auto simp: check_def split: if_splits\<close>)
    ultimately show ?thesis
      using append_times_arrives [OF _ _ rec(2,3) _ _ _ e(1) p] m(4) by simp
  qed
qed

lemma stillD:
  assumes "still p at tr = (r, tr1)"
  shows "tr_node tr1 = tr_node tr" "tr_records tr1 = tr_records tr" "r = None \<Longrightarrow> same_record (rec_at tr p) (at_rec at)"
    "root_true tr \<Longrightarrow> root_true tr1"
proof -
  obtain x t where c: "tr_call (Lstat p) tr = (x, t)" by fastforce
  have "root_true tr \<Longrightarrow> root_true t" by (rule ok_callD [OF c]) (simp, rule calms)
  with assms Lstat_same [OF c] tr_callD [OF c] show "tr_node tr1 = tr_node tr" "tr_records tr1 = tr_records tr"
    "r = None \<Longrightarrow> same_record (rec_at tr p) (at_rec at)" "root_true tr \<Longrightarrow> root_true tr1"
    by (auto simp: still_def c split: if_splits sum.splits)
qed

lemma append_locked_arrives:
  assumes ok: "root_true tr" and e: "e_kind (op_entry op) = File" "check (op_entry op) = None"
    and at: "same_record (rec_at tr (op_path op)) (at_rec at) \<Longrightarrow> rec_at tr (op_path op) = Some (i, rec)"
    and rec: "rc_fp rec = fingerprintOf was" "IsRegular was" "e_kind (rc_entry rec) = File"
    and data: "\<And>n. tr_node tr (op_path op) = Some n \<Longrightarrow> fingerprintOf (nd_info n) = fingerprintOf was \<Longrightarrow>
      fi_size was = int (length (nd_data n)) \<and> hashOf (nd_data n @ suff) = e_hash (op_entry op) \<and>
      int (length (nd_data n @ suff)) = e_size (op_entry op)"
    and suff: "suff \<noteq> []"
  shows "arrives op (append_locked cfg op at was suff tr)"
proof -
  let ?p = "op_path op"
  obtain r1 tr1 where c1: "still ?p at tr = (r1, tr1)" by fastforce
  note s1 = stillD [OF c1]
  obtain r2 tr2 where c2: "tr_call (OpenFile ?p) tr1 = (r2, tr2)" by fastforce
  have ok2: "root_true tr2" by (rule ok_callD [OF c2 s1(4) [OF ok]]) (rule calms)
  note s2 = OpenFileD [OF c2]
  have main: "arrives op (case write_append ?p suff n tr2 of
      (Some (e, landed), tr3) \<Rightarrow> (Some e, if landed > 0 then undoAppend ?p was landed tr3 else tr3)
    | (None, tr3) \<Rightarrow> andThen (if fileMode File (fi_mode was) \<noteq> e_mode (op_entry op) then tr_call (Chmod ?p (e_mode (op_entry op))) else Pair None)
                        (andThen (tr_call (Chtimes ?p (e_mtime (op_entry op)))) (recordWritten op)) tr3)"
    if n: "r1 = None" "r2 = Inr n" "fingerprintOf (nd_info n) = fingerprintOf was" for n
  proof -
    have r: "rec_at tr2 ?p = Some (i, rec)" using at s1(2,3) s2(2) n(1) by simp
    have nd: "tr_node tr2 ?p = Some n" "IsRegular (nd_info n)" using s2(1,3) n(2) s1(1) by simp_all
    note d = data [OF nd(1) [unfolded s2(1) s1(1)] n(3)]
    have mode: "fi_mode (nd_info n) = fi_mode was" using n(3) by (metis fp_fields(2))
    have "Live (rc_entry rec)" using rec(3) by (simp add: Live_def)
    with ok2 r nd(1) n(3) rec(1) have mt: "node_matches n (rc_entry rec)" by (auto simp: root_true_def truth_at_def)
    obtain w tr3 where c3: "write_append ?p suff n tr2 = (w, tr3)" by fastforce
    note s3 = write_append_ok [OF ok2 r rec(1) nd(1) rec(2) conjunct1 [OF d] suff c3]
    have r3: "rec_at tr3 ?p = Some (i, rec)" using s3 r by simp
    show ?thesis
    proof (cases w)
      case None
      with s3 obtain m where m: "tr_node tr3 ?p = Some m" "nd_data m = nd_data n @ suff" "fi_mode (nd_info m) = fi_mode (nd_info n)"
        "fi_size was < fi_size (nd_info m)" by blast
      have "arrives op (andThen (if fileMode File (fi_mode was) \<noteq> e_mode (op_entry op) then tr_call (Chmod ?p (e_mode (op_entry op))) else Pair None)
                        (andThen (tr_call (Chtimes ?p (e_mtime (op_entry op)))) (recordWritten op)) tr3)"
        by (rule append_end_arrives [OF _ r3 rec(1,2) m(1)]) (use s3 m d e mode mode_kinds [of "nd_info m" was] rec(2) in simp_all)
      then show ?thesis by (simp only: c3 None prod.case option.case)
    next
      case (Some a)
      obtain x k where a: "a = (x, k)" by fastforce
      have "root_true (undoAppend ?p was k tr3)" if "0 < k"
      proof -
        from s3 Some a that obtain m y where m: "tr_node tr3 ?p = Some m" "nd_data m = nd_data n @ y" "fi_mode (nd_info m) = fi_mode (nd_info n)"
          by blast
        show ?thesis by (rule undo_ok [OF _ r3 rec(3) mt m]) (use s3 d in auto)
      qed
      with s3 show ?thesis by (simp add: c3 Some a)
    qed
  qed
  show ?thesis
  proof (cases r1)
    case None
    with main ok2 show ?thesis by (cases r2) (simp_all add: append_locked_def Let_def c1 c2)
  qed (simp add: append_locked_def c1 s1(4) [OF ok])
qed


lemma extends_pos:
  assumes "0 < extends e prev"
  shows "e_kind e = File" "e_kind prev = File" "extends e prev = e_size prev" "e_size prev < e_size e"
  using assms find_growth_result [of "e_grew e" prev] by (auto simp: extends_def split: if_splits)

lemma appendFile_arrives:
  assumes base: "root_true base" "met base (op_path op) at" "at_info at = Some was" "at_rec at = Some (i, rec)"
    and tr: "root_true tr" "follows base tr" and m: "meddles (others 3)" and e: "check (op_entry op) = None"
    and off: "0 < extends (op_entry op) (rc_entry rec)"
    and c: "appendFile cfg others op at was (extends (op_entry op) (rc_entry rec)) fetch tr = (r, tr')"
  shows "root_true tr' \<and> (r = Appended \<longrightarrow> in_place op tr')"
proof -
  let ?p = "op_path op" and ?e = "op_entry op" and ?off = "extends (op_entry op) (rc_entry rec)"
  note x = extends_pos [OF off]
  from met_rec [OF base(2,3)] base(2,4) have r: "rec_at base ?p = Some (i, rec)" "Live (rc_entry rec)" "rc_fp rec = fingerprintOf was"
    by (auto simp: met_def)
  from base(2,3) obtain m0 where m0: "tr_node base ?p = Some m0" "nd_info m0 = was" by (auto simp: met_def)
  with base(1) r have mt: "node_matches m0 (rc_entry rec)" by (auto simp: root_true_def truth_at_def)
  then have was: "IsRegular was" "fi_size was = ?off"
    using sound_at [OF base(1) m0(1)] x(2,3) m0(2) by (auto simp: node_matches_def sized_def)
  have "root_true tr' \<and> (r = Appended \<longrightarrow> in_place op tr')"
    if room: "room cfg (e_size ?e - ?off) tr = None" and fetch: "fetch ?off = Inr stream"
      and len: "int (length (take (nat (e_size ?e - ?off + 1)) stream)) = e_size ?e - ?off" for stream
  proof -
    define suff where "suff = take (nat (e_size ?e - ?off + 1)) stream"
    have suff: "suff \<noteq> []" using len x(3,4) by (auto simp: suff_def)
    obtain b tr1 where c1: "tr_call (OpenFile ?p) tr = (b, tr1)" by fastforce
    have ok1: "root_true tr1" by (rule ok_callD [OF c1 tr(1)]) (rule calms)
    have f2: "follows base (others 3 tr1)"
      using follows_trans [OF follows_trans [OF tr(2) follows_call [OF c1]] meddlesD(2) [OF m ok1]] .
    have "arrives op (append_locked cfg op at was suff (others 3 tr1))"
      if b: "b = Inr n" "fingerprintOf (nd_info n) = fingerprintOf was" "hashOf (take (nat ?off) (nd_data n) @ suff) = e_hash ?e" for n
    proof (rule append_locked_arrives [OF meddlesD(1) [OF m ok1] x(1) e _ r(3) was(1) x(2) _ suff])
      show "rec_at (others 3 tr1) ?p = Some (i, rec)" if "same_record (rec_at (others 3 tr1) ?p) (at_rec at)"
        using same_recordD [OF base(1) f2 r(1)] that base(4) r(1) by simp
      fix n' assume n': "tr_node (others 3 tr1) ?p = Some n'" "fingerprintOf (nd_info n') = fingerprintOf was"
      have n: "tr_node tr1 ?p = Some n" "IsRegular (nd_info n)" using OpenFileD [OF c1] b(1) by simp_all
      have "nd_data n' = nd_data n" using meddles_data [OF m ok1 n(1) n'(1)] b(2) n'(2) by simp
      moreover have "fi_size (nd_info n) = fi_size was"
        using b(2) Regular_not_Dir [OF n(2)] Regular_not_Dir [OF was(1)] by (metis fp_fields(3))
      ultimately show "fi_size was = int (length (nd_data n')) \<and> hashOf (nd_data n' @ suff) = e_hash ?e \<and> int (length (nd_data n' @ suff)) = e_size ?e"
        using sound_at [OF ok1 n(1)] n(2) was(2) b(3) len by (simp add: sized_def suff_def)
    qed
    then show ?thesis
      using c ok1 tr(1) x(1) unfolding appendFile_def Let_def room fetch
      by (auto simp: c1 len arrives_def append_of_def Live_def simp flip: suff_def
        split: sum.splits if_splits prod.splits option.splits)
  qed
  then show ?thesis
    using c tr(1) by (auto simp: appendFile_def Let_def split: option.split_asm sum.split_asm if_split_asm)
qed

lemma writeFile_arrives:
  assumes ok: "root_true tr" and met: "met tr (op_path op) at" and m: "\<And>k. meddles (others k)"
    and e: "check (op_entry op) = None" "e_kind (op_entry op) = File"
  shows "arrives op (writeFile cfg others op at content tr)"
proof (cases content)
  case (Some fetch)
  let ?p = "op_path op" and ?e = "op_entry op"
  let ?dir = "case at_info at of None \<Rightarrow> False | Some info \<Rightarrow> IsDir info"
  note ok0 = meddlesD(1) [OF m ok, of 0] and whole = write_whole_arrives [OF _ m e]
  have dir: "arrives op (andThen (still ?p at) (andThen (clear cfg ?p at)
      (write_whole cfg others op \<lparr>at_rec = at_rec at, at_info = None\<rparr> fetch)) (others 0 tr))"
    by (intro arrives_then whole) (metis ok0 stillD(4) ok_clear snd_conv)+
  have app: "arrives op (case appendFile cfg others op at was (extends ?e (rc_entry rec)) fetch (others 0 tr) of
      (AppendErr e, tr1) \<Rightarrow> (Some e, tr1) | (Appended, tr1) \<Rightarrow> (None, tr1) | (NoAppend, tr1) \<Rightarrow> write_whole cfg others op at fetch tr1)"
    if at: "at_info at = Some was" "at_rec at = Some (i, rec)" "0 < extends ?e (rc_entry rec)" for was i rec
  proof -
    obtain r tr1 where c: "appendFile cfg others op at was (extends ?e (rc_entry rec)) fetch (others 0 tr) = (r, tr1)" by fastforce
    from appendFile_arrives [OF ok met at(1,2) ok0 meddlesD(2) [OF m ok] m e(1) at(3) c] whole [of tr1]
    show ?thesis by (auto simp: c arrives_def split: append_result.split)
  qed
  show ?thesis
  proof (cases ?dir)
    case True
    with dir show ?thesis by (simp add: writeFile_def Let_def Some)
  next
    case False
    have "(\<exists>was i rec. at_info at = Some was \<and> at_rec at = Some (i, rec) \<and> 0 < extends ?e (rc_entry rec) \<and>
        e_size ?e - extends ?e (rc_entry rec) \<le> maxAppend) \<or>
        writeFile cfg others op at content tr = write_whole cfg others op at fetch (others 0 tr)"
      by (cases "at_info at"; cases "at_rec at") (use False in \<open>auto simp: writeFile_def Let_def Some split: if_split_asm\<close>)
    then consider was i rec where "at_info at = Some was" "at_rec at = Some (i, rec)" "0 < extends ?e (rc_entry rec)"
        "e_size ?e - extends ?e (rc_entry rec) \<le> maxAppend"
      | "writeFile cfg others op at content tr = write_whole cfg others op at fetch (others 0 tr)" by blast
    then show ?thesis
    proof cases
      case 1
      with app [OF 1(1-3)] False show ?thesis by (simp add: writeFile_def Let_def Some)
    next
      case 2
      with whole [OF ok0] show ?thesis by simp
    qed
  qed
qed (simp add: writeFile_def ok)

lemma matches_Same: "node_matches n e \<Longrightarrow> Same e d \<Longrightarrow> node_matches n d"
  by (auto simp: node_matches_def Same_def split: kind.splits if_splits)

lemma look_ok: "look p tr = (r, tr1) \<Longrightarrow> root_true tr \<Longrightarrow> root_true tr1 \<and> tr_node tr1 = tr_node tr \<and> tr_records tr1 = tr_records tr"
proof -
  obtain x t where c: "tr_call (Lstat p) tr = (x, t)" by fastforce
  have "root_true tr \<Longrightarrow> root_true t" by (rule ok_callD [OF c]) (simp, rule calms)
  then show "look p tr = (r, tr1) \<Longrightarrow> root_true tr \<Longrightarrow> root_true tr1 \<and> tr_node tr1 = tr_node tr \<and> tr_records tr1 = tr_records tr"
    using Lstat_same [OF c] tr_callD [OF c] by (auto simp: look_def c Let_def split: sum.splits if_splits)
qed

lemma same_arrives:
  assumes ok: "root_true tr" and met: "met tr (op_path op) at" "at_info at = Some info" "at_rec at = Some (i, rec)"
    and same: "Same (rc_entry rec) (op_entry op)"
  shows "arrives op (recordOp op (at_info at) tr)"
proof -
  from met_rec [OF met(1,2)] met(1,3) have r: "rec_at tr (op_path op) = Some (i, rec)" "Live (rc_entry rec)" "rc_fp rec = fingerprintOf info"
    by (auto simp: met_def)
  from met(1,2) obtain n where n: "tr_node tr (op_path op) = Some n" "nd_info n = info" by (auto simp: met_def)
  with ok r have "node_matches n (rc_entry rec)" by (auto simp: root_true_def truth_at_def)
  from recordOp_arrives [OF ok n(1) matches_Same [OF this same]] n(2) met(2) show ?thesis by simp
qed

lemma blank_ok:
  assumes "root_true tr" "rc_fp rec = no_fingerprint"
  shows "root_true (putRecord p rec tr)"
proof (rule put_ok [OF assms(1)])
  show "fp_ino (rc_fp rec) < dk_fresh (tr_disk tr)" using assms by (simp add: no_fingerprint_def root_true_def sound_def)
  fix n assume "tr_node tr p = Some n" "rc_fp rec = fingerprintOf (nd_info n)"
  with sound_at [OF assms(1)] assms(2) show "node_matches n (rc_entry rec)"
    by (metis fingerprint.simps(4) fp_fields(1) less_numeral_extra(3) no_fingerprint_def sized_def)
qed

lemma applyReadOnly_ok:
  assumes ok: "root_true tr"
  shows "root_true (snd (applyReadOnly cfg op tr))"
proof -
  obtain r tr1 where c: "look (op_path op) tr = (r, tr1)" by fastforce
  from look_ok [OF c ok] have ok1: "root_true tr1" by simp
  have same: "root_true (snd (recordOp op (at_info at) tr1))"
    if "r = Inr at" "at_info at = Some info" "at_rec at = Some (i, rec)" "Same (rc_entry rec) (op_entry op)" for at info i rec
    using same_arrives [OF ok1 look_met [OF c [unfolded that(1)]] that(2-4)] by (simp add: arrives_def)
  have other: "root_true (snd (commit_tree (putRecord (op_path op) \<lparr>rc_rev = op_rev op, rc_entry = x,
      rc_fp = no_fingerprint, rc_sent = False, rc_made = False\<rparr> tr1)))" for x
    by (rule ok_commit) (rule blank_ok [OF ok1], simp)
  have o2: "root_true t" if "commit_tree (putRecord (op_path op) \<lparr>rc_rev = op_rev op, rc_entry = x,
      rc_fp = no_fingerprint, rc_sent = False, rc_made = False\<rparr> tr1) = (y, t)" for x y t
    using other [of x] that by simp
  have s2: "root_true t" if "recordOp op (Some info) tr1 = (y, t)" "r = Inr at" "at_info at = Some info" "at_rec at = Some (i, rec)"
    "Same (rc_entry rec) (op_entry op)" for at info i rec y t
    using same [OF that(2-)] that(1,3) by simp
  show ?thesis
    using ok1 by (auto simp: applyReadOnly_def c split: sum.split option.split prod.split dest: o2 s2)
qed


section \<open>Ops\<close>

lemma check_kinds: "check e = None \<Longrightarrow> e_kind e \<in> {Gone, File, Dir, Symlink}"
  by (auto simp: check_def split: kind.splits)

lemma remove_arrives: "root_true tr \<Longrightarrow> \<not> Live (op_entry op) \<Longrightarrow> arrives op (remove_op cfg op at tr)"
  using ok_clear [of tr cfg "op_path op" at] recordNow_arrives [of _ op]
  by (auto simp: remove_op_def split: prod.splits option.splits)

text \<open>What an op that passed the checks and met no change of the side's comes to.\<close>

definition takes_op :: "tree_cfg \<Rightarrow> (nat \<Rightarrow> tree_root \<Rightarrow> tree_root) \<Rightarrow> sync_op \<Rightarrow> (int \<Rightarrow> sync_error + string) option \<Rightarrow>
    local_state \<Rightarrow> tree_root \<Rightarrow> sync_error option \<times> tree_root" where
  "takes_op cfg others op content at tr =
     (if (case (at_rec at, at_info at) of (Some (i, rec), Some info) \<Rightarrow> Same (rc_entry rec) (op_entry op) | _ \<Rightarrow> False)
      then recordOp op (at_info at) tr
      else if at_info at = None \<and> \<not> Live (op_entry op) then commit_tree (dropRecord (op_path op) tr)
      else case e_kind (op_entry op) of File \<Rightarrow> writeFile cfg others op at content tr | Gone \<Rightarrow> remove_op cfg op at tr
        | Dir \<Rightarrow> makeDir cfg op at tr | _ \<Rightarrow> makeLink cfg op at tr)"

definition turned_away :: "tree_cfg \<Rightarrow> sync_op \<Rightarrow> tree_root \<Rightarrow> bool" where
  "turned_away cfg op tr \<longleftrightarrow> \<not> synced cfg tr (op_path op) \<or> tr_readOnly tr \<or> check (op_entry op) \<noteq> None \<or>
     (case rec_at tr (op_path op) of None \<Rightarrow> False | Some (i, rec) \<Rightarrow> rc_rev rec > op_rev op)"

lemma apply_op_takes:
  assumes "\<not> turned_away cfg op tr" "look (op_path op) tr = (Inr at, tr1)"
  shows "apply_op cfg others op content tr =
    (classify (tc_msg cfg) (fst (takes_op cfg others op content at tr1)), snd (takes_op cfg others op content at tr1))"
  using assms by (cases "e_kind (op_entry op)") (auto simp: apply_op_def takes_op_def turned_away_def Let_def split: prod.split)

lemma takes_op_arrives:
  assumes ok: "root_true tr" and met: "met tr (op_path op) at" and m: "\<And>k. meddles (others k)" and chk: "check (op_entry op) = None"
  shows "arrives op (takes_op cfg others op content at tr)"
proof -
  have same: "arrives op (recordOp op (at_info at) tr)"
    if "case (at_rec at, at_info at) of (Some (i, rec), Some info) \<Rightarrow> Same (rc_entry rec) (op_entry op) | _ \<Rightarrow> False"
    using that same_arrives [OF ok met] by (auto split: option.splits)
  have drop: "arrives op (commit_tree (dropRecord (op_path op) tr))" if "\<not> Live (op_entry op)" using that ok by simp
  note fw = writeFile_arrives [OF ok met m chk] and rm = remove_arrives [OF ok] and md = makeDir_arrives [OF ok chk _ met]
    and ml = makeLink_arrives [OF ok]
  show ?thesis
    unfolding takes_op_def using same drop fw rm md ml check_kinds [OF chk] by (auto simp: Live_def split: kind.split)
qed

lemma apply_op_arrives:
  assumes ok: "root_true tr" and m: "\<And>k. meddles (others k)"
    and c: "apply_op cfg others op content tr = ((st, reason), tr')"
  shows "root_true tr'" "st = Applied \<Longrightarrow> Live (op_entry op) \<Longrightarrow> \<not> tr_readOnly tr \<Longrightarrow> in_place op tr'"
proof -
  obtain r tr1 where l: "look (op_path op) tr = (r, tr1)" by fastforce
  from look_ok [OF l ok] have ok1: "root_true tr1" by simp
  have "root_true tr' \<and> (st = Applied \<and> Live (op_entry op) \<and> \<not> tr_readOnly tr \<longrightarrow> in_place op tr')"
  proof (cases "turned_away cfg op tr \<or> (\<exists>x. r = Inl x)")
    case False
    then obtain at where r: "r = Inr at" by (cases r) auto
    note met = look_met [OF l [unfolded r]]
    have "check (op_entry op) = None" using False by (simp add: turned_away_def)
    from takes_op_arrives [OF ok1 met m this] apply_op_takes [OF _ l [unfolded r]] False c
    show ?thesis by (auto simp: arrives_def classify_def split: option.splits if_splits)
  next
    case True
    with c ok ok1 applyReadOnly_ok [OF ok, of cfg op] l show ?thesis
      by (auto simp: apply_op_def turned_away_def Let_def classify_def split: if_splits)
  qed
  then show "root_true tr'" "st = Applied \<Longrightarrow> Live (op_entry op) \<Longrightarrow> \<not> tr_readOnly tr \<Longrightarrow> in_place op tr'" by simp_all
qed

end
