(* ===== verification/TreeSafety.thy ===== *)
theory TreeSafety
  imports TreeTruth
begin

text \<open>
  What a side never does: replace a change the hub has not seen, say an op is applied when it is not, or
  take a file for what it is not. Batches of ops, answers of the hub, scans and what other programs do
  follow one another in any order.
\<close>

section \<open>Answers and epochs\<close>

lemma reput_ok:
  assumes "root_true tr" "rec_at tr p = Some (i, rec0)" "rc_fp rec = rc_fp rec0" "rc_entry rec = rc_entry rec0"
  shows "root_true (putRecord p rec tr)"
proof (rule put_ok [OF assms(1)])
  show "fp_ino (rc_fp rec) < dk_fresh (tr_disk tr)"
    using assms unfolding root_true_def sound_def by metis
  show "node_matches n (rc_entry rec)"
    if "tr_node tr p = Some n" "rc_fp rec = fingerprintOf (nd_info n)" "Live (rc_entry rec)" for n
    using assms that unfolding root_true_def truth_at_def by metis
qed

lemma adopt_ok:
  assumes "root_true tr"
  shows "root_true (snd (adopt epoch uns tr))"
proof -
  let ?f = "\<lambda>(p, i, rec). putRecord p (rec\<lparr>rc_rev := 0, rc_sent := rc_sent rec \<or> uns \<and> Live (rc_entry rec)\<rparr>)"
  have keep: "root_true (fold ?f xs t)"
    if "root_true t" "distinct (map fst xs)" "\<And>p i rec. (p, i, rec) \<in> set xs \<Longrightarrow> \<exists>i'. rec_at t p = Some (i', rec)" for xs t
    using that
  proof (induction xs arbitrary: t)
    case (Cons x xs)
    obtain p i rec where x: "x = (p, i, rec)" by (cases x)
    from Cons.prems(3) [of p i rec] obtain i' where r: "rec_at t p = Some (i', rec)" by (auto simp: x)
    have "root_true (?f x t)" using reput_ok [OF Cons.prems(1) r] by (simp add: x)
    moreover have "\<exists>i'. rec_at (?f x t) q = Some (i', rec')" if "(q, j, rec') \<in> set xs" for q j rec'
      using Cons.prems(2,3) that by (force simp: x)
    ultimately show ?case using Cons.IH Cons.prems(2) by simp
  qed simp
  have d: "distinct (map fst (tr_records tr))" using assms by (simp add: root_true_def sound_def)
  have "calm tr (tr\<lparr>tr_epoch := epoch\<rparr>)" by (simp add: calm_def)
  from keep [OF calm_ok [OF assms this] d] d have "root_true (fold ?f (tr_records tr) (tr\<lparr>tr_epoch := epoch\<rparr>))" by force
  then have "root_true (snd (tree_putMeta (fold ?f (tr_records tr) (tr\<lparr>tr_epoch := epoch\<rparr>))))"
    unfolding tree_putMeta_def by (intro ok_commit) (rule calm_ok, simp, simp add: calm_def)
  with assms show ?thesis by (simp add: adopt_def)
qed

lemma ack_record_ok: "root_true tr \<Longrightarrow> root_true (ack_record a tr)"
  by (auto simp: ack_record_def Let_def split: option.split ack_status.split intro: calm_ok [OF _ calm_drop] reput_ok)

lemma Acked_ok: "root_true tr \<Longrightarrow> root_true (snd (Acked ry tr))"
proof -
  assume "root_true tr"
  from adopt_ok [OF this] have a: "root_true (snd (adopt (ry_epoch ry) True tr))" .
  have "root_true t \<Longrightarrow> root_true (fold ack_record as t)" for as t
    by (induction as arbitrary: t) (simp_all add: ack_record_ok)
  with a show ?thesis by (auto simp: Acked_def split: prod.splits option.splits)
qed

section \<open>Batches\<close>

lemma apply_ops_ok:
  "root_true tr \<Longrightarrow> (\<And>i k. meddles (others i k)) \<Longrightarrow> root_true (snd (apply_ops cfg others ctx content i ops tr))"
proof (induction ops arbitrary: i tr)
  case (Cons op ops)
  obtain st reason tr1 where c: "apply_op cfg (others i) op (content op) tr = ((st, reason), tr1)"
    by (metis surj_pair)
  from apply_op_arrives(1) [OF Cons.prems(1) Cons.prems(2) c] Cons.IH [of tr1 "Suc i"] Cons.prems
  show ?case by (auto simp: Let_def c split: option.split prod.split sum.split dest: sym)
qed simp

lemma Apply_ok:
  assumes "root_true tr" "\<And>i k. meddles (others i k)"
  shows "root_true (snd (Apply cfg others ctx content b tr))"
proof -
  obtain e tr1 where a: "adopt (b_epoch b) True tr = (e, tr1)" by fastforce
  with adopt_ok [OF assms(1), of "b_epoch b" True] have "root_true tr1" by simp
  from this apply_ops_ok [OF this assms(2)] assms(1) show ?thesis
    by (simp add: Apply_def a split: option.split)
qed

section \<open>Scans\<close>

text \<open>A scan reads true when each look at a path says what is there, and what was read between two
  looks of the same fingerprint is what a path of that fingerprint holds.\<close>

definition reads_true :: "tree_root \<Rightarrow> (string \<times> finfo) list \<Rightarrow> (string \<Rightarrow> sync_error + string) \<Rightarrow>
    (string \<Rightarrow> sync_error + (finfo \<times> (sync_error + string) \<times> finfo)) \<Rightarrow> (string \<Rightarrow> sync_error + finfo) \<Rightarrow> bool" where
  "reads_true tr observed link opened now_at \<longleftrightarrow>
     (\<forall>name info. (name, info) \<in> set observed \<longrightarrow> kindOf info \<noteq> None) \<and>
     (\<forall>name info. now_at name = Inr info \<longrightarrow> (\<exists>n. tr_node tr name = Some n \<and> nd_info n = info)) \<and>
     (\<forall>name info n target. (name, info) \<in> set observed \<and> tr_node tr name = Some n \<and>
        fingerprintOf (nd_info n) = fingerprintOf info \<and> link name = Inr target \<longrightarrow> nd_target n = target) \<and>
     (\<forall>name n st1 data st2. opened name = Inr (st1, Inr data, st2) \<and> tr_node tr name = Some n \<and>
        fingerprintOf (nd_info n) = fingerprintOf st1 \<and> fingerprintOf st2 = fingerprintOf st1 \<longrightarrow> nd_data n = data)"

lemma settled_only: "\<exists>s. snd (settled cfg now name info tr) = tr\<lparr>tr_settling := s\<rparr>"
proof -
  have "\<exists>s. tr = tr\<lparr>tr_settling := s\<rparr>" by (rule exI [of _ "tr_settling tr"]) simp
  then show ?thesis by (auto simp: settled_def Let_def split: option.split)
qed

lemma examine_only: "examine cfg now name info prev link opened tr = (r, tr') \<Longrightarrow> \<exists>s. tr' = tr\<lparr>tr_settling := s\<rparr>"
proof -
  have id: "\<exists>s. tr = tr\<lparr>tr_settling := s\<rparr>" by (rule exI [of _ "tr_settling tr"]) simp
  show "examine cfg now name info prev link opened tr = (r, tr') \<Longrightarrow> \<exists>s. tr' = tr\<lparr>tr_settling := s\<rparr>"
    using id settled_only [of cfg now name info tr]
    by (auto simp: examine_def Let_def split: option.splits kind.splits prod.splits if_splits)
qed

lemma examine_all_only:
  assumes "\<And>c t r t'. exam c t = (r, t') \<Longrightarrow> \<exists>s. t' = t\<lparr>tr_settling := s\<rparr>"
  shows "examine_all exam cs tr = (ex, again, failed, tr') \<Longrightarrow> (\<exists>s. tr' = tr\<lparr>tr_settling := s\<rparr>) \<and>
    (\<forall>c e. (c, e) \<in> set ex \<longrightarrow> c \<in> set cs \<and> (cd_gone c \<or> (\<exists>t t'. exam c t = (Inr e, t'))))"
proof (induction cs arbitrary: tr ex again failed tr')
  case Nil
  then show ?case by (auto intro: exI [of _ "tr_settling tr"])
next
  case (Cons c cs)
  show ?case
  proof (cases "cd_gone c")
    case True
    obtain ex1 ag1 fl1 t1 where r: "examine_all exam cs tr = (ex1, ag1, fl1, t1)" by (cases "examine_all exam cs tr")
    from Cons.prems True r have e: "ex = (c, gone_entry) # ex1" "tr' = t1" by auto
    from Cons.IH [OF r] True show ?thesis unfolding e by simp
  next
    case False
    obtain x t where x: "exam c tr = (x, t)" by fastforce
    obtain ex1 ag1 fl1 t1 where r: "examine_all exam cs t = (ex1, ag1, fl1, t1)" by (cases "examine_all exam cs t")
    from assms [OF x] obtain s where s: "t = tr\<lparr>tr_settling := s\<rparr>" by blast
    from Cons.IH [OF r] obtain s' where "t1 = t\<lparr>tr_settling := s'\<rparr>" by blast
    with s have t1: "t1 = tr\<lparr>tr_settling := s'\<rparr>" by simp
    have e: "tr' = t1" "ex = (case x of Inl _ \<Rightarrow> ex1 | Inr e \<Rightarrow> (c, e) # ex1)"
      using Cons.prems False x r by (cases x; auto split: if_splits)+
    have "(b, y) \<in> set ex \<Longrightarrow> b = c \<and> x = Inr y \<or> (b, y) \<in> set ex1" for b y
      by (cases x) (auto simp: e(2))
    with conjunct2 [OF Cons.IH [OF r]] x
    have "\<forall>b y. (b, y) \<in> set ex \<longrightarrow> b \<in> set (c # cs) \<and> (cd_gone b \<or> (\<exists>t t'. exam b t = (Inr y, t')))"
      by (metis list.set_intros(1,2))
    with t1 e(1) show ?thesis by blast
  qed
qed


lemma same_fingerprint:
  assumes "fingerprintOf a = fingerprintOf b"
  shows "fi_mode a = fi_mode b" "fi_ino a = fi_ino b" "IsDir a = IsDir b" "IsLink a = IsLink b" "IsRegular a = IsRegular b"
    "\<not> IsDir a \<Longrightarrow> fi_size a = fi_size b"
proof -
  from assms show m: "fi_mode a = fi_mode b" "fi_ino a = fi_ino b" by (metis fp_fields)+
  from mode_kinds [OF m(1)] show k: "IsDir a = IsDir b" "IsLink a = IsLink b" "IsRegular a = IsRegular b" by simp_all
  with assms show "\<not> IsDir a \<Longrightarrow> fi_size a = fi_size b" by (metis fp_fields(3))
qed

lemma examine_matches:
  assumes ex: "examine cfg now name info prev link opened t = (Inr e, t')" and k: "kindOf info \<noteq> None"
    and n: "fingerprintOf (nd_info n) = fingerprintOf info" "sized n"
    and l: "\<And>target. link = Inr target \<Longrightarrow> nd_target n = target"
    and d: "\<And>st1 data st2. opened = Inr (st1, Inr data, st2) \<Longrightarrow> fingerprintOf (nd_info n) = fingerprintOf st1 \<Longrightarrow>
      fingerprintOf st2 = fingerprintOf st1 \<Longrightarrow> nd_data n = data"
  shows "node_matches n e"
proof -
  note f = same_fingerprint [OF n(1)]
  consider "IsRegular info" "kindOf info = Some File" | "IsDir info" "kindOf info = Some Dir" | "IsLink info" "kindOf info = Some Symlink"
    using k by (auto simp: kindOf_def split: if_splits)
  then show ?thesis
  proof cases
    case 1
    then obtain st1 data st2 x where o: "opened = Inr (st1, Inr data, st2)" "fingerprintOf st1 = fingerprintOf info"
      "fingerprintOf st2 = fingerprintOf info" "e_kind e = File" "e_mode e = fileMode File (fi_mode info)" "e_size e = fi_size info"
      "e_hash e = hashOf data"
      using ex by (auto simp: examine_def Let_def split: if_splits prod.splits sum.splits)
    have "nd_data n = data" using d [OF o(1)] o(2,3) n(1) by simp
    with o f n(2) 1 Regular_not_Dir [of "nd_info n"] show ?thesis by (simp add: node_matches_def sized_def)
  next
    case 2
    with ex f show ?thesis by (auto simp: examine_def node_matches_def)
  next
    case 3
    with ex f l show ?thesis by (auto simp: examine_def node_matches_def split: sum.splits if_splits)
  qed
qed

lemma record_found_ok:
  assumes ok: "root_true (snd (snd st))"
    and true: "\<And>info. cd_info c = Some info \<Longrightarrow> still_so now_at c \<Longrightarrow>
      \<exists>n. tr_node (snd (snd st)) (cd_name c) = Some n \<and> fingerprintOf (nd_info n) = fingerprintOf info \<and> node_matches n e"
  shows "root_true (snd (snd (record_found now_at (c, e) st)))" "tr_disk (snd (snd (record_found now_at (c, e) st))) = tr_disk (snd (snd st))"
proof -
  obtain changes again tr where st: "st = (changes, again, tr)" by (cases st)
  have put: "root_true (putRecord (cd_name c) rec tr)"
    if s: "still_so now_at c" and f: "rc_fp rec = (case cd_info c of None \<Rightarrow> no_fingerprint | Some info \<Rightarrow> fingerprintOf info)"
      and e: "if cd_gone c then \<not> Live (rc_entry rec) else Same e (rc_entry rec) \<or> rc_entry rec = e" for rec
  proof (cases "cd_info c")
    case None
    with blank_ok [of tr rec] ok f show ?thesis by (simp add: st)
  next
    case (Some info)
    with true [OF Some s] obtain n where n: "tr_node tr (cd_name c) = Some n" "fingerprintOf (nd_info n) = fingerprintOf info" "node_matches n e"
      by (auto simp: st)
    show ?thesis
    proof (rule put_ok)
      show "root_true tr" using ok by (simp add: st)
      then show "fp_ino (rc_fp rec) < dk_fresh (tr_disk tr)" using sound_at [OF _ n(1)] n(2) f Some by (metis fp_fields(1) option.simps(5))
      show "node_matches m (rc_entry rec)" if "tr_node tr (cd_name c) = Some m" for m
        using that n e Some matches_Same [OF n(3)] by auto
    qed
  qed
  show "tr_disk (snd (snd (record_found now_at (c, e) st))) = tr_disk (snd (snd st))"
    by (auto simp: record_found_def st Let_def split: option.split)
  show "root_true (snd (snd (record_found now_at (c, e) st)))"
    using ok put by (auto simp: record_found_def st Let_def found_record_def Same_sym split: option.split)
qed

lemma fold_found_ok:
  assumes "\<And>c e info. (c, e) \<in> set ex \<Longrightarrow> cd_info c = Some info \<Longrightarrow> still_so now_at c \<Longrightarrow>
      \<exists>n. node_at d (cd_name c) = Some n \<and> fingerprintOf (nd_info n) = fingerprintOf info \<and> node_matches n e"
    and "root_true (snd (snd st))" "tr_disk (snd (snd st)) = d"
  shows "root_true (snd (snd (fold (record_found now_at) ex st)))"
  using assms
proof (induction ex arbitrary: st)
  case (Cons x ex)
  obtain c e where x: "x = (c, e)" by fastforce
  have s: "root_true (snd (snd (record_found now_at x st))) \<and> tr_disk (snd (snd (record_found now_at x st))) = d"
    using record_found_ok [OF Cons.prems(2), of c now_at e] Cons.prems(1) [of c e] Cons.prems(3) by (simp add: x)
  have "root_true (snd (snd (fold (record_found now_at) ex (record_found now_at x st))))"
    by (rule Cons.IH) (use s Cons.prems(1) in \<open>auto simp: x\<close>)
  then show ?case by simp
qed simp


lemma scan_finish_ok:
  assumes ok: "root_true tr"
    and found: "\<And>c e info. (c, e) \<in> set ex \<Longrightarrow> cd_info c = Some info \<Longrightarrow> still_so now_at c \<Longrightarrow>
      \<exists>n. tr_node tr (cd_name c) = Some n \<and> fingerprintOf (nd_info n) = fingerprintOf info \<and> node_matches n e"
  shows "root_true (snd (scan_finish scan areas looked now_at refusedAt failed ex changes0 again0 tr))"
proof -
  let ?t = "tr\<lparr>tr_failing := note_failing scan refusedAt failed areas (tr_failing tr),
      tr_settling := filter (\<lambda>(name, m). name \<in> set looked \<or> \<not> inAny name areas) (tr_settling tr)\<rparr>"
  obtain changes again t2 where run: "fold (record_found now_at) ex (changes0, again0, ?t) = (changes, again, t2)"
    by (cases "fold (record_found now_at) ex (changes0, again0, ?t)")
  have "root_true ?t" by (rule calm_ok [OF ok]) (simp add: calm_def)
  then have "root_true (snd (snd (fold (record_found now_at) ex (changes0, again0, ?t))))"
    by (intro fold_found_ok [where d = "tr_disk tr"]) (use found in auto)
  then have "root_true (snd (commit_tree t2))" by (simp add: run)
  with ok show ?thesis
    by (cases "commit_tree t2") (auto simp: scan_finish_def Let_def run split: option.split)
qed

lemma Scan_ok:
  assumes ok: "root_true tr" and m: "meddles meanwhile"
    and true: "\<And>t. tr_disk t = tr_disk tr \<Longrightarrow> reads_true (meanwhile t) observed link opened now_at"
  shows "root_true (snd (Scan cfg areas (observed, problems, again0, failed0) now link opened meanwhile now_at refusedAt tr))"
proof -
  define tr0 where "tr0 = tr\<lparr>tr_scans := tr_scans tr + 1\<rparr>"
  define cands where "cands = seen_cands tr0 observed @ gone_cands cfg tr0 observed areas problems"
  obtain ex again1 failed1 tr1 where ex: "examine_all (exam_of cfg now link opened) cands tr0 = (ex, again1, failed1, tr1)"
    by (cases "examine_all (exam_of cfg now link opened) cands tr0")
  have "(\<exists>s. tr1 = tr0\<lparr>tr_settling := s\<rparr>) \<and> (\<forall>c e. (c, e) \<in> set ex \<longrightarrow> c \<in> set cands \<and>
      (cd_gone c \<or> (\<exists>t t'. exam_of cfg now link opened c t = (Inr e, t'))))"
    by (rule examine_all_only [OF _ ex]) (erule examine_only)
  then obtain s where tr1: "tr1 = tr0\<lparr>tr_settling := s\<rparr>"
    and ce: "\<And>c e. (c, e) \<in> set ex \<Longrightarrow> c \<in> set cands \<and> (cd_gone c \<or> (\<exists>t t'. exam_of cfg now link opened c t = (Inr e, t')))" by blast
  have ok1: "root_true tr1" by (rule calm_ok [OF ok]) (simp add: tr1 tr0_def calm_def)
  note ok2 = meddlesD(1) [OF m ok1]
  have rt: "reads_true (meanwhile tr1) observed link opened now_at" by (rule true) (simp add: tr1 tr0_def)
  have found: "\<exists>n. tr_node (meanwhile tr1) (cd_name c) = Some n \<and> fingerprintOf (nd_info n) = fingerprintOf info \<and> node_matches n e"
    if c: "(c, e) \<in> set ex" "cd_info c = Some info" "still_so now_at c" for c e info
  proof -
    from c(2,3) obtain cur where "now_at (cd_name c) = Inr cur" "fingerprintOf cur = fingerprintOf info"
      by (auto simp: still_so_def split: sum.splits)
    with rt obtain n where n: "tr_node (meanwhile tr1) (cd_name c) = Some n" "fingerprintOf (nd_info n) = fingerprintOf info"
      unfolding reads_true_def by metis
    from ce [OF c(1)] c(2) have o: "(cd_name c, info) \<in> set observed" by (auto simp: cands_def seen_cands_def gone_cands_def)
    from ce [OF c(1)] c(2) obtain t t' where t: "examine cfg now (cd_name c) info (cd_prev c) (link (cd_name c)) (opened (cd_name c)) t = (Inr e, t')"
      by auto
    have "node_matches n e"
    proof (rule examine_matches [OF t _ n(2)])
      show "kindOf info \<noteq> None" using rt o by (auto simp: reads_true_def)
      show "sized n" using sound_at [OF ok2 n(1)] by simp
      show "nd_target n = target" if "link (cd_name c) = Inr target" for target
        using rt o n that unfolding reads_true_def by blast
      show "nd_data n = data" if "opened (cd_name c) = Inr (st1, Inr data, st2)" "fingerprintOf (nd_info n) = fingerprintOf st1"
        "fingerprintOf st2 = fingerprintOf st1" for st1 data st2
        using rt n(1) that unfolding reads_true_def by blast
    qed
    with n show ?thesis by blast
  qed
  have fin: "root_true (snd (scan_finish scan areas looked now_at refusedAt failed ex c0 a0 (meanwhile tr1)))" for scan looked failed c0 a0
    by (rule scan_finish_ok [OF ok2 found])
  show ?thesis
    using ok fin ex by (simp add: Scan_def Let_def tr0_def cands_def)
qed

section \<open>Runs\<close>

text \<open>What happens to a side, in any order: batches, welcomes, answers, scans, and what others do in
  between.\<close>

inductive side_run :: "tree_cfg \<Rightarrow> tree_root \<Rightarrow> tree_root \<Rightarrow> bool" for cfg where
  start: "side_run cfg tr tr"
| batch: "side_run cfg tr0 tr \<Longrightarrow> (\<And>i k. meddles (others i k)) \<Longrightarrow> side_run cfg tr0 (snd (Apply cfg others ctx content b tr))"
| welcomed: "side_run cfg tr0 tr \<Longrightarrow> side_run cfg tr0 (snd (adopt epoch False tr))"
| answer: "side_run cfg tr0 tr \<Longrightarrow> side_run cfg tr0 (snd (Acked ry tr))"
| scan: "side_run cfg tr0 tr \<Longrightarrow> meddles meanwhile \<Longrightarrow>
    (\<And>t. tr_disk t = tr_disk tr \<Longrightarrow> reads_true (meanwhile t) observed link opened now_at) \<Longrightarrow>
    side_run cfg tr0 (snd (Scan cfg areas (observed, problems, again0, failed0) now link opened meanwhile now_at refusedAt tr))"
| others: "side_run cfg tr0 tr \<Longrightarrow> meddles f \<Longrightarrow> side_run cfg tr0 (f tr)"

lemma side_run_ok: "side_run cfg tr0 tr \<Longrightarrow> root_true tr0 \<Longrightarrow> root_true tr"
  by (induction rule: side_run.induct) (simp_all add: Apply_ok adopt_ok Acked_ok Scan_ok meddlesD)


section \<open>Honest failures\<close>

text \<open>A call that fails does not say, by its error, that the path is not there.\<close>

definition honest :: "tree_root \<Rightarrow> bool" where
  "honest tr \<longleftrightarrow> (\<forall>f \<in> set (dk_fails (tr_disk tr)). case f of None \<Rightarrow> True | Some x \<Rightarrow> \<not> cannotExist (fl_err x))"

lemma honest_fail:
  assumes "honest tr" "next_fail (tr_disk tr) = (r, d)"
  shows "honest (tr\<lparr>tr_disk := d\<rparr>)" "r = Some f \<Longrightarrow> \<not> cannotExist (fl_err f)"
  using assms by (auto simp: honest_def next_fail_def split: list.splits)

lemma Lstat_honest:
  assumes "honest tr" "tr_call (Lstat p) tr = (r, tr1)"
  shows "honest tr1" "r = Inl e \<Longrightarrow> cannotExist e \<Longrightarrow> tr_node tr p = None"
proof -
  obtain x d where d: "next_fail (tr_disk tr) = (x, d)" by fastforce
  from assms(2) have tr1: "tr1 = tr\<lparr>tr_disk := d\<rparr>"
    by (cases x) (simp_all add: tr_call_def Lstat_def d)
  with honest_fail(1) [OF assms(1) d] show "honest tr1" by simp
  show "tr_node tr p = None" if "r = Inl e" "cannotExist e"
    using that assms(2) honest_fail(2) [OF assms(1) d] next_failD [OF d]
    by (cases x) (auto simp: tr_call_def Lstat_def d split: option.splits)
qed

lemma look_honest:
  assumes "honest tr" "look p tr = (r, tr1)"
  shows "honest tr1" "r = Inr at \<Longrightarrow> at_info at = map_option nd_info (tr_node tr p)"
proof -
  obtain x t where c: "tr_call (Lstat p) tr = (x, t)" by fastforce
  note h = Lstat_honest [OF assms(1) c]
  from h(1) assms(2) c show "honest tr1" by (auto simp: look_def Let_def split: sum.splits if_splits)
  show "at_info at = map_option nd_info (tr_node tr p)" if "r = Inr at"
  proof (cases x)
    case (Inl e)
    with assms(2) that h(2) [OF Inl] show ?thesis by (auto simp: look_def c Let_def split: if_splits option.splits)
  next
    case (Inr info)
    with assms(2) that Lstat_Inr [OF c [unfolded Inr]] show ?thesis by (auto simp: look_def c Let_def split: option.splits)
  qed
qed

lemma clear_gone:
  assumes h: "honest tr" and c: "clear cfg p at tr = (None, tr')" and at: "at_info at = Some info"
  shows "tr_node tr' p = None"
proof -
  obtain x d where d: "next_fail (tr_disk tr) = (x, d)" by fastforce
  obtain r1 tr1 where r: "tr_call (Remove p) tr = (r1, tr1)" by fastforce
  have gone: "tr_node tr1 p = None" if "r1 = None \<or> r1 = Some ErrNotExist"
    using that r honest_fail(2) [OF h d] next_failD [OF d]
    by (cases x) (auto simp: tr_call_def Remove_def disk_call_def d cannotExist_def split: option.splits if_splits prod.splits)
  show ?thesis
  proof (cases "r1 = None \<or> r1 = Some ErrNotExist")
    case True
    with gone c r at show ?thesis by auto (auto simp: clear_def)
  next
    case False
    then obtain e where e: "r1 = Some e" "e \<noteq> ErrNotExist" by auto
    obtain f tr2 where n: "tr_call next_fail tr1 = (f, tr2)" by fastforce
    have "tr_call (RemoveAll p) tr2 = (None, tr')"
      using c at e r n by (auto simp: clear_def split: if_splits option.splits)
    then show ?thesis
      by (auto simp: tr_call_def RemoveAll_def map_of_filter_key split: prod.splits option.splits if_splits)
  qed
qed

lemma gone_applied:
  assumes ok: "root_true tr" and h: "honest tr" and e: "\<not> Live (op_entry op)" and ro: "\<not> tr_readOnly tr"
    and c: "apply_op cfg others op content tr = ((Applied, reason), tr')"
  shows "rec_at tr' (op_path op) = None \<and> tr_node tr' (op_path op) = None"
proof -
  let ?p = "op_path op"
  obtain r tr1 where l: "look ?p tr = (r, tr1)" by fastforce
  note lh = look_honest [OF h l] and lo = look_ok [OF l ok]
  have na: "\<not> turned_away cfg op tr"
    using c ro by (auto simp: apply_op_def turned_away_def Let_def split: if_splits)
  have "\<exists>at. r = Inr at"
    using c na l by (cases r) (auto simp: apply_op_def turned_away_def Let_def classify_def split: if_splits)
  then obtain at where r: "r = Inr at" by blast
  note met = look_met [OF l [unfolded r]] and info = lh(2) [OF r]
  let ?x = "takes_op cfg others op content at tr1"
  have x: "fst ?x = None" "tr' = snd ?x"
    using apply_op_takes [OF na l [unfolded r]] c by (auto simp: classify_def split: option.splits if_splits)
  have k: "e_kind (op_entry op) = Gone" using e by (simp add: Live_def)
  show ?thesis
  proof (cases "at_info at")
    case None
    then have "?x = commit_tree (dropRecord ?p tr1)" using e by (simp add: takes_op_def split: option.split)
    with x commit_fields [of "dropRecord ?p tr1"] lo info None show ?thesis
      by (auto simp: dropRecord_def)
  next
    case (Some i)
    from met_rec [OF met Some] obtain j rec where "rec_at tr1 ?p = Some (j, rec)" "Live (rc_entry rec)" by blast
    then have "\<not> (case (at_rec at, at_info at) of (Some (i, rec), Some info) \<Rightarrow> Same (rc_entry rec) (op_entry op) | _ \<Rightarrow> False)"
      using met e Same_Live by (auto simp: met_def Some)
    then have "?x = remove_op cfg op at tr1" using Some k by (auto simp: takes_op_def)
    with x(1) obtain t where t: "clear cfg ?p at tr1 = (None, t)" "?x = commit_tree (dropRecord ?p t)"
      using e by (auto simp: remove_op_def recordNow_def recordOp_def split: prod.splits option.splits)
    from clear_gone [OF lh(1) t(1) Some] t(2) x(2) commit_fields [of "dropRecord ?p t"] show ?thesis
      by (auto simp: dropRecord_def)
  qed
qed


section \<open>Properties\<close>

lemma look_nodes: "look p tr = (r, tr1) \<Longrightarrow> dk_nodes (tr_disk tr1) = dk_nodes (tr_disk tr) \<and> tr_records tr1 = tr_records tr"
  by (auto simp: look_def tr_call_def Lstat_def Let_def split: prod.splits sum.splits option.splits if_splits dest!: next_failD)

lemma commit_disk: "commit_tree tr = (r, tr') \<Longrightarrow> tr_disk tr' = tr_disk tr"
  using commit_fields(2) [of tr] by simp

lemma readOnly_nodes: "dk_nodes (tr_disk (snd (applyReadOnly cfg op tr))) = dk_nodes (tr_disk tr)"
proof -
  have "tr_disk (snd (recordOp op info t)) = tr_disk t" for info t
    using commit_fields(2) by (simp add: recordOp_def) (simp add: dropRecord_def)
  then have "recordOp op info t = (r, t') \<Longrightarrow> tr_disk t' = tr_disk t" for info t r t' by (metis snd_conv)
  then show ?thesis
    by (auto simp: applyReadOnly_def split: prod.splits sum.splits option.splits dest!: look_nodes commit_disk)
qed


text \<open>C19: a write made while an op's content was coming in stands. If others wrote the file or the
  record of the path during the transfer, so that the path is no longer what the op met, the op fails,
  and the folder and the records stay as they left them (or as they were, when the transfer failed).\<close>

theorem transfer_spares_writes:
  assumes "\<And>t. honest (others 2 t)"
    and "\<And>t. \<not> same_record (rec_at (others 2 t) (op_path op)) (at_rec at) \<or>
      map_option (fingerprintOf \<circ> nd_info) (tr_node (others 2 t) (op_path op)) \<noteq> map_option fingerprintOf (at_info at)"
    and "replace_op cfg others op at fetch tr = (r, tr')"
  shows "r \<noteq> None \<and> (\<exists>t. dk_nodes (tr_disk t) = dk_nodes (tr_disk tr) \<and> tr_records t = tr_records tr \<and>
    (\<exists>t' \<in> {t, others 2 t}. dk_nodes (tr_disk tr') = dk_nodes (tr_disk t') \<and> tr_records tr' = tr_records t'))"
proof (cases "fetch 0")
  case (Inr stream)
  let ?p = "op_path op" and ?e = "op_entry op"
  obtain b t where c1: "tr_call (replace_begin ?p (verify ?e stream)) tr = (b, t)" by fastforce
  then have t: "dk_nodes (tr_disk t) = dk_nodes (tr_disk tr)" "tr_records t = tr_records tr"
    by (auto simp: tr_call_def replace_begin_def split: prod.splits option.splits if_splits dest!: next_failD)
  obtain x t3 where c3: "tr_call (Lstat ?p) (others 2 t) = (x, t3)" by fastforce
  then have t3: "dk_nodes (tr_disk t3) = dk_nodes (tr_disk (others 2 t))" "tr_records t3 = tr_records (others 2 t)"
    by (auto simp: tr_call_def Lstat_def split: prod.splits option.splits dest!: next_failD)
  have "\<not> same_record (rec_at (others 2 t) ?p) (at_rec at) \<or> (\<exists>err. x = Inl err \<and> (err \<noteq> ErrNotExist \<or> at_info at \<noteq> None)) \<or>
      (\<exists>info. x = Inr info \<and> \<not> same_print (Some info) (at_info at))"
  proof (cases x)
    case (Inl err)
    with Lstat_honest(2) [OF assms(1) c3 Inl] assms(2) [of t] show ?thesis
      by (auto simp: cannotExist_def)
  next
    case (Inr info)
    with Lstat_Inr [OF c3 [unfolded Inr]] assms(2) [of t] show ?thesis by (auto simp: same_print_def)
  qed
  with assms(3) t t3 show ?thesis
    by (cases b) (auto simp: replace_op_def Let_def Inr c1 c3 split: if_splits)
qed (use assms(3) in \<open>auto simp: replace_op_def\<close>)



end
