(* ===== verification/TreeWitness.thy ===== *)
theory TreeWitness
  imports TreeSafety
begin

text \<open>
  A side run on concrete inputs: a root of the default table, with an empty folder or one the user or the
  hub made something in. Each theorem applies a property of the side there, so its hypotheses can hold.
\<close>

unbundle bit_operations_syntax

definition tw_cfg :: tree_cfg where
  "tw_cfg = \<lparr>tc_table = defaultRoots, tc_settle = 0, tc_mergeSettle = 0, tc_keep = (\<lambda>_. 0), tc_fullReason = [], tc_msg = (\<lambda>_. [])\<rparr>"

definition tw_info :: "32 word \<Rightarrow> nat \<Rightarrow> finfo" where
  "tw_info mode ino = \<lparr>fi_size = 0, fi_mtime = 1, fi_mode = mode, fi_ino = ino, fi_dev = 1, fi_ctime = 1\<rparr>"

definition tw_node :: "32 word \<Rightarrow> nat \<Rightarrow> node" where
  "tw_node mode ino = \<lparr>nd_info = tw_info mode ino, nd_data = [], nd_target = []\<rparr>"

definition tw_disk :: "(string \<times> node) list \<Rightarrow> disk" where
  "tw_disk nodes = \<lparr>dk_nodes = nodes, dk_fails = [], dk_fresh = 10, dk_dev = 1, dk_now = 5, dk_umask = 18, dk_space = None, dk_reserved = []\<rparr>"

definition tw_root :: "(string \<times> node) list \<Rightarrow> (string \<times> nat \<times> srec) list \<Rightarrow> tree_root" where
  "tw_root nodes records =
     \<lparr>tr_name = ''.claude'', tr_skip = [], tr_only = [], tr_readOnly = False, tr_opened = tw_info 0 1, tr_there = True, tr_epoch = ''e1'',
      tr_records = records, tr_alloc = 3, tr_journal = empty_journal, tr_closed = False, tr_io = [], tr_snapIo = [], tr_failing = [],
      tr_scans = 0, tr_settling = [], tr_disk = tw_disk nodes\<rparr>"

definition tw_dir :: entry where
  "tw_dir = \<lparr>e_kind = Dir, e_mode = 493, e_size = 0, e_mtime = 1, e_hash = [], e_target = [], e_grew = []\<rparr>"

definition tw_op :: sync_op where
  "tw_op = \<lparr>op_path = ''x'', op_rev = 4, op_entry = tw_dir\<rparr>"

lemma tw_empty: "root_true (tw_root [] [])" "honest (tw_root [] [])"
  by (simp_all add: root_true_def sound_def truth_at_def honest_def tw_root_def tw_disk_def)

lemma tw_meddles [simp]: "meddles (\<lambda>t. t)" by (auto simp: meddles_def)

lemma tw_applied: "fst (fst (apply_op tw_cfg (\<lambda>_ t. t) tw_op None (tw_root [] []))) = Applied"
  by code_simp



definition tw_file :: entry where
  "tw_file = \<lparr>e_kind = File, e_mode = 420, e_size = 2, e_mtime = 1, e_hash = hashOf ''hi'', e_target = [], e_grew = []\<rparr>"

theorem transfer_spares_writes_witness:
  "fst (replace_op tw_cfg (\<lambda>k t. if k = 2 then t\<lparr>tr_disk := tw_disk [(''x'', tw_node 420 7)]\<rparr> else t) (tw_op\<lparr>op_entry := tw_file\<rparr>)
     \<lparr>at_rec = None, at_info = None\<rparr> (\<lambda>_. Inr ''hi'') (tw_root [] [])) \<noteq> None"
proof -
  let ?others = "\<lambda>k t. if k = (2::nat) then t\<lparr>tr_disk := tw_disk [(''x'', tw_node 420 7)]\<rparr> else t"
  obtain r tr' where c: "replace_op tw_cfg ?others (tw_op\<lparr>op_entry := tw_file\<rparr>)
     \<lparr>at_rec = None, at_info = None\<rparr> (\<lambda>_. Inr ''hi'') (tw_root [] []) = (r, tr')" by fastforce
  have "r \<noteq> None"
    using transfer_spares_writes [OF _ _ c] by (simp add: honest_def tw_disk_def tw_op_def)
  with c show ?thesis by simp
qed


definition tw_after :: tree_root where
  "tw_after = snd (Apply tw_cfg (\<lambda>_ _ t. t) (\<lambda>_. None) (\<lambda>_. None)
     \<lparr>b_root = ''.claude'', b_epoch = ''e2'', b_lane = LaneBulk, b_ops = [tw_op]\<rparr> (tw_root [] []))"

lemma tw_after_x: "(case rec_at tw_after ''x'' of None \<Rightarrow> False | Some (i, rec) \<Rightarrow> Live (rc_entry rec) \<and>
    (case tr_node tw_after ''x'' of None \<Rightarrow> False | Some n \<Rightarrow> rc_fp rec = fingerprintOf (nd_info n)))"
  by code_simp


section \<open>Reports\<close>

definition tw_sent :: tree_root where
  "tw_sent = tw_root [(''x'', tw_node 493 7)] [(''x'', 1, \<lparr>rc_rev = 2, rc_entry = tw_dir, rc_fp = no_fingerprint, rc_sent = True, rc_made = False\<rparr>)]"

definition tw_reply :: reply where
  "tw_reply = \<lparr>ry_epoch = ''e2'', ry_acks = [\<lparr>a_path = ''x'', a_rev = 3, a_status = Accepted, a_entry = tw_file\<rparr>]\<rparr>"

theorem answer_keeps_newer_change_witness:
  "\<exists>i' rec'. rec_at (snd (Acked tw_reply tw_sent)) ''x'' = Some (i', rec') \<and> rc_sent rec' \<and> rc_entry rec' = tw_dir"
proof -
  let ?rec = "\<lparr>rc_rev = 2, rc_entry = tw_dir, rc_fp = no_fingerprint, rc_sent = True, rc_made = False\<rparr>"
  have r: "rec_at tw_sent ''x'' = Some (1, ?rec)" "distinct (map fst (tr_records tw_sent))" "rc_sent ?rec"
    by (simp_all add: tw_sent_def tw_root_def)
  have a: "\<forall>a \<in> set (ry_acks tw_reply). a_path a = ''x'' \<longrightarrow> \<not> Same (rc_entry ?rec) (a_entry a)"
    by (simp add: tw_reply_def tw_dir_def tw_file_def Same_def)
  obtain err tr' where c: "Acked tw_reply tw_sent = (err, tr')" by fastforce
  from answer_keeps_newer_change [OF r(1,3,2) a c] c show ?thesis by auto
qed

definition tw_seen :: "(string \<times> finfo) list" where
  "tw_seen = [(''x'', tw_info (ModeDir OR 493) 7)]"

definition tw_scan :: "(sync_error + report \<times> string list) \<times> tree_root" where
  "tw_scan = Scan tw_cfg [''.''] (tw_seen, [], [], []) 9 (\<lambda>_. Inl ErrNotExist) (\<lambda>_. Inl ErrNotExist) (\<lambda>t. t)
     (\<lambda>_. Inr (tw_info (ModeDir OR 493) 7)) (\<lambda>name err. name) (tw_root [(''x'', tw_node (ModeDir OR 493) 7)] [])"

lemma tw_scan_ends: "(case fst tw_scan of Inl _ \<Rightarrow> False | Inr (rep, again) \<Rightarrow> again = []) \<and> tr_failing (snd tw_scan) = []"
  by code_simp

theorem scan_leaves_nothing_out_witness:
  "\<exists>i rec. rec_at (snd tw_scan) ''x'' = Some (i, rec) \<and> rc_fp rec = fingerprintOf (tw_info (ModeDir OR 493) 7)"
proof -
  obtain x tr' where x: "tw_scan = (x, tr')" by fastforce
  have "(case x of Inl _ \<Rightarrow> False | Inr (rep, again) \<Rightarrow> again = []) \<and> tr_failing tr' = []"
    using tw_scan_ends unfolding x by simp
  then obtain rep again where c: "tw_scan = (Inr (rep, again), tr')" "again = []" "tr_failing tr' = []"
    unfolding x by (auto split: sum.split_asm)
  have "distinct (map fst tw_seen)" "distinct (map fst (tr_records (tw_root [(''x'', tw_node (ModeDir OR 493) 7)] [])))"
    "in_scan tw_cfg (tw_root [(''x'', tw_node (ModeDir OR 493) 7)] []) tw_seen [''.''] [] ''x'' (Some (tw_info (ModeDir OR 493) 7))"
    by (simp_all add: tw_seen_def tw_root_def in_scan_def)
  with scan_leaves_nothing_out [OF c(1) [unfolded tw_scan_def], of "''x''" "Some (tw_info (ModeDir OR 493) 7)"] c(2,3)
  show ?thesis unfolding x snd_conv by auto
qed

end
