(* ===== verification/TreeHub.thy ===== *)
theory TreeHub
  imports HubAnswers TreeWitness
begin

text \<open>
  The two ends of the sync together: what a tree says it holds when it attaches (\<open>Hello_root\<close>), and what
  the hub makes of it (\<open>attach_root\<close>).
\<close>

text \<open>One path a side said it holds is known at its rev, or taken as content the hub has not seen.\<close>

definition accounted :: "hub_cfg \<Rightarrow> side_info \<Rightarrow> bool \<Rightarrow> hub_root \<Rightarrow> held \<Rightarrow> side_root \<Rightarrow> held list \<Rightarrow> bool" where
  "accounted cfg info matching root h sr stale \<longleftrightarrow>
     (matching \<and> map_of (sr_held sr) (h_path h) = Some (h_rev h) \<and>
        (\<forall>k m e. keyFor cfg root (h_path h) (s_location info) = Some (k, m) \<and> map_of (hr_entries root) k = Some e \<and>
           he_rev e = h_rev h \<longrightarrow> Same (he_entry e) (h_entry h))) \<or>
     (map_of (sr_held sr) (h_path h) = Some 0 \<and> h \<in> set stale)"

definition told :: "held \<Rightarrow> bool" where
  "told h \<longleftrightarrow> validPath (h_path h) \<and> check (h_entry h) = None \<and> Live (h_entry h)"

lemma attach_held_step:
  assumes "hr_name root1 = hr_name root" "hr_entries root1 = hr_entries root" "told h" "sr_only sr = None"
    and c: "attach_held cfg info matching h (root1, sr, stale, rg) = (root2, sr', stale', rg')"
  shows "hr_name root2 = hr_name root \<and> hr_entries root2 = hr_entries root \<and> sr_only sr' = None \<and> set stale \<subseteq> set stale' \<and>
    accounted cfg info matching root h sr' stale' \<and> (\<forall>q. q \<noteq> h_path h \<longrightarrow> map_of (sr_held sr') q = map_of (sr_held sr) q)"
  using c assms keyFor_name [OF assms(1), of cfg "h_path h" "s_location info"]
  by (auto simp: attach_held_def told_def accounted_def keeps_def set_held_def Let_def split: if_splits option.splits)

lemma attach_held_fold:
  assumes "distinct (map h_path hs)" "\<And>h. h \<in> set hs \<Longrightarrow> told h" "sr_only sr = None"
    and "hr_name root1 = hr_name root" "hr_entries root1 = hr_entries root"
    and "fold (attach_held cfg info matching) hs (root1, sr, stale, rg) = (root2, sr', stale', rg')"
  shows "set stale \<subseteq> set stale' \<and> (\<forall>h \<in> set hs. accounted cfg info matching root h sr' stale') \<and>
    (\<forall>q. q \<notin> h_path ` set hs \<longrightarrow> map_of (sr_held sr') q = map_of (sr_held sr) q) \<and>
    hr_name root2 = hr_name root \<and> hr_entries root2 = hr_entries root \<and> sr_only sr' = None"
  using assms
proof (induction hs arbitrary: root1 sr stale rg)
  case (Cons h hs)
  obtain root3 sr3 stale3 rg3 where s: "attach_held cfg info matching h (root1, sr, stale, rg) = (root3, sr3, stale3, rg3)"
    by (cases "attach_held cfg info matching h (root1, sr, stale, rg)")
  have "told h" using Cons.prems(2) by simp
  note st = attach_held_step [OF Cons.prems(4,5) this Cons.prems(3) s]
  have run: "fold (attach_held cfg info matching) hs (root3, sr3, stale3, rg3) = (root2, sr', stale', rg')"
    using Cons.prems(6) s by simp
  have ih: "set stale3 \<subseteq> set stale' \<and> (\<forall>h \<in> set hs. accounted cfg info matching root h sr' stale') \<and>
    (\<forall>q. q \<notin> h_path ` set hs \<longrightarrow> map_of (sr_held sr') q = map_of (sr_held sr3) q) \<and>
    hr_name root2 = hr_name root \<and> hr_entries root2 = hr_entries root \<and> sr_only sr' = None"
    by (rule Cons.IH [OF _ _ _ _ _ run]) (use Cons.prems st in auto)
  have "h_path h \<notin> h_path ` set hs" using Cons.prems(1) by auto
  with ih have "map_of (sr_held sr') (h_path h) = map_of (sr_held sr3) (h_path h)" by blast
  with ih st have "accounted cfg info matching root h sr' stale'" unfolding accounted_def by (metis subsetD)
  with ih st show ?case by auto
qed auto


lemma attach_fold_info: "sr_info (fst (snd (fold (attach_held cfg info matching) hs st))) = sr_info (fst (snd st))"
proof (induction hs arbitrary: st)
  case (Cons h hs)
  have "sr_info (fst (snd (attach_held cfg info matching h st))) = sr_info (fst (snd st))"
    by (cases st) (auto simp: attach_held_def Let_def set_held_def)
  with Cons show ?case by simp
qed simp

lemma hello_held:
  assumes "distinct (map fst (tr_records tr))"
  shows "distinct (map h_path (rh_held (Hello_root tr)))"
    "set (rh_held (Hello_root tr)) = {\<lparr>h_path = p, h_rev = rc_rev rec, h_entry = rc_entry rec\<rparr> | p i rec.
       rec_at tr p = Some (i, rec) \<and> \<not> rc_sent rec \<and> \<not> rc_made rec \<and> Live (rc_entry rec)}"
proof -
  let ?xs = "map (\<lambda>(p, i, rec). \<lparr>h_path = p, h_rev = rc_rev rec, h_entry = rc_entry rec\<rparr>)
      (filter (\<lambda>(p, i, rec). \<not> rc_sent rec \<and> \<not> rc_made rec \<and> Live (rc_entry rec)) (tr_records tr))"
  have e: "map h_path ?xs = map fst (filter (\<lambda>(p, i, rec). \<not> rc_sent rec \<and> \<not> rc_made rec \<and> Live (rc_entry rec)) (tr_records tr))"
    by (simp add: case_prod_beta comp_def)
  have d: "distinct (map h_path ?xs)" unfolding e using assms by (rule distinct_map_fst_filter)
  have m: "mset (rh_held (Hello_root tr)) = mset ?xs" by (simp add: Hello_root_def)
  then have "mset (map h_path (rh_held (Hello_root tr))) = mset (map h_path ?xs)" by (simp only: mset_map)
  then show "distinct (map h_path (rh_held (Hello_root tr)))" using d mset_eq_imp_distinct_iff by blast
  show "set (rh_held (Hello_root tr)) = {\<lparr>h_path = p, h_rev = rc_rev rec, h_entry = rc_entry rec\<rparr> | p i rec.
       rec_at tr p = Some (i, rec) \<and> \<not> rc_sent rec \<and> \<not> rc_made rec \<and> Live (rc_entry rec)}"
    unfolding mset_eq_setD [OF m] map_of_eq_Some_iff [OF assms] by (auto intro: rev_image_eqI)
qed



text \<open>A side that applied an op of the hub's attaches to it.\<close>

definition tw_held :: tree_root where
  "tw_held = tw_root [(''x'', tw_node 493 7)] [(''x'', 1, \<lparr>rc_rev = 1, rc_entry = ex_dir, rc_fp = no_fingerprint, rc_sent = False, rc_made = False\<rparr>)]"


end
