(* ===== verification/GoFloat.thy ===== *)
theory GoFloat
  imports GoStrings
begin

text \<open>
  What \<open>jsonLiteral\<close> uses of \<open>strconv\<close>: \<open>ParseFloat\<close> at 64 bits (the nearest double, ties to even, subnormals included; no double past the largest one) and
  \<open>FormatFloat\<close> with format \<open>g\<close> and the shortest precision (the fewest digits that read back as
  the same double, the closest of them). A finite double is its sign, its mantissa below \<open>2\<^sup>5\<^sup>3\<close>
  and its exponent; the mantissa is at least \<open>2\<^sup>5\<^sup>2\<close> unless the exponent is the least one, so
  equal doubles are equal triples. All arithmetic is exact, on naturals and integers.
\<close>

section \<open>Doubles\<close>

record double =
  negative :: bool
  mant :: nat
  expo :: int

text \<open>The number of bits of a natural.\<close>

fun bit_len :: "nat \<Rightarrow> nat" where
  "bit_len n = (if n = 0 then 0 else Suc (bit_len (n div 2)))"

declare bit_len.simps [simp del]

text \<open>A positive fraction scaled by a power of two or of ten.\<close>

definition scale :: "nat \<Rightarrow> int \<Rightarrow> nat \<times> nat \<Rightarrow> nat \<times> nat" where
  "scale b k = (\<lambda>(p, q). if k \<ge> 0 then (p * b ^ nat k, q) else (p, q * b ^ nat (- k)))"

text \<open>The binary exponent: the largest \<open>l\<close> with \<open>2\<^sup>l \<le> p / q\<close>.\<close>

definition floor_log2 :: "nat \<Rightarrow> nat \<Rightarrow> int" where
  "floor_log2 p q =
     (let l = int (bit_len p) - int (bit_len q); (p', q') = scale 2 (- l) (p, q)
      in if q' \<le> p' then l else l - 1)"

text \<open>Rounding to the nearest, ties to even.\<close>

definition round_even :: "nat \<Rightarrow> nat \<Rightarrow> nat" where
  "round_even p q =
     (let d = p div q; r = p mod q
      in if 2 * r < q \<or> (2 * r = q \<and> even d) then d else Suc d)"

definition min_expo :: int where "min_expo = -1074"
definition max_expo :: int where "max_expo = 971"

definition nearest :: "nat \<Rightarrow> nat \<Rightarrow> (nat \<times> int) option" where
  "nearest p q =
     (if p = 0 then Some (0, min_expo)
      else let e = max min_expo (floor_log2 p q - 52);
               m = (case scale 2 (- e) (p, q) of (p', q') \<Rightarrow> round_even p' q');
               (m', e') = (if m = 2 ^ 53 then (2 ^ 52, e + 1) else (m, e))
           in if e' > max_expo then None else Some (m', e'))"

section \<open>Reading\<close>

text \<open>The parts of a decimal text: its sign, the digits before and after the point, and its
  exponent, whose digits stop counting at 10000 as in \<open>readFloat\<close>.\<close>

definition exp_digits :: "string \<Rightarrow> nat" where
  "exp_digits ds = foldl (\<lambda>e c. if e < 10000 then 10 * e + digit_val c else e) 0 ds"

definition exp_part :: "string \<Rightarrow> int option" where
  "exp_part s =
     (case s of [] \<Rightarrow> Some 0
      | c # r \<Rightarrow>
          if c \<noteq> CHR ''e'' \<and> c \<noteq> CHR ''E'' then None
          else let (sg, ds) = (case r of g # t \<Rightarrow> if g = CHR ''-'' then (-1, t)
                                   else if g = CHR ''+'' then (1, t) else (1, r) | [] \<Rightarrow> (1, r))
               in if ds = [] \<or> \<not> list_all is_digit ds then None else Some (sg * int (exp_digits ds)))"

definition decimal_parts :: "string \<Rightarrow> (bool \<times> nat \<times> int) option" where
  "decimal_parts s =
     (let (ng, s1) = (case s of c # r \<Rightarrow> if c = CHR ''-'' then (True, r)
                          else if c = CHR ''+'' then (False, r) else (False, s) | [] \<Rightarrow> (False, s));
          i = takeWhile is_digit s1; s2 = dropWhile is_digit s1;
          (f, s3) = (case s2 of c # r \<Rightarrow> if c = CHR ''.'' then (takeWhile is_digit r, dropWhile is_digit r)
                          else ([], s2) | [] \<Rightarrow> ([], s2))
      in if i @ f = [] then None
         else case exp_part s3 of None \<Rightarrow> None
           | Some x \<Rightarrow> Some (ng, foldl (\<lambda>a c. 10 * a + digit_val c) 0 (i @ f), x - int (length f)))"

definition ParseFloat64 :: "string \<Rightarrow> double option" where
  "ParseFloat64 s =
     (case decimal_parts s of None \<Rightarrow> None
      | Some (ng, d, k) \<Rightarrow>
          (case scale 10 k (d, 1) of (p, q) \<Rightarrow>
             map_option (\<lambda>(m, e). \<lparr>negative = ng, mant = m, expo = e\<rparr>) (nearest p q)))"

text \<open>\<open>float64\<close> of an integer.\<close>

definition float64_of :: "int \<Rightarrow> double option" where
  "float64_of n =
     map_option (\<lambda>(m, e). \<lparr>negative = n < 0, mant = m, expo = e\<rparr>) (nearest (nat \<bar>n\<bar>) 1)"

section \<open>Writing\<close>

text \<open>The largest \<open>k\<close> with \<open>10\<^sup>k \<le> p / q\<close>, from an estimate at most two above it.\<close>

definition floor_log10 :: "nat \<Rightarrow> nat \<Rightarrow> int" where
  "floor_log10 p q =
     (let g = (floor_log2 p q + 1) * 30103 div 100000 + 1;
          fits = (\<lambda>k. case scale 10 (- k) (p, q) of (p', q') \<Rightarrow> q' \<le> p')
      in if fits g then g else if fits (g - 1) then g - 1 else if fits (g - 2) then g - 2 else g - 3)"

text \<open>The candidates of \<open>n\<close> digits for \<open>p / q\<close>, the closer first, each with the power of ten it is
  multiplied by; and the first one that reads back as the same double.\<close>

definition digit_candidates :: "nat \<Rightarrow> nat \<Rightarrow> nat \<Rightarrow> (nat \<times> int) list" where
  "digit_candidates p q n =
     (let k = floor_log10 p q + 1 - int n; (p', q') = scale 10 (- k) (p, q); d = p' div q'
      in if 2 * (p' mod q') \<le> q' then [(d, k), (Suc d, k)] else [(Suc d, k), (d, k)])"

definition reads_back :: "double \<Rightarrow> nat \<times> int \<Rightarrow> bool" where
  "reads_back x = (\<lambda>(d, k). case scale 10 k (d, 1) of (p, q) \<Rightarrow> nearest p q = Some (mant x, expo x))"

definition shortest :: "double \<Rightarrow> nat \<times> int" where
  "shortest x =
     (if mant x = 0 then (0, 0)
      else case scale 2 (expo x) (mant x, 1) of (p, q) \<Rightarrow>
        (case find (reads_back x) (concat (map (digit_candidates p q) [1..<18])) of
           Some c \<Rightarrow> c | None \<Rightarrow> (0, 0)))"

definition strip_zeros :: "string \<Rightarrow> string" where
  "strip_zeros ds = rev (dropWhile (\<lambda>c. c = CHR ''0'') (rev ds))"

definition two_digits :: "nat \<Rightarrow> string" where
  "two_digits n = (if n < 10 then ''0'' else []) @ show_nat n"

text \<open>\<open>fmtE\<close> and \<open>fmtF\<close> on the digits and the place of the decimal point.\<close>

definition fmtE :: "string \<Rightarrow> int \<Rightarrow> string" where
  "fmtE ds dp =
     (let ex = dp - 1
      in take 1 ds @ (if length ds > 1 then ''.'' @ drop 1 ds else []) @ ''e'' @
         (if ex < 0 then ''-'' else ''+'') @ two_digits (nat \<bar>ex\<bar>))"

definition fmtF :: "string \<Rightarrow> int \<Rightarrow> string" where
  "fmtF ds dp =
     (let n = length ds; w = nat dp; zeros = (\<lambda>k. replicate k (CHR ''0''))
      in (if dp > 0 then take w ds @ zeros (w - n) else ''0'') @
         (if int n > dp then ''.'' @ zeros (nat (- dp)) @ drop w ds else []))"

definition FormatFloat_g :: "double \<Rightarrow> string" where
  "FormatFloat_g x =
     (let (d, k) = shortest x; all = (if d = 0 then [] else show_nat d); ds = strip_zeros all;
          dp = (if d = 0 then 0 else int (length all) + k);
          ex = dp - 1
      in (if negative x then ''-'' else []) @
         (if d \<noteq> 0 \<and> (ex < -4 \<or> ex \<ge> 6) then fmtE ds dp else fmtF ds dp))"

end
