(* ===== verification/Json3.thy ===== *)
theory Json3
  imports Policies Json GoFloat
begin

text \<open>
  \<open>internal/sharesync/json3.go\<close>: JSON settings files for the three-way merge. The parser walks
  text already checked valid: its position is the rest of the text, an index past the end (a panic
  of the code) gives \<open>None\<close>, and its calls take fuel. The writer spells each token as its
  document did; \<open>json.Indent\<close> and \<open>json.Marshal\<close> of a string are those of \<open>encoding/json\<close>.
  A JSON value has nothing of the TOML parser, so \<open>native\<close> is of type \<open>unit\<close>.
\<close>

type_synonym jdoc = "unit jvalue"

section \<open>Tokens\<close>

definition json_Valid :: "string \<Rightarrow> bool" where
  "json_Valid data \<longleftrightarrow> json_parse data \<noteq> None"

text \<open>\<open>json.Unmarshal\<close> into a string: what is no string leaves it empty.\<close>

definition Unmarshal_string :: "string \<Rightarrow> string" where
  "Unmarshal_string raw = (case json_parse raw of Some (JStr s) \<Rightarrow> s | _ \<Rightarrow> [])"

text \<open>The scan of \<open>string\<close> from after the opening quote, and the token with its quotes.\<close>

fun string_end :: "string \<Rightarrow> (string \<times> string) option" where
  "string_end [] = None"
| "string_end (c # s) =
     (if c = CHR 0x22 then Some ([c], s)
      else if c = CHR 0x5C then
        (case s of [] \<Rightarrow> None | e # s' \<Rightarrow> map_option (\<lambda>(b, r). (c # e # b, r)) (string_end s'))
      else map_option (\<lambda>(b, r). (c # b, r)) (string_end s))"

definition jp_string :: "string \<Rightarrow> (string \<times> string) option" where
  "jp_string s =
     (case s of [] \<Rightarrow> None | q # r \<Rightarrow> map_option (\<lambda>(b, t). (q # b, t)) (string_end r))"

text \<open>\<open>jsonLiteral\<close>. \<open>ParseInt\<close> in base 10 at 64 bits reads what \<open>Atoi\<close> reads.\<close>

definition jsonLiteral :: "string \<Rightarrow> string" where
  "jsonLiteral text =
     (if text \<in> {''true'', ''false'', ''null''} then ''l'' @ text
      else if \<not> list_ex (\<lambda>c. c = CHR ''.'' \<or> c = CHR ''e'' \<or> c = CHR ''E'') text then
        (case Atoi text of
           None \<Rightarrow> ''n'' @ text
         | Some n \<Rightarrow>
             if - (2 ^ 53) < n \<and> n < 2 ^ 53
             then (case float64_of n of Some x \<Rightarrow> ''n'' @ FormatFloat_g x | None \<Rightarrow> ''n'' @ text)
             else ''n'' @ text)
      else (case ParseFloat64 text of
              Some x \<Rightarrow> ''n'' @ FormatFloat_g x | None \<Rightarrow> ''n'' @ text))"

definition ends_literal :: "char \<Rightarrow> bool" where
  "ends_literal c \<longleftrightarrow> is_ws c \<or> c = CHR '','' \<or> c = CHR '']'' \<or> c = CHR ''}''"

section \<open>Parsing\<close>

text \<open>\<open>value\<close> and the loops over an object's members and an array's elements. A colon is passed
  over, whatever it is.\<close>

fun jp_value :: "nat \<Rightarrow> string \<Rightarrow> (jdoc \<times> string) option"
  and jp_fields :: "nat \<Rightarrow> unit fields \<Rightarrow> string \<Rightarrow> (unit fields \<times> string) option"
  and jp_elems :: "nat \<Rightarrow> jdoc list \<Rightarrow> string \<Rightarrow> (jdoc list \<times> string) option" where
  "jp_value 0 s = None"
| "jp_value (Suc n) s =
     (case skip_ws s of [] \<Rightarrow> None
      | c # r \<Rightarrow>
          if c = CHR ''{'' then map_option (\<lambda>(fs, t). (JObject fs, t)) (jp_fields n [] r)
          else if c = CHR ''['' then map_option (\<lambda>(es, t). (JArray es, t)) (jp_elems n [] r)
          else if c = CHR 0x22 then
            map_option (\<lambda>(raw, t). (JScalar raw () (''s'' @ Unmarshal_string raw), t)) (jp_string (c # r))
          else let text = takeWhile (\<lambda>x. \<not> ends_literal x) (c # r)
               in Some (JScalar text () (jsonLiteral text), dropWhile (\<lambda>x. \<not> ends_literal x) (c # r)))"
| "jp_fields 0 obj s = None"
| "jp_fields (Suc n) obj s =
     (case skip_ws s of [] \<Rightarrow> None
      | c # r \<Rightarrow>
          if c = CHR ''}'' then Some (obj, r)
          else case jp_string (if c = CHR '','' then skip_ws r else c # r) of None \<Rightarrow> None
            | Some (raw, t) \<Rightarrow>
                (case jp_value n (drop 1 (skip_ws t)) of None \<Rightarrow> None
                 | Some (v, u) \<Rightarrow> jp_fields n (set_field (Unmarshal_string raw) raw v obj) u))"
| "jp_elems 0 arr s = None"
| "jp_elems (Suc n) arr s =
     (case skip_ws s of [] \<Rightarrow> None
      | c # r \<Rightarrow>
          if c = CHR '']'' then Some (arr, r)
          else if c = CHR '','' then jp_elems n arr r
          else case jp_value n (c # r) of None \<Rightarrow> None
            | Some (v, u) \<Rightarrow> jp_elems n (arr @ [v]) u)"

text \<open>\<open>parseJSON\<close>; \<open>None\<close> would be a panic, or a parser that outlasts its fuel.\<close>

definition parseJSON :: "string \<Rightarrow> (string + jdoc) option" where
  "parseJSON data =
     (if \<not> json_Valid data then
        Some (Inl (if TrimSpace data = [] then ''an empty file'' else ''not valid JSON''))
      else map_option (\<lambda>(v, r). Inr v) (jp_value (4 * length data + 2) data))"

section \<open>Writing\<close>

text \<open>\<open>json.Marshal\<close> of a string: quotes, backslashes, control characters and the three characters
  of HTML are escaped, so are U+2028 and U+2029, and a byte that is not UTF-8 is written as U+FFFD.\<close>

definition hex_char :: "nat \<Rightarrow> char" where
  "hex_char n = char_of (if n < 10 then 48 + n else 87 + n)"

definition marshal_byte :: "char \<Rightarrow> string" where
  "marshal_byte c =
     (let n = of_char c :: nat
      in if c = CHR 0x22 \<or> c = CHR 0x5C then [CHR 0x5C, c]
         else if c = CHR 0x08 then [CHR 0x5C, CHR ''b''] else if c = CHR 0x0C then [CHR 0x5C, CHR ''f'']
         else if c = CHR 0x0A then [CHR 0x5C, CHR ''n''] else if c = CHR 0x0D then [CHR 0x5C, CHR ''r'']
         else if c = CHR 0x09 then [CHR 0x5C, CHR ''t'']
         else if n < 32 \<or> c = CHR ''<'' \<or> c = CHR ''>'' \<or> c = CHR ''&'' then
           [CHR 0x5C, CHR ''u'', CHR ''0'', CHR ''0'', hex_char (n div 16), hex_char (n mod 16)]
         else [c])"

fun marshal_body :: "nat \<Rightarrow> string \<Rightarrow> string" where
  "marshal_body 0 s = []"
| "marshal_body (Suc n) s =
     (case s of [] \<Rightarrow> []
      | c # s' \<Rightarrow>
          if byte_in 0 127 c then marshal_byte c @ marshal_body n s'
          else if rune_len s = 0 then CHR 0x5C # ''ufffd'' @ marshal_body n s'
          else if take 3 s = [CHR 0xE2, CHR 0x80, CHR 0xA8] then CHR 0x5C # ''u2028'' @ marshal_body n (drop 3 s)
          else if take 3 s = [CHR 0xE2, CHR 0x80, CHR 0xA9] then CHR 0x5C # ''u2029'' @ marshal_body n (drop 3 s)
          else take (rune_len s) s @ marshal_body n (drop (rune_len s) s))"

definition Marshal_string :: "string \<Rightarrow> string" where
  "Marshal_string s = [CHR 0x22] @ marshal_body (length s) s @ [CHR 0x22]"

fun writeJSON :: "jdoc \<Rightarrow> string" where
  "writeJSON (JObject fs) =
     ''{'' @ join_strings '','' (map (\<lambda>(k, raw, v).
        (if raw = [] then Marshal_string k else raw) @ '':'' @ writeJSON v) fs) @ ''}''"
| "writeJSON (JArray es) = ''['' @ join_strings '','' (map writeJSON es) @ '']''"
| "writeJSON (JScalar text _ _) = text"

text \<open>\<open>jsonIndent\<close>: the white space that opens the second line of a document of several lines.\<close>

definition TrimRight_ws :: "string \<Rightarrow> string" where
  "TrimRight_ws s = rev (dropWhile is_ws (rev s))"

definition jsonIndent :: "string \<Rightarrow> string option" where
  "jsonIndent like =
     (let nl = length (takeWhile (\<lambda>c. c \<noteq> CHR 0x0A) like);
          ind = takeWhile (\<lambda>c. c = CHR '' '' \<or> c = CHR 0x09) (drop (Suc nl) like)
      in if nl = length like \<or> nl = length (TrimRight_ws like) then None
         else Some (if ind = [] then ''  '' else ind))"

text \<open>\<open>json.Indent\<close> of valid text with no prefix: the loop over its bytes, with whether a line is
  still to be started, the depth, and where in a string it is. White space outside strings is
  dropped, but for what ends the text.\<close>

datatype lex_state = Outside | InString | InEscape

definition new_line :: "string \<Rightarrow> nat \<Rightarrow> string" where
  "new_line ind d = CHR 0x0A # concat (replicate d ind)"

fun indent_loop :: "string \<Rightarrow> lex_state \<Rightarrow> bool \<Rightarrow> nat \<Rightarrow> string \<Rightarrow> string" where
  "indent_loop ind st need d [] = []"
| "indent_loop ind InString need d (c # s) =
     c # indent_loop ind (if c = CHR 0x22 then Outside else if c = CHR 0x5C then InEscape else InString) need d s"
| "indent_loop ind InEscape need d (c # s) = c # indent_loop ind InString need d s"
| "indent_loop ind Outside need d (c # s) =
     (if is_ws c then indent_loop ind Outside need d s
      else let opens = need \<and> c \<noteq> CHR ''}'' \<and> c \<noteq> CHR '']'';
               d' = (if opens then d + 1 else d); need' = (need \<and> \<not> opens)
           in (if opens then new_line ind d' else []) @
              (if c = CHR ''{'' \<or> c = CHR ''['' then c # indent_loop ind Outside True d' s
               else if c = CHR '','' then c # new_line ind d' @ indent_loop ind Outside need' d' s
               else if c = CHR '':'' then c # CHR '' '' # indent_loop ind Outside need' d' s
               else if c = CHR ''}'' \<or> c = CHR '']'' then
                 (if need' then c # indent_loop ind Outside False d' s
                  else new_line ind (d' - 1) @ c # indent_loop ind Outside False (d' - 1) s)
               else c # indent_loop ind (if c = CHR 0x22 then InString else Outside) need' d' s))"

definition json_Indent :: "string \<Rightarrow> string \<Rightarrow> string + string" where
  "json_Indent src ind =
     (if \<not> json_Valid src then Inl ''invalid JSON''
      else Inr (indent_loop ind Outside False 0 (TrimRight_ws src) @ drop (length (TrimRight_ws src)) src))"

definition json_render :: "jdoc \<Rightarrow> string \<Rightarrow> jdoc \<Rightarrow> string + string" where
  "json_render merged like cur =
     (let out = (case jsonIndent like of None \<Rightarrow> Inr (writeJSON merged)
                 | Some ind \<Rightarrow> json_Indent (writeJSON merged) ind)
      in map_sum id (\<lambda>b. b @ (if suffix [CHR 0x0A] like then [CHR 0x0A] else [])) out)"

text \<open>The format; a panic of the parser, which \<open>parseJSON_total\<close> excludes, would be an error.\<close>

definition jsonFormat :: "unit doc_format" where
  "jsonFormat = \<lparr>f_name = ''JSON'',
     f_parse = (\<lambda>data. case parseJSON data of Some r \<Rightarrow> r | None \<Rightarrow> Inl ''index out of range''),
     f_seed = (\<lambda>v. isEmptyObject (Some v)), f_render = json_render\<rparr>"

definition JSON3_merger :: merger where
  "JSON3_merger = document_merger jsonFormat"

end
