(* ===== verification/JsonRead.thy ===== *)
theory JsonRead
  imports Json3
begin

text \<open>
  What \<open>parseJSON\<close> reads. On every text that is valid JSON the parser ends without leaving the
  text, and reads the document that JSON's grammar gives it, a repeated key keeping its first place
  and its last value. The values it builds keep the spelling of every token (\<open>doc_ok\<close>) and are no
  deeper than valid JSON is (\<open>fits\<close>).
\<close>

section \<open>Tokens as spelt\<close>

definition str_token :: "string \<Rightarrow> bool" where
  "str_token raw \<longleftrightarrow>
     (case raw of [] \<Rightarrow> False
      | q # r \<Rightarrow> q = CHR 0x22 \<and> (case scan_str r of None \<Rightarrow> False | Some (b, t) \<Rightarrow> t = []))"

definition plain_token :: "string \<Rightarrow> bool" where
  "plain_token text \<longleftrightarrow> (case scan_plain text of None \<Rightarrow> False | Some (j, t) \<Rightarrow> t = [])"

text \<open>What may follow a literal.\<close>

definition good_rest :: "string \<Rightarrow> bool" where
  "good_rest r \<longleftrightarrow> (case r of [] \<Rightarrow> True | c # _ \<Rightarrow> ends_literal c)"

lemma good_rest_simps [simp]: "good_rest []" "good_rest (c # r) = ends_literal c"
  by (simp_all add: good_rest_def)

lemma skip_ws_simps [simp]:
  "skip_ws [] = []" "skip_ws (c # s) = (if is_ws c then skip_ws s else c # s)"
  "skip_ws (skip_ws s) = skip_ws s"
  by (simp_all add: skip_ws_def)

lemma skip_ws_head: "skip_ws s = c # r \<Longrightarrow> \<not> is_ws c"
  by (induction s) (auto split: if_splits)

lemma ws_chars [simp]:
  "\<not> is_ws (CHR 0x22)" "\<not> is_ws (CHR ''{'')" "\<not> is_ws (CHR ''}'')" "\<not> is_ws (CHR ''['')"
  "\<not> is_ws (CHR '']'')" "\<not> is_ws (CHR '','')" "\<not> is_ws (CHR '':'')"
  by (simp_all add: is_ws_def)

lemma good_rest_skip:
  "skip_ws r = [] \<Longrightarrow> good_rest r" "skip_ws r = c # t \<Longrightarrow> c \<in> {CHR '','', CHR '']'', CHR ''}''} \<Longrightarrow> good_rest r"
  by (cases r; auto simp: ends_literal_def split: if_splits)+

lemma take_hex:
  assumes "length (b @ q # r) \<ge> 4" "list_all is_hexd (take 4 (b @ q # r))" "\<not> is_hexd q"
  shows "length b \<ge> 4"
proof (rule ccontr)
  assume "\<not> ?thesis"
  then have "q \<in> set (take 4 (b @ q # r))"
    by (simp add: take_Cons')
  with assms(2,3) show False by (simp add: list_all_iff)
qed

lemma quote_not_hex [simp]: "\<not> is_hexd (CHR 0x22)"
  by (simp add: is_hexd_def byte_in_def)

text \<open>A scanned string is its body, the closing quote and the rest, whatever the rest is.\<close>

lemma scan_str_split: "scan_str s = Some (b, r) \<Longrightarrow> s = b @ CHR 0x22 # r"
  by (induction s arbitrary: b r rule: scan_str.induct) (auto split: if_splits list.splits)

lemma scan_str_rest: "scan_str s = Some (b, r) \<Longrightarrow> scan_str (b @ CHR 0x22 # r') = Some (b, r')"
proof (induction s arbitrary: b r rule: scan_str.induct)
  case (2 c s)
  note s = scan_str_split [OF 2(4)]
  show ?case
  proof (cases "c = CHR 0x5C")
    case False
    with 2 show ?thesis by (auto split: if_splits)
  next
    case True
    with 2(4) obtain e s' b' where e: "s = e # s'" "scan_str s' = Some (b', r)" "b = c # e # b'"
      "e \<in> {CHR ''b'', CHR ''f'', CHR ''n'', CHR ''r'', CHR ''t'', CHR 0x5C, CHR ''/'', CHR 0x22} \<or>
       e = CHR ''u'' \<and> length s' \<ge> 4 \<and> list_all is_hexd (take 4 s')"
      by (auto split: if_splits list.splits)
    have IH: "scan_str (b' @ CHR 0x22 # r') = Some (b', r')"
      using e 2(1,2) True by (auto simp: byte_in_def)
    have "length (b' @ CHR 0x22 # r') \<ge> 4 \<and> list_all is_hexd (take 4 (b' @ CHR 0x22 # r'))"
      if "e = CHR ''u''"
      using e(4) that scan_str_split [OF e(2)] take_hex [of b' "CHR 0x22" r] by auto
    with e True IH show ?thesis by (auto simp: byte_in_def)
  qed
qed simp

lemma scan_str_end: "scan_str s = Some (b, r) \<Longrightarrow> string_end s = Some (b @ [CHR 0x22], r)"
  by (induction s arbitrary: b r rule: scan_str.induct) (fastforce split: if_splits list.splits)+

lemma str_tokenE:
  assumes "str_token raw"
  obtains b where "raw = CHR 0x22 # b @ [CHR 0x22]" "\<And>r. scan_str (b @ CHR 0x22 # r) = Some (b, r)"
proof -
  from assms obtain s b where "raw = CHR 0x22 # s" "scan_str s = Some (b, [])"
    by (auto simp: str_token_def split: list.splits option.splits)
  with scan_str_split [of s b "[]"] scan_str_rest [of s b "[]"] show thesis by (intro that) simp_all
qed

lemma scan_str_token: "scan_str s = Some (b, r) \<Longrightarrow> str_token (CHR 0x22 # b @ [CHR 0x22])"
  using scan_str_rest [of s b r "[]"] by (simp add: str_token_def)

lemma jp_string_token: "scan_str s = Some (b, r) \<Longrightarrow> jp_string (CHR 0x22 # s) = Some (CHR 0x22 # b @ [CHR 0x22], r)"
  by (simp add: jp_string_def scan_str_end)

lemma json_parse_string:
  assumes "scan_str s = Some (b, r)"
  shows "json_parse (CHR 0x22 # b @ [CHR 0x22]) = Some (JStr (unquoted b))"
  using scan_str_rest [OF assms, of "[]"] by (simp add: json_parse_def)

lemma Unmarshal_token: "scan_str s = Some (b, r) \<Longrightarrow> Unmarshal_string (CHR 0x22 # b @ [CHR 0x22]) = unquoted b"
  by (simp add: Unmarshal_string_def json_parse_string)

section \<open>Literals as spelt\<close>

text \<open>A scanned literal is its text and the rest; before what may follow a literal, the text alone
  decides.\<close>

definition num_char :: "char \<Rightarrow> bool" where
  "num_char c \<longleftrightarrow> is_dig c \<or> c \<in> set ''-+.eE''"

lemma scan_digits_split: "scan_digits s = Some (d, t) \<Longrightarrow> s = d @ t \<and> list_all num_char d \<and> d \<noteq> []"
  by (auto simp: scan_digits_def Let_def num_char_def list_all_iff dest: set_takeWhileD split: if_splits)

lemma scan_int_split: "scan_int s = Some (d, t) \<Longrightarrow> s = d @ t \<and> list_all num_char d \<and> d \<noteq> []"
  by (auto simp: scan_int_def num_char_def is_dig_def byte_in_def split: list.splits if_splits
      dest!: scan_digits_split)

lemma scan_frac_split: "scan_frac s = Some (d, t) \<Longrightarrow> s = d @ t \<and> list_all num_char d"
  by (auto simp: scan_frac_def num_char_def split: list.splits if_splits dest!: scan_digits_split)

lemma scan_exp_split: "scan_exp s = Some (d, t) \<Longrightarrow> s = d @ t \<and> list_all num_char d"
  by (auto simp: scan_exp_def num_char_def split: list.splits if_splits dest!: scan_digits_split)

lemma scan_number_split:
  "scan_number s = Some (d, t) \<Longrightarrow> s = d @ t \<and> list_all num_char d \<and> d \<noteq> []"
  by (auto simp: scan_number_def num_char_def Let_def split: list.splits if_splits option.splits
      dest!: scan_int_split scan_frac_split scan_exp_split)

definition starts :: "(char \<Rightarrow> bool) \<Rightarrow> string \<Rightarrow> bool" where
  "starts P s \<longleftrightarrow> (case s of [] \<Rightarrow> False | c # _ \<Rightarrow> P c)"

lemma starts_simps [simp]: "\<not> starts P []" "starts P (c # s) = P c"
  by (simp_all add: starts_def)

lemma starts_append: "starts P (s @ t) = (if s = [] then starts P t else starts P s)"
  by (cases s) auto

lemma scan_digits_again:
  assumes "scan_digits s = Some (d, t)" "\<not> starts is_dig r"
  shows "scan_digits (d @ r) = Some (d, r)"
proof -
  have d: "\<forall>c \<in> set d. is_dig c" "d \<noteq> []"
    using assms(1) by (auto simp: scan_digits_def Let_def dest: set_takeWhileD split: if_splits)
  have "takeWhile is_dig r = []" "dropWhile is_dig r = r" using assms(2) by (cases r; simp)+
  with d show ?thesis by (simp add: scan_digits_def Let_def takeWhile_append2 dropWhile_append2)
qed

lemma scan_int_again:
  assumes s: "scan_int s = Some (d, t)" and r: "\<not> starts is_dig r"
  shows "scan_int (d @ r) = Some (d, r)"
proof (cases s)
  case (Cons c u)
  show ?thesis
  proof (cases "c = CHR ''0''")
    case False
    with s Cons have sd: "scan_digits s = Some (d, t)" by (simp add: scan_int_def)
    with scan_digits_split [OF sd] Cons obtain d' where "d = c # d'" by (cases d) auto
    with False scan_digits_again [OF sd r] show ?thesis by (simp add: scan_int_def)
  qed (use s Cons in \<open>auto simp: scan_int_def\<close>)
qed (use s in \<open>simp add: scan_int_def\<close>)

lemma scan_frac_again:
  assumes s: "scan_frac s = Some (d, t)" and r: "\<not> starts (\<lambda>c. is_dig c \<or> c = CHR ''.'') r"
  shows "scan_frac (d @ r) = Some (d, r)"
proof (cases "d = []")
  case True
  with r show ?thesis by (cases r) (auto simp: scan_frac_def)
next
  case False
  with s obtain u d' where d: "d = CHR ''.'' # d'" "scan_digits u = Some (d', t)"
    by (auto simp: scan_frac_def split: list.splits if_splits)
  have "\<not> starts is_dig r" using r by (cases r) auto
  with d scan_digits_again [OF d(2)] show ?thesis by (simp add: scan_frac_def)
qed

lemma scan_exp_again:
  assumes s: "scan_exp s = Some (d, t)" and r: "\<not> starts (\<lambda>c. is_dig c \<or> c = CHR ''e'' \<or> c = CHR ''E'') r"
  shows "scan_exp (d @ r) = Some (d, r)"
proof (cases "d = []")
  case True
  with r show ?thesis by (cases r) (auto simp: scan_exp_def)
next
  case False
  have r': "\<not> starts is_dig r" using r by (cases r) auto
  from False s obtain c u where cu: "s = c # u" "c = CHR ''e'' \<or> c = CHR ''E''"
    by (auto simp: scan_exp_def split: list.splits if_splits)
  then consider g w d' where "u = g # w" "g = CHR ''+'' \<or> g = CHR ''-''" "d = c # g # d'" "scan_digits w = Some (d', t)"
    | d' where "d = c # d'" "scan_digits u = Some (d', t)"
    using s by (auto simp: scan_exp_def split: list.splits if_splits)
  then show ?thesis
  proof cases
    case 1
    with cu scan_digits_again [OF 1(4) r'] show ?thesis by (auto simp: scan_exp_def)
  next
    case 2
    obtain x d'' where x: "d' = x # d''" "is_dig x"
      using 2(2) set_takeWhileD [of _ is_dig u]
      by (cases d') (auto simp: scan_digits_def Let_def split: if_splits)
    have "x \<noteq> CHR ''+''" "x \<noteq> CHR ''-''" using x(2) by (auto simp: is_dig_def byte_in_def)
    with 2 x cu scan_digits_again [OF 2(2) r'] show ?thesis by (auto simp: scan_exp_def)
  qed
qed

lemma scan_exp_starts: "scan_exp s = Some (d, t) \<Longrightarrow> starts P d \<Longrightarrow> P (CHR ''e'') \<or> P (CHR ''E'')"
  by (auto simp: scan_exp_def split: list.splits if_splits)

lemma scan_frac_starts: "scan_frac s = Some (d, t) \<Longrightarrow> starts P d \<Longrightarrow> P (CHR ''.'')"
  by (auto simp: scan_frac_def split: list.splits if_splits)

lemma num_char_clash: "good_rest r \<Longrightarrow> starts P r \<Longrightarrow> \<exists>c. P c \<and> \<not> num_char c"
  by (cases r) (auto simp: ends_literal_def is_ws_def num_char_def is_dig_def byte_in_def intro!: exI [of _ "hd r"])

lemma scan_number_again:
  assumes s: "scan_number s = Some (d, t)" and r: "good_rest r"
  shows "scan_number (d @ r) = Some (d, r)"
proof -
  obtain sg s1 where h: "(case s of c # r \<Rightarrow> if c = CHR ''-'' then ([c], r) else ([], s) | [] \<Rightarrow> ([], s)) = (sg, s1)"
    by fastforce
  then have sg: "sg = [] \<or> sg = ''-''" by (auto split: list.splits if_splits)
  from s h obtain i s2 f s3 e where q: "scan_int s1 = Some (i, s2)" "scan_frac s2 = Some (f, s3)"
    "scan_exp s3 = Some (e, t)" "d = sg @ i @ f @ e"
    by (auto simp: scan_number_def split: option.splits)
  note p = sg q
  have no: "\<not> starts P r" if "\<And>c. P c \<Longrightarrow> num_char c" for P
    using num_char_clash [OF r] that by blast
  have e: "scan_exp (e @ r) = Some (e, r)"
    by (rule scan_exp_again [OF p(4)]) (auto intro!: no simp: num_char_def)
  have "\<not> starts (\<lambda>c. is_dig c \<or> c = CHR ''.'') (e @ r)"
    using scan_exp_starts [OF p(4), of "\<lambda>c. is_dig c \<or> c = CHR ''.''"] no [of "\<lambda>c. is_dig c \<or> c = CHR ''.''"]
    by (auto simp: starts_append num_char_def is_dig_def byte_in_def)
  then have f: "scan_frac (f @ e @ r) = Some (f, e @ r)" by (rule scan_frac_again [OF p(3)])
  have "\<not> starts is_dig (f @ e @ r)"
    using scan_exp_starts [OF p(4), of is_dig] scan_frac_starts [OF p(3), of is_dig] no [of is_dig]
    by (auto simp: starts_append num_char_def is_dig_def byte_in_def)
  then have i: "scan_int (i @ f @ e @ r) = Some (i, f @ e @ r)" by (rule scan_int_again [OF p(2)])
  obtain c i' where ci: "i = c # i'" using scan_int_split [OF p(2)] by (cases i) auto
  have c: "c \<noteq> CHR ''-''"
    using p(2) ci set_takeWhileD [of c is_dig s1]
    by (auto simp: scan_int_def scan_digits_def Let_def is_dig_def byte_in_def split: list.splits if_splits)
  from p(1) show ?thesis
    using i f e c ci p(5) by (auto simp: scan_number_def)
qed

definition lit_char :: "char \<Rightarrow> bool" where
  "lit_char c \<longleftrightarrow> \<not> ends_literal c \<and> c \<notin> {CHR ''{'', CHR ''['', CHR '':'', CHR 0x22}"

lemma num_char_plain: "num_char c \<Longrightarrow> lit_char c \<and> c \<notin> {CHR ''t'', CHR ''f'', CHR ''n''}"
  by (auto simp: lit_char_def num_char_def ends_literal_def is_ws_def is_dig_def byte_in_def)

text \<open>A literal: its text, with nothing that ends or opens anything else, read again before any
  rest that may follow.\<close>

definition literal_of :: "json \<Rightarrow> string \<Rightarrow> bool" where
  "literal_of j t \<longleftrightarrow> t \<noteq> [] \<and> list_all lit_char t \<and> (\<forall>r. good_rest r \<longrightarrow> scan_plain (t @ r) = Some (j, r))"

lemma scan_plain_literal:
  assumes "scan_plain s = Some (j, r)"
  obtains t where "s = t @ r" "literal_of j t"
proof (cases "prefix ''true'' s \<or> prefix ''false'' s \<or> prefix ''null'' s")
  case True
  then consider u where "s = ''true'' @ u" | u where "s = ''false'' @ u" | u where "s = ''null'' @ u"
    by (auto simp: prefix_def)
  then show thesis
  proof cases
    case 1
    with assms show thesis
      by (intro that [of "''true''"]) (simp_all add: literal_of_def scan_plain_def lit_char_def ends_literal_def is_ws_def)
  next
    case 2
    with assms show thesis
      by (intro that [of "''false''"]) (simp_all add: literal_of_def scan_plain_def lit_char_def ends_literal_def is_ws_def)
  next
    case 3
    with assms show thesis
      by (intro that [of "''null''"]) (simp_all add: literal_of_def scan_plain_def lit_char_def ends_literal_def is_ws_def)
  qed
next
  case False
  with assms obtain t where t: "scan_number s = Some (t, r)" "j = JNum t" by (auto simp: scan_plain_def)
  note sp = scan_number_split [OF t(1)]
  then obtain c t' where c: "t = c # t'" "num_char c" by (cases t) auto
  note np = num_char_plain [OF c(2)]
  have "scan_plain (t @ r') = Some (j, r')" if "good_rest r'" for r'
    using scan_number_again [OF t(1) that] c np t(2) by (auto simp: scan_plain_def)
  moreover have "list_all lit_char t" using sp num_char_plain by (auto simp: list_all_iff)
  ultimately show thesis using that [of t] sp by (simp add: literal_of_def)
qed

lemma literal_json_parse: "literal_of j t \<Longrightarrow> json_parse t = Some j"
  by (cases t) (auto simp: literal_of_def json_parse_def lit_char_def ends_literal_def dest: spec [of _ "[]"])

lemma literal_ends:
  assumes "literal_of j t" "good_rest r"
  shows "takeWhile (\<lambda>c. \<not> ends_literal c) (t @ r) = t" "dropWhile (\<lambda>c. \<not> ends_literal c) (t @ r) = r"
  using assms
  by (cases r; auto simp: literal_of_def lit_char_def list_all_iff takeWhile_append2 dropWhile_append2)+

lemma literal_token: "literal_of j t \<Longrightarrow> plain_token t"
  by (auto simp: literal_of_def plain_token_def dest: spec [of _ "[]"])

lemma plain_tokenE:
  assumes "plain_token t"
  obtains j where "literal_of j t"
  using assms scan_plain_literal [of t] by (fastforce simp: plain_token_def split: option.splits)

section \<open>Documents as read\<close>

text \<open>Each token as spelt, with the identity its spelling has; no key twice.\<close>

fun doc_ok :: "jdoc \<Rightarrow> bool" where
  "doc_ok (JScalar text native scalar) \<longleftrightarrow>
     (str_token text \<and> scalar = ''s'' @ Unmarshal_string text) \<or> (plain_token text \<and> scalar = jsonLiteral text)"
| "doc_ok (JObject fs) \<longleftrightarrow> distinct (map fst fs) \<and>
     list_all (\<lambda>(k, raw, v). str_token raw \<and> k = Unmarshal_string raw \<and> doc_ok v) fs"
| "doc_ok (JArray es) \<longleftrightarrow> list_all doc_ok es"

text \<open>At most \<open>k\<close> containers deep.\<close>

fun fits :: "nat \<Rightarrow> 'n jvalue \<Rightarrow> bool" where
  "fits k (JScalar text native scalar) \<longleftrightarrow> True"
| "fits k (JObject fs) \<longleftrightarrow> k > 0 \<and> list_all (\<lambda>(_, _, v). fits (k - 1) v) fs"
| "fits k (JArray es) \<longleftrightarrow> k > 0 \<and> list_all (fits (k - 1)) es"

text \<open>The plain document, and one whose repeated keys keep their first place and last value.\<close>

fun json_of :: "jdoc \<Rightarrow> json" where
  "json_of (JScalar text native scalar) = (case json_parse text of Some j \<Rightarrow> j | None \<Rightarrow> JNull)"
| "json_of (JObject fs) = JObj (map (\<lambda>(k, raw, v). (k, json_of v)) fs)"
| "json_of (JArray es) = JArr (map json_of es)"

definition put_all :: "(string \<times> 'a) list \<Rightarrow> (string \<times> 'a) list" where
  "put_all ms = fold (\<lambda>(k, x) acc. AList.update k x acc) ms []"

fun last_wins :: "json \<Rightarrow> json" where
  "last_wins (JArr es) = JArr (map last_wins es)"
| "last_wins (JObj ms) = JObj (put_all (map (\<lambda>(k, x). (k, last_wins x)) ms))"
| "last_wins j = j"

section \<open>The members of an object\<close>

definition set_all :: "(string \<times> string \<times> jdoc) list \<Rightarrow> unit fields \<Rightarrow> unit fields" where
  "set_all l obj = fold (\<lambda>(k, raw, v) o'. set_field k raw v o') l obj"

lemma set_all_simps [simp]:
  "set_all [] obj = obj" "set_all ((k, raw, v) # l) obj = set_all l (set_field k raw v obj)"
  by (simp_all add: set_all_def)

lemma set_field_spelt: "raw \<noteq> [] \<Longrightarrow> set_field k raw v fs = AList.update k (raw, v) fs"
  by (simp add: set_field_def)

lemma map_update:
  "map (\<lambda>(k, y). (k, f y)) (AList.update k x al) = AList.update k (f x) (map (\<lambda>(k, y). (k, f y)) al)"
  by (induction al) auto

lemma set_update: "set (AList.update k x al) \<subseteq> insert (k, x) (set al)"
  by (induction al) auto

lemma set_all_keeps:
  assumes "distinct (map fst obj)" "\<forall>x \<in> set l. fst (snd x) \<noteq> []" "\<forall>x \<in> set obj \<union> set l. P x"
  shows "distinct (map fst (set_all l obj)) \<and> (\<forall>x \<in> set (set_all l obj). P x)"
  using assms
proof (induction l arbitrary: obj)
  case (Cons a l)
  obtain k raw v where a: "a = (k, raw, v)" by (cases a)
  have "distinct (map fst (AList.update k (raw, v) obj))" using Cons.prems(1) by (rule distinct_update)
  moreover have "\<forall>x \<in> set (AList.update k (raw, v) obj) \<union> set l. P x"
    using set_update [of k "(raw, v)" obj] Cons.prems(3) a by auto
  ultimately show ?case using Cons.IH [of "AList.update k (raw, v) obj"] Cons.prems(2) a
    by (simp add: set_field_spelt)
qed simp

lemma set_all_json:
  assumes "\<forall>x \<in> set l. fst (snd x) \<noteq> []"
  shows "map (\<lambda>(k, raw, v). (k, json_of v)) (set_all l obj) =
    fold (\<lambda>(k, x) acc. AList.update k x acc) (map (\<lambda>(k, raw, v). (k, json_of v)) l)
      (map (\<lambda>(k, raw, v). (k, json_of v)) obj)"
  using assms
proof (induction l arbitrary: obj)
  case (Cons a l)
  obtain k raw v where a: "a = (k, raw, v)" by (cases a)
  have "map (\<lambda>(k, raw, v). (k, json_of v)) (AList.update k (raw, v) obj) =
      AList.update k (json_of v) (map (\<lambda>(k, raw, v). (k, json_of v)) obj)"
    using map_update [of "\<lambda>(raw, v). json_of v" k "(raw, v)" obj] by (simp add: case_prod_unfold)
  with a Cons show ?case by (simp add: set_field_spelt)
qed simp

section \<open>The parser follows the grammar\<close>

text \<open>A value read off a rest; and the parts of containers, for every object or array so far.\<close>

definition reads_value :: "nat \<Rightarrow> nat \<Rightarrow> string \<Rightarrow> string \<Rightarrow> json \<Rightarrow> jdoc \<Rightarrow> bool" where
  "reads_value n d s r j v \<longleftrightarrow> (\<forall>m \<ge> 2 * n. jp_value m s = Some (v, r)) \<and>
     json_of v = last_wins j \<and> doc_ok v \<and> fits (max_depth - d) v"

definition reads_elems :: "nat \<Rightarrow> nat \<Rightarrow> string \<Rightarrow> string \<Rightarrow> json list \<Rightarrow> jdoc list \<Rightarrow> bool" where
  "reads_elems n d s r js vs \<longleftrightarrow> (\<forall>m \<ge> 2 * n. \<forall>arr. jp_elems m arr s = Some (arr @ vs, r)) \<and>
     map json_of vs = map last_wins js \<and> list_all (\<lambda>v. doc_ok v \<and> fits (max_depth - d) v) vs"

definition reads_members :: "nat \<Rightarrow> nat \<Rightarrow> string \<Rightarrow> string \<Rightarrow> (string \<times> json) list \<Rightarrow>
    (string \<times> string \<times> jdoc) list \<Rightarrow> bool" where
  "reads_members n d s r ms l \<longleftrightarrow> (\<forall>m \<ge> 2 * n. \<forall>obj. jp_fields m obj s = Some (set_all l obj, r)) \<and>
     map (\<lambda>(k, raw, v). (k, json_of v)) l = map (\<lambda>(k, x). (k, last_wins x)) ms \<and>
     list_all (\<lambda>(k, raw, v). str_token raw \<and> k = Unmarshal_string raw \<and> doc_ok v \<and> fits (max_depth - d) v) l"

lemma jp_value_skip: "skip_ws s = skip_ws t \<Longrightarrow> jp_value m s = jp_value m t"
  by (cases m) simp_all

lemma jp_fields_skip: "skip_ws s = CHR '','' # t \<Longrightarrow> skip_ws t = CHR 0x22 # r \<Longrightarrow> jp_fields m obj s = jp_fields m obj t"
  by (cases m) simp_all

lemma scan_plain_head: "ends_literal c \<Longrightarrow> scan_plain (c # t) = None"
proof (rule ccontr)
  assume c: "ends_literal c" and "scan_plain (c # t) \<noteq> None"
  then obtain j r where "scan_plain (c # t) = Some (j, r)" by auto
  then obtain x where "c # t = x @ r" "literal_of j x" by (rule scan_plain_literal)
  with c show False by (cases x) (auto simp: literal_of_def lit_char_def)
qed

lemma j_value_head:
  assumes v: "j_value n d s = Some (j, r)" and s: "skip_ws s = c # t"
  shows "c \<noteq> CHR '']'' \<and> c \<noteq> CHR '',''"
proof (rule ccontr)
  assume c: "\<not> ?thesis"
  then have "ends_literal c" by (auto simp: ends_literal_def)
  from scan_plain_head [OF this] c have "j_value (Suc k) d s = None" for k using s by (auto simp del: scan_str.simps)
  with v show False by (cases n) simp_all
qed

lemma j_members_head:
  assumes m: "j_members n d s = Some (ms, r)"
  shows "\<exists>t. skip_ws s = CHR 0x22 # t"
proof (cases "skip_ws s")
  case Nil
  with m show ?thesis by (cases n) simp_all
next
  case (Cons c t)
  with m show ?thesis by (cases n; cases "c = CHR 0x22") simp_all
qed

lemma str_token_nonempty: "str_token raw \<Longrightarrow> raw \<noteq> []"
  by (auto simp: str_token_def)

lemma reads_object:
  assumes l: "reads_members n (d + 1) r t ms l" and s: "skip_ws s = CHR ''{'' # r" and d: "d < max_depth"
  shows "reads_value (Suc n) d s t (JObj ms) (JObject (set_all l []))"
proof -
  have tok: "\<forall>x \<in> set l. fst (snd x) \<noteq> []"
    using l str_token_nonempty by (auto simp: reads_members_def list_all_iff split: prod.splits)
  have "distinct (map fst (set_all l [])) \<and> (\<forall>x \<in> set (set_all l []).
      (\<lambda>(k, raw, v). str_token raw \<and> k = Unmarshal_string raw \<and> doc_ok v \<and> fits (max_depth - d - 1) v) x)"
    using l by (intro set_all_keeps) (auto simp: tok reads_members_def list_all_iff)
  moreover have "jp_value m s = Some (JObject (set_all l []), t)" if "m \<ge> 2 * Suc n" for m
    using that l s by (cases m) (auto simp: reads_members_def)
  moreover have "map (\<lambda>(k, raw, v). (k, json_of v)) (set_all l []) = put_all (map (\<lambda>(k, x). (k, last_wins x)) ms)"
    using l set_all_json [of l "[]"] tok by (simp add: reads_members_def put_all_def)
  ultimately show ?thesis using d by (auto simp: reads_value_def list_all_iff)
qed

lemma reads_array:
  assumes "reads_elems n (d + 1) r t js vs" "skip_ws s = CHR ''['' # r" "d < max_depth"
  shows "reads_value (Suc n) d s t (JArr js) (JArray vs)"
proof -
  have "jp_value m s = Some (JArray vs, t)" if "m \<ge> 2 * Suc n" for m
    using that assms by (cases m) (auto simp: reads_elems_def)
  with assms show ?thesis by (auto simp: reads_value_def reads_elems_def list_all_iff)
qed

lemma reads_string:
  assumes "scan_str r = Some (b, t)" "skip_ws s = CHR 0x22 # r"
  shows "\<exists>v. reads_value (Suc n) d s t (JStr (unquoted b)) v"
proof -
  let ?raw = "CHR 0x22 # b @ [CHR 0x22]"
  have "jp_value m s = Some (JScalar ?raw () (''s'' @ Unmarshal_string ?raw), t)" if "m \<ge> 2 * Suc n" for m
    using that assms by (cases m) (simp_all add: jp_string_token)
  then show ?thesis
    using json_parse_string [OF assms(1)] scan_str_token [OF assms(1)] by (auto simp: reads_value_def intro!: exI)
qed

lemma reads_literal:
  assumes "scan_plain (c # r) = Some (j, t)" "skip_ws s = c # r" "good_rest t"
  shows "\<exists>v. reads_value (Suc n) d s t j v"
proof -
  obtain x where x: "c # r = x @ t" "literal_of j x" using scan_plain_literal [OF assms(1)] by blast
  note literal_ends [OF x(2) assms(3), folded x(1)]
  moreover have "c \<notin> {CHR ''{'', CHR ''['', CHR 0x22}"
    using x by (cases x) (auto simp: literal_of_def lit_char_def)
  ultimately have "jp_value m s = Some (JScalar x () (jsonLiteral x), t)" if "m \<ge> 2 * Suc n" for m
    using that assms(2) by (cases m) (auto simp: Let_def simp del: takeWhile.simps dropWhile.simps)
  moreover have "last_wins j = j" using assms(1) by (auto simp: scan_plain_def split: if_splits)
  ultimately show ?thesis
    using literal_json_parse [OF x(2)] literal_token [OF x(2)] by (auto simp: reads_value_def intro!: exI)
qed

text \<open>One more element, and one more member.\<close>

lemma two_steps: "2 * Suc n \<le> m \<Longrightarrow> \<exists>k. m = Suc (Suc k) \<and> 2 * n \<le> k"
  by presburger

lemma elem_step:
  assumes v: "reads_value n d s u j x" "j_value n d s = Some (j, u)" and k: "2 * n \<le> k"
  shows "jp_elems (Suc k) arr s = jp_elems k (arr @ [x]) u"
proof (cases "skip_ws s")
  case Nil
  with v(2) show ?thesis by (cases n) simp_all
next
  case (Cons h w)
  have "jp_value k (h # w) = Some (x, u)"
    using v(1) k Cons jp_value_skip [of s "h # w" k] skip_ws_simps(3) [of s] by (simp add: reads_value_def)
  with Cons j_value_head [OF v(2) Cons] show ?thesis by simp
qed

lemma reads_last_elem:
  assumes v: "reads_value n d s u j x" "j_value n d s = Some (j, u)" and u: "skip_ws u = CHR '']'' # t"
  shows "reads_elems (Suc n) d s t [j] [x]"
proof -
  have "jp_elems m arr s = Some (arr @ [x], t)" if m: "2 * Suc n \<le> m" for m arr
    using two_steps [OF m] elem_step [OF v] u by auto
  with v show ?thesis by (simp add: reads_elems_def reads_value_def)
qed

lemma reads_next_elem:
  assumes v: "reads_value n d s u j x" "j_value n d s = Some (j, u)" and u: "skip_ws u = CHR '','' # t"
    and t: "reads_elems n d t r js vs"
  shows "reads_elems (Suc n) d s r (j # js) (x # vs)"
proof -
  have "jp_elems m arr s = Some (arr @ x # vs, r)" if m: "2 * Suc n \<le> m" for m arr
  proof -
    obtain k where k: "m = Suc (Suc k)" "2 * n \<le> k" using two_steps [OF m] by blast
    with elem_step [OF v, of "Suc k" arr] u t show ?thesis by (simp add: reads_elems_def)
  qed
  with v t show ?thesis by (simp add: reads_elems_def reads_value_def)
qed

lemma member_step:
  assumes s: "skip_ws s = CHR 0x22 # q" "scan_str q = Some (b, q1)" "skip_ws q1 = CHR '':'' # q2"
    and v: "reads_value n d q2 u j x" and k: "2 * n \<le> k"
  shows "jp_fields (Suc k) obj s = jp_fields k (set_field (unquoted b) (CHR 0x22 # b @ [CHR 0x22]) x obj) u"
  using s v k jp_string_token [OF s(2)] Unmarshal_token [OF s(2)] by (simp add: reads_value_def)

lemma reads_last_member:
  assumes s: "skip_ws s = CHR 0x22 # q" "scan_str q = Some (b, q1)" "skip_ws q1 = CHR '':'' # q2"
    and v: "reads_value n d q2 u j x" and u: "skip_ws u = CHR ''}'' # t"
  shows "\<exists>l. reads_members (Suc n) d s t [(unquoted b, j)] l"
proof -
  have "jp_fields m obj s = Some (set_field (unquoted b) (CHR 0x22 # b @ [CHR 0x22]) x obj, t)" if m: "2 * Suc n \<le> m" for m obj
    using two_steps [OF m] member_step [OF s v] u by auto
  then have "reads_members (Suc n) d s t [(unquoted b, j)] [(unquoted b, CHR 0x22 # b @ [CHR 0x22], x)]"
    using v scan_str_token [OF s(2)] Unmarshal_token [OF s(2)] by (simp add: reads_members_def reads_value_def)
  then show ?thesis by blast
qed

lemma reads_next_member:
  assumes s: "skip_ws s = CHR 0x22 # q" "scan_str q = Some (b, q1)" "skip_ws q1 = CHR '':'' # q2"
    and v: "reads_value n d q2 u j x" and u: "skip_ws u = CHR '','' # t" and t: "reads_members n d t r ms l"
    and h: "skip_ws t = CHR 0x22 # w"
  shows "\<exists>l. reads_members (Suc n) d s r ((unquoted b, j) # ms) l"
proof -
  have "jp_fields m obj s = Some (set_all l (set_field (unquoted b) (CHR 0x22 # b @ [CHR 0x22]) x obj), r)"
    if m: "2 * Suc n \<le> m" for m obj
  proof -
    obtain k where k: "m = Suc (Suc k)" "2 * n \<le> Suc k" using two_steps [OF m] by auto
    with member_step [OF s v k(2)] jp_fields_skip [OF u h] t show ?thesis
      by (simp add: reads_members_def del: jp_fields.simps)
  qed
  then have "reads_members (Suc n) d s r ((unquoted b, j) # ms) ((unquoted b, CHR 0x22 # b @ [CHR 0x22], x) # l)"
    using v t scan_str_token [OF s(2)] Unmarshal_token [OF s(2)] by (simp add: reads_members_def reads_value_def)
  then show ?thesis by blast
qed

lemma reads_empty:
  assumes "d < max_depth"
  shows "skip_ws s = CHR ''{'' # t \<Longrightarrow> skip_ws t = CHR ''}'' # r \<Longrightarrow> reads_value (Suc n) d s r (JObj []) (JObject [])"
    and "skip_ws s = CHR ''['' # t \<Longrightarrow> skip_ws t = CHR '']'' # r \<Longrightarrow> reads_value (Suc n) d s r (JArr []) (JArray [])"
proof -
  have "jp_value m s = Some (v, r)" if m: "2 * Suc n \<le> m" and "\<And>k. jp_value (Suc (Suc k)) s = Some (v, r)" for m v
    using two_steps [OF m] that(2) by blast
  with assms show "skip_ws s = CHR ''{'' # t \<Longrightarrow> skip_ws t = CHR ''}'' # r \<Longrightarrow> reads_value (Suc n) d s r (JObj []) (JObject [])"
    "skip_ws s = CHR ''['' # t \<Longrightarrow> skip_ws t = CHR '']'' # r \<Longrightarrow> reads_value (Suc n) d s r (JArr []) (JArray [])"
    by (auto simp: reads_value_def put_all_def)
qed

lemma parser_follows_grammar:
  "j_value n d s = Some (j, r) \<Longrightarrow> good_rest r \<Longrightarrow> \<exists>v. reads_value n d s r j v"
  "j_elems n d s = Some (js, r) \<Longrightarrow> \<exists>vs. reads_elems n d s r js vs"
  "j_members n d s = Some (ms, r) \<Longrightarrow> \<exists>l. reads_members n d s r ms l"
proof (induction n d s and n d s and n d s arbitrary: j r and js r and ms r
    rule: j_value_j_elems_j_members.induct)
  case (2 n d s)
  note IHm = 2(1) and IHe = 2(2) and v = 2(3) and g = 2(4)
  from v obtain c t where s: "skip_ws s = c # t" by (cases "skip_ws s") simp_all
  consider "c = CHR ''{''" | "c = CHR ''[''" | "c = CHR 0x22" | "c \<notin> {CHR ''{'', CHR ''['', CHR 0x22}" by auto
  then show ?case
  proof cases
    case 1
    with v s have d: "d < max_depth" by (auto split: if_splits)
    with v s 1 obtain c2 t2 where t: "skip_ws t = c2 # t2" by (cases "skip_ws t") simp_all
    show ?thesis
    proof (cases "c2 = CHR ''}''")
      case True
      with v s 1 d t reads_empty(1) [OF d, of s t t2 n] show ?thesis by auto
    next
      case False
      with v s 1 d t obtain ms where m: "j_members n (d + 1) t = Some (ms, r)" "j = JObj ms" by auto
      with IHm [OF s 1 _ t False, of ms r] d have "\<exists>l. reads_members n (d + 1) t r ms l" by simp
      with reads_object [OF _ _ d] s 1 m(2) show ?thesis by blast
    qed
  next
    case 2
    with v s have d: "d < max_depth" by (auto split: if_splits)
    with v s 2 obtain c2 t2 where t: "skip_ws t = c2 # t2" by (cases "skip_ws t") simp_all
    show ?thesis
    proof (cases "c2 = CHR '']''")
      case True
      with v s 2 d t reads_empty(2) [OF d, of s t t2 n] show ?thesis by auto
    next
      case False
      with v s 2 d t obtain js where m: "j_elems n (d + 1) t = Some (js, r)" "j = JArr js" by auto
      with IHe [OF s _ 2 _ t False, of js r] d 2 have "\<exists>l. reads_elems n (d + 1) t r js l" by simp
      with reads_array [OF _ _ d] s 2 m(2) show ?thesis by blast
    qed
  next
    case 3
    with v s show ?thesis using reads_string [of t _ r s n d] by auto
  next
    case 4
    with v g s show ?thesis using reads_literal [of c t j r s n d] by auto
  qed
next
  case (4 n d s)
  from 4(3) obtain j u where ju: "j_value n d s = Some (j, u)" by (cases "j_value n d s") auto
  with 4(3) obtain c t where u: "skip_ws u = c # t" by (cases "skip_ws u") simp_all
  show ?case
  proof (cases "c = CHR '']''")
    case True
    then have "\<exists>x. reads_value n d s u j x" using 4(1) [OF ju] good_rest_skip(2) [OF u] by simp
    with True 4(3) ju u reads_last_elem [of n d s u j] show ?thesis by auto
  next
    case False
    with 4(3) ju u obtain js' where e: "c = CHR '',''" "j_elems n d t = Some (js', r)" "js = j # js'"
      by (auto split: if_splits)
    then have "\<exists>x. reads_value n d s u j x" using 4(1) [OF ju] good_rest_skip(2) [OF u] by simp
    moreover have "\<exists>vs. reads_elems n d t r js' vs" using 4(2) [OF ju refl u False e(1,2)] .
    ultimately show ?thesis using reads_next_elem [of n d s u j] ju u e by blast
  qed
next
  case (6 n d s)
  obtain q where q: "skip_ws s = CHR 0x22 # q" using j_members_head [OF 6(3)] by blast
  with 6(3) obtain b q1 where b: "scan_str q = Some (b, q1)" by (cases "scan_str q") auto
  with 6(3) q obtain q2 where q2: "skip_ws q1 = CHR '':'' # q2" by (auto split: list.splits if_splits)
  with 6(3) q b obtain j u where ju: "j_value n d q2 = Some (j, u)" by (cases "j_value n d q2") auto
  with 6(3) q b q2 obtain c t where u: "skip_ws u = c # t" by (cases "skip_ws u") simp_all
  show ?case
  proof (cases "c = CHR ''}''")
    case True
    then have "\<exists>x. reads_value n d q2 u j x" using 6(1) [OF q _ b refl q2 _ ju] good_rest_skip(2) [OF u] by simp
    with True 6(3) q b q2 ju u reads_last_member [OF q b q2, of n d u j] show ?thesis by auto
  next
    case False
    with 6(3) q b q2 ju u obtain ms' where e: "c = CHR '',''" "j_members n d t = Some (ms', r)" "ms = (unquoted b, j) # ms'"
      by (auto split: if_splits)
    then have "\<exists>x. reads_value n d q2 u j x" using 6(1) [OF q _ b refl q2 _ ju] good_rest_skip(2) [OF u] by simp
    moreover have "\<exists>l. reads_members n d t r ms' l" using 6(2) [OF q _ b refl q2 _ ju refl u False e(1,2)] by simp
    ultimately show ?thesis using reads_next_member [OF q b q2, of n d u j] u e j_members_head [OF e(2)] by blast
  qed
qed simp_all

lemma parseJSON_reads:
  assumes "json_parse data = Some j"
  obtains v where "parseJSON data = Some (Inr v)" "json_of v = last_wins j" "doc_ok v" "fits max_depth v"
proof -
  from assms obtain r where r: "j_value (2 * length data + 1) 0 data = Some (j, r)" "skip_ws r = []"
    by (auto simp: json_parse_def split: option.splits if_splits)
  with parser_follows_grammar(1) [OF r(1)] good_rest_skip(1) obtain v
    where v: "reads_value (2 * length data + 1) 0 data r j v" by blast
  moreover have "jp_value (4 * length data + 2) data = Some (v, r)"
    using v by (simp add: reads_value_def del: jp_value.simps)
  ultimately show thesis
    using that [of v] assms by (simp add: parseJSON_def json_Valid_def reads_value_def del: jp_value.simps)
qed

lemma parseJSON_total: "parseJSON data \<noteq> None"
proof (cases "json_parse data")
  case None
  then show ?thesis by (simp add: parseJSON_def json_Valid_def)
next
  case (Some j)
  then show ?thesis by (metis parseJSON_reads option.distinct(1))
qed

lemma parseJSON_ok: "parseJSON data = Some (Inr v) \<Longrightarrow> doc_ok v \<and> fits max_depth v"
proof -
  assume v: "parseJSON data = Some (Inr v)"
  then obtain j where j: "json_parse data = Some j"
    by (cases "json_parse data") (auto simp: parseJSON_def json_Valid_def)
  show ?thesis using parseJSON_reads [OF j] v by fastforce
qed

section \<open>Properties\<close>

text \<open>C22: the parser of JSON settings files reads what JSON says. On any bytes it ends without
  leaving them; on bytes that are not JSON it reports that, or that the file is empty, and on JSON
  it gives the document itself, with each repeated key at its first place with its last value.\<close>

theorem parseJSON_reads_JSON:
  "case json_parse data of
     None \<Rightarrow> parseJSON data = Some (Inl (if TrimSpace data = [] then ''an empty file'' else ''not valid JSON''))
   | Some j \<Rightarrow> (\<exists>v. parseJSON data = Some (Inr v) \<and> json_of v = last_wins j)"
proof (cases "json_parse data")
  case None
  then show ?thesis by (simp add: parseJSON_def json_Valid_def)
next
  case (Some j)
  then show ?thesis using parseJSON_reads [OF Some] by auto
qed

end
