(* ===== verification/JsonWrite.thy ===== *)
theory JsonWrite
  imports JsonRead
begin

text \<open>
  What \<open>json3.go\<close> writes reads back. A document laid out with any white space between its tokens is
  accepted by JSON's grammar and read by the parser as that very document (\<open>layout_accepted\<close>); the
  compact writer and \<open>json.Indent\<close> of it are two such layouts. The three-way merge keeps documents
  as the parser builds them, so the merged file reads back as the merge.
\<close>

section \<open>Acceptance\<close>

text \<open>Both parsers, given enough fuel: the grammar accepts, the parser reads the value.\<close>

definition accepts :: "nat \<Rightarrow> string \<Rightarrow> jdoc \<Rightarrow> string \<Rightarrow> bool" where
  "accepts d s v r \<longleftrightarrow> (\<exists>j N. \<forall>n \<ge> N. j_value n d s = Some (j, r) \<and> jp_value n s = Some (v, r))"

definition accepts_elems :: "nat \<Rightarrow> string \<Rightarrow> jdoc list \<Rightarrow> string \<Rightarrow> bool" where
  "accepts_elems d s vs r \<longleftrightarrow> (\<exists>js N. \<forall>n \<ge> N. j_elems n d s = Some (js, r) \<and>
     (\<forall>arr. jp_elems n arr s = Some (arr @ vs, r)))"

definition accepts_members :: "nat \<Rightarrow> string \<Rightarrow> unit fields \<Rightarrow> string \<Rightarrow> bool" where
  "accepts_members d s fs r \<longleftrightarrow> (\<exists>ms N. \<forall>n \<ge> N. j_members n d s = Some (ms, r) \<and>
     (\<forall>obj. jp_fields n obj s = Some (set_all fs obj, r)))"

lemma accepts_skip: "accepts d s v r \<Longrightarrow> skip_ws t = skip_ws s \<Longrightarrow> accepts d t v r"
proof -
  assume a: "accepts d s v r" and t: "skip_ws t = skip_ws s"
  have "j_value n d t = j_value n d s" "jp_value n t = jp_value n s" for n
    using t by (cases n; simp)+
  with a show ?thesis by (simp add: accepts_def)
qed

lemma from_two: "(\<And>k. k \<ge> N \<Longrightarrow> P (Suc (Suc k))) \<Longrightarrow> \<forall>n \<ge> N + 2. P n"
proof (intro allI impI)
  fix n assume P: "\<And>k. k \<ge> N \<Longrightarrow> P (Suc (Suc k))" and n: "N + 2 \<le> n"
  have "n = Suc (Suc (n - 2))" using n by simp
  moreover have "N \<le> n - 2" using n by simp
  ultimately show "P n" using P by metis
qed

lemma acceptsI:
  assumes "\<And>n. n \<ge> N \<Longrightarrow> j_value (Suc (Suc n)) d s = Some (j, r) \<and> jp_value (Suc (Suc n)) s = Some (v, r)"
  shows "accepts d s v r"
  using from_two [of N "\<lambda>n. j_value n d s = Some (j, r) \<and> jp_value n s = Some (v, r)"] assms
  unfolding accepts_def by blast

lemma accepts_elemsI:
  assumes "\<And>n. n \<ge> N \<Longrightarrow> j_elems (Suc (Suc n)) d s = Some (js, r) \<and> (\<forall>arr. jp_elems (Suc (Suc n)) arr s = Some (arr @ vs, r))"
  shows "accepts_elems d s vs r"
  using from_two [of N "\<lambda>n. j_elems n d s = Some (js, r) \<and> (\<forall>arr. jp_elems n arr s = Some (arr @ vs, r))"] assms
  unfolding accepts_elems_def by blast

lemma accepts_membersI:
  assumes "\<And>n. n \<ge> N \<Longrightarrow> j_members (Suc (Suc n)) d s = Some (ms, r) \<and> (\<forall>obj. jp_fields (Suc (Suc n)) obj s = Some (set_all fs obj, r))"
  shows "accepts_members d s fs r"
  using from_two [of N "\<lambda>n. j_members n d s = Some (ms, r) \<and> (\<forall>obj. jp_fields n obj s = Some (set_all fs obj, r))"] assms
  unfolding accepts_members_def by blast

lemma accepts_elem_step:
  assumes v: "accepts d s v u"
  obtains j N where "\<And>n. n \<ge> N \<Longrightarrow> j_value n d s = Some (j, u)"
    "\<And>n arr. n \<ge> N \<Longrightarrow> jp_elems (Suc n) arr s = jp_elems n (arr @ [v]) u"
proof -
  from v obtain j N where N: "\<And>n. n \<ge> N \<Longrightarrow> j_value n d s = Some (j, u) \<and> jp_value n s = Some (v, u)"
    by (auto simp: accepts_def)
  obtain h w where h: "skip_ws s = h # w" using N [of "Suc N"] by (cases "skip_ws s") auto
  note hd = j_value_head [OF conjunct1 [OF N [OF order.refl]] h]
  have "jp_elems (Suc n) arr s = jp_elems n (arr @ [v]) u" if n: "n \<ge> N" for n arr
  proof -
    have "jp_value n (h # w) = Some (v, u)"
      using N [OF n] jp_value_skip [of s "h # w" n] h skip_ws_simps(3) [of s] by simp
    with h hd show ?thesis by simp
  qed
  with N that show thesis by blast
qed

lemma accepts_last_elem:
  assumes v: "accepts d s v u" and u: "skip_ws u = CHR '']'' # t"
  shows "accepts_elems d s [v] t"
proof -
  obtain j N where N: "\<And>n. n \<ge> N \<Longrightarrow> j_value n d s = Some (j, u)"
    "\<And>n arr. n \<ge> N \<Longrightarrow> jp_elems (Suc n) arr s = jp_elems n (arr @ [v]) u"
    by (rule accepts_elem_step [OF v], rule that)
  have "j_elems (Suc (Suc k)) d s = Some ([j], t) \<and> (\<forall>arr. jp_elems (Suc (Suc k)) arr s = Some (arr @ [v], t))"
    if k: "k \<ge> N" for k
    using N(1) [of "Suc k"] N(2) [of "Suc k"] k u by (simp del: j_value.simps jp_value.simps)
  then show ?thesis by (rule accepts_elemsI)
qed

lemma accepts_next_elem:
  assumes v: "accepts d s v u" and u: "skip_ws u = CHR '','' # t" and t: "accepts_elems d t vs r"
  shows "accepts_elems d s (v # vs) r"
proof -
  obtain j N where N: "\<And>n. n \<ge> N \<Longrightarrow> j_value n d s = Some (j, u)"
    "\<And>n arr. n \<ge> N \<Longrightarrow> jp_elems (Suc n) arr s = jp_elems n (arr @ [v]) u"
    by (rule accepts_elem_step [OF v], rule that)
  from t obtain js M where M: "\<And>n arr. n \<ge> M \<Longrightarrow> j_elems n d t = Some (js, r) \<and> jp_elems n arr t = Some (arr @ vs, r)"
    by (auto simp: accepts_elems_def)
  have "j_elems (Suc (Suc k)) d s = Some (j # js, r) \<and> (\<forall>arr. jp_elems (Suc (Suc k)) arr s = Some (arr @ v # vs, r))"
    if k: "k \<ge> N + M" for k
  proof -
    have le: "N \<le> Suc k" "M \<le> Suc k" "M \<le> k" using k by auto
    have "jp_elems (Suc k) arr u = jp_elems k arr t" for arr using u by simp
    with N(1) [OF le(1)] N(2) [OF le(1)] M [OF le(2)] M [OF le(3)] u show ?thesis
      by (simp add: j_elems.simps(2) [of "Suc k"] del: j_value.simps jp_value.simps j_elems.simps jp_elems.simps)
  qed
  then show ?thesis by (rule accepts_elemsI)
qed

text \<open>A member: its key, a colon and its value.\<close>

lemma accepts_member_step:
  assumes k: "str_token raw" and s: "skip_ws s = raw @ CHR '':'' # q" and v: "accepts d q v u"
  obtains j N where
    "\<And>n obj. n \<ge> N \<Longrightarrow> jp_fields (Suc n) obj s = jp_fields n (set_field (Unmarshal_string raw) raw v obj) u"
    "\<And>n t. n \<ge> N \<Longrightarrow> skip_ws u = CHR ''}'' # t \<Longrightarrow> j_members (Suc n) d s = Some ([(Unmarshal_string raw, j)], t)"
    "\<And>n t ms r. n \<ge> N \<Longrightarrow> skip_ws u = CHR '','' # t \<Longrightarrow> j_members n d t = Some (ms, r) \<Longrightarrow>
       j_members (Suc n) d s = Some ((Unmarshal_string raw, j) # ms, r)"
proof -
  obtain b where b: "raw = CHR 0x22 # b @ [CHR 0x22]" "\<And>r. scan_str (b @ CHR 0x22 # r) = Some (b, r)"
    using str_tokenE [OF k] by blast
  note um = Unmarshal_token [OF b(2) [of "[]"]]
  from v obtain j N where N: "\<And>n. n \<ge> N \<Longrightarrow> j_value n d q = Some (j, u) \<and> jp_value n q = Some (v, u)"
    by (auto simp: accepts_def)
  show thesis
  proof (rule that [of N j])
    fix n obj assume n: "n \<ge> N"
    show "jp_fields (Suc n) obj s = jp_fields n (set_field (Unmarshal_string raw) raw v obj) u"
      using N [OF n] s b jp_string_token [OF b(2) [of "CHR '':'' # q"]] by simp
  next
    fix n t assume n: "n \<ge> N" and "skip_ws u = CHR ''}'' # t"
    then show "j_members (Suc n) d s = Some ([(Unmarshal_string raw, j)], t)"
      using N [OF n] s b um by (simp del: j_value.simps scan_str.simps)
  next
    fix n t ms r assume n: "n \<ge> N" and "skip_ws u = CHR '','' # t" "j_members n d t = Some (ms, r)"
    then show "j_members (Suc n) d s = Some ((Unmarshal_string raw, j) # ms, r)"
      using N [OF n] s b um by (simp del: j_value.simps scan_str.simps)
  qed
qed

lemma accepts_last_member:
  assumes k: "str_token raw" "k = Unmarshal_string raw" and s: "skip_ws s = raw @ CHR '':'' # q"
    and v: "accepts d q v u" and u: "skip_ws u = CHR ''}'' # t"
  shows "accepts_members d s [(k, raw, v)] t"
proof (rule accepts_member_step [OF k(1) s v])
  fix j N
  assume N: "\<And>n obj. n \<ge> N \<Longrightarrow> jp_fields (Suc n) obj s = jp_fields n (set_field (Unmarshal_string raw) raw v obj) u"
    "\<And>n t. n \<ge> N \<Longrightarrow> skip_ws u = CHR ''}'' # t \<Longrightarrow> j_members (Suc n) d s = Some ([(Unmarshal_string raw, j)], t)"
  have "jp_fields (Suc n) obj u = Some (obj, t)" for n obj using u by simp
  then show ?thesis
    using N(1) [OF le_SucI] N(2) [OF le_SucI u] k(2)
    by (intro accepts_membersI [of N]) (simp del: j_members.simps jp_fields.simps)
qed

lemma accepts_next_member:
  assumes k: "str_token raw" "k = Unmarshal_string raw" and s: "skip_ws s = raw @ CHR '':'' # q"
    and v: "accepts d q v u" and u: "skip_ws u = CHR '','' # t" and t: "accepts_members d t fs r"
  shows "accepts_members d s ((k, raw, v) # fs) r"
proof (rule accepts_member_step [OF k(1) s v])
  fix j N
  assume N: "\<And>n obj. n \<ge> N \<Longrightarrow> jp_fields (Suc n) obj s = jp_fields n (set_field (Unmarshal_string raw) raw v obj) u"
    "\<And>n t ms r. n \<ge> N \<Longrightarrow> skip_ws u = CHR '','' # t \<Longrightarrow> j_members n d t = Some (ms, r) \<Longrightarrow>
       j_members (Suc n) d s = Some ((Unmarshal_string raw, j) # ms, r)"
  from t obtain ms M where M: "\<And>n obj. n \<ge> M \<Longrightarrow> j_members n d t = Some (ms, r) \<and> jp_fields n obj t = Some (set_all fs obj, r)"
    by (auto simp: accepts_members_def)
  then obtain w where w: "skip_ws t = CHR 0x22 # w" using j_members_head by blast
  show ?thesis
  proof (rule accepts_membersI [of "N + M"])
    fix n assume "N + M \<le> n"
    then have n: "N \<le> Suc n" "M \<le> Suc n" by simp_all
    show "j_members (Suc (Suc n)) d s = Some ((k, j) # ms, r) \<and>
        (\<forall>obj. jp_fields (Suc (Suc n)) obj s = Some (set_all ((k, raw, v) # fs) obj, r))"
      using N(1) [OF n(1)] N(2) [OF n(1) u] M [OF n(2)] k(2) jp_fields_skip [OF u w]
      by (simp del: j_members.simps jp_fields.simps)
  qed
qed

text \<open>Containers and scalars.\<close>

lemma set_all_distinct: "distinct (map fst (obj @ fs)) \<Longrightarrow> set_all fs obj = obj @ fs"
proof (induction fs arbitrary: obj)
  case (Cons a fs)
  obtain k raw v where a: "a = (k, raw, v)" by (cases a)
  with Cons.prems have "map_of obj k = None" by (auto simp: map_of_eq_None_iff)
  with a Cons.IH [of "obj @ [(k, raw, v)]"] Cons.prems show ?case by (simp add: set_field_fresh)
qed simp

lemma accepts_object:
  assumes fs: "accepts_members (d + 1) t fs r" "distinct (map fst fs)" and s: "skip_ws s = CHR ''{'' # t"
    and d: "d < max_depth"
  shows "accepts d s (JObject fs) r"
proof -
  from fs obtain ms N where N: "\<And>n obj. n \<ge> N \<Longrightarrow> j_members n (d + 1) t = Some (ms, r) \<and> jp_fields n obj t = Some (set_all fs obj, r)"
    by (auto simp: accepts_members_def)
  then obtain w where w: "skip_ws t = CHR 0x22 # w" using j_members_head by blast
  have "j_value (Suc (Suc n)) d s = Some (JObj ms, r) \<and> jp_value (Suc (Suc n)) s = Some (JObject fs, r)" if "n \<ge> N" for n
    using N [of "Suc n"] that w s d set_all_distinct [of "[]" fs] fs(2)
    by (simp del: j_members.simps jp_fields.simps)
  then show ?thesis by (rule acceptsI)
qed

lemma accepts_array:
  assumes es: "accepts_elems (d + 1) t es r" and s: "skip_ws s = CHR ''['' # t" and d: "d < max_depth"
  shows "accepts d s (JArray es) r"
proof -
  from es obtain js N where N: "\<And>n arr. n \<ge> N \<Longrightarrow> j_elems n (d + 1) t = Some (js, r) \<and> jp_elems n arr t = Some (arr @ es, r)"
    by (auto simp: accepts_elems_def)
  have k: "j_value N (d + 1) t \<noteq> None" using N [of "Suc N" "[]"] by (cases "j_value N (d + 1) t") simp_all
  then obtain c w where w: "skip_ws t = c # w" by (cases "skip_ws t"; cases N) auto
  with k have c: "c \<noteq> CHR '']''" using j_value_head [of N "d + 1" t] by fastforce
  have "j_value (Suc (Suc n)) d s = Some (JArr js, r) \<and> jp_value (Suc (Suc n)) s = Some (JArray es, r)" if "n \<ge> N" for n
    using N [of "Suc n"] that w c s d by (simp del: j_elems.simps jp_elems.simps)
  then show ?thesis by (rule acceptsI)
qed

lemma accepts_empty:
  assumes "d < max_depth"
  shows "accepts d (CHR ''{'' # CHR ''}'' # r) (JObject []) r" "accepts d (CHR ''['' # CHR '']'' # r) (JArray []) r"
  by (rule acceptsI [of 0], use assms in simp)+

lemma accepts_scalar:
  assumes ok: "doc_ok (JScalar tok () scalar)" and r: "good_rest r"
  shows "accepts d (tok @ r) (JScalar tok () scalar) r"
proof -
  from ok consider (str) "str_token tok" "scalar = ''s'' @ Unmarshal_string tok"
    | (plain) "plain_token tok" "scalar = jsonLiteral tok" by auto
  then show ?thesis
  proof cases
    case str
    then obtain b where b: "tok = CHR 0x22 # b @ [CHR 0x22]" "\<And>r. scan_str (b @ CHR 0x22 # r) = Some (b, r)"
      by (auto elim: str_tokenE)
    show ?thesis
      by (rule acceptsI [of 0 _ _ "JStr (unquoted b)"])
        (use b jp_string_token [OF b(2), of r] str(2) in \<open>simp del: scan_str.simps\<close>)
  next
    case plain
    obtain j where j: "literal_of j tok" by (rule plain_tokenE [OF plain(1)])
    then obtain c t where c: "tok = c # t" "lit_char c" "scan_plain (c # t @ r) = Some (j, r)"
      using r by (cases tok) (auto simp: literal_of_def)
    have "takeWhile (\<lambda>y. \<not> ends_literal y) (c # t @ r) = tok" "dropWhile (\<lambda>y. \<not> ends_literal y) (c # t @ r) = r"
      using literal_ends [OF j r] c(1) by simp_all
    moreover have "\<not> is_ws c" "c \<notin> {CHR ''{'', CHR ''['', CHR 0x22}" using c(2) by (auto simp: lit_char_def ends_literal_def)
    ultimately show ?thesis
      using c plain(2) by (intro acceptsI [of 0 _ _ j]) (simp add: Let_def del: takeWhile.simps dropWhile.simps)
  qed
qed

section \<open>Layouts\<close>

text \<open>A document with \<open>nl d\<close> where a line of depth \<open>d\<close> starts and \<open>sp\<close> after each colon.\<close>

fun layout :: "(nat \<Rightarrow> string) \<Rightarrow> string \<Rightarrow> nat \<Rightarrow> jdoc \<Rightarrow> string" where
  "layout nl sp d (JScalar tok native scalar) = tok"
| "layout nl sp d (JObject fs) =
     (if fs = [] then ''{}''
      else ''{'' @ nl (Suc d) @ join_strings ('','' @ nl (Suc d))
        (map (\<lambda>(k, raw, v). raw @ '':'' @ sp @ layout nl sp (Suc d) v) fs) @ nl d @ ''}'')"
| "layout nl sp d (JArray es) =
     (if es = [] then ''[]''
      else ''['' @ nl (Suc d) @ join_strings ('','' @ nl (Suc d)) (map (layout nl sp (Suc d)) es) @ nl d @ '']'')"

lemma skip_ws_append: "list_all is_ws w \<Longrightarrow> skip_ws (w @ s) = skip_ws s"
  by (induction w) simp_all

lemma good_rest_append: "list_all is_ws w \<Longrightarrow> good_rest s \<Longrightarrow> good_rest (w @ s)"
  by (cases w) (simp_all add: ends_literal_def)

lemma elems_accepted:
  assumes ws: "\<And>x. list_all is_ws (nl x)"
    and es: "es \<noteq> []" "\<And>e r. e \<in> set es \<Longrightarrow> good_rest r \<Longrightarrow> accepts d (f e @ r) e r"
  shows "accepts_elems d (nl x @ join_strings ('','' @ nl x) (map f es) @ nl y @ '']'' @ r) es r"
  using es
proof (induction es)
  case (Cons e es)
  have head: "accepts d (nl x @ f e @ s) e s" if "good_rest s" for s
    by (rule accepts_skip [OF Cons.prems(2) [OF _ that]]) (simp_all add: skip_ws_append ws)
  show ?case
  proof (cases es)
    case Nil
    have "good_rest (nl y @ '']'' @ r)" by (rule good_rest_append [OF ws]) (simp add: ends_literal_def)
    from accepts_last_elem [OF head [OF this], of r] Nil show ?thesis by (simp add: skip_ws_append ws)
  next
    case (Cons e2 es2)
    let ?t = "nl x @ join_strings ('','' @ nl x) (map f es) @ nl y @ '']'' @ r"
    have "accepts_elems d (nl x @ f e @ '','' @ ?t) (e # es) r"
      by (rule accepts_next_elem [OF head, where t = ?t])
        (use Cons Cons.IH Cons.prems in \<open>simp_all add: ends_literal_def\<close>)
    then show ?thesis using Cons by simp
  qed
qed simp

lemma members_accepted:
  assumes ws: "\<And>x. list_all is_ws (nl x)" "list_all is_ws sp"
    and fs: "fs \<noteq> []" "\<And>k raw v. (k, raw, v) \<in> set fs \<Longrightarrow> str_token raw \<and> k = Unmarshal_string raw"
      "\<And>k raw v r. (k, raw, v) \<in> set fs \<Longrightarrow> good_rest r \<Longrightarrow> accepts d (f v @ r) v r"
  shows "accepts_members d (nl x @ join_strings ('','' @ nl x)
    (map (\<lambda>(k, raw, v). raw @ '':'' @ sp @ f v) fs) @ nl y @ ''}'' @ r) fs r"
  using fs
proof (induction fs)
  case (Cons a fs)
  obtain k raw v where a: "a = (k, raw, v)" by (cases a)
  with Cons.prems(2) have k: "str_token raw" "k = Unmarshal_string raw" by auto
  obtain b where b: "raw = CHR 0x22 # b" using str_tokenE [OF k(1)] by blast
  have val: "accepts d (sp @ f v @ s) v s" if "good_rest s" for s
    by (rule accepts_skip [OF Cons.prems(3) [of k raw v, OF _ that]]) (simp_all add: a skip_ws_append ws)
  have key: "skip_ws (nl x @ raw @ '':'' @ s) = raw @ CHR '':'' # s" for s
    using b by (simp add: skip_ws_append ws)
  show ?case
  proof (cases fs)
    case Nil
    have "good_rest (nl y @ ''}'' @ r)" by (rule good_rest_append [OF ws(1)]) (simp add: ends_literal_def)
    from accepts_last_member [OF k key val [OF this], of r] Nil a show ?thesis
      by (simp add: skip_ws_append ws)
  next
    case (Cons e2 es2)
    let ?t = "nl x @ join_strings ('','' @ nl x) (map (\<lambda>(k, raw, v). raw @ '':'' @ sp @ f v) fs) @ nl y @ ''}'' @ r"
    have t: "accepts_members d ?t fs r"
    proof (rule Cons.IH)
      show "fs \<noteq> []" using Cons by simp
      show "str_token raw \<and> k = Unmarshal_string raw" if "(k, raw, v) \<in> set fs" for k raw v
        using Cons.prems(2) [of k raw v] that by simp
      show "accepts d (f v @ s) v s" if "(k, raw, v) \<in> set fs" "good_rest s" for k raw v s
        using Cons.prems(3) [of k raw v s] that by simp
    qed
    have "accepts_members d (nl x @ raw @ '':'' @ sp @ f v @ '','' @ ?t) ((k, raw, v) # fs) r"
      by (rule accepts_next_member [OF k key val _ t]) (simp_all add: ends_literal_def)
    then show ?thesis using Cons a by simp
  qed
qed simp

lemma layout_accepted:
  assumes ws: "\<And>x. list_all is_ws (nl x)" "list_all is_ws sp"
  shows "doc_ok v \<Longrightarrow> fits k v \<Longrightarrow> d + k \<le> max_depth \<Longrightarrow> good_rest r \<Longrightarrow> accepts d (layout nl sp x v @ r) v r"
proof (induction v arbitrary: k d r x)
  case (JScalar tok native scalar)
  then show ?case using accepts_scalar [of tok scalar r d] by simp
next
  case (JObject fs)
  then have d: "d < max_depth" by simp
  show ?case
  proof (cases "fs = []")
    case True
    with accepts_empty(1) [OF d] show ?thesis by simp
  next
    case False
    have "accepts_members (d + 1) (nl (Suc x) @ join_strings ('','' @ nl (Suc x))
        (map (\<lambda>(k, raw, v). raw @ '':'' @ sp @ layout nl sp (Suc x) v) fs) @ nl x @ ''}'' @ r) fs r"
    proof (rule members_accepted [OF ws False])
      show "str_token raw \<and> k = Unmarshal_string raw" if "(k, raw, v) \<in> set fs" for k raw v
        using JObject.prems(1) that by (auto simp: list_all_iff)
      show "accepts (d + 1) (layout nl sp (Suc x) v @ s) v s" if "(k', raw, v) \<in> set fs" "good_rest s" for k' raw v s
        using JObject.IH [of "(k', raw, v)" "(raw, v)" v "k - 1" "d + 1" s "Suc x"] JObject.prems that
        by (fastforce simp: list_all_iff)
    qed
    from accepts_object [OF this _ _ d] JObject.prems(1) False show ?thesis by simp
  qed
next
  case (JArray es)
  then have d: "d < max_depth" by simp
  show ?case
  proof (cases "es = []")
    case True
    with accepts_empty(2) [OF d] show ?thesis by simp
  next
    case False
    have "accepts_elems (d + 1) (nl (Suc x) @ join_strings ('','' @ nl (Suc x))
        (map (layout nl sp (Suc x)) es) @ nl x @ '']'' @ r) es r"
    proof (rule elems_accepted [OF ws(1) False])
      show "accepts (d + 1) (layout nl sp (Suc x) e @ s) e s" if "e \<in> set es" "good_rest s" for e s
        using JArray.IH [of e "k - 1" "d + 1" s "Suc x"] JArray.prems that by (auto simp: list_all_iff)
    qed
    from accepts_array [OF this _ d] False show ?thesis by simp
  qed
qed

lemma accepted_parses:
  assumes "accepts 0 s v r" "skip_ws r = []"
  shows "parseJSON s = Some (Inr v)"
proof -
  from assms(1) obtain j N where N: "\<And>n. n \<ge> N \<Longrightarrow> j_value n 0 s = Some (j, r) \<and> jp_value n s = Some (v, r)"
    by (auto simp: accepts_def)
  have "j_value (2 * length s + 1) 0 s = Some (j, r)"
    using json_fuel [of s "N + 2 * length s + 1" 0] N [of "N + 2 * length s + 1"] by simp
  then have "json_parse s = Some j" using assms(2) by (simp add: json_parse_def)
  moreover obtain w where w: "reads_value (2 * length s + 1) 0 s r j w"
    using parser_follows_grammar(1) [OF \<open>j_value (2 * length s + 1) 0 s = Some (j, r)\<close>] good_rest_skip(1) [OF assms(2)]
    by blast
  moreover have "jp_value (N + 4 * length s + 2) s = Some (w, r)"
    using w by (simp add: reads_value_def del: jp_value.simps)
  then have "w = v" using N [of "N + 4 * length s + 2"] by simp
  moreover have "jp_value (4 * length s + 2) s = Some (w, r)"
    using w by (simp add: reads_value_def del: jp_value.simps)
  ultimately show ?thesis by (simp add: parseJSON_def json_Valid_def del: jp_value.simps)
qed

lemma layout_parses:
  assumes "\<And>x. list_all is_ws (nl x)" "list_all is_ws sp" "doc_ok v" "fits max_depth v" "list_all is_ws r"
  shows "parseJSON (layout nl sp x v @ r) = Some (Inr v)"
proof (rule accepted_parses)
  have "good_rest r" using good_rest_append [OF assms(5), of "[]"] by simp
  then show "accepts 0 (layout nl sp x v @ r) v r"
    using layout_accepted [of nl sp v max_depth 0 r x] assms by simp
  show "skip_ws r = []" using skip_ws_append [OF assms(5), of "[]"] by simp
qed

section \<open>The compact writer and the indented one\<close>

lemma writeJSON_layout: "doc_ok v \<Longrightarrow> writeJSON v = layout (\<lambda>_. []) [] d v"
proof (induction v arbitrary: d)
  case (JObject fs)
  have "map (\<lambda>(k, raw, v). (if raw = [] then Marshal_string k else raw) @ '':'' @ writeJSON v) fs =
      map (\<lambda>(k, raw, v). raw @ '':'' @ [] @ layout (\<lambda>_. []) [] (Suc d) v) fs"
    using JObject str_token_nonempty by (fastforce simp: list_all_iff)
  from arg_cong [OF this, of "join_strings '',''"] show ?case by simp
next
  case (JArray es)
  then have "map writeJSON es = map (layout (\<lambda>_. []) [] (Suc d)) es" by (auto simp: list_all_iff)
  from arg_cong [OF this, of "join_strings '',''"] show ?case by simp
qed simp

text \<open>The loop of \<open>json.Indent\<close> over a string, over a literal and over a document.\<close>

lemma indent_string:
  "scan_str s = Some (b, r) \<Longrightarrow>
   indent_loop ind InString need d (b @ CHR 0x22 # t) = b @ CHR 0x22 # indent_loop ind Outside need d t"
  by (induction s arbitrary: b r rule: scan_str.induct) (auto split: if_splits list.splits)

lemma indent_literal:
  "list_all lit_char s \<Longrightarrow> indent_loop ind Outside False d (s @ t) = s @ indent_loop ind Outside False d t"
  by (induction s) (auto simp: lit_char_def ends_literal_def)

abbreviation opened :: "string \<Rightarrow> bool \<Rightarrow> nat \<Rightarrow> string" where
  "opened ind need d \<equiv> (if need then new_line ind (Suc d) else [])"

abbreviation depth_of :: "bool \<Rightarrow> nat \<Rightarrow> nat" where
  "depth_of need d \<equiv> (if need then Suc d else d)"

lemma indent_str_token:
  assumes "str_token tok"
  shows "indent_loop ind Outside need d (tok @ t) =
    opened ind need d @ tok @ indent_loop ind Outside False (depth_of need d) t"
proof -
  obtain b where b: "tok = CHR 0x22 # b @ [CHR 0x22]" "\<And>r. scan_str (b @ CHR 0x22 # r) = Some (b, r)"
    using str_tokenE [OF assms] by blast
  with indent_string [OF b(2)] show ?thesis by (simp add: Let_def)
qed

lemma indent_scalar:
  assumes "doc_ok (JScalar tok native scalar)"
  shows "indent_loop ind Outside need d (tok @ t) =
    opened ind need d @ tok @ indent_loop ind Outside False (depth_of need d) t"
proof (cases "str_token tok")
  case False
  with assms have "plain_token tok" by simp
  then obtain c s where c: "tok = c # s" "lit_char c" "list_all lit_char s"
    by (auto elim!: plain_tokenE simp: literal_of_def neq_Nil_conv)
  with indent_literal [OF c(3)] show ?thesis by (auto simp: Let_def lit_char_def ends_literal_def)
qed (rule indent_str_token)

lemma indent_elems:
  assumes "es \<noteq> []" "\<And>e need d t. e \<in> set es \<Longrightarrow> indent_loop ind Outside need d (f e @ t) =
      opened ind need d @ g (depth_of need d) e @ indent_loop ind Outside False (depth_of need d) t"
  shows "indent_loop ind Outside need d (join_strings '','' (map f es) @ t) =
    opened ind need d @ join_strings ('','' @ new_line ind (depth_of need d)) (map (g (depth_of need d)) es) @
    indent_loop ind Outside False (depth_of need d) t"
  using assms
proof (induction es arbitrary: need d)
  case (Cons e es)
  show ?case
  proof (cases es)
    case Nil
    then show ?thesis using Cons.prems(2) [of e need d] by simp
  next
    case (Cons e2 es2)
    let ?D = "depth_of need d"
    have "indent_loop ind Outside False ?D (join_strings '','' (map f es) @ t) =
        join_strings ('','' @ new_line ind ?D) (map (g ?D) es) @ indent_loop ind Outside False ?D t"
      using Cons.IH [of False ?D] Cons.prems(2) Cons by (simp del: indent_loop.simps)
    then show ?thesis
      using Cons Cons.prems(2) [of e need d "'','' @ join_strings '','' (map f es) @ t"] by (simp add: Let_def)
  qed
qed simp

lemma indent_doc:
  "doc_ok v \<Longrightarrow> indent_loop ind Outside need d (writeJSON v @ t) =
    opened ind need d @ layout (new_line ind) '' '' (depth_of need d) v @
    indent_loop ind Outside False (depth_of need d) t"
proof (induction v arbitrary: need d t)
  case (JScalar tok native scalar)
  then show ?case using indent_scalar [of tok native scalar] by simp
next
  case (JArray es)
  show ?case
  proof (cases "es = []")
    case False
    have "indent_loop ind Outside True D (join_strings '','' (map writeJSON es) @ u) =
        new_line ind (Suc D) @ join_strings ('','' @ new_line ind (Suc D)) (map (layout (new_line ind) '' '' (Suc D)) es) @
        indent_loop ind Outside False (Suc D) u" for D u
      using indent_elems [of es ind writeJSON "layout (new_line ind) '' ''" True D u] False JArray
      by (simp add: list_all_iff del: indent_loop.simps)
    from this [of "depth_of need d" "CHR '']'' # t"] False show ?thesis by (cases need) (simp_all add: Let_def)
  qed (simp add: Let_def)
next
  case (JObject fs)
  let ?f = "\<lambda>(k, raw, v). (if raw = [] then Marshal_string k else raw) @ '':'' @ writeJSON v"
  let ?g = "\<lambda>x (k, raw, v). raw @ '':'' @ '' '' @ layout (new_line ind) '' '' x v"
  have member: "indent_loop ind Outside need d (?f a @ t) =
      opened ind need d @ ?g (depth_of need d) a @ indent_loop ind Outside False (depth_of need d) t"
    if a: "a \<in> set fs" for a need d t
  proof -
    obtain k raw v where kv: "a = (k, raw, v)" by (cases a)
    with a JObject.prems have r: "str_token raw" "doc_ok v" by (auto simp: list_all_iff)
    have v: "indent_loop ind Outside False D (writeJSON v @ u) =
        layout (new_line ind) '' '' D v @ indent_loop ind Outside False D u" for D u
      using JObject.IH [of "(k, raw, v)" "(raw, v)" v False D u] a kv r by (simp del: indent_loop.simps)
    have c: "indent_loop ind Outside False D ('':'' @ u) = '': '' @ indent_loop ind Outside False D u" for D u
      by (simp add: Let_def)
    from r(1) str_token_nonempty have "raw \<noteq> []" by blast
    with kv indent_str_token [OF r(1)] v c show ?thesis by (simp del: indent_loop.simps)
  qed
  show ?case
  proof (cases "fs = []")
    case False
    have "indent_loop ind Outside True D (join_strings '','' (map ?f fs) @ u) =
        new_line ind (Suc D) @ join_strings ('','' @ new_line ind (Suc D)) (map (?g (Suc D)) fs) @
        indent_loop ind Outside False (Suc D) u" for D u
      using indent_elems [of fs ind ?f ?g True D u] False member by (simp del: indent_loop.simps)
    from this [of "depth_of need d" "CHR ''}'' # t"] False show ?thesis by (cases need) (simp_all add: Let_def)
  qed (simp add: Let_def)
qed

text \<open>Neither writer ends in white space.\<close>

lemma str_token_last: "str_token tok \<Longrightarrow> \<not> is_ws (last tok) \<and> tok \<noteq> []"
  by (auto elim: str_tokenE)

lemma plain_token_last: "plain_token tok \<Longrightarrow> \<not> is_ws (last tok) \<and> tok \<noteq> []"
  by (auto elim!: plain_tokenE simp: literal_of_def list_all_iff lit_char_def ends_literal_def dest!: last_in_set)

lemma layout_last: "doc_ok v \<Longrightarrow> layout nl sp d v \<noteq> [] \<and> \<not> is_ws (last (layout nl sp d v))"
  by (cases v) (auto dest: str_token_last plain_token_last)

lemma TrimRight_ws_last: "s \<noteq> [] \<Longrightarrow> \<not> is_ws (last s) \<Longrightarrow> TrimRight_ws s = s"
  by (cases s rule: rev_cases) (simp_all add: TrimRight_ws_def)

lemma new_line_ws: "list_all is_ws ind \<Longrightarrow> list_all is_ws (new_line ind d)"
  by (auto simp: new_line_def list_all_iff is_ws_def split: if_splits)

lemma jsonIndent_ws: "jsonIndent like = Some ind \<Longrightarrow> list_all is_ws ind"
  by (auto simp: jsonIndent_def Let_def list_all_iff is_ws_def dest: set_takeWhileD split: if_splits)

lemma Indent_layout:
  assumes v: "doc_ok v" "fits max_depth v" and ind: "list_all is_ws ind"
  shows "json_Indent (writeJSON v) ind = Inr (layout (new_line ind) '' '' 0 v)"
proof -
  have w: "writeJSON v = layout (\<lambda>_. []) [] 0 v" using writeJSON_layout [OF v(1)] .
  have "parseJSON (writeJSON v) = Some (Inr v)"
    using layout_parses [of "\<lambda>_. []" "[]" v "[]"] v w by simp
  then have "json_Valid (writeJSON v)" by (auto simp: parseJSON_def split: if_splits)
  moreover have "TrimRight_ws (writeJSON v) = writeJSON v"
    using layout_last [OF v(1), of "\<lambda>_. []" "[]" 0] w TrimRight_ws_last by simp
  ultimately show ?thesis
    using indent_doc [OF v(1), of ind False 0 "[]"] by (simp add: json_Indent_def)
qed

lemma render_parses:
  assumes v: "doc_ok v" "fits max_depth v"
  shows "\<exists>out. json_render v like cur = Inr out \<and> parseJSON out = Some (Inr v)"
proof -
  let ?tail = "if suffix [CHR 0x0A] like then [CHR 0x0A] else []"
  have tail: "list_all is_ws ?tail" by (simp add: is_ws_def)
  show ?thesis
  proof (cases "jsonIndent like")
    case None
    then have "json_render v like cur = Inr (layout (\<lambda>_. []) [] 0 v @ ?tail)"
      using writeJSON_layout [OF v(1), of 0] by (simp add: json_render_def)
    with layout_parses [of "\<lambda>_. []" "[]" v ?tail 0] v tail show ?thesis by simp
  next
    case (Some ind)
    note ws = jsonIndent_ws [OF Some]
    have "json_render v like cur = Inr (layout (new_line ind) '' '' 0 v @ ?tail)"
      using Some Indent_layout [OF v ws] by (simp add: json_render_def)
    with layout_parses [of "new_line ind" "'' ''" v ?tail 0] new_line_ws [OF ws] v tail show ?thesis
      by (simp add: is_ws_def)
  qed
qed

section \<open>Merges keep documents\<close>

lemma doc_ok_wf: "doc_ok v \<Longrightarrow> wf_value v"
  by (induction v) (fastforce simp: list_all_iff)+

lemma mergeSets_ok:
  "list_all doc_ok cs \<Longrightarrow> list_all doc_ok ns \<Longrightarrow> doc_ok (mergeSets b cs ns)"
  "k > 0 \<Longrightarrow> list_all (fits (k - Suc 0)) cs \<Longrightarrow> list_all (fits (k - Suc 0)) ns \<Longrightarrow> fits k (mergeSets b cs ns)"
  using take_unseen_subset by (fastforce simp: mergeSets_def list_all_iff)+

abbreviation opt_ok :: "nat \<Rightarrow> jdoc option \<Rightarrow> bool" where
  "opt_ok k o' \<equiv> (case o' of None \<Rightarrow> True | Some x \<Rightarrow> doc_ok x \<and> fits k x)"

lemma opt_ok_field: "doc_ok (JObject fs) \<Longrightarrow> fits k (JObject fs) \<Longrightarrow> opt_ok (k - 1) (field_of (Some (JObject fs)) x)"
  by (auto simp: field_of_def list_all_iff split: option.splits dest!: map_of_SomeD)

lemma raw_key_token:
  assumes "doc_ok (JObject cf)" "doc_ok (JObject nf)" "x \<in> set (merged_keys cf nf)"
  shows "str_token (raw_key cf nf x) \<and> x = Unmarshal_string (raw_key cf nf x)"
proof -
  have tok: "str_token (raw_of fs x) \<and> x = Unmarshal_string (raw_of fs x)"
    if "doc_ok (JObject fs)" "map_of fs x \<noteq> None" for fs
    using that by (auto simp: raw_of_def list_all_iff dest!: map_of_SomeD)
  show ?thesis
  proof (cases "map_of cf x")
    case None
    with assms(3) have "map_of nf x \<noteq> None" by (auto simp: merged_keys_def map_of_eq_None_iff)
    with None tok [OF assms(2)] show ?thesis by (simp add: raw_key_def)
  next
    case (Some y)
    with tok [OF assms(1)] show ?thesis by (simp add: raw_key_def)
  qed
qed

lemma picked_ok:
  assumes fs: "doc_ok (JObject cf)" "doc_ok (JObject nf)" and k: "k > 0"
    and g: "\<And>x v. x \<in> set (merged_keys cf nf) \<Longrightarrow> g x = Some v \<Longrightarrow> doc_ok v \<and> fits (k - 1) v"
  shows "doc_ok (JObject (picked g (raw_key cf nf) (merged_keys cf nf))) \<and>
    fits k (JObject (picked g (raw_key cf nf) (merged_keys cf nf)))"
proof -
  have "distinct (merged_keys cf nf)" using fs by (auto simp: merged_keys_def)
  moreover have "str_token raw \<and> x = Unmarshal_string raw \<and> doc_ok v \<and> fits (k - 1) v"
    if "(x, raw, v) \<in> set (picked g (raw_key cf nf) (merged_keys cf nf))" for x raw v
  proof -
    from that have "raw = raw_key cf nf x" "x \<in> set (merged_keys cf nf)" "g x = Some v"
      by (auto simp: picked_def split: option.splits)
    with g raw_key_token [OF fs] show ?thesis by simp
  qed
  ultimately show ?thesis using k by (fastforce simp: fst_picked list_all_iff)
qed

lemma merge_ref_keeps:
  "opt_ok k c \<Longrightarrow> opt_ok k i \<Longrightarrow> opt_ok k (merge_ref w b c i)"
proof (induction w b c i arbitrary: k rule: merge_ref.induct)
  case (1 w b c i)
  show ?case
  proof (cases "\<exists>cf nf. c = Some (JObject cf) \<and> i = Some (JObject nf) \<and>
      \<not> same_value c i \<and> \<not> same_value b c \<and> \<not> same_value b i")
    case True
    then obtain cf nf where o: "c = Some (JObject cf)" "i = Some (JObject nf)" "\<not> same_value c i"
      "\<not> same_value b c" "\<not> same_value b i" by blast
    with 1(2,3) have ok: "doc_ok (JObject cf)" "doc_ok (JObject nf)" "fits k (JObject cf)" "fits k (JObject nf)" "k > 0"
      by auto
    have "merge_ref w b c i = Some (JObject (picked (ref_fields w (only_object b) cf nf) (raw_key cf nf) (merged_keys cf nf)))"
      using o by (subst merge_ref.simps) (simp add: picked_def)
    moreover have "doc_ok v \<and> fits (k - 1) v"
      if x: "x \<in> set (merged_keys cf nf)" and v: "ref_fields w (only_object b) cf nf x = Some v" for x v
    proof -
      have "opt_ok (k - 1) (ref_fields w (only_object b) cf nf x)"
        using 1(1) [OF o(3-5) refl o(1) refl o(2) refl x] opt_ok_field ok o by blast
      with v show ?thesis by simp
    qed
    ultimately show ?thesis
      using picked_ok [OF ok(1,2,5), of "ref_fields w (only_object b) cf nf"]
      by (simp del: doc_ok.simps fits.simps)
  next
    case False
    show ?thesis
      using 1(2,3) False
      by (subst merge_ref.simps) (auto split: option.splits jvalue.splits intro!: mergeSets_ok)
  qed
qed

section \<open>What a format promises\<close>

text \<open>The base a document merge is made against.\<close>

definition parsed_base :: "'n doc_format \<Rightarrow> merge_input \<Rightarrow> 'n jvalue option" where
  "parsed_base f inp =
     (case mi_base inp of Inr (Some b) \<Rightarrow> (case f_parse f b of Inl _ \<Rightarrow> None | Inr v \<Rightarrow> Some v) | _ \<Rightarrow> None)"

text \<open>A format whose documents survive merging and writing: the values it parses are of a kind
  that merges keep, and what it writes of them it parses back.\<close>

locale written_format =
  fixes f :: "'n doc_format" and ok :: "'n jvalue \<Rightarrow> bool"
  assumes parse_ok: "f_parse f data = Inr v \<Longrightarrow> ok v"
    and ok_wf: "ok v \<Longrightarrow> wf_value v"
    and merge_ok: "ok c \<Longrightarrow> ok i \<Longrightarrow> merge_ref w b (Some c) (Some i) = Some v \<Longrightarrow> ok v"
    and render_back: "ok v \<Longrightarrow> \<exists>out. f_render f v like cur = Inr out \<and> f_parse f out = Inr v"
begin

lemma merge_changed_content:
  assumes m: "mr_decision (merge_changed f inp e d cur inc base) = Merged" and ok: "ok cur" "ok inc"
  shows "\<exists>v. merge_ref (newer (v_entry (mi_incoming inp)) e) base (Some cur) (Some inc) = Some v \<and>
    f_parse f (mr_content (merge_changed f inp e d cur inc base)) = Inr v"
proof -
  let ?w = "newer (v_entry (mi_incoming inp)) e"
  have mm: "merger3_merge \<lparr>incomingWins = ?w, conflicts = []\<rparr> base (Some cur) (Some inc) [] =
      (merge_ref ?w base (Some cur) (Some inc), \<lparr>incomingWins = ?w, conflicts = conflict_ref base (Some cur) (Some inc) []\<rparr>)"
    using merger3_refines(1) [of "Some cur" "Some inc"] ok ok_wf by simp
  obtain v where v: "merge_ref ?w base (Some cur) (Some inc) = Some v" using merge_ref_both [of "Some cur" "Some inc" ?w base] by auto
  with render_back [OF merge_ok [OF ok v], of d cur] obtain out where
    out: "f_render f v d cur = Inr out" "f_parse f out = Inr v" by blast
  show ?thesis
    using m v out by (simp add: merge_changed_def mm Let_def split: if_splits)
qed

lemma merged_reads_back:
  assumes "mergeDocument f inp = Inr r" "mr_decision r = Merged"
  shows "\<exists>cv cd cur data inc v. mi_current inp = Some cv \<and> Content cv = Inr cd \<and> f_parse f cd = Inr cur \<and>
    Content (mi_incoming inp) = Inr data \<and> f_parse f data = Inr inc \<and>
    merge_ref (newer (v_entry (mi_incoming inp)) (v_entry cv)) (parsed_base f inp) (Some cur) (Some inc) = Some v \<and>
    f_parse f (mr_content r) = Inr v"
proof -
  from assms obtain data inc cv where d: "Content (mi_incoming inp) = Inr data" "f_parse f data = Inr inc"
    "mi_current inp = Some cv" "merge_current f inp cv inc = Inr r"
    by (auto simp: mergeDocument_def current_file_Some split: if_splits sum.splits option.splits)
  from d(4) assms(2) obtain cd cur where c: "Content cv = Inr cd" "f_parse f cd = Inr cur"
    "r = merge_changed f inp (v_entry cv) cd cur inc (parsed_base f inp)"
    by (auto simp: merge_current_def parsed_base_def Let_def split: if_splits sum.splits option.splits)
  with merge_changed_content [OF _ parse_ok [OF c(2)] parse_ok [OF d(2)]] assms(2) d show ?thesis by blast
qed

end

interpretation json: written_format jsonFormat "\<lambda>v. doc_ok v \<and> fits max_depth v"
proof (unfold_locales, goal_cases)
  case (1 data v)
  then show ?case using parseJSON_ok [of data v] by (auto simp: jsonFormat_def split: option.splits)
next
  case (2 v)
  then show ?case using doc_ok_wf by blast
next
  case (3 c i w b v)
  then show ?case using merge_ref_keeps [of max_depth "Some c" "Some i" w b] by simp
next
  case (4 v like cur)
  then show ?case using render_parses [of v like cur] by (auto simp: jsonFormat_def)
qed

section \<open>Properties\<close>

text \<open>C21: what the JSON format writes reads back. A document parsed from any file, written in the
  layout of any other (its indent, its last newline), is valid JSON that parses to the same
  document, with every token spelt as it was.\<close>

theorem json_round_trip:
  assumes "parseJSON data = Some (Inr v)"
  shows "\<exists>out. json_render v like cur = Inr out \<and> parseJSON out = Some (Inr v)"
  using parseJSON_ok [OF assms] render_parses by blast

text \<open>C20: when json3 decides to write a merged file, the file is valid JSON and parses to the
  three-way merge of the current and the incoming copy against their base: nothing is lost or
  changed in the writing.\<close>

theorem json3_writes_the_merge:
  assumes "m_merge JSON3_merger inp = Inr r" "mr_decision r = Merged"
  shows "\<exists>cv cd cur data inc v m. mi_current inp = Some cv \<and> Content cv = Inr cd \<and> parseJSON cd = Some (Inr cur) \<and>
    Content (mi_incoming inp) = Inr data \<and> parseJSON data = Some (Inr inc) \<and>
    merger3_merge \<lparr>incomingWins = newer (v_entry (mi_incoming inp)) (v_entry cv), conflicts = []\<rparr>
      (case mi_base inp of Inr (Some b) \<Rightarrow> (case parseJSON b of Some (Inr bv) \<Rightarrow> Some bv | _ \<Rightarrow> None) | _ \<Rightarrow> None)
      (Some cur) (Some inc) [] = (Some v, m) \<and>
    parseJSON (mr_content r) = Some (Inr v)"
proof -
  have parse: "f_parse jsonFormat d = Inr x \<longleftrightarrow> parseJSON d = Some (Inr x)" for d x
    using parseJSON_total [of d] by (auto simp: jsonFormat_def)
  have base: "parsed_base jsonFormat inp =
      (case mi_base inp of Inr (Some b) \<Rightarrow> (case parseJSON b of Some (Inr bv) \<Rightarrow> Some bv | _ \<Rightarrow> None) | _ \<Rightarrow> None)"
    using parseJSON_total by (auto simp: parsed_base_def jsonFormat_def split: sum.split option.split)
  obtain cv cd cur data inc v where h: "mi_current inp = Some cv" "Content cv = Inr cd" "parseJSON cd = Some (Inr cur)"
    "Content (mi_incoming inp) = Inr data" "parseJSON data = Some (Inr inc)"
    "merge_ref (newer (v_entry (mi_incoming inp)) (v_entry cv)) (parsed_base jsonFormat inp) (Some cur) (Some inc) = Some v"
    "parseJSON (mr_content r) = Some (Inr v)"
    using json.merged_reads_back [of inp r] assms unfolding JSON3_merger_def document_merger_def parse by auto
  have "wf_opt (Some cur)" "wf_opt (Some inc)" using parseJSON_ok doc_ok_wf h(3,5) by auto
  from merger3_refines(1) [OF this] h base show ?thesis by fastforce
qed

text \<open>Witnesses: two settings files of one key each, changed at once, with no base.\<close>

definition one_key :: "char \<Rightarrow> string \<Rightarrow> string" where
  "one_key k tok = [CHR ''{'', CHR 0x22, k, CHR 0x22, CHR '':''] @ tok @ ''}''"

definition key_field :: "char \<Rightarrow> string \<Rightarrow> unit fields" where
  "key_field k tok = [([k], [CHR 0x22, k, CHR 0x22], JScalar tok () (''l'' @ tok))]"

lemma one_key_parses:
  "parseJSON (one_key CHR ''a'' ''true'') = Some (Inr (JObject (key_field CHR ''a'' ''true'')))"
  "parseJSON (one_key CHR ''b'' ''null'') = Some (Inr (JObject (key_field CHR ''b'' ''null'')))"
  by code_simp+

theorem json_round_trip_witness:
  "\<exists>out. json_render (JObject (key_field CHR ''a'' ''true'')) [CHR ''{'', CHR 0x0A, CHR 0x09, CHR ''}'', CHR 0x0A]
     (JObject []) = Inr out \<and> parseJSON out = Some (Inr (JObject (key_field CHR ''a'' ''true'')))"
  by (rule json_round_trip [OF one_key_parses(1)])

definition settings_entry :: "int \<Rightarrow> entry" where
  "settings_entry t = \<lparr>e_kind = File, e_mode = 420, e_size = 10, e_mtime = t, e_hash = replicate 64 CHR ''0'',
     e_target = [], e_grew = []\<rparr>"

definition settings_input :: merge_input where
  "settings_input = \<lparr>mi_root = ''.claude'', mi_path = ''settings.json'',
     mi_side = \<lparr>s_id = ''host'', s_location = ''host'', s_loginsOnly = False\<rparr>, mi_fast = False, mi_baseRev = 1,
     mi_current = Some \<lparr>v_entry = settings_entry 1, v_rev = 3, v_side = ''pod'', v_open = Some (Inr (one_key CHR ''a'' ''true''))\<rparr>,
     mi_incoming = \<lparr>v_entry = settings_entry 2, v_rev = 0, v_side = ''host'', v_open = Some (Inr (one_key CHR ''b'' ''null''))\<rparr>,
     mi_base = Inr None\<rparr>"

lemma settings_merge_steps:
  fixes cf nf :: "unit fields"
  defines "cf \<equiv> key_field CHR ''a'' ''true''" and "nf \<equiv> key_field CHR ''b'' ''null''"
  shows "fst (merger3_merge \<lparr>incomingWins = w, conflicts = []\<rparr> None (Some (JObject cf)) (Some (JObject nf)) []) =
      Some (JObject (cf @ nf))"
    "\<not> same_value (Some (JObject (cf @ nf))) (Some (JObject cf))"
    "\<not> same_value (Some (JObject (cf @ nf))) (Some (JObject nf))"
    "\<exists>out. json_render (JObject (cf @ nf)) like cur = Inr out"
proof -
  have "fst (merger3_merge \<lparr>incomingWins = x, conflicts = []\<rparr> None (Some (JObject (key_field CHR ''a'' ''true'')))
      (Some (JObject (key_field CHR ''b'' ''null''))) []) =
      Some (JObject (key_field CHR ''a'' ''true'' @ key_field CHR ''b'' ''null''))" for x
    by (cases x; code_simp)
  then show "fst (merger3_merge \<lparr>incomingWins = w, conflicts = []\<rparr> None (Some (JObject cf)) (Some (JObject nf)) []) =
      Some (JObject (cf @ nf))" by (simp add: cf_def nf_def)
  show "\<not> same_value (Some (JObject (cf @ nf))) (Some (JObject cf))"
    "\<not> same_value (Some (JObject (cf @ nf))) (Some (JObject nf))"
    unfolding cf_def nf_def by code_simp+
  have "doc_ok (JObject (key_field CHR ''a'' ''true'' @ key_field CHR ''b'' ''null''))" by code_simp
  moreover have "fits max_depth (JObject (cf @ nf))" by (simp add: max_depth_def cf_def nf_def key_field_def)
  ultimately show "\<exists>out. json_render (JObject (cf @ nf)) like cur = Inr out"
    using render_parses unfolding cf_def nf_def by blast
qed

lemma settings_merge:
  "\<exists>r. m_merge JSON3_merger settings_input = Inr r \<and> mr_decision r = Merged"
proof -
  have c: "Content \<lparr>v_entry = settings_entry t, v_rev = n, v_side = sd, v_open = Some (Inr (one_key k tok))\<rparr> =
      Inr (one_key k tok)" if "length tok = 4" for t n sd k tok
    using that by (simp add: Content_def settings_entry_def MaxMergeSize_def one_key_def)
  obtain m where m: "merger3_merge \<lparr>incomingWins = newer (settings_entry 2) (settings_entry 1), conflicts = []\<rparr> None
      (Some (JObject (key_field CHR ''a'' ''true''))) (Some (JObject (key_field CHR ''b'' ''null''))) [] =
      (Some (JObject (key_field CHR ''a'' ''true'' @ key_field CHR ''b'' ''null'')), m)"
    using settings_merge_steps(1) by (metis prod.collapse)
  obtain out where out: "json_render (JObject (key_field CHR ''a'' ''true'' @ key_field CHR ''b'' ''null''))
      (one_key CHR ''a'' ''true'') (JObject (key_field CHR ''a'' ''true'')) = Inr out"
    using settings_merge_steps(4) by blast
  show ?thesis
    using c [of "''true''"] c [of "''null''"] one_key_parses m out settings_merge_steps(2,3)
    by (simp add: JSON3_merger_def document_merger_def mergeDocument_def merge_current_def merge_changed_def
        current_file_def jsonFormat_def settings_input_def settings_entry_def isEmptyObject_def key_field_def Let_def)
qed

theorem json3_writes_the_merge_witness:
  "\<exists>r v. m_merge JSON3_merger settings_input = Inr r \<and> parseJSON (mr_content r) = Some (Inr v)"
  using json3_writes_the_merge settings_merge by blast

end
