(* ===== verification/PodRing.thy ===== *)
theory PodRing
  imports Prelude
begin

text \<open>
  \<open>internal/podwire/ring.go\<close>: the unacknowledged tail of a byte stream. Offsets are 64-bit counts of
  the bytes of a stream and are modelled as integers. The slice \<open>buf\<close> keeps bytes that were dropped
  at its front (\<open>off\<close>) until an append moves the rest down. The ring refines the pair of an offset
  and the bytes after it.
\<close>

record ring =
  r_base :: int
  r_buf :: string
  r_off :: nat

definition ring_empty :: ring where
  "ring_empty = \<lparr>r_base = 0, r_buf = [], r_off = 0\<rparr>"

definition ring_Base :: "ring \<Rightarrow> int" where
  "ring_Base r = r_base r"

definition ring_End :: "ring \<Rightarrow> int" where
  "ring_End r = r_base r + (int (length (r_buf r)) - int (r_off r))"

definition ring_Len :: "ring \<Rightarrow> int" where
  "ring_Len r = int (length (r_buf r)) - int (r_off r)"

definition ring_Append :: "string \<Rightarrow> ring \<Rightarrow> ring" where
  "ring_Append p r =
     (let r' = (if r_off r > 0 \<and> r_off r \<ge> length (r_buf r) div 2
                then r\<lparr>r_buf := drop (r_off r) (r_buf r), r_off := 0\<rparr> else r)
      in r'\<lparr>r_buf := r_buf r' @ p\<rparr>)"

definition ring_Trim :: "int \<Rightarrow> ring \<Rightarrow> ring" where
  "ring_Trim to r =
     (if to \<le> r_base r then r
      else if to \<ge> ring_End r then r\<lparr>r_base := ring_End r, r_buf := [], r_off := 0\<rparr>
      else r\<lparr>r_off := r_off r + nat (to - r_base r), r_base := to\<rparr>)"

definition ring_From :: "int \<Rightarrow> ring \<Rightarrow> string option" where
  "ring_From off r =
     (if off < r_base r \<or> off > ring_End r then None
      else Some (drop (r_off r + nat (off - r_base r)) (r_buf r)))"

section \<open>The tail of a stream\<close>

text \<open>A ring keeps the stream \<open>s\<close> from its base on: what was appended to it so far, less what was
  acknowledged.\<close>

definition keeps_tail :: "ring \<Rightarrow> string \<Rightarrow> bool" where
  "keeps_tail r s \<longleftrightarrow> r_off r \<le> length (r_buf r) \<and> 0 \<le> r_base r \<and> r_base r \<le> int (length s) \<and>
     drop (r_off r) (r_buf r) = drop (nat (r_base r)) s"

lemma keeps_tail_empty: "keeps_tail ring_empty []"
  by (simp add: keeps_tail_def ring_empty_def)

lemma keeps_tail_End: "keeps_tail r s \<Longrightarrow> ring_End r = int (length s)"
proof -
  assume k: "keeps_tail r s"
  then have "length (r_buf r) - r_off r = length s - nat (r_base r)"
    by (metis keeps_tail_def length_drop)
  with k show ?thesis by (auto simp: keeps_tail_def ring_End_def)
qed

lemma keeps_tail_Len: "keeps_tail r s \<Longrightarrow> ring_Len r = int (length s) - r_base r"
  using keeps_tail_End [of r s] by (simp add: ring_Len_def ring_End_def)

lemma Append_keeps: "keeps_tail r s \<Longrightarrow> keeps_tail (ring_Append p r) (s @ p)"
  by (auto simp: keeps_tail_def ring_Append_def Let_def)

lemma Append_base [simp]: "r_base (ring_Append p r) = r_base r"
  by (simp add: ring_Append_def Let_def)

lemma Trim_base:
  "keeps_tail r s \<Longrightarrow> r_base (ring_Trim to r) = max (r_base r) (min to (int (length s)))"
  using keeps_tail_End [of r s] by (auto simp: ring_Trim_def keeps_tail_def)

lemma keeps_tail_drop:
  assumes k: "keeps_tail r s" and x: "r_base r \<le> x"
  shows "drop (r_off r + nat (x - r_base r)) (r_buf r) = drop (nat x) s"
proof -
  have "drop (r_off r + nat (x - r_base r)) (r_buf r) = drop (nat (x - r_base r)) (drop (r_off r) (r_buf r))"
    by (simp add: add.commute)
  also have "\<dots> = drop (nat x) s" using k x by (simp add: keeps_tail_def nat_diff_distrib)
  finally show ?thesis .
qed

lemma Trim_keeps:
  assumes k: "keeps_tail r s"
  shows "keeps_tail (ring_Trim to r) s"
proof (cases "to \<le> r_base r \<or> to \<ge> ring_End r")
  case True
  with k keeps_tail_End [OF k] show ?thesis by (auto simp: keeps_tail_def ring_Trim_def)
next
  case False
  then have "r_off r + nat (to - r_base r) \<le> length (r_buf r)" by (simp add: ring_End_def) linarith
  with False k keeps_tail_End [OF k] keeps_tail_drop [OF k, of to] show ?thesis
    by (simp add: keeps_tail_def ring_Trim_def)
qed

lemma From_tail:
  assumes k: "keeps_tail r s"
  shows "ring_From off r = (if r_base r \<le> off \<and> off \<le> int (length s) then Some (drop (nat off) s) else None)"
  using keeps_tail_End [OF k] keeps_tail_drop [OF k, of off] by (auto simp: ring_From_def)

section \<open>What a resumable stream relies on\<close>

text \<open>The contract of a buffer that holds the unacknowledged tail of a stream: \<open>keeps r s\<close> is that \<open>r\<close> has
  the stream \<open>s\<close> from its base on.\<close>

locale held_stream =
  fixes keeps :: "'r \<Rightarrow> string \<Rightarrow> bool" and base :: "'r \<Rightarrow> int"
    and produce :: "string \<Rightarrow> 'r \<Rightarrow> 'r" and acknowledge :: "int \<Rightarrow> 'r \<Rightarrow> 'r" and replay_from :: "int \<Rightarrow> 'r \<Rightarrow> string option"
  assumes keeps_produce: "keeps r s \<Longrightarrow> keeps (produce p r) (s @ p)"
    and base_produce: "base (produce p r) = base r"
    and keeps_acknowledge: "keeps r s \<Longrightarrow> keeps (acknowledge to r) s"
    and base_acknowledge: "keeps r s \<Longrightarrow> base (acknowledge to r) = max (base r) (min to (int (length s)))"
    and replays: "keeps r s \<Longrightarrow> replay_from off r = (if base r \<le> off \<and> off \<le> int (length s) then Some (drop (nat off) s) else None)"
begin

text \<open>A receiver that has the stream up to \<open>off\<close> is sent exactly what it lacks.\<close>

lemma resends: "keeps r s \<Longrightarrow> base r \<le> off \<Longrightarrow> off \<le> int (length s) \<Longrightarrow> replay_from off r = Some (drop (nat off) s)"
  by (simp add: replays)

text \<open>An acknowledgement of no more than the receiver has never takes away what it lacks.\<close>

lemma acknowledge_within: "keeps r s \<Longrightarrow> base r \<le> off \<Longrightarrow> to \<le> off \<Longrightarrow> base (acknowledge to r) \<le> off"
  by (simp add: base_acknowledge min.coboundedI1)

lemma replay_known: "keeps r s \<Longrightarrow> replay_from off r \<noteq> None \<Longrightarrow> base r \<le> off \<and> off \<le> int (length s)"
  by (simp add: replays split: if_splits)

end

interpretation ring: held_stream keeps_tail r_base ring_Append ring_Trim ring_From
  by unfold_locales (simp_all add: Append_keeps Trim_keeps Trim_base From_tail)

end
