(* ===== verification/ExecClient.thy ===== *)
theory ExecClient
  imports PodRing
begin

text \<open>
  The client of a command run by a pod agent (\<open>internal/podwire/client_exec.go\<close>, \<open>pipe.go\<close>,
  \<open>messages.go\<close>, \<open>limits.go\<close>). Each function is what the code does under the command's lock; the frames
  it then writes are part of its result. A transport has a number of its own, which stands for the
  code's generation of an attachment. Payloads are the messages the JSON of a frame stands for.
\<close>

section \<open>Limits and messages\<close>

definition HoldBuffer :: nat where "HoldBuffer = 1048576"
definition AckEvery :: nat where "AckEvery = 262144"
definition DataChunk :: nat where "DataChunk = 32768"
definition MaxFrame :: nat where "MaxFrame = 1048576"
definition pipeBuffer :: nat where "pipeBuffer = 262144"

record exit_status =
  st_code :: int
  st_signal :: string
  st_error :: string

record resume_reply =
  rr_stdin :: int
  rr_stdout :: int
  rr_stderr :: int

record ping =
  pg_stdin :: int
  pg_stdout :: int
  pg_stderr :: int

datatype frame =
    FData string
  | FStderr string
  | FEOF
  | FResize int int
  | FSignal string
  | FExit "exit_status option"
  | FOpenGone
  | FOpenError string
  | FPing ping
  | FResume resume_reply
  | FAbort

datatype exec_error = ErrConnectionLost | ErrHeldStreamGone | ErrResumeInput | ErrStatus string | ErrFailed string

text \<open>\<open>WriteData\<close>: as many frames as it takes, none of them empty or over the chunk.\<close>

function WriteData :: "(string \<Rightarrow> frame) \<Rightarrow> string \<Rightarrow> frame list" where
  "WriteData t p = (if p = [] then [] else t (take DataChunk p) # WriteData t (drop DataChunk p))"
  by auto
termination by (relation "measure (\<lambda>(t, p). length p)") (auto simp: DataChunk_def)

declare WriteData.simps [simp del]

section \<open>The pipe\<close>

text \<open>\<open>pipe\<close>: \<open>pp_end\<close> is the writer's end (what a read returns once the buffer is drained, \<open>None\<close>
  while it is open), \<open>pp_closed\<close> the reader's. A write or read that would wait does not happen.\<close>

record pipe =
  pp_buf :: string
  pp_max :: nat
  pp_end :: "exec_error option option"
  pp_closed :: bool

definition newPipe :: "nat \<Rightarrow> pipe" where
  "newPipe mx = \<lparr>pp_buf = [], pp_max = mx, pp_end = None, pp_closed = False\<rparr>"

text \<open>One round of the loop of \<open>Write\<close>: what is left to write, or that it returned.\<close>

definition pipe_waits :: "pipe \<Rightarrow> bool" where
  "pipe_waits pp \<longleftrightarrow> length (pp_buf pp) \<ge> pp_max pp \<and> \<not> pp_closed pp \<and> pp_end pp = None"

definition pipe_Write :: "string \<Rightarrow> pipe \<Rightarrow> string \<times> pipe" where
  "pipe_Write b pp =
     (if pp_closed pp \<or> pp_end pp \<noteq> None then ([], pp)
      else let n = min (length b) (pp_max pp - length (pp_buf pp))
           in (drop n b, pp\<lparr>pp_buf := pp_buf pp @ take n b\<rparr>))"

definition pipe_Read :: "nat \<Rightarrow> pipe \<Rightarrow> string \<times> pipe" where
  "pipe_Read n pp =
     (if pp_closed pp then ([], pp) else (take n (pp_buf pp), pp\<lparr>pp_buf := drop n (pp_buf pp)\<rparr>))"

definition closeWrite :: "exec_error option \<Rightarrow> pipe \<Rightarrow> pipe" where
  "closeWrite err pp = (if pp_end pp = None then pp\<lparr>pp_end := Some err\<rparr> else pp)"

definition closeRead :: "pipe \<Rightarrow> pipe" where
  "closeRead pp = pp\<lparr>pp_closed := True, pp_buf := []\<rparr>"

section \<open>The command\<close>

record exec =
  e_resumable :: bool
  e_tty :: bool
  e_stdout :: pipe
  e_stderr :: pipe
  e_conn :: bool
  e_gen :: nat
  e_outOff :: int
  e_errOff :: int
  e_ackOut :: int
  e_ackErr :: int
  e_in :: ring
  e_inEnd :: int
  e_inAcked :: int
  e_inEOF :: bool
  e_size :: "(int \<times> int) option"
  e_exited :: bool
  e_status :: "exit_status option"
  e_err :: "exec_error option"
  e_closed :: bool
  e_detached :: bool

definition newExec :: "bool \<Rightarrow> bool \<Rightarrow> int \<Rightarrow> int \<Rightarrow> exec" where
  "newExec resumable tty rows cols =
     \<lparr>e_resumable = resumable, e_tty = tty, e_stdout = newPipe pipeBuffer, e_stderr = newPipe pipeBuffer,
      e_conn = False, e_gen = 0, e_outOff = 0, e_errOff = 0, e_ackOut = 0, e_ackErr = 0,
      e_in = ring_empty, e_inEnd = 0, e_inAcked = 0, e_inEOF = False,
      e_size = (if tty then Some (rows, cols) else None), e_exited = False, e_status = None, e_err = None,
      e_closed = False, e_detached = False\<rparr>"

text \<open>\<open>finish\<close>: the first end wins.\<close>

definition exec_finish :: "exit_status \<Rightarrow> exec_error option \<Rightarrow> exec \<Rightarrow> exec" where
  "exec_finish st err e =
     (if e_exited e then e
      else e\<lparr>e_exited := True, e_status := Some st, e_err := err, e_conn := False,
             e_stdout := closeWrite err (e_stdout e), e_stderr := closeWrite err (e_stderr e)\<rparr>)"

definition no_status :: exit_status where
  "no_status = \<lparr>st_code = -1, st_signal = [], st_error = []\<rparr>"

text \<open>\<open>attach\<close> over transport \<open>t\<close>: the frames it writes there.\<close>

definition exec_attach :: "nat \<Rightarrow> resume_reply option \<Rightarrow> exec \<Rightarrow> exec \<times> frame list" where
  "exec_attach t resumed e =
     (if e_exited e then (e, [FAbort])
      else case (case resumed of None \<Rightarrow> Some []
                 | Some rep \<Rightarrow> ring_From (rr_stdin rep) (e_in e)) of
        None \<Rightarrow> (exec_finish no_status (Some ErrResumeInput) e, [])
      | Some resend \<Rightarrow>
          (e\<lparr>e_in := (case resumed of None \<Rightarrow> e_in e | Some rep \<Rightarrow> ring_Trim (rr_stdin rep) (e_in e)),
             e_gen := t, e_conn := True, e_detached := False\<rparr>,
           (if resumed = None then []
            else WriteData FData resend @ (if e_inEOF e then [FEOF] else []) @
              (case e_size e of None \<Rightarrow> []
               | Some (rows, cols) \<Rightarrow> if rows > 0 \<or> cols > 0 then [FResize rows cols] else []))
           @ (if e_closed e then [FAbort] else [])))"

text \<open>\<open>finishReattach\<close>, on the first frame of the transport.\<close>

definition exec_reattach :: "nat \<Rightarrow> frame \<Rightarrow> exec \<Rightarrow> exec \<times> frame list" where
  "exec_reattach t f e =
     (if \<not> e_resumable e then (e, [])
      else case f of
        FResume rep \<Rightarrow>
          if rr_stdout rep = e_outOff e \<and> rr_stderr rep = e_errOff e then exec_attach t (Some rep) e else (e, [])
      | FOpenGone \<Rightarrow> (exec_finish no_status (Some ErrHeldStreamGone) e, [])
      | _ \<Rightarrow> (e, []))"

text \<open>\<open>received\<close>: output counted, and acknowledged every \<open>AckEvery\<close> bytes.\<close>

definition exec_received :: "int \<Rightarrow> int \<Rightarrow> exec \<Rightarrow> exec \<times> frame list" where
  "exec_received out errOut e =
     (let e1 = e\<lparr>e_outOff := e_outOff e + out, e_errOff := e_errOff e + errOut\<rparr>
      in if e_resumable e1 \<and>
            (e_outOff e1 - e_ackOut e1 \<ge> int AckEvery \<or> e_errOff e1 - e_ackErr e1 \<ge> int AckEvery)
         then (e1\<lparr>e_ackOut := e_outOff e1, e_ackErr := e_errOff e1\<rparr>,
               [FPing \<lparr>pg_stdin = 0, pg_stdout = e_outOff e1, pg_stderr = e_errOff e1\<rparr>])
         else (e1, []))"

text \<open>A PING and an EXIT of the agent.\<close>

definition exec_ping :: "ping \<Rightarrow> exec \<Rightarrow> exec" where
  "exec_ping p e =
     (if pg_stdin p > 0
      then e\<lparr>e_inAcked := max (e_inAcked e) (pg_stdin p), e_in := ring_Trim (pg_stdin p) (e_in e)\<rparr> else e)"

definition exec_exit :: "exit_status \<Rightarrow> exec \<Rightarrow> exec \<times> frame list" where
  "exec_exit st e =
     (exec_finish st (if st_error st \<noteq> [] then Some (ErrStatus (st_error st)) else None) e,
      if e_resumable e then [FExit None] else [])"

text \<open>\<open>lost\<close>: the end of an attachment without EXIT.\<close>

definition exec_lost :: "nat \<Rightarrow> exec \<Rightarrow> exec" where
  "exec_lost t e =
     (if t \<noteq> e_gen e \<or> e_exited e \<or> \<not> e_conn e then e
      else let e1 = e\<lparr>e_conn := False\<rparr>
           in if e_resumable e1 \<and> \<not> e_closed e1 then e1\<lparr>e_detached := True\<rparr>
              else exec_finish no_status (Some ErrConnectionLost) e1)"

text \<open>A tick of the heartbeat: \<open>silent\<close> is that no frame came for too long.\<close>

definition exec_tick :: "bool \<Rightarrow> nat \<Rightarrow> exec \<Rightarrow> exec \<times> frame list" where
  "exec_tick silent t e =
     (if e_gen e \<noteq> t \<or> \<not> e_conn e then (e, [])
      else let e1 = (if e_resumable e then e\<lparr>e_ackOut := e_outOff e, e_ackErr := e_errOff e\<rparr> else e);
               p = (if e_resumable e then \<lparr>pg_stdin = 0, pg_stdout = e_outOff e, pg_stderr = e_errOff e\<rparr>
                    else \<lparr>pg_stdin = 0, pg_stdout = 0, pg_stderr = 0\<rparr>)
           in if silent then (exec_lost t e1, []) else (e1, [FPing p]))"

text \<open>\<open>Fail\<close>: without an error of the caller's it is the lost connection.\<close>

definition exec_Fail :: "exec_error option \<Rightarrow> exec \<Rightarrow> exec" where
  "exec_Fail err e = exec_finish no_status (Some (case err of None \<Rightarrow> ErrConnectionLost | Some er \<Rightarrow> er)) e"

text \<open>\<open>Close\<close>: aborts the command.\<close>

definition exec_Close :: "exec \<Rightarrow> exec \<times> frame list" where
  "exec_Close e =
     (if e_exited e \<or> e_closed e then (e, [])
      else let e1 = e\<lparr>e_closed := True, e_stdout := closeRead (e_stdout e), e_stderr := closeRead (e_stderr e)\<rparr>
           in if \<not> e_conn e1 then (exec_finish \<lparr>st_code = -1, st_signal = ''KILL'', st_error = []\<rparr> None e1, [])
              else (e1, [FAbort]))"

text \<open>One round of stdin's \<open>Write\<close>: how much of \<open>p\<close> it took, or \<open>None\<close> when stdin is closed. The code
  waits for room in the window in a section of its own, so another writer may have filled it by then;
  the round then takes nothing. Its \<open>Close\<close>.\<close>

definition stdin_Write :: "string \<Rightarrow> exec \<Rightarrow> (nat \<times> exec \<times> frame list) option" where
  "stdin_Write p e =
     (if e_exited e \<or> e_closed e \<or> e_inEOF e then None
      else let n = min (length p) (nat (int HoldBuffer - (e_inEnd e - e_inAcked e)))
           in Some (n,
             e\<lparr>e_in := (if e_resumable e then ring_Append (take n p) (e_in e) else e_in e),
               e_inEnd := e_inEnd e + int n\<rparr>,
             if e_conn e then WriteData FData (take n p) else []))"

definition stdin_Close :: "exec \<Rightarrow> exec \<times> frame list" where
  "stdin_Close e =
     (if e_tty e \<or> e_exited e \<or> e_closed e \<or> e_inEOF e then (e, [])
      else (e\<lparr>e_inEOF := True\<rparr>, if e_conn e then [FEOF] else []))"

definition exec_Resize :: "int \<Rightarrow> int \<Rightarrow> exec \<Rightarrow> exec \<times> frame list" where
  "exec_Resize rows cols e =
     (if \<not> e_tty e then (e, [])
      else (e\<lparr>e_size := Some (rows, cols)\<rparr>, if e_conn e then [FResize rows cols] else []))"

definition exec_Signal :: "string \<Rightarrow> exec \<Rightarrow> (exec_error, frame list) sum" where
  "exec_Signal sg e = (if e_conn e then Inr [FSignal sg] else Inl ErrConnectionLost)"

definition exec_Wait :: "exec \<Rightarrow> (exec_error, int) sum option" where
  "exec_Wait e =
     (if \<not> e_exited e then None
      else case (e_err e, e_status e) of
        (Some err, _) \<Rightarrow> Some (Inl err)
      | (None, Some st) \<Rightarrow> Some (Inr (if st_signal st \<noteq> [] then -1 else st_code st))
      | (None, None) \<Rightarrow> None)"

end
