(* ===== verification/ExecAgent.thy ===== *)
theory ExecAgent
  imports ExecClient
begin

text \<open>
  A command on the agent's side (\<open>internal/podagent/proc_linux.go\<close>): its output is kept in rings until
  it is acknowledged, its input queued until the command takes it, and it serves one attachment at a
  time. Each function is what the code does under the command's lock. An attachment is known by the
  number of its transport; \<open>a_hand\<close> is how far its sender is: what it picked under the lock, and
  that it wrote it.
\<close>

datatype picked_output = Idle
  | Picked string string "ping option" "exit_status option"
  | Written string string bool

record attachment =
  a_sentOut :: int
  a_sentErr :: int
  a_exitSent :: bool
  a_gone :: bool
  a_hand :: picked_output

record proc =
  p_resumable :: bool
  p_out :: ring
  p_errOut :: ring
  p_outDone :: bool
  p_errDone :: bool
  p_exited :: bool
  p_status :: exit_status
  p_aborted :: bool
  p_dropOutput :: bool
  p_inQueue :: string
  p_inEOF :: bool
  p_inClosed :: bool
  p_inRecv :: int
  p_inOff :: int
  p_inAcked :: int
  p_att :: "nat option"
  p_attached :: bool
  p_finished :: bool
  p_atts :: "nat \<Rightarrow> attachment"

definition no_attachment :: attachment where
  "no_attachment = \<lparr>a_sentOut = 0, a_sentErr = 0, a_exitSent = False, a_gone = False, a_hand = Idle\<rparr>"

definition startProc :: "bool \<Rightarrow> bool \<Rightarrow> proc" where
  "startProc tty resumable =
     \<lparr>p_resumable = resumable, p_out = ring_empty, p_errOut = ring_empty, p_outDone = False, p_errDone = tty,
      p_exited = False, p_status = no_status, p_aborted = False, p_dropOutput = False, p_inQueue = [],
      p_inEOF = False, p_inClosed = False, p_inRecv = 0, p_inOff = 0, p_inAcked = 0, p_att = None,
      p_attached = False, p_finished = False, p_atts = (\<lambda>_. no_attachment)\<rparr>"

definition set_att :: "nat \<Rightarrow> (attachment \<Rightarrow> attachment) \<Rightarrow> proc \<Rightarrow> proc" where
  "set_att t f p = p\<lparr>p_atts := (p_atts p)(t := f (p_atts p t))\<rparr>"

section \<open>Output and input of the command\<close>

text \<open>\<open>pump\<close> of stdout (\<open>err\<close> false) or stderr.\<close>

definition pump_waits :: "bool \<Rightarrow> proc \<Rightarrow> bool" where
  "pump_waits err p \<longleftrightarrow> ring_Len (if err then p_errOut p else p_out p) \<ge> int HoldBuffer \<and> \<not> p_dropOutput p"

definition pump :: "bool \<Rightarrow> string \<Rightarrow> proc \<Rightarrow> proc" where
  "pump err b p =
     (if p_dropOutput p then p
      else if err then p\<lparr>p_errOut := ring_Append b (p_errOut p)\<rparr>
      else p\<lparr>p_out := ring_Append b (p_out p)\<rparr>)"

definition pump_end :: "bool \<Rightarrow> proc \<Rightarrow> proc" where
  "pump_end err p = (if err then p\<lparr>p_errDone := True\<rparr> else p\<lparr>p_outDone := True\<rparr>)"

text \<open>\<open>feedStdin\<close>: the end of stdin, and a write of the command's stdin that took \<open>n\<close> bytes of the
  chunk, the last one if it failed.\<close>

definition feed_ends :: "proc \<Rightarrow> bool" where
  "feed_ends p \<longleftrightarrow> p_exited p \<or> p_aborted p \<or> (p_inQueue p = [] \<and> p_inEOF p)"

definition close_input :: "proc \<Rightarrow> proc" where
  "close_input p = p\<lparr>p_inOff := p_inOff p + int (length (p_inQueue p)), p_inQueue := [], p_inClosed := True\<rparr>"

definition feed_chunk :: "proc \<Rightarrow> string" where
  "feed_chunk p = take (min (length (p_inQueue p)) DataChunk) (p_inQueue p)"

definition feedStdin :: "nat \<Rightarrow> bool \<Rightarrow> proc \<Rightarrow> proc" where
  "feedStdin n failed p =
     (let p1 = p\<lparr>p_inQueue := drop n (p_inQueue p), p_inOff := p_inOff p + int n\<rparr>
      in if failed then close_input p1 else p1)"

section \<open>Ending\<close>

definition proc_finish :: "proc \<Rightarrow> proc" where
  "proc_finish p =
     (if p_finished p then p
      else let p1 = p\<lparr>p_finished := True, p_dropOutput := True, p_att := None\<rparr>
           in case p_att p of None \<Rightarrow> p1 | Some t \<Rightarrow> set_att t (\<lambda>a. a\<lparr>a_gone := True\<rparr>) p1)"

definition proc_abort :: "proc \<Rightarrow> proc" where
  "proc_abort p = (if p_aborted p \<or> p_exited p then p else p\<lparr>p_aborted := True\<rparr>)"

text \<open>\<open>wait\<close>, once both outputs are drained.\<close>

definition proc_wait :: "exit_status \<Rightarrow> proc \<Rightarrow> proc" where
  "proc_wait st p =
     (let p1 = p\<lparr>p_exited := True, p_status := st\<rparr>
      in if p_att p1 = None \<and> p_attached p1 \<and> (\<not> p_resumable p1 \<or> p_aborted p1) then proc_finish p1 else p1)"

definition proc_lost :: "nat \<Rightarrow> proc \<Rightarrow> proc" where
  "proc_lost t p =
     (if a_gone (p_atts p t) then p
      else let p1 = (set_att t (\<lambda>a. a\<lparr>a_gone := True\<rparr>) p)\<lparr>p_att := None\<rparr>
           in if p_finished p1 then p1
              else if p_resumable p1 \<and> \<not> p_aborted p1 then p1
              else let p2 = p1\<lparr>p_dropOutput := True\<rparr>
                   in if p_exited p2 then proc_finish p2 else proc_abort p2)"

text \<open>\<open>giveUp\<close>, and its goroutine's end once the command has exited.\<close>

definition giveUp :: "proc \<Rightarrow> proc" where
  "giveUp p =
     (let ex = p_exited p \<and> p_att p = None;
          p1 = (proc_abort (p\<lparr>p_dropOutput := True\<rparr>))\<lparr>p_aborted := True\<rparr>
      in if ex then proc_finish p1 else p1)"

section \<open>Attachments\<close>

text \<open>\<open>attach\<close> from the offsets the client has; the RESUME it writes when it is a re-attach.\<close>

definition proc_attach :: "nat \<Rightarrow> int \<Rightarrow> int \<Rightarrow> proc \<Rightarrow> (string, proc \<times> resume_reply) sum" where
  "proc_attach t fromOut fromErr p =
     (if p_finished p then Inl ''the command has ended''
      else if ring_From fromOut (p_out p) = None then Inl ''stdout offset''
      else if ring_From fromErr (p_errOut p) = None then Inl ''stderr offset''
      else let p1 = (case p_att p of None \<Rightarrow> p | Some old \<Rightarrow> set_att old (\<lambda>a. a\<lparr>a_gone := True\<rparr>) p);
               p2 = p1\<lparr>p_inAcked := -1,
                       p_out := (if p_resumable p then ring_Trim fromOut (p_out p) else p_out p),
                       p_errOut := (if p_resumable p then ring_Trim fromErr (p_errOut p) else p_errOut p),
                       p_att := Some t, p_attached := True\<rparr>
           in Inr (set_att t (\<lambda>a. a\<lparr>a_sentOut := fromOut, a_sentErr := fromErr\<rparr>) p2,
                   \<lparr>rr_stdin = p_inRecv p, rr_stdout = fromOut, rr_stderr = fromErr\<rparr>))"

definition chunkFrom :: "ring \<Rightarrow> int \<Rightarrow> string" where
  "chunkFrom r off = (case ring_From off r of None \<Rightarrow> [] | Some data \<Rightarrow> take DataChunk data)"

definition ackDue :: "proc \<Rightarrow> bool" where
  "ackDue p \<longleftrightarrow> (p_inAcked p < 0 \<and> p_inOff p > 0) \<or> p_inOff p - p_inAcked p \<ge> int AckEvery"

definition exitReady :: "nat \<Rightarrow> proc \<Rightarrow> bool" where
  "exitReady t p \<longleftrightarrow> p_exited p \<and> p_outDone p \<and> p_errDone p \<and> \<not> a_exitSent (p_atts p t) \<and>
     a_sentOut (p_atts p t) = ring_End (p_out p) \<and> a_sentErr (p_atts p t) = ring_End (p_errOut p)"

definition hasWork :: "nat \<Rightarrow> proc \<Rightarrow> bool" where
  "hasWork t p \<longleftrightarrow> a_sentOut (p_atts p t) < ring_End (p_out p) \<or>
     a_sentErr (p_atts p t) < ring_End (p_errOut p) \<or> ackDue p \<or> exitReady t p"

text \<open>\<open>send\<close>: what it picks under the lock, the frames that makes, and what follows their write.\<close>

definition send_pick :: "nat \<Rightarrow> proc \<Rightarrow> proc" where
  "send_pick t p =
     (let out = chunkFrom (p_out p) (a_sentOut (p_atts p t));
          errOut = chunkFrom (p_errOut p) (a_sentErr (p_atts p t));
          ack = (if ackDue p then Some \<lparr>pg_stdin = p_inOff p, pg_stdout = 0, pg_stderr = 0\<rparr> else None);
          p1 = (if ackDue p then p\<lparr>p_inAcked := p_inOff p\<rparr> else p);
          sendExit = (out = [] \<and> errOut = [] \<and> exitReady t p)
      in set_att t (\<lambda>a. a\<lparr>a_exitSent := a_exitSent a \<or> sendExit,
                          a_hand := Picked out errOut ack (if sendExit then Some (p_status p) else None)\<rparr>) p1)"

fun picked_frames :: "picked_output \<Rightarrow> frame list" where
  "picked_frames (Picked out errOut ack st) =
     (if out = [] then [] else [FData out]) @ (if errOut = [] then [] else [FStderr errOut]) @
     (case ack of None \<Rightarrow> [] | Some a \<Rightarrow> [FPing a]) @ (case st of None \<Rightarrow> [] | Some s \<Rightarrow> [FExit (Some s)])"
| "picked_frames _ = []"

definition send_written :: "nat \<Rightarrow> proc \<Rightarrow> proc" where
  "send_written t p =
     (case a_hand (p_atts p t) of
        Picked out errOut ack st \<Rightarrow> set_att t (\<lambda>a. a\<lparr>a_hand := Written out errOut (st \<noteq> None)\<rparr>) p
      | _ \<Rightarrow> p)"

definition send_done :: "nat \<Rightarrow> proc \<Rightarrow> proc" where
  "send_done t p =
     (case a_hand (p_atts p t) of
        Written out errOut sentExit \<Rightarrow>
          (let p1 = set_att t (\<lambda>a. a\<lparr>a_sentOut := a_sentOut a + int (length out),
                                     a_sentErr := a_sentErr a + int (length errOut), a_hand := Idle\<rparr>) p;
               p2 = (if p_resumable p1 then p1
                     else p1\<lparr>p_out := ring_Trim (a_sentOut (p_atts p1 t)) (p_out p1),
                             p_errOut := ring_Trim (a_sentErr (p_atts p1 t)) (p_errOut p1)\<rparr>)
           in if sentExit \<and> \<not> p_resumable p2 then proc_finish p2 else p2)
      | _ \<Rightarrow> p)"

text \<open>A write that failed.\<close>

definition send_failed :: "nat \<Rightarrow> proc \<Rightarrow> proc" where
  "send_failed t p = proc_lost t (set_att t (\<lambda>a. a\<lparr>a_hand := Idle\<rparr>) p)"

text \<open>\<open>read\<close>: a frame of the client. \<open>breaks\<close> is the client that sends past its window or after EOF.\<close>

definition breaks :: "string \<Rightarrow> proc \<Rightarrow> bool" where
  "breaks b p \<longleftrightarrow> length (p_inQueue p) + length b > HoldBuffer + MaxFrame \<or> p_inEOF p"

definition proc_read :: "nat \<Rightarrow> frame \<Rightarrow> proc \<Rightarrow> proc" where
  "proc_read t f p =
     (case f of
        FData b \<Rightarrow>
          if breaks b p then proc_abort p
          else let p1 = (if p_inClosed p then p\<lparr>p_inOff := p_inOff p + int (length b)\<rparr>
                         else p\<lparr>p_inQueue := p_inQueue p @ b\<rparr>)
               in p1\<lparr>p_inRecv := p_inRecv p1 + int (length b)\<rparr>
      | FEOF \<Rightarrow> p\<lparr>p_inEOF := True\<rparr>
      | FAbort \<Rightarrow> proc_abort p
      | FPing pg \<Rightarrow>
          if p_resumable p
          then p\<lparr>p_out := ring_Trim (min (pg_stdout pg) (a_sentOut (p_atts p t))) (p_out p),
                 p_errOut := ring_Trim (min (pg_stderr pg) (a_sentErr (p_atts p t))) (p_errOut p)\<rparr>
          else p
      | FExit _ \<Rightarrow> if a_exitSent (p_atts p t) then proc_finish p else p
      | _ \<Rightarrow> p)"

end
