(* ===== verification/ExecRun.thy ===== *)
theory ExecRun
  imports ExecAgent
begin

text \<open>
  A client and the command it started, over transports that may be lost at any time. The state has
  both ends, the frames on their way on each transport, the frame each reader has in hand, and, for
  the properties only, the byte streams: what the command wrote and the agent kept (\<open>g_out\<close>,
  \<open>g_err\<close>), what the client handed to the reader of its output (\<open>g_dout\<close>, \<open>g_derr\<close>), what was typed
  (\<open>g_typed\<close>) and what the command took (\<open>g_eaten\<close>). A step is one section of the code under a lock,
  or a loss. A transport delivers in order; a loss leaves any first part of what was on its way.
\<close>

datatype client_hand = CIdle | CFrame frame | CData bool string nat

record link =
  lk_header :: "(int \<times> int) option"
  lk_up :: "frame list"
  lk_down :: "frame list"
  lk_open :: bool

record sys =
  s_ex :: exec
  s_pr :: proc
  s_links :: "nat \<Rightarrow> link"
  s_next :: nat
  s_dial :: "nat option"
  s_chand :: "nat \<Rightarrow> client_hand"
  s_ahand :: "nat \<Rightarrow> frame option"
  s_creader :: "nat \<Rightarrow> bool"
  s_areader :: "nat \<Rightarrow> bool"
  g_out :: string
  g_err :: string
  g_dout :: string
  g_derr :: string
  g_typed :: string
  g_eaten :: string
  g_dropped :: bool

definition set_link :: "nat \<Rightarrow> (link \<Rightarrow> link) \<Rightarrow> sys \<Rightarrow> sys" where
  "set_link t f s = s\<lparr>s_links := (s_links s)(t := f (s_links s t))\<rparr>"

text \<open>A write on a transport that is gone is lost.\<close>

definition put_up :: "nat \<Rightarrow> frame list \<Rightarrow> sys \<Rightarrow> sys" where
  "put_up t fs = set_link t (\<lambda>l. if lk_open l then l\<lparr>lk_up := lk_up l @ fs\<rparr> else l)"

definition put_down :: "nat \<Rightarrow> frame list \<Rightarrow> sys \<Rightarrow> sys" where
  "put_down t fs = set_link t (\<lambda>l. if lk_open l then l\<lparr>lk_down := lk_down l @ fs\<rparr> else l)"

definition no_link :: link where
  "no_link = \<lparr>lk_header = None, lk_up = [], lk_down = [], lk_open = False\<rparr>"

definition new_link :: "(int \<times> int) option \<Rightarrow> link" where
  "new_link h = \<lparr>lk_header = h, lk_up = [], lk_down = [], lk_open = True\<rparr>"

text \<open>A command started on transport 0 and attached at both ends.\<close>

definition sys_init :: "bool \<Rightarrow> bool \<Rightarrow> int \<Rightarrow> int \<Rightarrow> sys" where
  "sys_init resumable tty rows cols =
     \<lparr>s_ex = fst (exec_attach 0 None (newExec resumable tty rows cols)),
      s_pr = (case proc_attach 0 0 0 (startProc tty resumable) of Inr (p, _) \<Rightarrow> p | Inl _ \<Rightarrow> startProc tty resumable),
      s_links = (\<lambda>_. no_link)(0 := new_link None), s_next = 1, s_dial = None,
      s_chand = (\<lambda>_. CIdle), s_ahand = (\<lambda>_. None),
      s_creader = (\<lambda>_. False)(0 := True), s_areader = (\<lambda>_. False)(0 := True),
      g_out = [], g_err = [], g_dout = [], g_derr = [], g_typed = [], g_eaten = [], g_dropped = False\<rparr>"

section \<open>The reader of the client\<close>

text \<open>What the client does with the frame in hand: output goes into its pipe, piece by piece.\<close>

definition client_take :: "frame \<Rightarrow> client_hand" where
  "client_take f = (case f of FData b \<Rightarrow> CData False b (length b) | FStderr b \<Rightarrow> CData True b (length b) | _ \<Rightarrow> CFrame f)"

definition client_pipe :: "nat \<Rightarrow> bool \<Rightarrow> string \<Rightarrow> nat \<Rightarrow> sys \<Rightarrow> sys" where
  "client_pipe t err b n s =
     (let ex = s_ex s; (rest, pp) = pipe_Write b (if err then e_stderr ex else e_stdout ex);
          taken = take (length b - length rest) b
      in s\<lparr>s_ex := (if err then ex\<lparr>e_stderr := pp\<rparr> else ex\<lparr>e_stdout := pp\<rparr>),
           s_chand := (s_chand s)(t := CData err rest n),
           g_dout := (if err then g_dout s else g_dout s @ taken),
           g_derr := (if err then g_derr s @ taken else g_derr s)\<rparr>)"

definition client_frame :: "nat \<Rightarrow> frame \<Rightarrow> sys \<Rightarrow> sys" where
  "client_frame t f s =
     (let s1 = s\<lparr>s_chand := (s_chand s)(t := CIdle)\<rparr>
      in case f of
           FPing pg \<Rightarrow> s1\<lparr>s_ex := exec_ping pg (s_ex s)\<rparr>
         | FExit (Some st) \<Rightarrow>
             (let (ex, fs) = exec_exit st (s_ex s)
              in put_up t fs (s1\<lparr>s_ex := ex, s_creader := (s_creader s)(t := False)\<rparr>))
         | _ \<Rightarrow> s1)"

section \<open>Steps\<close>

text \<open>With \<open>strict\<close>, a reader whose attachment was replaced or given up does nothing more, and the
  heartbeat gives an attachment up only while its reader has no frame in hand.\<close>

inductive exec_step :: "bool \<Rightarrow> sys \<Rightarrow> sys \<Rightarrow> bool" for strict :: bool where
  Type: "stdin_Write b (s_ex s) = Some (n, ex, fs) \<Longrightarrow>
     exec_step strict s (put_up (e_gen (s_ex s)) fs (s\<lparr>s_ex := ex, g_typed := g_typed s @ take n b\<rparr>))"
| TypeEnd: "stdin_Close (s_ex s) = (ex, fs) \<Longrightarrow>
     exec_step strict s (put_up (e_gen (s_ex s)) fs (s\<lparr>s_ex := ex\<rparr>))"
| UserRead: "exec_step strict s (s\<lparr>s_ex := (s_ex s)\<lparr>e_stdout := snd (pipe_Read n (e_stdout (s_ex s))),
     e_stderr := snd (pipe_Read m (e_stderr (s_ex s)))\<rparr>\<rparr>)"
| UserResize: "exec_Resize rows cols (s_ex s) = (ex, fs) \<Longrightarrow>
     exec_step strict s (put_up (e_gen (s_ex s)) fs (s\<lparr>s_ex := ex\<rparr>))"
| UserSignal: "exec_Signal sg (s_ex s) = Inr fs \<Longrightarrow> exec_step strict s (put_up (e_gen (s_ex s)) fs s)"
| UserClose: "exec_Close (s_ex s) = (ex, fs) \<Longrightarrow>
     exec_step strict s (put_up (e_gen (s_ex s)) fs (s\<lparr>s_ex := ex\<rparr>))"
| UserFail: "exec_step strict s (s\<lparr>s_ex := exec_Fail err (s_ex s)\<rparr>)"
| AbortTimeout: "e_closed (s_ex s) \<Longrightarrow> exec_step strict s (s\<lparr>s_ex := exec_lost t (s_ex s)\<rparr>)"
| ClientNext: "s_creader s t \<Longrightarrow> s_chand s t = CIdle \<Longrightarrow> lk_down (s_links s t) = f # fs \<Longrightarrow>
     (strict \<longrightarrow> e_conn (s_ex s) \<and> e_gen (s_ex s) = t) \<Longrightarrow>
     exec_step strict s (set_link t (\<lambda>l. l\<lparr>lk_down := fs\<rparr>) (s\<lparr>s_chand := (s_chand s)(t := client_take f)\<rparr>))"
| ClientPipe: "s_chand s t = CData err b n \<Longrightarrow> b \<noteq> [] \<Longrightarrow>
     \<not> pipe_waits (if err then e_stderr (s_ex s) else e_stdout (s_ex s)) \<Longrightarrow>
     (strict \<longrightarrow> e_conn (s_ex s) \<and> e_gen (s_ex s) = t) \<Longrightarrow>
     exec_step strict s (client_pipe t err b n s)"
| ClientReceived: "s_chand s t = CData err [] n \<Longrightarrow>
     exec_received (if err then 0 else int n) (if err then int n else 0) (s_ex s) = (ex, fs) \<Longrightarrow>
     (strict \<longrightarrow> e_conn (s_ex s) \<and> e_gen (s_ex s) = t) \<Longrightarrow>
     exec_step strict s (put_up t fs (s\<lparr>s_ex := ex, s_chand := (s_chand s)(t := CIdle)\<rparr>))"
| ClientFrame: "s_chand s t = CFrame f \<Longrightarrow> (strict \<longrightarrow> e_conn (s_ex s) \<and> e_gen (s_ex s) = t) \<Longrightarrow>
     exec_step strict s (client_frame t f s)"
| ClientReadError: "s_creader s t \<Longrightarrow> s_chand s t = CIdle \<Longrightarrow> lk_down (s_links s t) = [] \<Longrightarrow>
     \<not> lk_open (s_links s t) \<Longrightarrow>
     exec_step strict s (s\<lparr>s_ex := exec_lost t (s_ex s), s_creader := (s_creader s)(t := False)\<rparr>)"
| Heartbeat: "exec_tick silent t (s_ex s) = (ex, fs) \<Longrightarrow> (strict \<and> silent \<longrightarrow> s_chand s t = CIdle) \<Longrightarrow>
     exec_step strict s (put_up t fs (s\<lparr>s_ex := ex\<rparr>))"
| Dial: "e_resumable (s_ex s) \<Longrightarrow> \<not> e_conn (s_ex s) \<Longrightarrow> s_dial s = None \<Longrightarrow> t = s_next s \<Longrightarrow>
     exec_step strict s (set_link t (\<lambda>_. new_link (Some (e_outOff (s_ex s), e_errOff (s_ex s))))
       (s\<lparr>s_next := Suc t, s_dial := Some t\<rparr>))"
| DialFails: "s_dial s = Some t \<Longrightarrow> exec_step strict s (s\<lparr>s_dial := None\<rparr>)"
| Reattach: "s_dial s = Some t \<Longrightarrow> lk_down (s_links s t) = f # fs \<Longrightarrow> exec_reattach t f (s_ex s) = (ex, out) \<Longrightarrow>
     exec_step strict s (put_up t out (set_link t (\<lambda>l. l\<lparr>lk_down := fs\<rparr>)
       (s\<lparr>s_ex := ex, s_dial := None, s_creader := (s_creader s)(t := e_conn ex \<and> e_gen ex = t)\<rparr>)))"
| Accept: "lk_header (s_links s t) = Some (o1, o2) \<Longrightarrow> proc_attach t o1 o2 (s_pr s) = Inr (p, rep) \<Longrightarrow>
     exec_step strict s (put_down t [FResume rep] (set_link t (\<lambda>l. l\<lparr>lk_header := None\<rparr>)
       (s\<lparr>s_pr := p, s_areader := (s_areader s)(t := True)\<rparr>)))"
| Refuse: "lk_header (s_links s t) = Some (o1, o2) \<Longrightarrow> proc_attach t o1 o2 (s_pr s) = Inl msg \<Longrightarrow>
     exec_step strict s (put_down t [FOpenGone] (set_link t (\<lambda>l. l\<lparr>lk_header := None\<rparr>) s))"
| Output: "length b \<le> DataChunk \<Longrightarrow> \<not> pump_waits err (s_pr s) \<Longrightarrow> \<not> (if err then p_errDone (s_pr s) else p_outDone (s_pr s)) \<Longrightarrow>
     exec_step strict s (s\<lparr>s_pr := pump err b (s_pr s), g_dropped := g_dropped s \<or> p_dropOutput (s_pr s),
       g_out := (if err \<or> p_dropOutput (s_pr s) then g_out s else g_out s @ b),
       g_err := (if err \<and> \<not> p_dropOutput (s_pr s) then g_err s @ b else g_err s)\<rparr>)"
| OutputEnd: "exec_step strict s (s\<lparr>s_pr := pump_end err (s_pr s)\<rparr>)"
| Feed: "\<not> p_inClosed (s_pr s) \<Longrightarrow> n \<le> length (feed_chunk (s_pr s)) \<Longrightarrow>
     exec_step strict s (s\<lparr>s_pr := feedStdin n failed (s_pr s), g_eaten := g_eaten s @ take n (p_inQueue (s_pr s))\<rparr>)"
| FeedEnd: "feed_ends (s_pr s) \<Longrightarrow> \<not> p_inClosed (s_pr s) \<Longrightarrow> exec_step strict s (s\<lparr>s_pr := close_input (s_pr s)\<rparr>)"
| Exit: "p_outDone (s_pr s) \<Longrightarrow> p_errDone (s_pr s) \<Longrightarrow> \<not> p_exited (s_pr s) \<Longrightarrow>
     exec_step strict s (s\<lparr>s_pr := proc_wait st (s_pr s)\<rparr>)"
| Pick: "s_areader s t \<Longrightarrow> \<not> a_gone (p_atts (s_pr s) t) \<Longrightarrow> a_hand (p_atts (s_pr s) t) = Idle \<Longrightarrow> hasWork t (s_pr s) \<Longrightarrow>
     exec_step strict s (s\<lparr>s_pr := send_pick t (s_pr s)\<rparr>)"
| Write: "a_hand (p_atts (s_pr s) t) = Picked b1 b2 ack st \<Longrightarrow> lk_open (s_links s t) \<Longrightarrow>
     exec_step strict s (put_down t (picked_frames (a_hand (p_atts (s_pr s) t))) (s\<lparr>s_pr := send_written t (s_pr s)\<rparr>))"
| WriteFails: "a_hand (p_atts (s_pr s) t) = Picked b1 b2 ack st \<Longrightarrow> \<not> lk_open (s_links s t) \<Longrightarrow>
     exec_step strict s (s\<lparr>s_pr := send_failed t (s_pr s)\<rparr>)"
| Sent: "a_hand (p_atts (s_pr s) t) = Written b1 b2 ex \<Longrightarrow> exec_step strict s (s\<lparr>s_pr := send_done t (s_pr s)\<rparr>)"
| AgentNext: "s_areader s t \<Longrightarrow> s_ahand s t = None \<Longrightarrow> lk_up (s_links s t) = f # fs \<Longrightarrow>
     (strict \<longrightarrow> p_att (s_pr s) = Some t) \<Longrightarrow>
     exec_step strict s (set_link t (\<lambda>l. l\<lparr>lk_up := fs\<rparr>) (s\<lparr>s_ahand := (s_ahand s)(t := Some f)\<rparr>))"
| AgentFrame: "s_ahand s t = Some f \<Longrightarrow> (strict \<longrightarrow> p_att (s_pr s) = Some t) \<Longrightarrow>
     exec_step strict s (s\<lparr>s_pr := proc_read t f (s_pr s), s_ahand := (s_ahand s)(t := None)\<rparr>)"
| AgentReadError: "s_areader s t \<Longrightarrow> s_ahand s t = None \<Longrightarrow> lk_up (s_links s t) = [] \<Longrightarrow> \<not> lk_open (s_links s t) \<Longrightarrow>
     exec_step strict s (s\<lparr>s_pr := (if fin then proc_abort (s_pr s) else proc_lost t (s_pr s)),
       s_areader := (s_areader s)(t := False)\<rparr>)"
| GiveUp: "exec_step strict s (s\<lparr>s_pr := giveUp (s_pr s)\<rparr>)"
| GiveUpEnd: "p_exited (s_pr s) \<Longrightarrow> p_aborted (s_pr s) \<Longrightarrow> exec_step strict s (s\<lparr>s_pr := proc_finish (s_pr s)\<rparr>)"
| Loss: "exec_step strict s (set_link t (\<lambda>l. l\<lparr>lk_open := False, lk_up := take n (lk_up l), lk_down := take m (lk_down l),
     lk_header := (if keep then lk_header l else None)\<rparr>) s)"

inductive exec_reach :: "bool \<Rightarrow> sys \<Rightarrow> sys \<Rightarrow> bool" for strict :: bool where
  Start: "exec_reach strict s s"
| Later: "exec_reach strict s u \<Longrightarrow> exec_step strict u v \<Longrightarrow> exec_reach strict s v"

inductive_cases exec_reachE: "exec_reach strict s t"

end
