(* ===== verification/ExecOut.thy ===== *)
theory ExecOut
  imports ExecRun "HOL-Library.Sublist"
begin

text \<open>
  The output of a command reaches its client once and in order, through any losses and re-attaches:
  the invariant of the bytes on their way to the client, and that every strict step keeps it.
\<close>

section \<open>Both outputs alike\<close>

definition kept :: "sys \<Rightarrow> bool \<Rightarrow> string" where
  "kept s err = (if err then g_err s else g_out s)"

definition deliv :: "sys \<Rightarrow> bool \<Rightarrow> string" where
  "deliv s err = (if err then g_derr s else g_dout s)"

definition out_off :: "exec \<Rightarrow> bool \<Rightarrow> int" where
  "out_off e err = (if err then e_errOff e else e_outOff e)"

definition out_ring :: "proc \<Rightarrow> bool \<Rightarrow> ring" where
  "out_ring p err = (if err then p_errOut p else p_out p)"

definition out_done :: "proc \<Rightarrow> bool \<Rightarrow> bool" where
  "out_done p err = (if err then p_errDone p else p_outDone p)"

definition sent_off :: "attachment \<Rightarrow> bool \<Rightarrow> int" where
  "sent_off a err = (if err then a_sentErr a else a_sentOut a)"

fun hand_bytes :: "picked_output \<Rightarrow> bool \<Rightarrow> string" where
  "hand_bytes Idle err = []"
| "hand_bytes (Picked b1 b2 ack st) err = (if err then b2 else b1)"
| "hand_bytes (Written b1 b2 ex) err = (if err then b2 else b1)"

fun written_bytes :: "picked_output \<Rightarrow> bool \<Rightarrow> nat" where
  "written_bytes (Written b1 b2 ex) err = length (if err then b2 else b1)"
| "written_bytes _ err = 0"

fun hand_exits :: "picked_output \<Rightarrow> bool" where
  "hand_exits (Picked b1 b2 ack st) = (st \<noteq> None)"
| "hand_exits (Written b1 b2 ex) = ex"
| "hand_exits Idle = False"

fun frame_bytes :: "bool \<Rightarrow> frame \<Rightarrow> string" where
  "frame_bytes False (FData b) = b"
| "frame_bytes True (FStderr b) = b"
| "frame_bytes _ _ = []"

definition bytes_of :: "bool \<Rightarrow> frame list \<Rightarrow> string" where
  "bytes_of err fs = concat (map (frame_bytes err) fs)"

lemma bytes_of_simps [simp]:
  "bytes_of err [] = []" "bytes_of err (f # fs) = frame_bytes err f @ bytes_of err fs"
  "bytes_of err (fs @ gs) = bytes_of err fs @ bytes_of err gs"
  by (simp_all add: bytes_of_def)

fun chand_bytes :: "bool \<Rightarrow> client_hand \<Rightarrow> string" where
  "chand_bytes err (CData err' b n) = (if err' = err then b else [])"
| "chand_bytes err _ = []"

fun chand_pending :: "bool \<Rightarrow> client_hand \<Rightarrow> int" where
  "chand_pending err (CData err' b n) = (if err' = err then int n - int (length b) else 0)"
| "chand_pending err _ = 0"

abbreviation is_exit :: "frame \<Rightarrow> bool" where
  "is_exit f \<equiv> (case f of FExit (Some _) \<Rightarrow> True | _ \<Rightarrow> False)"

fun chand_exits :: "client_hand \<Rightarrow> bool" where
  "chand_exits (CFrame f) = is_exit f"
| "chand_exits _ = False"

text \<open>No bytes follow a frame: no output an EXIT, no input an EOF.\<close>

fun nothing_after :: "(frame \<Rightarrow> bool) \<Rightarrow> frame list \<Rightarrow> bool" where
  "nothing_after P [] = True"
| "nothing_after P (f # fs) = ((P f \<longrightarrow> (\<forall>err. bytes_of err fs = [])) \<and> nothing_after P fs)"

abbreviation exit_last :: "frame list \<Rightarrow> bool" where
  "exit_last \<equiv> nothing_after (\<lambda>f. is_exit f)"

definition queue :: "sys \<Rightarrow> bool \<Rightarrow> nat \<Rightarrow> string" where
  "queue s err t = chand_bytes err (s_chand s t) @ bytes_of err (lk_down (s_links s t))"

definition queue_exits :: "sys \<Rightarrow> nat \<Rightarrow> bool" where
  "queue_exits s t \<longleftrightarrow> chand_exits (s_chand s t) \<or> list_ex is_exit (lk_down (s_links s t))"

text \<open>The client takes its output off transport \<open>t\<close>, or will once it is re-attached.\<close>

definition reading :: "sys \<Rightarrow> nat \<Rightarrow> bool" where
  "reading s t \<longleftrightarrow> \<not> e_exited (s_ex s) \<and> (e_conn (s_ex s) \<and> e_gen (s_ex s) = t \<or> s_dial s = Some t)"

section \<open>The invariant\<close>

text \<open>The client has the command's status from its EXIT.\<close>

definition ended :: "exec \<Rightarrow> bool" where
  "ended e \<longleftrightarrow> e_exited e \<and> e_err e = None \<and> \<not> e_closed e"

definition streams_ok :: "sys \<Rightarrow> bool" where
  "streams_ok s \<longleftrightarrow> (\<forall>err. keeps_tail (out_ring (s_pr s) err) (kept s err) \<and> prefix (deliv s err) (kept s err) \<and>
     0 \<le> out_off (s_ex s) err \<and> out_off (s_ex s) err \<le> int (length (deliv s err)) \<and>
     (p_resumable (s_pr s) \<longrightarrow> r_base (out_ring (s_pr s) err) \<le> out_off (s_ex s) err)) \<and>
     e_resumable (s_ex s) = p_resumable (s_pr s)"

definition client_ok :: "sys \<Rightarrow> bool" where
  "client_ok s \<longleftrightarrow> (e_conn (s_ex s) \<longrightarrow> \<not> e_exited (s_ex s) \<and> s_dial s = None) \<and>
     (\<not> e_exited (s_ex s) \<longrightarrow> (\<forall>err. int (length (deliv s err)) =
        out_off (s_ex s) err + (if e_conn (s_ex s) then chand_pending err (s_chand s (e_gen (s_ex s))) else 0))) \<and>
     (ended (s_ex s) \<longrightarrow> (\<forall>err. deliv s err = kept s err \<and> out_done (s_pr s) err))"

definition sender_ok :: "sys \<Rightarrow> nat \<Rightarrow> bool" where
  "sender_ok s t \<longleftrightarrow> (let a = p_atts (s_pr s) t in
     (\<forall>err. 0 \<le> sent_off a err \<and> sent_off a err \<le> int (length (kept s err)) \<and>
        prefix (hand_bytes (a_hand a) err) (drop (nat (sent_off a err)) (kept s err))) \<and>
     (hand_exits (a_hand a) \<longrightarrow> (\<forall>err. out_done (s_pr s) err \<and> hand_bytes (a_hand a) err = [] \<and>
        sent_off a err = int (length (kept s err)))) \<and>
     (a_hand a \<noteq> Idle \<and> lk_open (s_links s t) \<longrightarrow> s_areader s t))"

definition reading_ok :: "sys \<Rightarrow> nat \<Rightarrow> bool" where
  "reading_ok s t \<longleftrightarrow> (reading s t \<longrightarrow>
     (\<forall>err. prefix (queue s err t) (drop (length (deliv s err)) (kept s err)) \<and>
        (lk_open (s_links s t) \<longrightarrow> (if s_areader s t
           then int (length (deliv s err)) + int (length (queue s err t)) =
             sent_off (p_atts (s_pr s) t) err + int (written_bytes (a_hand (p_atts (s_pr s) t)) err)
           else queue s err t = []))) \<and>
     (queue_exits s t \<longrightarrow> (\<forall>err. out_done (s_pr s) err \<and>
        length (deliv s err) + length (queue s err t) = length (kept s err))) \<and>
     exit_last (lk_down (s_links s t)) \<and>
     (chand_exits (s_chand s t) \<longrightarrow> (\<forall>err. bytes_of err (lk_down (s_links s t)) = [])))"

definition link_ok :: "sys \<Rightarrow> nat \<Rightarrow> bool" where
  "link_ok s t \<longleftrightarrow>
     (\<forall>pg. FPing pg \<in> set (lk_up (s_links s t)) \<or> s_ahand s t = Some (FPing pg) \<longrightarrow>
        pg_stdout pg \<le> out_off (s_ex s) False \<and> pg_stderr pg \<le> out_off (s_ex s) True) \<and>
     (\<forall>o1 o2. lk_header (s_links s t) = Some (o1, o2) \<longrightarrow> 0 \<le> o1 \<and> o1 \<le> out_off (s_ex s) False \<and>
        0 \<le> o2 \<and> o2 \<le> out_off (s_ex s) True \<and> lk_down (s_links s t) = [] \<and> \<not> s_areader s t \<and>
        a_hand (p_atts (s_pr s) t) = Idle \<and> \<not> (e_conn (s_ex s) \<and> e_gen (s_ex s) = t) \<and>
        (s_dial s = Some t \<longrightarrow> o1 = out_off (s_ex s) False \<and> o2 = out_off (s_ex s) True)) \<and>
     (s_dial s = Some t \<longrightarrow> s_chand s t = CIdle) \<and>
     (s_dial s = Some t \<or> e_conn (s_ex s) \<and> e_gen (s_ex s) = t \<longrightarrow> t < s_next s) \<and>
     (s_next s \<le> t \<longrightarrow> s_links s t = no_link \<and> \<not> s_areader s t \<and> s_chand s t = CIdle \<and>
        a_hand (p_atts (s_pr s) t) = Idle)"

definition out_inv :: "sys \<Rightarrow> bool" where
  "out_inv s \<longleftrightarrow> streams_ok s \<and> client_ok s \<and>
     (\<forall>t. sender_ok s t \<and> reading_ok s t \<and> link_ok s t)"

lemmas out_defs = out_inv_def streams_ok_def client_ok_def sender_ok_def reading_ok_def link_ok_def

section \<open>Links\<close>

lemma links_put_up [simp]:
  "lk_down (s_links (put_up t fs s) u) = lk_down (s_links s u)"
  "lk_open (s_links (put_up t fs s) u) = lk_open (s_links s u)"
  "lk_header (s_links (put_up t fs s) u) = lk_header (s_links s u)"
  "lk_up (s_links (put_up t fs s) u) =
     (if u = t \<and> lk_open (s_links s t) then lk_up (s_links s t) @ fs else lk_up (s_links s u))"
  by (simp_all add: put_up_def set_link_def)

lemma links_put_down [simp]:
  "lk_up (s_links (put_down t fs s) u) = lk_up (s_links s u)"
  "lk_open (s_links (put_down t fs s) u) = lk_open (s_links s u)"
  "lk_header (s_links (put_down t fs s) u) = lk_header (s_links s u)"
  "lk_down (s_links (put_down t fs s) u) =
     (if u = t \<and> lk_open (s_links s t) then lk_down (s_links s t) @ fs else lk_down (s_links s u))"
  by (simp_all add: put_down_def set_link_def)

lemma put_up_sys [simp]:
  "s_ex (put_up t fs s) = s_ex s" "s_pr (put_up t fs s) = s_pr s" "s_next (put_up t fs s) = s_next s"
  "s_dial (put_up t fs s) = s_dial s" "s_chand (put_up t fs s) = s_chand s" "s_ahand (put_up t fs s) = s_ahand s"
  "s_creader (put_up t fs s) = s_creader s" "s_areader (put_up t fs s) = s_areader s"
  "g_out (put_up t fs s) = g_out s" "g_err (put_up t fs s) = g_err s" "g_dout (put_up t fs s) = g_dout s"
  "g_derr (put_up t fs s) = g_derr s" "g_typed (put_up t fs s) = g_typed s" "g_eaten (put_up t fs s) = g_eaten s"
  by (simp_all add: put_up_def set_link_def)

lemma put_down_sys [simp]:
  "s_ex (put_down t fs s) = s_ex s" "s_pr (put_down t fs s) = s_pr s" "s_next (put_down t fs s) = s_next s"
  "s_dial (put_down t fs s) = s_dial s" "s_chand (put_down t fs s) = s_chand s" "s_ahand (put_down t fs s) = s_ahand s"
  "s_creader (put_down t fs s) = s_creader s" "s_areader (put_down t fs s) = s_areader s"
  "g_out (put_down t fs s) = g_out s" "g_err (put_down t fs s) = g_err s" "g_dout (put_down t fs s) = g_dout s"
  "g_derr (put_down t fs s) = g_derr s" "g_typed (put_down t fs s) = g_typed s" "g_eaten (put_down t fs s) = g_eaten s"
  by (simp_all add: put_down_def set_link_def)

lemma set_link_sys [simp]:
  "s_ex (set_link t f s) = s_ex s" "s_pr (set_link t f s) = s_pr s" "s_next (set_link t f s) = s_next s"
  "s_dial (set_link t f s) = s_dial s" "s_chand (set_link t f s) = s_chand s" "s_ahand (set_link t f s) = s_ahand s"
  "s_creader (set_link t f s) = s_creader s" "s_areader (set_link t f s) = s_areader s"
  "g_out (set_link t f s) = g_out s" "g_err (set_link t f s) = g_err s" "g_dout (set_link t f s) = g_dout s"
  "g_derr (set_link t f s) = g_derr s" "g_typed (set_link t f s) = g_typed s" "g_eaten (set_link t f s) = g_eaten s"
  "s_links (set_link t f s) = (s_links s)(t := f (s_links s t))"
  by (simp_all add: set_link_def)

lemma streams_of_links [simp]:
  "kept (put_up t fs s) = kept s" "deliv (put_up t fs s) = deliv s"
  "kept (put_down t fs s) = kept s" "deliv (put_down t fs s) = deliv s"
  "kept (set_link t f s) = kept s" "deliv (set_link t f s) = deliv s"
  by (simp_all add: fun_eq_iff kept_def deliv_def)

lemma streams_of_update [simp]:
  "kept (s\<lparr>s_ex := xs_ex\<rparr>) = kept s" "deliv (s\<lparr>s_ex := xs_ex\<rparr>) = deliv s"
  "kept (s\<lparr>s_pr := xs_pr\<rparr>) = kept s" "deliv (s\<lparr>s_pr := xs_pr\<rparr>) = deliv s"
  "kept (s\<lparr>s_next := xs_next\<rparr>) = kept s" "deliv (s\<lparr>s_next := xs_next\<rparr>) = deliv s"
  "kept (s\<lparr>s_dial := xs_dial\<rparr>) = kept s" "deliv (s\<lparr>s_dial := xs_dial\<rparr>) = deliv s"
  "kept (s\<lparr>s_chand := xs_chand\<rparr>) = kept s" "deliv (s\<lparr>s_chand := xs_chand\<rparr>) = deliv s"
  "kept (s\<lparr>s_ahand := xs_ahand\<rparr>) = kept s" "deliv (s\<lparr>s_ahand := xs_ahand\<rparr>) = deliv s"
  "kept (s\<lparr>s_creader := xs_creader\<rparr>) = kept s" "deliv (s\<lparr>s_creader := xs_creader\<rparr>) = deliv s"
  "kept (s\<lparr>s_areader := xs_areader\<rparr>) = kept s" "deliv (s\<lparr>s_areader := xs_areader\<rparr>) = deliv s"
  "kept (s\<lparr>g_typed := xg_typed\<rparr>) = kept s" "deliv (s\<lparr>g_typed := xg_typed\<rparr>) = deliv s"
  "kept (s\<lparr>g_eaten := xg_eaten\<rparr>) = kept s" "deliv (s\<lparr>g_eaten := xg_eaten\<rparr>) = deliv s"
  "kept (s\<lparr>g_dropped := xg_dropped\<rparr>) = kept s" "deliv (s\<lparr>g_dropped := xg_dropped\<rparr>) = deliv s"
  by (simp_all add: fun_eq_iff kept_def deliv_def)

text \<open>No link is open past the transports dialled so far, so a link not yet dialled takes no frame.\<close>

lemma put_up_unused: "s_links s u = no_link \<Longrightarrow> s_links (put_up t fs s) u = no_link"
  by (auto simp: put_up_def set_link_def no_link_def)

lemma put_down_unused: "s_links s u = no_link \<Longrightarrow> s_links (put_down t fs s) u = no_link"
  by (auto simp: put_down_def set_link_def no_link_def)

section \<open>What leaves the output of the client alone\<close>

text \<open>The client's operations that keep its counts of output: they may end it, with an error.\<close>

definition client_quiet :: "exec \<Rightarrow> exec \<Rightarrow> bool" where
  "client_quiet e e' \<longleftrightarrow> e_resumable e' = e_resumable e \<and> e_gen e' = e_gen e \<and> e_outOff e' = e_outOff e \<and>
     e_errOff e' = e_errOff e \<and> (e_conn e' \<longrightarrow> e_conn e) \<and> (e_exited e \<longrightarrow> e_exited e') \<and>
     (e_exited e' \<and> \<not> e_exited e \<longrightarrow> \<not> e_conn e') \<and> (ended e' \<longrightarrow> ended e)"

lemma quiet_refl [simp]: "client_quiet e e"
  by (simp add: client_quiet_def)

lemma quiet_finish: "err \<noteq> None \<or> e_closed e \<Longrightarrow> client_quiet e (exec_finish st err e)"
  by (auto simp: client_quiet_def exec_finish_def ended_def)

lemma quiet_lost [simp]: "client_quiet e (exec_lost t e)"
  by (simp add: client_quiet_def exec_finish_def exec_lost_def Let_def ended_def)

lemma quiet_off: "client_quiet e e' \<Longrightarrow> out_off e' = out_off e"
  by (simp add: client_quiet_def out_off_def fun_eq_iff)

lemma quiet_reading: "client_quiet (s_ex s) (s_ex s') \<Longrightarrow> s_dial s' = s_dial s \<Longrightarrow> reading s' t \<Longrightarrow> reading s t"
  by (auto simp: reading_def client_quiet_def)

lemma out_quiet_client:
  assumes inv: "out_inv s" and q: "client_quiet (s_ex s) ex"
    and hand: "e_conn ex \<or> e_exited ex \<or> \<not> e_conn (s_ex s) \<or> s_chand s (e_gen (s_ex s)) = CIdle"
    and pings: "\<And>pg. FPing pg \<in> set fs \<Longrightarrow> pg_stdout pg \<le> out_off (s_ex s) False \<and> pg_stderr pg \<le> out_off (s_ex s) True"
  shows "out_inv (put_up t fs (s\<lparr>s_ex := ex, s_creader := cr\<rparr>))" (is "out_inv ?s")
proof -
  note off = quiet_off [OF q]
  have st: "streams_ok ?s"
    using inv q off by (simp add: out_inv_def streams_ok_def client_quiet_def)
  have cl: "client_ok ?s"
    using inv q off hand by (auto simp: out_inv_def client_ok_def client_quiet_def)
  have "sender_ok ?s u" for u using inv by (simp add: out_inv_def sender_ok_def)
  moreover have "reading_ok ?s u" for u
  proof (cases "reading ?s u")
    case True
    with q have "reading s u" using quiet_reading [of s ?s u] by simp
    moreover have "queue ?s err u = queue s err u" "queue_exits ?s u = queue_exits s u" for err
      by (simp_all add: queue_def queue_exits_def)
    ultimately show ?thesis using inv by (simp add: out_inv_def reading_ok_def)
  qed (simp add: reading_ok_def)
  moreover have "link_ok ?s u" for u
  proof -
    have l: "link_ok s u" using inv by (simp add: out_inv_def)
    then show ?thesis
      using off q pings put_up_unused [of "s\<lparr>s_ex := ex, s_creader := cr\<rparr>" u t fs]
      by (auto simp: link_ok_def client_quiet_def split: if_splits)
  qed
  ultimately show ?thesis using st cl by (simp add: out_inv_def)
qed

section \<open>What leaves the output of the agent alone\<close>

text \<open>The agent's operations that send and drop no output.\<close>

definition att_quiet :: "attachment \<Rightarrow> attachment \<Rightarrow> bool" where
  "att_quiet a a' \<longleftrightarrow> a_sentOut a' = a_sentOut a \<and> a_sentErr a' = a_sentErr a \<and>
     (a_hand a' = a_hand a \<or> a_hand a' = Idle \<and> (\<forall>err. written_bytes (a_hand a) err = 0))"

definition agent_quiet :: "proc \<Rightarrow> proc \<Rightarrow> bool" where
  "agent_quiet p p' \<longleftrightarrow> p_resumable p' = p_resumable p \<and> p_out p' = p_out p \<and> p_errOut p' = p_errOut p \<and>
     (p_outDone p \<longrightarrow> p_outDone p') \<and> (p_errDone p \<longrightarrow> p_errDone p') \<and>
     (\<forall>t. att_quiet (p_atts p t) (p_atts p' t))"

lemma att_quiet_refl [simp]: "att_quiet a a"
  by (simp add: att_quiet_def)

lemma att_quiet_trans: "att_quiet a b \<Longrightarrow> att_quiet b c \<Longrightarrow> att_quiet a c"
  by (auto simp: att_quiet_def)

lemma agent_quiet_refl [simp]: "agent_quiet p p"
  by (simp add: agent_quiet_def)

lemma agent_quiet_trans: "agent_quiet p q \<Longrightarrow> agent_quiet q r \<Longrightarrow> agent_quiet p r"
  by (auto simp: agent_quiet_def intro: att_quiet_trans)

lemma quiet_set_att:
  "(\<And>a. att_quiet a (f a)) \<Longrightarrow> agent_quiet p (set_att t f p)"
  by (simp add: agent_quiet_def set_att_def)

lemma quiet_gone: "agent_quiet p (set_att t (\<lambda>a. a\<lparr>a_gone := True\<rparr>) p)"
  by (rule quiet_set_att) (simp add: att_quiet_def)

lemma quiet_abort [simp]: "agent_quiet p (proc_abort p)"
  by (simp add: agent_quiet_def proc_abort_def)

lemma quiet_proc_finish [simp]: "agent_quiet p (proc_finish p)"
  by (auto simp: agent_quiet_def proc_finish_def Let_def set_att_def att_quiet_def split: option.split)

lemma quiet_wait: "agent_quiet p (proc_wait st p)"
proof -
  have "agent_quiet p (p\<lparr>p_exited := True, p_status := st\<rparr>)" by (simp add: agent_quiet_def)
  then show ?thesis using agent_quiet_trans quiet_proc_finish by (auto simp: proc_wait_def Let_def)
qed

lemma quiet_dropped: "agent_quiet p p1 \<Longrightarrow> agent_quiet p (p1\<lparr>p_dropOutput := d\<rparr>)"
  by (simp add: agent_quiet_def)

lemma quiet_proc_lost: "agent_quiet p (proc_lost t p)"
proof (cases "a_gone (p_atts p t)")
  case True
  then show ?thesis by (simp add: proc_lost_def)
next
  case False
  define p1 where "p1 = (set_att t (\<lambda>a. a\<lparr>a_gone := True\<rparr>) p)\<lparr>p_att := None\<rparr>"
  define p2 where "p2 = p1\<lparr>p_dropOutput := True\<rparr>"
  have 1: "agent_quiet p p1" using quiet_gone [of p t] by (simp add: agent_quiet_def p1_def)
  then have 2: "agent_quiet p p2" by (simp add: p2_def quiet_dropped)
  have l: "proc_lost t p = (if p_finished p1 then p1 else if p_resumable p1 \<and> \<not> p_aborted p1 then p1
      else if p_exited p2 then proc_finish p2 else proc_abort p2)"
    using False by (simp only: proc_lost_def Let_def p1_def p2_def if_False)
  show ?thesis unfolding l
    using 1 agent_quiet_trans [OF 2 quiet_proc_finish] agent_quiet_trans [OF 2 quiet_abort]
    by (simp split: if_split)
qed

lemma quiet_giveUp: "agent_quiet p (giveUp p)"
proof -
  let ?p = "(proc_abort (p\<lparr>p_dropOutput := True\<rparr>))\<lparr>p_aborted := True\<rparr>"
  have 1: "agent_quiet p ?p" by (simp add: agent_quiet_def proc_abort_def)
  show ?thesis unfolding giveUp_def Let_def
    using 1 agent_quiet_trans [OF 1 quiet_proc_finish] by (simp split: if_split)
qed

lemma quiet_send_failed:
  assumes "a_hand (p_atts p t) = Picked b1 b2 ack st"
  shows "agent_quiet p (send_failed t p)"
proof -
  have "agent_quiet p (set_att t (\<lambda>a. a\<lparr>a_hand := Idle\<rparr>) p)"
    using assms by (simp add: agent_quiet_def set_att_def att_quiet_def)
  from agent_quiet_trans [OF this quiet_proc_lost] show ?thesis by (simp add: send_failed_def)
qed

lemma quiet_pump_end: "agent_quiet p (pump_end err p)"
  by (simp add: agent_quiet_def pump_end_def)

lemma agent_quiet_out:
  assumes "agent_quiet p p'"
  shows "out_ring p' = out_ring p" "out_done p err \<Longrightarrow> out_done p' err"
    "sent_off (p_atts p' t) = sent_off (p_atts p t)"
    "written_bytes (a_hand (p_atts p' t)) = written_bytes (a_hand (p_atts p t))"
    "prefix (hand_bytes (a_hand (p_atts p' t)) err) (hand_bytes (a_hand (p_atts p t)) err)"
    "hand_exits (a_hand (p_atts p' t)) \<Longrightarrow> a_hand (p_atts p' t) = a_hand (p_atts p t)"
    "a_hand (p_atts p t) = Idle \<Longrightarrow> a_hand (p_atts p' t) = Idle"
proof -
  have t: "att_quiet (p_atts p t) (p_atts p' t)" using assms by (simp add: agent_quiet_def)
  show "out_ring p' = out_ring p" "out_done p err \<Longrightarrow> out_done p' err"
    using assms by (auto simp: agent_quiet_def fun_eq_iff out_ring_def out_done_def split: if_splits)
  show "sent_off (p_atts p' t) = sent_off (p_atts p t)"
    "written_bytes (a_hand (p_atts p' t)) = written_bytes (a_hand (p_atts p t))"
    "prefix (hand_bytes (a_hand (p_atts p' t)) err) (hand_bytes (a_hand (p_atts p t)) err)"
    "hand_exits (a_hand (p_atts p' t)) \<Longrightarrow> a_hand (p_atts p' t) = a_hand (p_atts p t)"
    "a_hand (p_atts p t) = Idle \<Longrightarrow> a_hand (p_atts p' t) = Idle"
    using t by (auto simp: att_quiet_def fun_eq_iff sent_off_def)
qed

lemma out_quiet_agent:
  assumes inv: "out_inv s" and q: "agent_quiet (s_pr s) p" and r: "\<And>u. u \<noteq> t \<Longrightarrow> ar u = s_areader s u"
    and rt: "lk_open (s_links s t) \<Longrightarrow> ar t = s_areader s t" "s_areader s t \<or> \<not> ar t"
  shows "out_inv (s\<lparr>s_pr := p, s_areader := ar\<rparr>)" (is "out_inv ?s")
proof -
  note ag = agent_quiet_out [OF q]
  have ar: "lk_open (s_links s u) \<Longrightarrow> ar u = s_areader s u" "ar u \<Longrightarrow> s_areader s u" for u
    using r rt by (cases "u = t"; simp)+
  have st: "streams_ok ?s" using inv q ag(1) by (simp add: out_inv_def streams_ok_def agent_quiet_def)
  have cl: "client_ok ?s" using inv ag(2) by (simp add: out_inv_def client_ok_def)
  have "sender_ok ?s u" for u
  proof -
    let ?a = "p_atts (s_pr s) u" and ?b = "p_atts p u"
    have h: "sender_ok s u" using inv by (simp add: out_inv_def)
    have "prefix (hand_bytes (a_hand ?b) err) (drop (nat (sent_off ?a err)) (kept s err))" for err
      using h ag(5) [of u err] by (auto simp: sender_ok_def Let_def intro: prefix_order.trans)
    moreover have "hand_exits (a_hand ?b) \<Longrightarrow> out_done p err \<and> hand_bytes (a_hand ?b) err = [] \<and>
        sent_off ?a err = int (length (kept s err))" for err
      using h ag(2) [of err] ag(6) [of u] by (simp add: sender_ok_def Let_def)
    moreover have "a_hand ?b \<noteq> Idle \<Longrightarrow> lk_open (s_links s u) \<Longrightarrow> ar u"
      using h ag(7) [of u] ar(1) [of u] by (simp add: sender_ok_def Let_def) blast
    ultimately show ?thesis using h ag(3) [of u] by (simp add: sender_ok_def Let_def)
  qed
  moreover have "reading_ok ?s u" for u
  proof -
    have "reading_ok s u" using inv by (simp add: out_inv_def)
    moreover have "queue ?s err u = queue s err u" "queue_exits ?s u = queue_exits s u" "reading ?s u = reading s u" for err
      by (simp_all add: queue_def queue_exits_def reading_def)
    ultimately show ?thesis using ag(2-4) ar(1) [of u] by (simp add: reading_ok_def)
  qed
  moreover have "link_ok ?s u" for u
  proof -
    have "link_ok s u" using inv by (simp add: out_inv_def)
    then show ?thesis using ag(7) ar(2) [of u] by (auto simp: link_ok_def)
  qed
  ultimately show ?thesis using st cl by (simp add: out_inv_def)
qed

end
