(* ===== verification/ExecDelivery.thy ===== *)
theory ExecDelivery
  imports ExecOut
begin

text \<open>
  Every strict step keeps the invariant of the output, so a client that re-attaches after any losses
  has the command's output once and in order.
\<close>

section \<open>What the output does not depend on\<close>

lemma out_inv_ghosts [simp]:
  "out_inv (s\<lparr>g_typed := x1\<rparr>) = out_inv s" "out_inv (s\<lparr>g_eaten := x2\<rparr>) = out_inv s"
  "out_inv (s\<lparr>g_dropped := x3\<rparr>) = out_inv s" "out_inv (s\<lparr>s_creader := x4\<rparr>) = out_inv s"
  by (simp_all add: out_inv_def streams_ok_def client_ok_def sender_ok_def reading_ok_def link_ok_def
    reading_def queue_def queue_exits_def)

lemma put_up_typed: "put_up t fs (s\<lparr>s_ex := ex, g_typed := x\<rparr>) = (put_up t fs (s\<lparr>s_ex := ex\<rparr>))\<lparr>g_typed := x\<rparr>"
  by (simp add: put_up_def set_link_def)

lemma put_up_nothing [simp]: "put_up t [] s = s"
  by (simp add: put_up_def set_link_def fun_upd_idem_iff)

lemma WriteData_frames: "f \<in> set (WriteData c p) \<Longrightarrow> \<exists>b. b \<noteq> [] \<and> f = c b"
proof (induction c p rule: WriteData.induct)
  case (1 c p)
  from 1(2) have "p \<noteq> []" and "f = c (take DataChunk p) \<or> f \<in> set (WriteData c (drop DataChunk p))"
    by (subst (asm) WriteData.simps, simp split: if_splits)+
  moreover from this(1) have "take DataChunk p \<noteq> []" by (simp add: DataChunk_def)
  ultimately show ?case using 1(1) by blast
qed

lemma WriteData_no_ping [simp]: "FPing pg \<notin> set (WriteData FData p)"
  using WriteData_frames [of "FPing pg" FData p] by auto

section \<open>Steps that leave the output alone\<close>

lemma out_quiet_client0:
  "out_inv s \<Longrightarrow> client_quiet (s_ex s) ex \<Longrightarrow>
   e_conn ex \<or> e_exited ex \<or> \<not> e_conn (s_ex s) \<or> s_chand s (e_gen (s_ex s)) = CIdle \<Longrightarrow>
   \<forall>pg. FPing pg \<in> set fs \<longrightarrow> pg_stdout pg \<le> out_off (s_ex s) False \<and> pg_stderr pg \<le> out_off (s_ex s) True \<Longrightarrow>
   out_inv (put_up t fs (s\<lparr>s_ex := ex\<rparr>))"
  using out_quiet_client [of s ex fs t "s_creader s"] by simp

lemma quiet_Write: "stdin_Write b e = Some (n, ex, fs) \<Longrightarrow> client_quiet e ex \<and> e_conn ex = e_conn e \<and> (\<forall>pg. FPing pg \<notin> set fs)"
  by (auto simp: stdin_Write_def Let_def client_quiet_def ended_def split: if_splits)

lemma quiet_Close: "stdin_Close e = (ex, fs) \<Longrightarrow> client_quiet e ex \<and> e_conn ex = e_conn e \<and> (\<forall>pg. FPing pg \<notin> set fs)"
  by (auto simp: stdin_Close_def client_quiet_def ended_def split: if_splits)

lemma quiet_Resize: "exec_Resize r c e = (ex, fs) \<Longrightarrow> client_quiet e ex \<and> e_conn ex = e_conn e \<and> (\<forall>pg. FPing pg \<notin> set fs)"
  by (auto simp: exec_Resize_def client_quiet_def ended_def split: if_splits)

lemma quiet_exec_Close:
  "exec_Close e = (ex, fs) \<Longrightarrow> client_quiet e ex \<and> (e_conn ex \<or> e_exited ex \<or> \<not> e_conn e) \<and> (\<forall>pg. FPing pg \<notin> set fs)"
  by (auto simp: exec_Close_def Let_def client_quiet_def ended_def exec_finish_def split: if_splits)

lemma client_quiet_trans: "client_quiet d e \<Longrightarrow> client_quiet e f \<Longrightarrow> client_quiet d f"
  by (auto simp: client_quiet_def)

lemma lost_ends: "e_conn (exec_lost t e) \<or> e_exited (exec_lost t e) \<or> \<not> e_conn e \<or> e_gen e = t"
  by (simp add: exec_lost_def)

lemma quiet_tick:
  assumes tick: "exec_tick silent t e = (ex, fs)" and pos: "0 \<le> out_off e False" "0 \<le> out_off e True"
  shows "client_quiet e ex" "e_conn ex \<or> e_exited ex \<or> \<not> e_conn e \<or> silent \<and> e_gen e = t"
    "FPing pg \<in> set fs \<Longrightarrow> pg_stdout pg \<le> out_off e False \<and> pg_stderr pg \<le> out_off e True"
proof -
  define e1 where "e1 = (if e_resumable e then e\<lparr>e_ackOut := e_outOff e, e_ackErr := e_errOff e\<rparr> else e)"
  have q: "client_quiet e e1" "e_conn e1 = e_conn e" "e_gen e1 = e_gen e"
    by (simp_all add: e1_def client_quiet_def ended_def)
  have "(ex = e \<and> fs = []) \<or> (silent \<and> ex = exec_lost t e1 \<and> fs = []) \<or>
     (ex = e1 \<and> fs = [FPing (if e_resumable e then \<lparr>pg_stdin = 0, pg_stdout = e_outOff e, pg_stderr = e_errOff e\<rparr>
                    else \<lparr>pg_stdin = 0, pg_stdout = 0, pg_stderr = 0\<rparr>)])"
    using tick unfolding exec_tick_def Let_def e1_def [symmetric]
    by (simp split: if_splits)
  then show "client_quiet e ex" "e_conn ex \<or> e_exited ex \<or> \<not> e_conn e \<or> silent \<and> e_gen e = t"
    "FPing pg \<in> set fs \<Longrightarrow> pg_stdout pg \<le> out_off e False \<and> pg_stderr pg \<le> out_off e True"
    using q client_quiet_trans [OF q(1) quiet_lost] lost_ends [of t e1] pos
    by (auto simp: out_off_def split: if_splits)
qed

lemma out_Heartbeat:
  assumes inv: "out_inv s" and t: "exec_tick silent t (s_ex s) = (ex, fs)" and h: "silent \<longrightarrow> s_chand s t = CIdle"
  shows "out_inv (put_up t fs (s\<lparr>s_ex := ex\<rparr>))"
proof -
  have "0 \<le> out_off (s_ex s) err" for err using inv by (simp add: out_inv_def streams_ok_def)
  note q = quiet_tick [OF t this this]
  show ?thesis using inv q h by (intro out_quiet_client0) auto
qed

lemma out_quiet_agent0:
  "out_inv s \<Longrightarrow> agent_quiet (s_pr s) p \<Longrightarrow> out_inv (s\<lparr>s_pr := p\<rparr>)"
  using out_quiet_agent [of s p undefined "s_areader s"] by simp

section \<open>The reader of the client\<close>

lemma out_parts:
  assumes "out_inv s"
  shows "streams_ok s" "client_ok s" "sender_ok s t" "reading_ok s t" "link_ok s t"
  using assms by (simp_all add: out_inv_def)

lemma sender_ok_cong:
  "p_atts (s_pr s') u = p_atts (s_pr s) u \<Longrightarrow> kept s' = kept s \<Longrightarrow> out_done (s_pr s') = out_done (s_pr s) \<Longrightarrow>
   lk_open (s_links s' u) = lk_open (s_links s u) \<Longrightarrow> s_areader s' u = s_areader s u \<Longrightarrow>
   sender_ok s' u = sender_ok s u"
  by (simp add: sender_ok_def Let_def)

lemma reading_ok_same:
  assumes "reading_ok s u" and "reading s' u \<Longrightarrow> reading s u" and "kept s' = kept s" "deliv s' = deliv s"
    and "\<And>err. chand_bytes err (s_chand s' u) = chand_bytes err (s_chand s u)"
    and "chand_exits (s_chand s' u) = chand_exits (s_chand s u)"
    and "lk_down (s_links s' u) = lk_down (s_links s u)" "lk_open (s_links s' u) = lk_open (s_links s u)"
    and "s_areader s' u = s_areader s u" and "p_atts (s_pr s') u = p_atts (s_pr s) u"
    and "out_done (s_pr s') = out_done (s_pr s)"
  shows "reading_ok s' u"
proof -
  have "queue s' err u = queue s err u" "queue_exits s' u = queue_exits s u" for err
    using assms(5-7) by (simp_all add: queue_def queue_exits_def)
  with assms show ?thesis by (simp add: reading_ok_def)
qed

lemma link_ok_mono:
  assumes l: "link_ok s u" and off: "\<And>err. out_off (s_ex s) err \<le> out_off (s_ex s') err"
    and pings: "\<And>pg. FPing pg \<in> set (lk_up (s_links s' u)) \<or> s_ahand s' u = Some (FPing pg) \<Longrightarrow>
      FPing pg \<in> set (lk_up (s_links s u)) \<or> s_ahand s u = Some (FPing pg) \<or>
      pg_stdout pg \<le> out_off (s_ex s') False \<and> pg_stderr pg \<le> out_off (s_ex s') True"
    and header: "\<And>h. lk_header (s_links s' u) = Some h \<Longrightarrow> lk_header (s_links s u) = Some h \<and>
      (lk_down (s_links s u) = [] \<longrightarrow> lk_down (s_links s' u) = []) \<and> (\<not> s_areader s u \<longrightarrow> \<not> s_areader s' u) \<and>
      (a_hand (p_atts (s_pr s) u) = Idle \<longrightarrow> a_hand (p_atts (s_pr s') u) = Idle) \<and>
      (e_conn (s_ex s') \<and> e_gen (s_ex s') = u \<longrightarrow> e_conn (s_ex s) \<and> e_gen (s_ex s) = u)"
    and dial: "s_dial s' = Some u \<Longrightarrow> s_dial s = Some u \<and> out_off (s_ex s') = out_off (s_ex s) \<and> s_chand s' u = s_chand s u"
    and at: "e_conn (s_ex s') \<Longrightarrow> e_gen (s_ex s') = u \<Longrightarrow> e_conn (s_ex s) \<and> e_gen (s_ex s) = u \<or> s_dial s = Some u"
    and nxt: "s_next s' = s_next s"
    and unused: "s_next s \<le> u \<Longrightarrow> s_links s u = no_link \<Longrightarrow> \<not> s_areader s u \<Longrightarrow> s_chand s u = CIdle \<Longrightarrow>
      a_hand (p_atts (s_pr s) u) = Idle \<Longrightarrow> s_links s' u = no_link \<and> \<not> s_areader s' u \<and> s_chand s' u = CIdle \<and>
      a_hand (p_atts (s_pr s') u) = Idle"
  shows "link_ok s' u"
proof -
  have 1: "pg_stdout pg \<le> out_off (s_ex s') False \<and> pg_stderr pg \<le> out_off (s_ex s') True"
    if p: "FPing pg \<in> set (lk_up (s_links s' u)) \<or> s_ahand s' u = Some (FPing pg)" for pg
  proof -
    have "FPing pg \<in> set (lk_up (s_links s u)) \<or> s_ahand s u = Some (FPing pg) \<Longrightarrow>
        pg_stdout pg \<le> out_off (s_ex s) False \<and> pg_stderr pg \<le> out_off (s_ex s) True"
      using l unfolding link_ok_def by blast
    then show ?thesis using pings [OF p] off [of False] off [of True] by linarith
  qed
  have 2: "0 \<le> o1 \<and> o1 \<le> out_off (s_ex s') False \<and>
        0 \<le> o2 \<and> o2 \<le> out_off (s_ex s') True \<and> lk_down (s_links s' u) = [] \<and> \<not> s_areader s' u \<and>
        a_hand (p_atts (s_pr s') u) = Idle \<and> \<not> (e_conn (s_ex s') \<and> e_gen (s_ex s') = u) \<and>
        (s_dial s' = Some u \<longrightarrow> o1 = out_off (s_ex s') False \<and> o2 = out_off (s_ex s') True)"
    if h: "lk_header (s_links s' u) = Some (o1, o2)" for o1 o2
  proof -
    have "0 \<le> o1 \<and> o1 \<le> out_off (s_ex s) False \<and>
        0 \<le> o2 \<and> o2 \<le> out_off (s_ex s) True \<and> lk_down (s_links s u) = [] \<and> \<not> s_areader s u \<and>
        a_hand (p_atts (s_pr s) u) = Idle \<and> \<not> (e_conn (s_ex s) \<and> e_gen (s_ex s) = u) \<and>
        (s_dial s = Some u \<longrightarrow> o1 = out_off (s_ex s) False \<and> o2 = out_off (s_ex s) True)"
      using l header [OF h] by (simp add: link_ok_def)
    then show ?thesis using header [OF h] dial off [of False] off [of True] by auto
  qed
  have 3: "s_dial s' = Some u \<Longrightarrow> s_chand s' u = CIdle" using l dial by (simp add: link_ok_def)
  have 4: "s_dial s' = Some u \<or> e_conn (s_ex s') \<and> e_gen (s_ex s') = u \<Longrightarrow> u < s_next s'"
    using l dial at nxt by (auto simp: link_ok_def)
  have 5: "s_next s' \<le> u \<Longrightarrow> s_links s' u = no_link \<and> \<not> s_areader s' u \<and> s_chand s' u = CIdle \<and>
        a_hand (p_atts (s_pr s') u) = Idle"
    using l unused nxt by (simp add: link_ok_def)
  show ?thesis unfolding link_ok_def using 1 2 3 4 5 by blast
qed

lemma link_headed:
  assumes "link_ok s t" "lk_header (s_links s t) = Some h"
  shows "lk_down (s_links s t) = []" "\<not> s_areader s t" "a_hand (p_atts (s_pr s) t) = Idle"
    "\<not> (e_conn (s_ex s) \<and> e_gen (s_ex s) = t)"
  using assms by (cases h; simp add: link_ok_def)+

lemma link_dialled:
  assumes "link_ok s t" "s_dial s = Some t"
  shows "s_chand s t = CIdle" "t < s_next s" "lk_down (s_links s t) \<noteq> [] \<Longrightarrow> lk_header (s_links s t) = None"
  using assms(2) link_headed(1) [OF assms(1)] assms(1)
  by (auto simp: link_ok_def) (cases "lk_header (s_links s t)"; auto)+

lemma unread_ok: "\<not> reading s u \<Longrightarrow> reading_ok s u"
  by (simp add: reading_ok_def)

lemma take_bytes [simp]:
  "chand_bytes err (client_take f) = frame_bytes err f" "chand_pending err (client_take f) = 0"
  "chand_exits (client_take f) = is_exit f"
  by (cases err; cases f; simp add: client_take_def split: option.split)+

lemma out_ClientNext:
  assumes inv: "out_inv s" and idle: "s_chand s t = CIdle" and down: "lk_down (s_links s t) = f # fs"
    and at: "e_conn (s_ex s)" "e_gen (s_ex s) = t"
  shows "out_inv (set_link t (\<lambda>l. l\<lparr>lk_down := fs\<rparr>) (s\<lparr>s_chand := (s_chand s)(t := client_take f)\<rparr>))" (is "out_inv ?s")
proof -
  have "streams_ok ?s" using out_parts(1) [OF inv] by (simp add: streams_ok_def)
  moreover have "client_ok ?s" using out_parts(2) [OF inv] at idle by (simp add: client_ok_def)
  moreover have "sender_ok ?s u" for u
    using out_parts(3) [OF inv, of u] by (subst sender_ok_cong [of _ u s]) simp_all
  moreover have "reading_ok ?s u" for u
  proof -
    have "queue ?s err u = queue s err u" "queue_exits ?s u = queue_exits s u" "reading ?s u = reading s u" for err
      using idle down by (auto simp: queue_def queue_exits_def reading_def)
    then show ?thesis using out_parts(4) [OF inv, of u] down by (auto simp: reading_ok_def)
  qed
  moreover have "link_ok ?s u" for u
    using out_parts(5) [OF inv, of u] down at out_parts(2) [OF inv]
    by (cases "u = t") (auto simp: link_ok_def client_ok_def)
  ultimately show ?thesis by (simp add: out_inv_def)
qed

lemma pipe_Write_part: "pipe_Write b pp = (rest, pp') \<Longrightarrow> take (length b - length rest) b @ rest = b \<and> length rest \<le> length b"
  by (auto simp: pipe_Write_def Let_def split: if_splits)

text \<open>The bytes of one output go from the hand to the pipe.\<close>

lemma client_pipe_sys:
  assumes "pipe_Write b (if err then e_stderr (s_ex s) else e_stdout (s_ex s)) = (rest, pp)"
  shows "s_links (client_pipe t err b n s) = s_links s" "s_pr (client_pipe t err b n s) = s_pr s"
    "s_next (client_pipe t err b n s) = s_next s" "s_dial (client_pipe t err b n s) = s_dial s"
    "s_areader (client_pipe t err b n s) = s_areader s" "s_ahand (client_pipe t err b n s) = s_ahand s"
    "s_chand (client_pipe t err b n s) = (s_chand s)(t := CData err rest n)"
    "kept (client_pipe t err b n s) = kept s"
    "deliv (client_pipe t err b n s) err' =
       deliv s err' @ (if err' = err then take (length b - length rest) b else [])"
    "out_off (s_ex (client_pipe t err b n s)) = out_off (s_ex s)" "ended (s_ex (client_pipe t err b n s)) = ended (s_ex s)"
    "e_conn (s_ex (client_pipe t err b n s)) = e_conn (s_ex s)" "e_gen (s_ex (client_pipe t err b n s)) = e_gen (s_ex s)"
    "e_exited (s_ex (client_pipe t err b n s)) = e_exited (s_ex s)"
    "e_resumable (s_ex (client_pipe t err b n s)) = e_resumable (s_ex s)"
  using assms
  by (auto simp: client_pipe_def Let_def kept_def deliv_def out_off_def ended_def fun_eq_iff)

lemma prefix_past:
  "prefix (a @ b) (drop (length d) k) \<Longrightarrow> prefix d k \<Longrightarrow> prefix (d @ a) k \<and> prefix b (drop (length (d @ a)) k)"
  by (auto simp: prefix_def)

lemma out_ClientPipe:
  assumes inv: "out_inv s" and hand: "s_chand s t = CData err b n" and at: "e_conn (s_ex s)" "e_gen (s_ex s) = t"
  shows "out_inv (client_pipe t err b n s)" (is "out_inv ?s")
proof -
  obtain rest pp where w: "pipe_Write b (if err then e_stderr (s_ex s) else e_stdout (s_ex s)) = (rest, pp)"
    by (meson surj_pair)
  define taken where "taken = take (length b - length rest) b"
  have b: "taken @ rest @ x = b @ x" and lr: "length b = length taken + length rest"
    for x using pipe_Write_part [OF w] by (metis append_assoc taken_def, metis length_append taken_def)
  note sys = client_pipe_sys [OF w, folded taken_def]
  have rd: "reading s t" using out_parts(2) [OF inv] at by (simp add: reading_def client_ok_def)
  have q: "queue s e u = (if u = t \<and> e = err then taken else []) @ queue ?s e u" for e u
    using hand by (cases "u = t"; cases "e = err"; simp add: queue_def sys b)
  have pre: "prefix (deliv ?s e) (kept s e) \<and> prefix (queue ?s e t) (drop (length (deliv ?s e)) (kept s e))" for e
  proof -
    have "prefix (queue s e t) (drop (length (deliv s e)) (kept s e))" "prefix (deliv s e) (kept s e)"
      using out_parts(4) [OF inv, of t] out_parts(1) [OF inv] rd by (simp_all add: reading_ok_def streams_ok_def)
    from prefix_past [OF this(1) [unfolded q [of e t]] this(2)] show ?thesis by (simp add: sys)
  qed
  have len: "length (deliv ?s e) + length (queue ?s e t) = length (deliv s e) + length (queue s e t)" for e
    using q [of e t] by (simp add: sys)
  have "streams_ok ?s" using out_parts(1) [OF inv] pre by (auto simp: streams_ok_def sys intro: order_trans)
  moreover have "client_ok ?s" using out_parts(2) [OF inv] at hand lr by (auto simp: client_ok_def sys ended_def)
  moreover have "sender_ok ?s u" for u
    using out_parts(3) [OF inv, of u] by (subst sender_ok_cong [of _ u s]) (simp_all add: sys)
  moreover have "reading_ok ?s u" for u
  proof (cases "u = t")
    case True
    have "queue_exits ?s t = queue_exits s t" using hand by (simp add: queue_exits_def sys)
    moreover have "int (length (deliv ?s e)) + int (length (queue ?s e t)) = int (length (deliv s e)) + int (length (queue s e t))" for e
      using len [of e] by linarith
    moreover have "queue s e t = [] \<Longrightarrow> queue ?s e t = []" for e using q [of e t] by simp
    ultimately show ?thesis using True out_parts(4) [OF inv, of t] rd pre len hand
      by (simp add: reading_ok_def sys(1-8) sys(10-15))
  next
    case False
    have "reading ?s u = False" using False at out_parts(2) [OF inv] by (simp add: reading_def sys client_ok_def)
    then show ?thesis by (simp add: reading_ok_def)
  qed
  moreover have "link_ok ?s u" for u
    using out_parts(5) [OF inv, of u] at out_parts(2) [OF inv] hand
    by (cases "u = t") (auto simp: link_ok_def client_ok_def sys)
  ultimately show ?thesis by (simp add: out_inv_def)
qed

lemma received_sys:
  assumes "exec_received a1 a2 e = (ex, fs)"
  shows "out_off ex err = out_off e err + (if err then a2 else a1)" "e_conn ex = e_conn e" "e_gen ex = e_gen e"
    "e_exited ex = e_exited e" "e_resumable ex = e_resumable e" "ended ex = ended e"
    "FPing pg \<in> set fs \<Longrightarrow> pg_stdout pg = out_off ex False \<and> pg_stderr pg = out_off ex True"
  using assms by (auto simp: exec_received_def Let_def out_off_def ended_def split: if_splits)

lemma out_ClientReceived:
  assumes inv: "out_inv s" and hand: "s_chand s t = CData err [] n" and at: "e_conn (s_ex s)" "e_gen (s_ex s) = t"
    and r: "exec_received (if err then 0 else int n) (if err then int n else 0) (s_ex s) = (ex, fs)"
  shows "out_inv (put_up t fs (s\<lparr>s_ex := ex, s_chand := (s_chand s)(t := CIdle)\<rparr>))" (is "out_inv ?s")
proof -
  note sys = received_sys [OF r]
  have cl: "\<not> e_exited (s_ex s)" "s_dial s = None" using out_parts(2) [OF inv] at by (simp_all add: client_ok_def)
  have off: "out_off ex e = out_off (s_ex s) e + (if e = err then int n else 0)" for e
    by (simp add: sys)
  have all: "out_off ex e = int (length (deliv s e))" for e
    using out_parts(2) [OF inv] at hand cl off [of e] by (simp add: client_ok_def)
  have "streams_ok ?s"
    using out_parts(1) [OF inv] all off by (auto simp: streams_ok_def sys intro: order_trans)
  moreover have "client_ok ?s"
    using out_parts(2) [OF inv] cl at all by (simp add: client_ok_def sys)
  moreover have "sender_ok ?s u" for u
    using out_parts(3) [OF inv, of u] by (subst sender_ok_cong [of _ u s]) simp_all
  moreover have "reading_ok ?s u" for u
    using hand cl by (rule_tac reading_ok_same [OF out_parts(4) [OF inv, of u]]) (auto simp: reading_def sys)
  moreover have "link_ok ?s u" for u
    using off hand cl sys(2,3,7) put_up_unused [of "s\<lparr>s_ex := ex, s_chand := (s_chand s)(t := CIdle)\<rparr>" u t fs]
    by (rule_tac link_ok_mono [OF out_parts(5) [OF inv, of u]]) (auto split: if_splits)
  ultimately show ?thesis by (simp add: out_inv_def)
qed

lemma put_up_chand:
  "put_up t fs (s\<lparr>s_chand := c, s_ex := ex, s_creader := r\<rparr>) = (put_up t fs (s\<lparr>s_ex := ex, s_creader := r\<rparr>))\<lparr>s_chand := c\<rparr>"
  by (simp add: put_up_def set_link_def)

text \<open>A frame in hand that is no output is done with.\<close>

lemma out_hand_done:
  assumes inv: "out_inv s" and hand: "s_chand s t = CFrame f" and f: "\<not> is_exit f \<or> e_exited (s_ex s)"
  shows "out_inv (s\<lparr>s_chand := (s_chand s)(t := CIdle)\<rparr>)" (is "out_inv ?s")
proof -
  have "streams_ok ?s" using out_parts(1) [OF inv] by (simp add: streams_ok_def)
  moreover have "client_ok ?s"
    using out_parts(2) [OF inv] hand by (auto simp: client_ok_def)
  moreover have "sender_ok ?s u" for u
    using out_parts(3) [OF inv, of u] by (subst sender_ok_cong [of _ u s]) simp_all
  moreover have "reading_ok ?s u" for u
  proof (cases "e_exited (s_ex s)")
    case False
    then show ?thesis
      using hand f by (rule_tac reading_ok_same [OF out_parts(4) [OF inv, of u]]) (auto simp: reading_def)
  qed (simp add: reading_ok_def reading_def)
  moreover have "link_ok ?s u" for u
    using hand out_parts(5) [OF inv, of t]
    by (rule_tac link_ok_mono [OF out_parts(5) [OF inv, of u]]) (auto simp: link_ok_def)
  ultimately show ?thesis by (simp add: out_inv_def)
qed

lemma quiet_ping: "client_quiet e (exec_ping pg e)" "e_conn (exec_ping pg e) = e_conn e"
  by (simp_all add: client_quiet_def exec_ping_def ended_def)

text \<open>The EXIT ends the client, with all output delivered.\<close>

lemma out_exit:
  assumes inv: "out_inv s" and hand: "s_chand s t = CFrame (FExit (Some st))" and at: "e_conn (s_ex s)" "e_gen (s_ex s) = t"
    and x: "exec_exit st (s_ex s) = (ex, fs)"
  shows "out_inv (put_up t fs (s\<lparr>s_ex := ex, s_creader := cr\<rparr>))" (is "out_inv ?s")
proof -
  have cl: "\<not> e_exited (s_ex s)" "s_dial s = None" using out_parts(2) [OF inv] at by (simp_all add: client_ok_def)
  have sys: "out_off ex = out_off (s_ex s)" "e_conn ex = False" "e_exited ex" "e_resumable ex = e_resumable (s_ex s)"
    "e_gen ex = e_gen (s_ex s)" "\<And>pg. FPing pg \<notin> set fs"
    using x cl by (auto simp: exec_exit_def exec_finish_def out_off_def fun_eq_iff split: if_splits)
  have all: "deliv s err = kept s err \<and> out_done (s_pr s) err" for err
  proof -
    have "reading s t" using cl at by (simp add: reading_def)
    then have "length (deliv s err) = length (kept s err)" "out_done (s_pr s) err"
      using out_parts(4) [OF inv, of t] hand by (auto simp: reading_ok_def queue_exits_def queue_def)
    moreover have "prefix (deliv s err) (kept s err)" using out_parts(1) [OF inv] by (simp add: streams_ok_def)
    ultimately show ?thesis by (auto simp: prefix_def)
  qed
  have "streams_ok ?s" using out_parts(1) [OF inv] by (simp add: streams_ok_def sys)
  moreover have "client_ok ?s" using all by (simp add: client_ok_def sys)
  moreover have "sender_ok ?s u" for u
    using out_parts(3) [OF inv, of u] by (subst sender_ok_cong [of _ u s]) simp_all
  moreover have "reading_ok ?s u" for u by (simp add: reading_ok_def reading_def sys)
  moreover have "link_ok ?s u" for u
    using sys(6) put_up_unused [of "s\<lparr>s_ex := ex, s_creader := cr\<rparr>" u t fs]
    by (rule_tac link_ok_mono [OF out_parts(5) [OF inv, of u]]) (auto simp: sys cl split: if_splits)
  ultimately show ?thesis by (simp add: out_inv_def)
qed

lemma out_ClientFrame:
  assumes inv: "out_inv s" and hand: "s_chand s t = CFrame f" and at: "e_conn (s_ex s)" "e_gen (s_ex s) = t"
  shows "out_inv (client_frame t f s)"
proof (cases "is_exit f")
  case True
  then obtain st where f: "f = FExit (Some st)" by (auto split: frame.splits option.splits)
  obtain ex fs where x: "exec_exit st (s_ex s) = (ex, fs)" by fastforce
  let ?s = "put_up t fs (s\<lparr>s_ex := ex, s_creader := (s_creader s)(t := False)\<rparr>)"
  have i: "out_inv ?s" using out_exit [OF inv hand [unfolded f] at x] .
  have "e_exited (s_ex ?s)" using x by (auto simp: exec_exit_def exec_finish_def split: if_splits)
  then have "out_inv (?s\<lparr>s_chand := (s_chand ?s)(t := CIdle)\<rparr>)"
    using i hand by (rule_tac out_hand_done [of _ _ f]) auto
  then show ?thesis using x by (simp add: f client_frame_def Let_def put_up_chand)
next
  case False
  have i: "out_inv (s\<lparr>s_chand := (s_chand s)(t := CIdle)\<rparr>)" using out_hand_done [OF inv hand] False by simp
  have "out_inv (s\<lparr>s_chand := (s_chand s)(t := CIdle), s_ex := exec_ping pg (s_ex s)\<rparr>)" for pg
    using out_quiet_client0 [OF i, of "exec_ping pg (s_ex s)" "[]" t] quiet_ping at by simp
  with i False show ?thesis by (auto simp: client_frame_def Let_def split: frame.splits option.splits)
qed

section \<open>Dialling again\<close>

lemma out_Dial:
  assumes inv: "out_inv s" and c: "\<not> e_conn (s_ex s)" "s_dial s = None" and t: "t = s_next s"
  shows "out_inv (set_link t (\<lambda>_. new_link (Some (e_outOff (s_ex s), e_errOff (s_ex s)))) (s\<lparr>s_next := Suc t, s_dial := Some t\<rparr>))"
    (is "out_inv ?s")
proof -
  have new: "\<not> s_areader s t" "s_chand s t = CIdle" "a_hand (p_atts (s_pr s) t) = Idle"
    using out_parts(5) [OF inv, of t] t by (simp_all add: link_ok_def)
  have pos: "0 \<le> out_off (s_ex s) err" for err using out_parts(1) [OF inv] by (simp add: streams_ok_def)
  have "streams_ok ?s" using out_parts(1) [OF inv] by (simp add: streams_ok_def)
  moreover have "client_ok ?s" using out_parts(2) [OF inv] c by (simp add: client_ok_def)
  moreover have "sender_ok ?s u" for u
    using out_parts(3) [OF inv, of u] new by (cases "u = t") (simp_all add: sender_ok_def Let_def)
  moreover have "reading_ok ?s u" for u
    using c new
    by (cases "u = t") (simp_all add: reading_ok_def reading_def queue_def queue_exits_def new_link_def)
  moreover have "link_ok ?s u" for u
  proof (cases "u = t")
    case True
    have "pg_stdout pg \<le> out_off (s_ex s) False \<and> pg_stderr pg \<le> out_off (s_ex s) True" if "s_ahand s t = Some (FPing pg)" for pg
      using out_parts(5) [OF inv, of t] that by (simp add: link_ok_def)
    with True show ?thesis using new c pos [of False] pos [of True] by (auto simp: link_ok_def new_link_def out_off_def)
  next
    case False
    then show ?thesis using out_parts(5) [OF inv, of u] c t by (simp add: link_ok_def)
  qed
  ultimately show ?thesis by (simp add: out_inv_def)
qed

lemma out_undial:
  assumes inv: "out_inv s"
  shows "out_inv (s\<lparr>s_dial := None\<rparr>)" (is "out_inv ?s")
proof -
  have "streams_ok ?s" using out_parts(1) [OF inv] by (simp add: streams_ok_def)
  moreover have "client_ok ?s" using out_parts(2) [OF inv] by (simp add: client_ok_def)
  moreover have "sender_ok ?s u" for u
    using out_parts(3) [OF inv, of u] by (subst sender_ok_cong [of _ u s]) simp_all
  moreover have "reading_ok ?s u" for u
    by (rule reading_ok_same [OF out_parts(4) [OF inv, of u]]) (auto simp: reading_def)
  moreover have "link_ok ?s u" for u
    by (rule link_ok_mono [OF out_parts(5) [OF inv, of u]]) auto
  ultimately show ?thesis by (simp add: out_inv_def)
qed

lemma exec_attach_cases:
  assumes "exec_attach t (Some rep) e = (ex, fs)"
  shows "(ex = e \<and> e_exited e \<or> ex = exec_finish no_status (Some ErrResumeInput) e) \<or>
     (\<exists>resend. ring_From (rr_stdin rep) (e_in e) = Some resend \<and> \<not> e_exited e \<and>
      ex = e\<lparr>e_in := ring_Trim (rr_stdin rep) (e_in e), e_gen := t, e_conn := True, e_detached := False\<rparr>)"
  and "FPing pg \<notin> set fs"
  using assms by (auto simp: exec_attach_def split: if_splits option.splits)

lemma exec_reattach_cases:
  assumes "exec_reattach t f e = (ex, fs)" and "\<not> e_conn e"
  shows "client_quiet e ex \<and> \<not> e_conn ex \<or>
     (\<exists>rep. f = FResume rep \<and> rr_stdout rep = e_outOff e \<and> rr_stderr rep = e_errOff e \<and> \<not> e_exited e \<and>
      ex = e\<lparr>e_in := ring_Trim (rr_stdin rep) (e_in e), e_gen := t, e_conn := True, e_detached := False\<rparr>)"
  and "FPing pg \<notin> set fs"
proof -
  have fin: "client_quiet e (exec_finish no_status (Some er) e)" "\<not> e_conn (exec_finish no_status (Some er) e)" for er
    using assms(2) by (auto simp: quiet_finish) (simp add: exec_finish_def split: if_splits)
  show "client_quiet e ex \<and> \<not> e_conn ex \<or>
     (\<exists>rep. f = FResume rep \<and> rr_stdout rep = e_outOff e \<and> rr_stderr rep = e_errOff e \<and> \<not> e_exited e \<and>
      ex = e\<lparr>e_in := ring_Trim (rr_stdin rep) (e_in e), e_gen := t, e_conn := True, e_detached := False\<rparr>)"
    using assms by (auto simp: exec_reattach_def fin split: if_splits frame.splits dest!: exec_attach_cases(1))
  show "FPing pg \<notin> set fs"
    using assms exec_attach_cases(2) [of t _ e ex fs]
    by (auto simp: exec_reattach_def split: if_splits frame.splits)
qed

lemma out_unread:
  assumes inv: "out_inv s" and r: "\<not> reading s t" and d: "s_dial s \<noteq> Some t" and h: "lk_header (s_links s t) = None" and n: "t < s_next s"
  shows "out_inv (set_link t (\<lambda>l. l\<lparr>lk_down := fs\<rparr>) s)" (is "out_inv ?s")
proof -
  have "streams_ok ?s" using out_parts(1) [OF inv] by (simp add: streams_ok_def)
  moreover have "client_ok ?s" using out_parts(2) [OF inv] by (simp add: client_ok_def)
  moreover have "sender_ok ?s u" for u
    using out_parts(3) [OF inv, of u] by (subst sender_ok_cong [of _ u s]) simp_all
  moreover have "reading_ok ?s u" for u
  proof (cases "u = t")
    case True
    have "\<not> reading ?s t" using r by (simp add: reading_def)
    with True show ?thesis by (simp add: unread_ok)
  next
    case False
    then show ?thesis by (rule_tac reading_ok_same [OF out_parts(4) [OF inv, of u]]) (auto simp: reading_def)
  qed
  moreover have "link_ok ?s u" for u
    using h n by (rule_tac link_ok_mono [OF out_parts(5) [OF inv, of u]]) (auto split: if_splits)
  ultimately show ?thesis by (simp add: out_inv_def)
qed

lemma out_resumed:
  assumes inv: "out_inv s" and d: "s_dial s = Some t" and down: "lk_down (s_links s t) = FResume rep # fs"
    and x: "\<not> e_exited (s_ex s)"
    and ex: "ex = (s_ex s)\<lparr>e_in := r, e_gen := t, e_conn := True, e_detached := False\<rparr>"
    and pings: "\<And>pg. FPing pg \<notin> set out"
  shows "out_inv (put_up t out (set_link t (\<lambda>l. l\<lparr>lk_down := fs\<rparr>) (s\<lparr>s_ex := ex, s_dial := None, s_creader := cr\<rparr>)))"
    (is "out_inv ?s")
proof -
  have c: "\<not> e_conn (s_ex s)" using out_parts(2) [OF inv] d by (auto simp: client_ok_def)
  have l: "s_chand s t = CIdle" "t < s_next s" "lk_header (s_links s t) = None"
    using link_dialled [OF out_parts(5) [OF inv] d] down by auto
  have off: "out_off ex = out_off (s_ex s)" by (simp add: ex out_off_def fun_eq_iff)
  have "streams_ok ?s" using out_parts(1) [OF inv] off by (simp add: streams_ok_def ex)
  moreover have "client_ok ?s" using out_parts(2) [OF inv] c x l off by (simp add: client_ok_def ex ended_def)
  moreover have "sender_ok ?s u" for u
    using out_parts(3) [OF inv, of u] by (subst sender_ok_cong [of _ u s]) simp_all
  moreover have "reading_ok ?s u" for u
  proof (cases "u = t")
    case True
    have "queue ?s err t = queue s err t" "queue_exits ?s t = queue_exits s t" "reading s t" for err
      using down d x by (cases err; simp add: queue_def queue_exits_def reading_def)+
    then show ?thesis using True out_parts(4) [OF inv, of t] down by (simp add: reading_ok_def)
  qed (simp add: reading_ok_def reading_def ex)
  moreover have "link_ok ?s u" for u
    using put_up_unused [of "set_link t (\<lambda>l. l\<lparr>lk_down := fs\<rparr>) (s\<lparr>s_ex := ex, s_dial := None, s_creader := cr\<rparr>)" u t out]
      pings d l off
    by (rule_tac link_ok_mono [OF out_parts(5) [OF inv, of u]]) (auto simp: ex split: if_splits)
  ultimately show ?thesis by (simp add: out_inv_def)
qed

lemma out_Reattach:
  assumes inv: "out_inv s" and d: "s_dial s = Some t" and down: "lk_down (s_links s t) = f # fs"
    and r: "exec_reattach t f (s_ex s) = (ex, out)"
  shows "out_inv (put_up t out (set_link t (\<lambda>l. l\<lparr>lk_down := fs\<rparr>) (s\<lparr>s_ex := ex, s_dial := None, s_creader := cr\<rparr>)))"
proof -
  have c: "\<not> e_conn (s_ex s)" using out_parts(2) [OF inv] d by (auto simp: client_ok_def)
  have l: "t < s_next s" "lk_header (s_links s t) = None"
    using link_dialled [OF out_parts(5) [OF inv] d] down by auto
  note cases = exec_reattach_cases [OF r c]
  let ?s1 = "set_link t (\<lambda>l. l\<lparr>lk_down := fs\<rparr>) (s\<lparr>s_dial := None\<rparr>)"
  have i: "out_inv ?s1" using l c by (rule_tac out_unread [OF out_undial [OF inv]]) (auto simp: reading_def)
  have "out_inv (put_up t out (?s1\<lparr>s_ex := ex, s_creader := cr\<rparr>))" if "client_quiet (s_ex s) ex"
    using out_quiet_client [OF i, of ex out t cr] that c cases(2) by auto
  moreover have "?s1\<lparr>s_ex := ex, s_creader := cr\<rparr> =
      set_link t (\<lambda>l. l\<lparr>lk_down := fs\<rparr>) (s\<lparr>s_ex := ex, s_dial := None, s_creader := cr\<rparr>)"
    by (simp add: set_link_def)
  ultimately have "client_quiet (s_ex s) ex \<Longrightarrow> ?thesis" by simp
  then show ?thesis
    using cases(1) out_resumed [OF inv d _ _ _ cases(2)] down by blast
qed

end
