(* ===== verification/ExecSender.thy ===== *)
theory ExecSender
  imports ExecDelivery
begin

text \<open>
  The agent's steps keep the invariant of the output, and what follows for every run: the output that
  reached the client is a first part of what the agent kept, all of it once the client has the
  command's status, and a client that re-attaches is refused only by a command that has ended.
\<close>

section \<open>Attaching\<close>

lemma attach_sys:
  assumes "proc_attach t o1 o2 p = Inr (p', rep)"
  shows "\<not> p_finished p" "ring_From o1 (p_out p) \<noteq> None" "ring_From o2 (p_errOut p) \<noteq> None"
    "p_resumable p' = p_resumable p" "out_done p' = out_done p"
    "out_ring p' err = (if p_resumable p then ring_Trim (if err then o2 else o1) (out_ring p err) else out_ring p err)"
    "sent_off (p_atts p' u) err = (if u = t then if err then o2 else o1 else sent_off (p_atts p u) err)"
    "a_hand (p_atts p' u) = a_hand (p_atts p u)"
    "rep = \<lparr>rr_stdin = p_inRecv p, rr_stdout = o1, rr_stderr = o2\<rparr>"
  using assms
  by (auto simp: proc_attach_def Let_def set_att_def out_done_def out_ring_def sent_off_def fun_eq_iff
      split: if_splits option.splits)

lemma out_Accept:
  assumes inv: "out_inv s" and h: "lk_header (s_links s t) = Some (o1, o2)"
    and p: "proc_attach t o1 o2 (s_pr s) = Inr (p, rep)"
  shows "out_inv (put_down t [FResume rep] (set_link t (\<lambda>l. l\<lparr>lk_header := None\<rparr>)
       (s\<lparr>s_pr := p, s_areader := (s_areader s)(t := True)\<rparr>)))" (is "out_inv ?s")
proof -
  note sys = attach_sys [OF p]
  have o: "0 \<le> o1" "o1 \<le> out_off (s_ex s) False" "0 \<le> o2" "o2 \<le> out_off (s_ex s) True"
    and d: "s_dial s = Some t \<Longrightarrow> o1 = out_off (s_ex s) False \<and> o2 = out_off (s_ex s) True \<and> s_chand s t = CIdle"
    using out_parts(5) [OF inv, of t] h by (simp_all add: link_ok_def)
  note lh = link_headed [OF out_parts(5) [OF inv] h]
  have n: "t < s_next s" using out_parts(5) [OF inv, of t] h by (force simp: link_ok_def no_link_def)
  have tail: "keeps_tail (out_ring (s_pr s) err) (kept s err)" for err
    using out_parts(1) [OF inv] by (simp add: streams_ok_def)
  have le: "o1 \<le> int (length (kept s False))" "o2 \<le> int (length (kept s True))"
    using ring.replay_known [OF tail [of False], of o1] ring.replay_known [OF tail [of True], of o2] sys(2,3)
    by (simp_all add: out_ring_def)
  have "streams_ok ?s"
  proof -
    have "r_base (ring_Trim (if err then o2 else o1) (out_ring (s_pr s) err)) \<le> out_off (s_ex s) err"
      if "p_resumable (s_pr s)" for err
      using o out_parts(1) [OF inv] that by (intro ring.acknowledge_within [OF tail]) (cases err; simp add: streams_ok_def)+
    then show ?thesis using out_parts(1) [OF inv] Trim_keeps [OF tail] by (auto simp: streams_ok_def sys)
  qed
  moreover have "client_ok ?s" using out_parts(2) [OF inv] by (simp add: client_ok_def sys)
  moreover have "sender_ok ?s u" for u
  proof (cases "u = t")
    case True
    then show ?thesis using lh(3) o le by (simp add: sender_ok_def Let_def sys)
  next
    case False
    then show ?thesis using out_parts(3) [OF inv, of u] by (simp add: sender_ok_def Let_def sys)
  qed
  moreover have "reading_ok ?s u" for u
  proof (cases "u = t")
    case True
    have "out_off (s_ex s) err = int (length (deliv s err))" if "reading s t" for err
      using that lh(4) out_parts(2) [OF inv] by (auto simp: reading_def client_ok_def)
    then show ?thesis
      using True lh d by (cases "reading s t")
        (auto simp: reading_ok_def reading_def queue_def queue_exits_def sys)
  next
    case False
    have "queue ?s err u = queue s err u" "queue_exits ?s u = queue_exits s u" "reading ?s u = reading s u" for err
      using False by (simp_all add: queue_def queue_exits_def reading_def)
    with False show ?thesis using out_parts(4) [OF inv, of u] by (simp add: reading_ok_def sys)
  qed
  moreover have "link_ok ?s u" for u
    using n lh by (rule_tac link_ok_mono [OF out_parts(5) [OF inv, of u]])
      (auto simp: sys put_down_def split: if_splits)
  ultimately show ?thesis by (simp add: out_inv_def)
qed

lemma out_Refuse:
  assumes inv: "out_inv s" and h: "lk_header (s_links s t) = Some (o1, o2)"
  shows "out_inv (put_down t [FOpenGone] (set_link t (\<lambda>l. l\<lparr>lk_header := None\<rparr>) s))" (is "out_inv ?s")
proof -
  have n: "t < s_next s" using out_parts(5) [OF inv, of t] h by (force simp: link_ok_def no_link_def)
  note lh = link_headed [OF out_parts(5) [OF inv] h]
  have "streams_ok ?s" using out_parts(1) [OF inv] by (simp add: streams_ok_def)
  moreover have "client_ok ?s" using out_parts(2) [OF inv] by (simp add: client_ok_def)
  moreover have "sender_ok ?s u" for u
    using out_parts(3) [OF inv, of u] by (subst sender_ok_cong [of _ u s]) simp_all
  moreover have "reading_ok ?s u" for u
  proof -
    have "queue ?s err u = queue s err u" "queue_exits ?s u = queue_exits s u" "reading ?s u = reading s u"
      "exit_last (lk_down (s_links ?s u)) = exit_last (lk_down (s_links s u))"
      "bytes_of err (lk_down (s_links ?s u)) = bytes_of err (lk_down (s_links s u))" for err
      using lh by (cases err; auto simp: queue_def queue_exits_def reading_def)+
    then show ?thesis using out_parts(4) [OF inv, of u] by (cases "u = t") (simp_all add: reading_ok_def)
  qed
  moreover have "link_ok ?s u" for u
    using n lh by (rule_tac link_ok_mono [OF out_parts(5) [OF inv, of u]])
      (auto simp: put_down_def split: if_splits)
  ultimately show ?thesis by (simp add: out_inv_def)
qed

section \<open>Output of the command\<close>

lemma prefix_drop_grow: "prefix a (drop n k) \<Longrightarrow> prefix a (drop n (k @ c))"
  by (auto intro: prefix_order.trans)

lemma out_grows:
  assumes inv: "out_inv s"
    and same: "s_ex s' = s_ex s" "s_links s' = s_links s" "s_next s' = s_next s" "s_dial s' = s_dial s" "s_chand s' = s_chand s"
      "s_ahand s' = s_ahand s" "s_areader s' = s_areader s" "deliv s' = deliv s" "p_resumable (s_pr s') = p_resumable (s_pr s)"
      "p_atts (s_pr s') = p_atts (s_pr s)" "out_done (s_pr s') = out_done (s_pr s)"
    and more: "\<And>e. kept s' e = kept s e @ c e" "\<And>e. keeps_tail (out_ring (s_pr s') e) (kept s e @ c e)"
      "\<And>e. r_base (out_ring (s_pr s') e) = r_base (out_ring (s_pr s) e)"
    and open_end: "\<not> (\<forall>e. out_done (s_pr s) e)"
  shows "out_inv s'"
proof -
  have q: "queue s' e u = queue s e u" "queue_exits s' u = queue_exits s u" "reading s' u = reading s u" for e u
    by (simp_all add: queue_def queue_exits_def reading_def same)
  have "streams_ok s'" using out_parts(1) [OF inv] by (simp add: streams_ok_def same more)
  moreover have "client_ok s'" using out_parts(2) [OF inv] open_end by (auto simp: client_ok_def same)
  moreover have "sender_ok s' u" for u
  proof -
    let ?a = "p_atts (s_pr s) u"
    have h: "sender_ok s u" by (rule out_parts(3) [OF inv])
    have "\<not> hand_exits (a_hand ?a)" using h open_end by (auto simp: sender_ok_def Let_def)
    moreover have "sent_off ?a e \<le> int (length (kept s e)) + int (length (c e)) \<and>
        prefix (hand_bytes (a_hand ?a) e) (drop (nat (sent_off ?a e)) (kept s e @ c e))" for e
      using h prefix_drop_grow [of "hand_bytes (a_hand ?a) e" "nat (sent_off ?a e)" "kept s e" "c e"]
      by (simp add: sender_ok_def Let_def add_increasing2)
    ultimately show ?thesis using h by (simp add: sender_ok_def Let_def same more del: drop_append)
  qed
  moreover have "reading_ok s' u" for u
  proof -
    have h: "reading_ok s u" by (rule out_parts(4) [OF inv])
    have "reading s u \<Longrightarrow> \<not> queue_exits s u" using h open_end by (auto simp: reading_ok_def)
    moreover have "reading s u \<Longrightarrow> prefix (queue s e u) (drop (length (deliv s e)) (kept s e @ c e))" for e
      using h by (intro prefix_drop_grow) (simp add: reading_ok_def)
    ultimately show ?thesis using h by (simp add: reading_ok_def q same more del: drop_append)
  qed
  moreover have "link_ok s' u" for u
    by (rule link_ok_mono [OF out_parts(5) [OF inv, of u]]) (auto simp: same)
  ultimately show ?thesis by (simp add: out_inv_def)
qed

lemma pump_sys:
  "p_resumable (pump err b p) = p_resumable p" "p_atts (pump err b p) = p_atts p" "out_done (pump err b p) = out_done p"
  "out_ring (pump err b p) e = (if e = err \<and> \<not> p_dropOutput p then ring_Append b (out_ring p e) else out_ring p e)"
  by (auto simp: pump_def out_done_def out_ring_def fun_eq_iff)

lemma out_Output:
  assumes inv: "out_inv s" and nd: "\<not> (if err then p_errDone (s_pr s) else p_outDone (s_pr s))"
  shows "out_inv (s\<lparr>s_pr := pump err b (s_pr s), g_dropped := dr,
       g_out := (if err \<or> p_dropOutput (s_pr s) then g_out s else g_out s @ b),
       g_err := (if err \<and> \<not> p_dropOutput (s_pr s) then g_err s @ b else g_err s)\<rparr>)" (is "out_inv ?s")
proof -
  have tail: "keeps_tail (out_ring (s_pr s) e) (kept s e)" for e using out_parts(1) [OF inv] by (simp add: streams_ok_def)
  let ?c = "\<lambda>e. if e = err \<and> \<not> p_dropOutput (s_pr s) then b else []"
  show ?thesis
    using nd Append_keeps [OF tail] tail
    by (rule_tac out_grows [OF inv, where c = ?c])
      (auto simp: pump_sys kept_def deliv_def out_done_def fun_eq_iff split: if_splits)
qed

section \<open>Sending\<close>

lemma pick_sys:
  "p_resumable (send_pick t p) = p_resumable p" "out_ring (send_pick t p) = out_ring p" "out_done (send_pick t p) = out_done p"
  "sent_off (p_atts (send_pick t p) u) = sent_off (p_atts p u)"
  "u \<noteq> t \<Longrightarrow> p_atts (send_pick t p) u = p_atts p u"
  "\<exists>ack st. a_hand (p_atts (send_pick t p) t) = Picked (chunkFrom (p_out p) (a_sentOut (p_atts p t)))
      (chunkFrom (p_errOut p) (a_sentErr (p_atts p t))) ack st \<and>
     (st \<noteq> None \<longrightarrow> chunkFrom (p_out p) (a_sentOut (p_atts p t)) = [] \<and>
        chunkFrom (p_errOut p) (a_sentErr (p_atts p t)) = [] \<and> exitReady t p)"
  by (auto simp: send_pick_def Let_def set_att_def out_ring_def out_done_def sent_off_def fun_eq_iff)

lemma chunk_prefix: "keeps_tail r k \<Longrightarrow> prefix (chunkFrom r off) (drop (nat off) k)"
  using From_tail [of r k off] by (auto simp: chunkFrom_def take_is_prefix)

lemma chunk_at_end: "keeps_tail r k \<Longrightarrow> chunkFrom r (int (length k)) = []"
  using From_tail [of r k "int (length k)"] by (auto simp: chunkFrom_def)

lemma out_Pick:
  assumes inv: "out_inv s" and r: "s_areader s t" and idle: "a_hand (p_atts (s_pr s) t) = Idle"
  shows "out_inv (s\<lparr>s_pr := send_pick t (s_pr s)\<rparr>)" (is "out_inv ?s")
proof -
  note sys = pick_sys(1-3) [of t "s_pr s"] pick_sys(4,5) [where t = t and p = "s_pr s"] pick_sys(6) [of t "s_pr s"]
  obtain ack st where h: "a_hand (p_atts (s_pr ?s) t) = Picked (chunkFrom (out_ring (s_pr s) False) (sent_off (p_atts (s_pr s) t) False))
      (chunkFrom (out_ring (s_pr s) True) (sent_off (p_atts (s_pr s) t) True)) ack st"
    and x: "st \<noteq> None \<Longrightarrow> (\<forall>err. chunkFrom (out_ring (s_pr s) err) (sent_off (p_atts (s_pr s) t) err) = []) \<and> exitReady t (s_pr s)"
    using sys(6) by (auto simp: out_ring_def sent_off_def)
  have tail: "keeps_tail (out_ring (s_pr s) err) (kept s err)" for err
    using out_parts(1) [OF inv] by (simp add: streams_ok_def)
  have ready: "exitReady t (s_pr s) \<Longrightarrow> out_done (s_pr s) err \<and> sent_off (p_atts (s_pr s) t) err = int (length (kept s err))" for err
    using keeps_tail_End [OF tail, of err] by (auto simp: exitReady_def out_done_def sent_off_def out_ring_def)
  have "streams_ok ?s" using out_parts(1) [OF inv] by (simp add: streams_ok_def sys)
  moreover have "client_ok ?s" using out_parts(2) [OF inv] by (simp add: client_ok_def sys)
  moreover have "sender_ok ?s u" for u
  proof (cases "u = t")
    case True
    then show ?thesis using out_parts(3) [OF inv, of t] h x ready r chunk_prefix [OF tail] chunk_at_end [OF tail] sys(3) sys(4) [of t]
      by (simp add: sender_ok_def Let_def)
  next
    case False
    then show ?thesis using out_parts(3) [OF inv, of u] by (simp add: sender_ok_def Let_def sys)
  qed
  moreover have "reading_ok ?s u" for u
  proof -
    have "queue ?s err u = queue s err u" "queue_exits ?s u = queue_exits s u" "reading ?s u = reading s u"
      "written_bytes (a_hand (p_atts (s_pr ?s) u)) err = written_bytes (a_hand (p_atts (s_pr s) u)) err" for err
      using h idle sys(5) [of u] by (cases "u = t"; simp add: queue_def queue_exits_def reading_def)+
    then show ?thesis using out_parts(4) [OF inv, of u] by (simp add: reading_ok_def sys)
  qed
  moreover have "link_ok ?s u" for u
    using r link_headed(2) [OF out_parts(5) [OF inv, of u]] sys(5) [of u]
    by (cases "u = t"; rule_tac link_ok_mono [OF out_parts(5) [OF inv, of u]]) auto
  ultimately show ?thesis by (simp add: out_inv_def)
qed

lemma nothing_after_append:
  "nothing_after P (xs @ ys) \<longleftrightarrow> nothing_after P xs \<and> nothing_after P ys \<and> (list_ex P xs \<longrightarrow> (\<forall>err. bytes_of err ys = []))"
  by (induction xs) auto

lemma picked_out:
  "bytes_of err (picked_frames (Picked b1 b2 ack st)) = hand_bytes (Picked b1 b2 ack st) err"
  "list_ex is_exit (picked_frames (Picked b1 b2 ack st)) = (st \<noteq> None)"
  "exit_last (picked_frames (Picked b1 b2 ack st))"
  by (cases err; auto split: option.split)+

lemma written_sys:
  assumes "a_hand (p_atts p t) = Picked b1 b2 ack st"
  shows "p_resumable (send_written t p) = p_resumable p" "out_ring (send_written t p) = out_ring p"
    "out_done (send_written t p) = out_done p"
    "sent_off (p_atts (send_written t p) u) = sent_off (p_atts p u)"
    "a_hand (p_atts (send_written t p) u) = (if u = t then Written b1 b2 (st \<noteq> None) else a_hand (p_atts p u))"
  using assms by (auto simp: send_written_def set_att_def out_ring_def out_done_def sent_off_def fun_eq_iff)

lemma prefix_extend: "prefix q (drop d k) \<Longrightarrow> prefix b (drop (d + length q) k) \<Longrightarrow> prefix (q @ b) (drop d k)"
proof -
  assume q: "prefix q (drop d k)" and b: "prefix b (drop (d + length q) k)"
  from q obtain z where z: "drop d k = q @ z" by (auto simp: prefix_def)
  have "drop (d + length q) k = drop (length q) (drop d k)" by (simp add: add.commute)
  with b z show ?thesis by simp
qed

lemma out_Write:
  assumes inv: "out_inv s" and hand: "a_hand (p_atts (s_pr s) t) = Picked b1 b2 ack st" and op: "lk_open (s_links s t)"
  shows "out_inv (put_down t (picked_frames (a_hand (p_atts (s_pr s) t))) (s\<lparr>s_pr := send_written t (s_pr s)\<rparr>))" (is "out_inv ?s")
proof -
  note sys = written_sys(1-3) [OF hand] written_sys(4,5) [OF hand]
  let ?b = "hand_bytes (Picked b1 b2 ack st)" and ?a = "p_atts (s_pr s) t"
  have snd: "sender_ok s t" by (rule out_parts(3) [OF inv])
  have r: "s_areader s t" using snd hand op by (simp add: sender_ok_def Let_def)
  have q: "queue ?s err t = queue s err t @ ?b err" for err
    using op by (simp add: queue_def hand picked_out del: picked_frames.simps)
  have qx: "queue_exits ?s t \<longleftrightarrow> queue_exits s t \<or> st \<noteq> None"
    using op by (auto simp: queue_exits_def hand picked_out simp del: picked_frames.simps)
  have "streams_ok ?s" using out_parts(1) [OF inv] by (simp add: streams_ok_def sys)
  moreover have "client_ok ?s" using out_parts(2) [OF inv] by (simp add: client_ok_def sys)
  moreover have "sender_ok ?s u" for u
    using out_parts(3) [OF inv, of u] hand r by (cases "u = t") (simp_all add: sender_ok_def Let_def sys)
  moreover have "reading_ok ?s u" for u
  proof (cases "u = t \<and> reading s t")
    case True
    then have rd: "reading s t" and u: "u = t" by simp_all
    have ok: "prefix (queue s err t) (drop (length (deliv s err)) (kept s err))"
      "int (length (deliv s err)) + int (length (queue s err t)) = sent_off ?a err"
      "queue_exits s t \<Longrightarrow> out_done (s_pr s) err \<and> length (deliv s err) + length (queue s err t) = length (kept s err)"
      "exit_last (lk_down (s_links s t))" "chand_exits (s_chand s t) \<Longrightarrow> bytes_of err (lk_down (s_links s t)) = []" for err
      using out_parts(4) [OF inv, of t] rd r op hand by (simp_all add: reading_ok_def)
    have pre: "prefix (?b err) (drop (length (deliv s err) + length (queue s err t)) (kept s err))" for err
    proof -
      have "nat (sent_off ?a err) = length (deliv s err) + length (queue s err t)" using ok(2) [of err] by linarith
      moreover have "prefix (?b err) (drop (nat (sent_off ?a err)) (kept s err))"
        using snd hand by (simp add: sender_ok_def Let_def)
      ultimately show ?thesis by simp
    qed
    have none: "queue_exits s t \<Longrightarrow> ?b err = []" for err using pre [of err] ok(3) [of err] by simp
    have stx: "st \<noteq> None \<Longrightarrow> out_done (s_pr s) err \<and> ?b err = [] \<and> sent_off ?a err = int (length (kept s err))" for err
      using snd hand by (simp add: sender_ok_def Let_def)
    have 1: "prefix (queue ?s err t) (drop (length (deliv s err)) (kept s err))" for err
      unfolding q by (rule prefix_extend [OF ok(1) pre])
    have 2: "int (length (deliv s err)) + int (length (queue ?s err t)) = sent_off ?a err + int (length (?b err))" for err
      using ok(2) [of err] by (simp add: q)
    have 3: "out_done (s_pr s) err \<and> length (deliv s err) + length (queue ?s err t) = length (kept s err)"
      if "queue_exits ?s t" for err
      using that none [of err] ok(2,3) [of err] stx [of err] by (auto simp: qx q)
    have dn: "lk_down (s_links ?s t) = lk_down (s_links s t) @ picked_frames (Picked b1 b2 ack st)"
      using op by (simp add: hand)
    have 4: "exit_last (lk_down (s_links ?s t))"
      using ok(4) none unfolding dn nothing_after_append by (simp only: picked_out) (simp add: queue_exits_def)
    have 5: "bytes_of err (lk_down (s_links ?s t)) = []" if "chand_exits (s_chand s t)" for err
      using that ok(5) [of err] none [of err] unfolding dn bytes_of_simps by (simp only: picked_out) (simp add: queue_exits_def)
    show ?thesis unfolding u reading_ok_def
      using 1 2 3 4 5 r by (auto simp: sys hand reading_def)
  next
    case False
    show ?thesis
    proof (cases "u = t")
      case True
      with False have "\<not> reading ?s u" by (simp add: reading_def)
      then show ?thesis by (rule unread_ok)
    next
      case False
      have "queue ?s err u = queue s err u" "queue_exits ?s u = queue_exits s u" "reading ?s u = reading s u" for err
        using False by (simp_all add: queue_def queue_exits_def reading_def)
      with False show ?thesis using out_parts(4) [OF inv, of u] by (simp add: reading_ok_def sys)
    qed
  qed
  moreover have "link_ok ?s u" for u
    using r op link_headed(2) [OF out_parts(5) [OF inv, of u]] put_down_unused [of "s\<lparr>s_pr := send_written t (s_pr s)\<rparr>" u t]
    by (cases "u = t"; rule_tac link_ok_mono [OF out_parts(5) [OF inv, of u]]) (auto simp: sys)
  ultimately show ?thesis by (simp add: out_inv_def)
qed

lemma out_trimmed:
  assumes inv: "out_inv s"
    and same: "p_resumable p = p_resumable (s_pr s)" "out_done p = out_done (s_pr s)" "p_atts p = p_atts (s_pr s)"
    and rg: "\<And>err. out_ring p err = ring_Trim (to err) (out_ring (s_pr s) err) \<or> out_ring p err = out_ring (s_pr s) err"
    and to: "\<And>err. p_resumable p \<Longrightarrow> to err \<le> out_off (s_ex s) err"
  shows "out_inv (s\<lparr>s_pr := p\<rparr>)" (is "out_inv ?s")
proof -
  have tail: "keeps_tail (out_ring (s_pr s) err) (kept s err)" for err using out_parts(1) [OF inv] by (simp add: streams_ok_def)
  have "keeps_tail (out_ring p err) (kept s err)" for err using rg [of err] tail Trim_keeps [OF tail] by metis
  moreover have "r_base (out_ring p err) \<le> out_off (s_ex s) err" if "p_resumable p" for err
  proof -
    have b: "r_base (out_ring (s_pr s) err) \<le> out_off (s_ex s) err" using out_parts(1) [OF inv] that same(1) by (simp add: streams_ok_def)
    show ?thesis using rg [of err] b ring.acknowledge_within [OF tail b to [OF that]] by auto
  qed
  ultimately have "streams_ok ?s" using out_parts(1) [OF inv] by (simp add: streams_ok_def same)
  moreover have "client_ok ?s" using out_parts(2) [OF inv] by (simp add: client_ok_def same)
  moreover have "sender_ok ?s u" for u
    using out_parts(3) [OF inv, of u] by (subst sender_ok_cong [of _ u s]) (simp_all add: same)
  moreover have "reading_ok ?s u" for u
    by (rule reading_ok_same [OF out_parts(4) [OF inv, of u]]) (auto simp: reading_def same)
  moreover have "link_ok ?s u" for u
    by (rule link_ok_mono [OF out_parts(5) [OF inv, of u]]) (auto simp: same)
  ultimately show ?thesis by (simp add: out_inv_def)
qed

definition send_count :: "nat \<Rightarrow> string \<Rightarrow> string \<Rightarrow> proc \<Rightarrow> proc" where
  "send_count t b1 b2 = set_att t (\<lambda>a. a\<lparr>a_sentOut := a_sentOut a + int (length b1),
     a_sentErr := a_sentErr a + int (length b2), a_hand := Idle\<rparr>)"

lemma count_sys:
  "p_resumable (send_count t b1 b2 p) = p_resumable p" "out_ring (send_count t b1 b2 p) = out_ring p"
  "out_done (send_count t b1 b2 p) = out_done p"
  "sent_off (p_atts (send_count t b1 b2 p) u) err =
     sent_off (p_atts p u) err + (if u = t then int (length (if err then b2 else b1)) else 0)"
  "a_hand (p_atts (send_count t b1 b2 p) u) = (if u = t then Idle else a_hand (p_atts p u))"
  by (auto simp: send_count_def set_att_def out_ring_def out_done_def sent_off_def fun_eq_iff)

lemma out_counted:
  assumes inv: "out_inv s" and hand: "a_hand (p_atts (s_pr s) t) = Written b1 b2 x"
  shows "out_inv (s\<lparr>s_pr := send_count t b1 b2 (s_pr s)\<rparr>)" (is "out_inv ?s")
proof -
  note sys = count_sys [where t = t and ?b1.0 = b1 and ?b2.0 = b2 and p = "s_pr s"]
  have "streams_ok ?s" using out_parts(1) [OF inv] by (simp add: streams_ok_def sys)
  moreover have "client_ok ?s" using out_parts(2) [OF inv] by (simp add: client_ok_def sys)
  moreover have "sender_ok ?s u" for u
  proof (cases "u = t")
    case True
    have "0 \<le> sent_off (p_atts (s_pr s) t) err + int (length (if err then b2 else b1)) \<and>
        sent_off (p_atts (s_pr s) t) err + int (length (if err then b2 else b1)) \<le> int (length (kept s err))" for err
    proof -
      have h: "0 \<le> sent_off (p_atts (s_pr s) t) err" "sent_off (p_atts (s_pr s) t) err \<le> int (length (kept s err))"
        "prefix (if err then b2 else b1) (drop (nat (sent_off (p_atts (s_pr s) t) err)) (kept s err))"
        using out_parts(3) [OF inv, of t] hand by (auto simp: sender_ok_def Let_def)
      from prefix_length_le [OF h(3)] h(1,2) show ?thesis by auto
    qed
    with True show ?thesis using out_parts(3) [OF inv, of t] by (simp add: sender_ok_def Let_def sys)
  next
    case False
    then show ?thesis using out_parts(3) [OF inv, of u] by (simp add: sender_ok_def Let_def sys)
  qed
  moreover have "reading_ok ?s u" for u
  proof -
    have same: "queue ?s err u = queue s err u" "queue_exits ?s u = queue_exits s u" "reading ?s u = reading s u"
      "sent_off (p_atts (s_pr ?s) u) err + int (written_bytes (a_hand (p_atts (s_pr ?s) u)) err) =
       sent_off (p_atts (s_pr s) u) err + int (written_bytes (a_hand (p_atts (s_pr s) u)) err)" for err
      using hand by (simp_all add: queue_def queue_exits_def reading_def sys)
    show ?thesis unfolding reading_ok_def same using out_parts(4) [OF inv, of u] by (simp add: reading_ok_def sys)
  qed
  moreover have "link_ok ?s u" for u
    by (rule link_ok_mono [OF out_parts(5) [OF inv, of u]]) (auto simp: sys)
  ultimately show ?thesis by (simp add: out_inv_def)
qed

lemma out_Sent:
  assumes inv: "out_inv s" and hand: "a_hand (p_atts (s_pr s) t) = Written b1 b2 x"
  shows "out_inv (s\<lparr>s_pr := send_done t (s_pr s)\<rparr>)"
proof -
  define p1 where "p1 = send_count t b1 b2 (s_pr s)"
  define p2 where "p2 = (if p_resumable p1 then p1
     else p1\<lparr>p_out := ring_Trim (a_sentOut (p_atts p1 t)) (p_out p1), p_errOut := ring_Trim (a_sentErr (p_atts p1 t)) (p_errOut p1)\<rparr>)"
  have d: "send_done t (s_pr s) = (if x \<and> \<not> p_resumable p2 then proc_finish p2 else p2)"
    using hand by (simp only: send_done_def p1_def p2_def send_count_def Let_def picked_output.case)
  have i1: "out_inv (s\<lparr>s_pr := p1\<rparr>)" using out_counted [OF inv hand] by (simp add: p1_def)
  have i2: "out_inv (s\<lparr>s_pr := p2\<rparr>)"
  proof (cases "p_resumable p1")
    case True
    then show ?thesis using i1 by (simp add: p2_def)
  next
    case False
    have "out_inv (s\<lparr>s_pr := p1, s_pr := p2\<rparr>)"
      by (rule out_trimmed [OF i1, where to = "sent_off (p_atts p1 t)"])
        (simp_all add: p2_def False out_done_def out_ring_def sent_off_def fun_eq_iff)
    then show ?thesis by simp
  qed
  have "out_inv (s\<lparr>s_pr := proc_finish p2\<rparr>)" using out_quiet_agent0 [OF i2] by simp
  with i2 show ?thesis by (simp add: d)
qed

section \<open>The reader of the agent\<close>

lemma out_AgentNext:
  assumes inv: "out_inv s" and up: "lk_up (s_links s t) = f # fs"
  shows "out_inv (set_link t (\<lambda>l. l\<lparr>lk_up := fs\<rparr>) (s\<lparr>s_ahand := (s_ahand s)(t := Some f)\<rparr>))" (is "out_inv ?s")
proof -
  have "streams_ok ?s" using out_parts(1) [OF inv] by (simp add: streams_ok_def)
  moreover have "client_ok ?s" using out_parts(2) [OF inv] by (simp add: client_ok_def)
  moreover have "sender_ok ?s u" for u
    using out_parts(3) [OF inv, of u] by (subst sender_ok_cong [of _ u s]) simp_all
  moreover have "reading_ok ?s u" for u
    by (rule reading_ok_same [OF out_parts(4) [OF inv, of u]]) (auto simp: reading_def)
  moreover have "link_ok ?s u" for u
    using up by (rule_tac link_ok_mono [OF out_parts(5) [OF inv, of u]]) (auto simp: no_link_def split: if_splits)
  ultimately show ?thesis by (simp add: out_inv_def)
qed

lemma out_unhand:
  assumes inv: "out_inv s"
  shows "out_inv (s\<lparr>s_ahand := (s_ahand s)(t := None)\<rparr>)" (is "out_inv ?s")
proof -
  have "streams_ok ?s" using out_parts(1) [OF inv] by (simp add: streams_ok_def)
  moreover have "client_ok ?s" using out_parts(2) [OF inv] by (simp add: client_ok_def)
  moreover have "sender_ok ?s u" for u
    using out_parts(3) [OF inv, of u] by (subst sender_ok_cong [of _ u s]) simp_all
  moreover have "reading_ok ?s u" for u
    by (rule reading_ok_same [OF out_parts(4) [OF inv, of u]]) (auto simp: reading_def)
  moreover have "link_ok ?s u" for u
    by (rule link_ok_mono [OF out_parts(5) [OF inv, of u]]) (auto split: if_splits)
  ultimately show ?thesis by (simp add: out_inv_def)
qed

text \<open>Of the frames a client sends, only a PING changes what the agent keeps of its output.\<close>

lemma read_quiet:
  assumes "\<And>pg. f \<noteq> FPing pg"
  shows "agent_quiet p (proc_read t f p)"
proof (cases f)
  case (FData b)
  then show ?thesis by (simp add: proc_read_def agent_quiet_def Let_def proc_abort_def)
next
  case (FExit st)
  then show ?thesis by (simp add: proc_read_def)
qed (use assms in \<open>simp_all add: proc_read_def agent_quiet_def proc_abort_def\<close>)

lemma out_AgentFrame:
  assumes inv: "out_inv s" and h: "s_ahand s t = Some f"
  shows "out_inv (s\<lparr>s_pr := proc_read t f (s_pr s), s_ahand := (s_ahand s)(t := None)\<rparr>)"
proof -
  have "out_inv (s\<lparr>s_pr := proc_read t f (s_pr s)\<rparr>)"
  proof (cases "\<exists>pg. f = FPing pg")
    case True
    then obtain pg where f: "f = FPing pg" by blast
    have le: "pg_stdout pg \<le> out_off (s_ex s) False" "pg_stderr pg \<le> out_off (s_ex s) True"
      using out_parts(5) [OF inv, of t] h f by (simp_all add: link_ok_def)
    show ?thesis
      using le by (rule_tac out_trimmed [OF inv, where to =
          "\<lambda>err. if err then min (pg_stderr pg) (a_sentErr (p_atts (s_pr s) t)) else min (pg_stdout pg) (a_sentOut (p_atts (s_pr s) t))"])
        (auto simp: f proc_read_def out_done_def out_ring_def fun_eq_iff)
  next
    case False
    then show ?thesis using out_quiet_agent0 [OF inv read_quiet] by blast
  qed
  then show ?thesis using out_unhand [of "s\<lparr>s_pr := proc_read t f (s_pr s)\<rparr>" t] by simp
qed

section \<open>A loss\<close>

lemma bytes_take: "bytes_of err xs = [] \<Longrightarrow> bytes_of err (take n xs) = []"
  by (metis append_take_drop_id bytes_of_simps(3) append_is_Nil_conv)

lemma nothing_after_take: "nothing_after P xs \<Longrightarrow> nothing_after P (take n xs)"
  by (metis append_take_drop_id nothing_after_append)

lemma mark_take_all: "nothing_after P xs \<Longrightarrow> list_ex P (take n xs) \<Longrightarrow> bytes_of err (take n xs) = bytes_of err xs"
  by (metis append_Nil2 append_take_drop_id bytes_of_simps(3) nothing_after_append)

lemma bytes_take_prefix: "prefix (bytes_of err (take n xs)) (bytes_of err xs)"
  by (metis append_take_drop_id bytes_of_simps(3) prefixI)

lemma list_ex_take: "list_ex P (take n xs) \<Longrightarrow> list_ex P xs"
  by (metis append_take_drop_id list_ex_append)

lemma out_Loss:
  assumes inv: "out_inv s"
  shows "out_inv (set_link t (\<lambda>l. l\<lparr>lk_open := False, lk_up := take n (lk_up l), lk_down := take m (lk_down l),
     lk_header := (if keep then lk_header l else None)\<rparr>) s)" (is "out_inv ?s")
proof -
  have "streams_ok ?s" using out_parts(1) [OF inv] by (simp add: streams_ok_def)
  moreover have "client_ok ?s" using out_parts(2) [OF inv] by (simp add: client_ok_def)
  moreover have "sender_ok ?s u" for u
    using out_parts(3) [OF inv, of u] by (cases "u = t") (auto simp: sender_ok_def Let_def)
  moreover have "reading_ok ?s u" for u
  proof (cases "u = t")
    case True
    have "reading ?s t = reading s t" by (simp add: reading_def)
    moreover have "prefix (queue ?s err t) (drop (length (deliv s err)) (kept s err))" if "reading s t" for err
    proof -
      have "prefix (queue ?s err t) (queue s err t)" using bytes_take_prefix by (simp add: queue_def)
      also have "prefix (queue s err t) (drop (length (deliv s err)) (kept s err))"
        using that out_parts(4) [OF inv, of t] by (simp add: reading_ok_def)
      finally show ?thesis .
    qed
    moreover have "queue_exits ?s t \<Longrightarrow> queue_exits s t" by (auto simp: queue_exits_def dest: list_ex_take)
    moreover have "queue ?s err t = queue s err t" if "reading s t" "queue_exits ?s t" for err
      using that out_parts(4) [OF inv, of t] mark_take_all [of "\<lambda>f. is_exit f" "lk_down (s_links s t)" m err] bytes_take [of err _ m]
      by (auto simp: queue_exits_def queue_def reading_ok_def)
    ultimately show ?thesis
      using True out_parts(4) [OF inv, of t] nothing_after_take [of "\<lambda>f. is_exit f" "lk_down (s_links s t)" m] bytes_take [of _ "lk_down (s_links s t)" m]
      by (simp add: reading_ok_def)
  next
    case False
    then show ?thesis by (rule_tac reading_ok_same [OF out_parts(4) [OF inv, of u]]) (auto simp: reading_def)
  qed
  moreover have "link_ok ?s u" for u
    by (rule link_ok_mono [OF out_parts(5) [OF inv, of u]]) (auto simp: no_link_def dest: in_set_takeD split: if_splits)
  ultimately show ?thesis by (simp add: out_inv_def)
qed

section \<open>Every run\<close>

lemma out_user_read:
  "out_inv s \<Longrightarrow> out_inv (s\<lparr>s_ex := (s_ex s)\<lparr>e_stdout := p1, e_stderr := p2\<rparr>\<rparr>)"
  using out_quiet_client0 [of s "(s_ex s)\<lparr>e_stdout := p1, e_stderr := p2\<rparr>" "[]" 0]
  by (simp add: client_quiet_def ended_def)

lemma out_ends:
  assumes "out_inv s" "client_quiet (s_ex s) ex"
    "e_conn ex \<or> e_exited ex \<or> \<not> e_conn (s_ex s) \<or> s_chand s (e_gen (s_ex s)) = CIdle"
  shows "out_inv (s\<lparr>s_ex := ex\<rparr>)"
  using out_quiet_client0 [OF assms, of "[]" 0] by simp

lemma lost_closed: "e_closed e \<Longrightarrow> e_conn (exec_lost t e) \<or> e_exited (exec_lost t e) \<or> \<not> e_conn e"
  by (auto simp: exec_lost_def Let_def exec_finish_def)

lemma finish_exited [simp]: "e_exited (exec_finish st err e)"
  by (simp add: exec_finish_def)

lemma step_keeps_out:
  assumes "exec_step True s s'" "out_inv s"
  shows "out_inv s'"
  using assms
proof (induction rule: exec_step.induct)
  case (Type b s n ex fs)
  then show ?case using quiet_Write [OF Type(1)] by (simp add: put_up_typed) (intro out_quiet_client0; auto)
next
  case (TypeEnd s ex fs)
  then show ?case using quiet_Close [OF TypeEnd(1)] by (intro out_quiet_client0) auto
next
  case (UserRead s n m)
  then show ?case by (simp add: out_user_read)
next
  case (UserResize rows cols s ex fs)
  then show ?case using quiet_Resize [OF UserResize(1)] by (intro out_quiet_client0) auto
next
  case (UserSignal sg s fs)
  then show ?case
    using out_quiet_client0 [of s "s_ex s" fs "e_gen (s_ex s)"] by (auto simp: exec_Signal_def split: if_splits)
next
  case (UserClose s ex fs)
  then show ?case using quiet_exec_Close [OF UserClose(1)] by (intro out_quiet_client0) auto
next
  case (UserFail s err)
  then show ?case by (intro out_ends) (auto simp: exec_Fail_def quiet_finish)
next
  case (AbortTimeout s t)
  then show ?case using lost_closed [of "s_ex s" t] by (intro out_ends) auto
next
  case (ClientNext s t f fs)
  then show ?case by (intro out_ClientNext) auto
next
  case (ClientPipe s t err b n)
  then show ?case by (intro out_ClientPipe) auto
next
  case (ClientReceived s t err n ex fs)
  then show ?case by (intro out_ClientReceived) auto
next
  case (ClientFrame s t f)
  then show ?case by (intro out_ClientFrame) auto
next
  case (ClientReadError s t)
  then have "out_inv (s\<lparr>s_ex := exec_lost t (s_ex s)\<rparr>)"
    using lost_ends [of t "s_ex s"] by (intro out_ends) auto
  then show ?case using out_inv_ghosts(4) [of _ "s\<lparr>s_ex := exec_lost t (s_ex s)\<rparr>"] by simp
next
  case (Heartbeat silent t s ex fs)
  then show ?case by (intro out_Heartbeat) auto
next
  case (Dial s t)
  then show ?case by (intro out_Dial) auto
next
  case (DialFails s t)
  then show ?case by (intro out_undial)
next
  case (Reattach s t f fs ex out)
  then show ?case by (intro out_Reattach) auto
next
  case (Accept s t o1 o2 p rep)
  then show ?case by (intro out_Accept) auto
next
  case (Refuse s t o1 o2 msg)
  then show ?case by (intro out_Refuse) auto
next
  case (Output b err s)
  then show ?case by (intro out_Output) auto
next
  case (OutputEnd s err)
  then show ?case by (intro out_quiet_agent0 quiet_pump_end)
next
  case (Feed s n failed)
  have "agent_quiet (s_pr s) (feedStdin n failed (s_pr s))"
    by (simp add: agent_quiet_def feedStdin_def close_input_def Let_def)
  then have "out_inv (s\<lparr>s_pr := feedStdin n failed (s_pr s)\<rparr>)" using Feed out_quiet_agent0 by blast
  then show ?case using out_inv_ghosts(2) [of _ "s\<lparr>s_pr := feedStdin n failed (s_pr s)\<rparr>"] by simp
next
  case (FeedEnd s)
  have "agent_quiet (s_pr s) (close_input (s_pr s))" by (simp add: agent_quiet_def close_input_def)
  then show ?case using FeedEnd out_quiet_agent0 by blast
next
  case (Exit s st)
  then show ?case by (intro out_quiet_agent0 quiet_wait)
next
  case (Pick s t)
  then show ?case by (intro out_Pick)
next
  case (Write s t b1 b2 ack st)
  then show ?case by (intro out_Write)
next
  case (WriteFails s t b1 b2 ack st)
  then show ?case by (intro out_quiet_agent0 quiet_send_failed)
next
  case (Sent s t b1 b2 ex)
  then show ?case by (intro out_Sent)
next
  case (AgentNext s t f fs)
  then show ?case by (intro out_AgentNext)
next
  case (AgentFrame s t f)
  then show ?case by (intro out_AgentFrame)
next
  case (AgentReadError s t fin)
  have "agent_quiet (s_pr s) (if fin then proc_abort (s_pr s) else proc_lost t (s_pr s))" by (simp add: quiet_proc_lost)
  with AgentReadError show ?case by (intro out_quiet_agent [of s _ t]) auto
next
  case (GiveUp s)
  then show ?case by (intro out_quiet_agent0 quiet_giveUp)
next
  case (GiveUpEnd s)
  then show ?case by (intro out_quiet_agent0 quiet_proc_finish)
next
  case (Loss s t n m keep)
  then show ?case by (rule out_Loss)
qed

lemma init_sys:
  "s_ex (sys_init resumable tty rows cols) = (newExec resumable tty rows cols)\<lparr>e_conn := True\<rparr>"
  "s_pr (sys_init resumable tty rows cols) = (startProc tty resumable)\<lparr>p_inAcked := -1, p_att := Some 0, p_attached := True\<rparr>"
  by (simp_all add: sys_init_def exec_attach_def newExec_def proc_attach_def startProc_def set_att_def Let_def
      ring_From_def ring_empty_def ring_End_def ring_Trim_def no_attachment_def fun_upd_idem_iff)

lemma init_out: "out_inv (sys_init resumable tty rows cols)" (is "out_inv ?s")
proof -
  have g: "kept ?s err = []" "deliv ?s err = []" "s_links ?s = (\<lambda>_. no_link)(0 := new_link None)" "s_next ?s = 1"
    "s_dial ?s = None" "s_chand ?s = (\<lambda>_. CIdle)" "s_ahand ?s = (\<lambda>_. None)" "s_areader ?s = (\<lambda>_. False)(0 := True)" for err
    by (simp_all add: sys_init_def kept_def deliv_def)
  have a: "p_atts (s_pr ?s) t = no_attachment" "out_ring (s_pr ?s) err = ring_empty" "out_off (s_ex ?s) err = 0" for t err
    by (simp_all add: init_sys startProc_def newExec_def out_ring_def out_off_def)
  have "streams_ok ?s"
    using keeps_tail_empty by (simp add: streams_ok_def g a) (simp add: init_sys newExec_def startProc_def ring_empty_def)
  moreover have "client_ok ?s" by (simp add: client_ok_def g a ended_def) (simp add: init_sys newExec_def)
  moreover have "sender_ok ?s t" for t by (simp add: sender_ok_def g a Let_def no_attachment_def sent_off_def)
  moreover have "reading_ok ?s t" for t
    by (simp add: reading_ok_def g a queue_def queue_exits_def no_attachment_def sent_off_def new_link_def no_link_def)
  moreover have "link_ok ?s t" for t
    by (simp add: link_ok_def g a no_attachment_def new_link_def no_link_def) (simp add: init_sys newExec_def)
  ultimately show ?thesis by (simp add: out_inv_def)
qed

lemma reach_keeps_out: "exec_reach True s u \<Longrightarrow> out_inv s \<Longrightarrow> out_inv u"
  by (induction rule: exec_reach.induct) (blast intro: step_keeps_out)+

lemmas reach_out = reach_keeps_out [OF _ init_out]

end
