(* ===== verification/ExecIn.thy ===== *)
theory ExecIn
  imports ExecSender
begin

text \<open>
  The input of a command: what is typed reaches the command once and in order, through any losses and
  re-attaches. The invariant of the bytes on their way to the command, and that every strict step
  keeps it.
\<close>

section \<open>The invariant\<close>

text \<open>The frames of a transport the agent has still to take.\<close>

definition upstream :: "sys \<Rightarrow> nat \<Rightarrow> frame list" where
  "upstream s t = (case s_ahand s t of None \<Rightarrow> [] | Some f \<Rightarrow> [f]) @ lk_up (s_links s t)"

abbreviation input :: "frame list \<Rightarrow> string" where
  "input \<equiv> bytes_of False"

abbreviation is_eof :: "frame \<Rightarrow> bool" where
  "is_eof f \<equiv> f = FEOF"

definition untaken :: "sys \<Rightarrow> string" where
  "untaken s = drop (nat (p_inRecv (s_pr s))) (g_typed s)"

definition typed_ok :: "sys \<Rightarrow> bool" where
  "typed_ok s \<longleftrightarrow> e_inEnd (s_ex s) = int (length (g_typed s)) \<and>
     (e_resumable (s_ex s) \<longrightarrow> keeps_tail (e_in (s_ex s)) (g_typed s) \<and> r_base (e_in (s_ex s)) \<le> p_inRecv (s_pr s)) \<and>
     e_inAcked (s_ex s) \<le> p_inOff (s_pr s) \<and> e_inEnd (s_ex s) - e_inAcked (s_ex s) \<le> int HoldBuffer"

definition taken_ok :: "sys \<Rightarrow> bool" where
  "taken_ok s \<longleftrightarrow> (let p = s_pr s in
     0 \<le> p_inRecv p \<and> p_inRecv p \<le> int (length (g_typed s)) \<and> p_inOff p \<le> p_inRecv p \<and>
     (if p_inClosed p then prefix (g_eaten s) (g_typed s) \<and> p_inQueue p = [] \<and> p_inOff p = p_inRecv p
      else g_eaten s @ p_inQueue p = take (nat (p_inRecv p)) (g_typed s) \<and> p_inOff p = int (length (g_eaten s))) \<and>
     (p_inEOF p \<longrightarrow> e_inEOF (s_ex s) \<and> p_inRecv p = int (length (g_typed s))))"

text \<open>Where an acknowledgement of input may be.\<close>

definition ack_at :: "sys \<Rightarrow> nat \<Rightarrow> ping \<Rightarrow> bool" where
  "ack_at s t pg \<longleftrightarrow> FPing pg \<in> set (lk_down (s_links s t)) \<or> s_chand s t = CFrame (FPing pg) \<or>
     (\<exists>b1 b2 st. a_hand (p_atts (s_pr s) t) = Picked b1 b2 (Some pg) st)"

definition acks_ok :: "sys \<Rightarrow> bool" where
  "acks_ok s \<longleftrightarrow> (\<forall>t pg. ack_at s t pg \<longrightarrow> pg_stdin pg \<le> p_inOff (s_pr s))"

definition serving_ok :: "sys \<Rightarrow> bool" where
  "serving_ok s \<longleftrightarrow> (\<forall>t. p_att (s_pr s) = Some t \<longrightarrow>
     prefix (input (upstream s t)) (untaken s) \<and>
     (e_conn (s_ex s) \<and> e_gen (s_ex s) = t \<and> lk_open (s_links s t) \<longrightarrow> input (upstream s t) = untaken s) \<and>
     (FEOF \<in> set (upstream s t) \<longrightarrow> e_inEOF (s_ex s) \<and> input (upstream s t) = untaken s) \<and>
     nothing_after (\<lambda>f. is_eof f) (upstream s t) \<and> FData [] \<notin> set (upstream s t) \<and> t < s_next s)"

definition resuming_ok :: "sys \<Rightarrow> bool" where
  "resuming_ok s \<longleftrightarrow>
     (\<forall>t. lk_header (s_links s t) \<noteq> None \<or> s_dial s = Some t \<or> s_next s \<le> t \<longrightarrow> upstream s t = []) \<and>
     (\<forall>t rep. s_dial s = Some t \<and> FResume rep \<in> set (lk_down (s_links s t)) \<longrightarrow>
        rr_stdin rep = p_inRecv (s_pr s) \<and> rr_stdout rep = e_outOff (s_ex s) \<and> rr_stderr rep = e_errOff (s_ex s) \<and>
        (\<forall>u. p_att (s_pr s) = Some u \<longrightarrow> upstream s u = [])) \<and>
     (s_dial s \<noteq> None \<longrightarrow> e_resumable (s_ex s))"

definition in_inv :: "sys \<Rightarrow> bool" where
  "in_inv s \<longleftrightarrow> typed_ok s \<and> taken_ok s \<and> acks_ok s \<and> serving_ok s \<and> resuming_ok s"

lemma in_parts:
  assumes "in_inv s"
  shows "typed_ok s" "taken_ok s" "acks_ok s" "serving_ok s" "resuming_ok s"
  using assms by (simp_all add: in_inv_def)

section \<open>Steps that leave the input alone\<close>

text \<open>Frames that carry no input.\<close>

definition no_input :: "frame list \<Rightarrow> bool" where
  "no_input fs \<longleftrightarrow> (\<forall>f \<in> set fs. f \<noteq> FEOF \<and> (\<forall>b. f \<noteq> FData b) \<and> (\<forall>b. f \<noteq> FStderr b))"

lemma no_input_simps [simp]:
  "no_input []" "no_input (f # fs) \<longleftrightarrow> f \<noteq> FEOF \<and> (\<forall>b. f \<noteq> FData b) \<and> (\<forall>b. f \<noteq> FStderr b) \<and> no_input fs"
  by (auto simp: no_input_def)

lemma no_input_bytes: "no_input fs \<Longrightarrow> bytes_of err fs = []"
proof (induction fs)
  case (Cons f fs)
  then show ?case by (cases f; cases err) auto
qed simp

lemma no_input_after: "no_input fs \<Longrightarrow> nothing_after (\<lambda>f. is_eof f) fs"
  by (induction fs) auto

lemma upstream_put_up:
  "upstream (put_up t fs s) u = upstream s u @ (if u = t \<and> lk_open (s_links s t) then fs else [])"
  by (simp add: upstream_def)

lemma in_quiet:
  assumes inv: "in_inv s"
    and client: "e_resumable (s_ex s') = e_resumable (s_ex s)" "e_in (s_ex s') = e_in (s_ex s)" "e_inEnd (s_ex s') = e_inEnd (s_ex s)"
      "e_inAcked (s_ex s') = e_inAcked (s_ex s)" "e_inEOF (s_ex s') = e_inEOF (s_ex s)"
      "e_conn (s_ex s') \<Longrightarrow> e_conn (s_ex s) \<and> e_gen (s_ex s') = e_gen (s_ex s)"
    and agent: "p_inQueue (s_pr s') = p_inQueue (s_pr s)" "p_inEOF (s_pr s') = p_inEOF (s_pr s)"
      "p_inClosed (s_pr s') = p_inClosed (s_pr s)" "p_inRecv (s_pr s') = p_inRecv (s_pr s)"
      "p_inOff (s_pr s') = p_inOff (s_pr s)" "p_att (s_pr s') = p_att (s_pr s) \<or> p_att (s_pr s') = None"
    and ghosts: "g_typed s' = g_typed s" "g_eaten s' = g_eaten s"
    and more: "\<And>u. \<exists>fs. upstream s' u = upstream s u @ fs \<and> no_input fs \<and>
        (fs \<noteq> [] \<longrightarrow> s_dial s' = None \<and> lk_header (s_links s' u) = None \<and> u < s_next s)"
    and links: "\<And>u. lk_open (s_links s' u) = lk_open (s_links s u)"
      "\<And>u. lk_header (s_links s' u) \<noteq> None \<Longrightarrow> lk_header (s_links s u) \<noteq> None"
    and acks: "\<And>u pg. ack_at s' u pg \<Longrightarrow> ack_at s u pg \<or> pg_stdin pg \<le> p_inOff (s_pr s)"
    and dial: "s_dial s' = s_dial s \<or> s_dial s' = None" "s_next s' = s_next s"
      "\<And>u rep. s_dial s' = Some u \<Longrightarrow> FResume rep \<in> set (lk_down (s_links s' u)) \<Longrightarrow> FResume rep \<in> set (lk_down (s_links s u))"
    and counts: "s_dial s' \<noteq> None \<Longrightarrow> e_outOff (s_ex s') = e_outOff (s_ex s) \<and> e_errOff (s_ex s') = e_errOff (s_ex s)"
  shows "in_inv s'"
proof -
  have "typed_ok s'" using in_parts(1) [OF inv] by (simp add: typed_ok_def client agent ghosts)
  moreover have "taken_ok s'" using in_parts(2) [OF inv] by (simp add: taken_ok_def Let_def client agent ghosts)
  moreover have "acks_ok s'" using in_parts(3) [OF inv] acks unfolding acks_ok_def agent by blast
  moreover have "serving_ok s'"
    unfolding serving_ok_def
  proof (intro allI impI)
    fix t assume t: "p_att (s_pr s') = Some t"
    then have a: "p_att (s_pr s) = Some t" using agent(6) by auto
    obtain fs where fs: "upstream s' t = upstream s t @ fs" "no_input fs" using more by blast
    have u: "untaken s' = untaken s" by (simp add: untaken_def agent ghosts)
    have i: "input (upstream s' t) = input (upstream s t)" using fs by (simp add: no_input_bytes)
    have eof: "FEOF \<in> set (upstream s' t) \<longleftrightarrow> FEOF \<in> set (upstream s t)" "FData [] \<in> set (upstream s' t) \<longleftrightarrow> FData [] \<in> set (upstream s t)"
      using fs by (auto simp: no_input_def)
    have n: "nothing_after (\<lambda>f. is_eof f) (upstream s' t) \<longleftrightarrow> nothing_after (\<lambda>f. is_eof f) (upstream s t)"
      using fs by (simp add: nothing_after_append no_input_after no_input_bytes)
    show "prefix (input (upstream s' t)) (untaken s') \<and>
        (e_conn (s_ex s') \<and> e_gen (s_ex s') = t \<and> lk_open (s_links s' t) \<longrightarrow> input (upstream s' t) = untaken s') \<and>
        (FEOF \<in> set (upstream s' t) \<longrightarrow> e_inEOF (s_ex s') \<and> input (upstream s' t) = untaken s') \<and>
        nothing_after (\<lambda>f. is_eof f) (upstream s' t) \<and> FData [] \<notin> set (upstream s' t) \<and> t < s_next s'"
      using in_parts(4) [OF inv] a client(6) unfolding serving_ok_def u i eof n client(5) links dial(2) by metis
  qed
  moreover have "resuming_ok s'"
  proof -
    have none: "upstream s' t = upstream s t" if "s_dial s' \<noteq> None \<or> lk_header (s_links s' t) \<noteq> None \<or> s_next s \<le> t" for t
      using more [of t] that by auto
    have 1: "upstream s' t = []" if "lk_header (s_links s' t) \<noteq> None \<or> s_dial s' = Some t \<or> s_next s' \<le> t" for t
    proof -
      have "lk_header (s_links s t) \<noteq> None \<or> s_dial s = Some t \<or> s_next s \<le> t" using that links(2) dial(1,2) by auto
      moreover have "upstream s' t = upstream s t" using none [of t] that dial(2) by auto
      ultimately show ?thesis using in_parts(5) [OF inv] unfolding resuming_ok_def by auto
    qed
    have 2: "rr_stdin rep = p_inRecv (s_pr s') \<and> rr_stdout rep = e_outOff (s_ex s') \<and> rr_stderr rep = e_errOff (s_ex s') \<and>
        (\<forall>u. p_att (s_pr s') = Some u \<longrightarrow> upstream s' u = [])"
      if "s_dial s' = Some t" "FResume rep \<in> set (lk_down (s_links s' t))" for t rep
    proof -
      have d: "s_dial s = Some t" "FResume rep \<in> set (lk_down (s_links s t))" using that dial by auto
      have "upstream s' u = upstream s u" for u using none that(1) by auto
      moreover have "rr_stdin rep = p_inRecv (s_pr s) \<and> rr_stdout rep = e_outOff (s_ex s) \<and> rr_stderr rep = e_errOff (s_ex s) \<and>
          (\<forall>u. p_att (s_pr s) = Some u \<longrightarrow> upstream s u = [])"
        using in_parts(5) [OF inv] d unfolding resuming_ok_def by blast
      ultimately show ?thesis using agent(4,6) counts that(1) by auto
    qed
    have 3: "s_dial s' \<noteq> None \<Longrightarrow> e_resumable (s_ex s')"
      using in_parts(5) [OF inv] dial(1) client(1) by (auto simp: resuming_ok_def)
    show ?thesis unfolding resuming_ok_def using 1 2 3 by blast
  qed
  ultimately show ?thesis by (simp add: in_inv_def)
qed

lemma conn_facts:
  assumes inv: "out_inv s" and c: "e_conn (s_ex s)"
  shows "s_dial s = None \<and> lk_header (s_links s (e_gen (s_ex s))) = None \<and> e_gen (s_ex s) < s_next s"
proof -
  let ?t = "e_gen (s_ex s)"
  have "s_dial s = None" using out_parts(2) [OF inv] c by (simp add: client_ok_def)
  moreover have "lk_header (s_links s ?t) = None"
    using link_headed(4) [OF out_parts(5) [OF inv, of ?t]] c by (cases "lk_header (s_links s ?t)") auto
  moreover have "?t < s_next s" using out_parts(5) [OF inv, of ?t] c by (simp add: link_ok_def)
  ultimately show ?thesis by blast
qed

text \<open>What the operations of each end keep.\<close>

definition input_kept :: "exec \<Rightarrow> exec \<Rightarrow> bool" where
  "input_kept e e' \<longleftrightarrow> e_resumable e' = e_resumable e \<and> e_in e' = e_in e \<and> e_inEnd e' = e_inEnd e \<and>
     e_inAcked e' = e_inAcked e \<and> e_inEOF e' = e_inEOF e \<and> (e_conn e' \<longrightarrow> e_conn e \<and> e_gen e' = e_gen e) \<and>
     (\<not> e_conn e \<longrightarrow> e_outOff e' = e_outOff e \<and> e_errOff e' = e_errOff e)"

definition queue_kept :: "proc \<Rightarrow> proc \<Rightarrow> bool" where
  "queue_kept p p' \<longleftrightarrow> p_inQueue p' = p_inQueue p \<and> p_inEOF p' = p_inEOF p \<and> p_inClosed p' = p_inClosed p \<and>
     p_inRecv p' = p_inRecv p \<and> p_inOff p' = p_inOff p \<and> (p_att p' = p_att p \<or> p_att p' = None) \<and>
     (\<forall>t b1 b2 pg st. a_hand (p_atts p' t) = Picked b1 b2 (Some pg) st \<longrightarrow>
        a_hand (p_atts p t) = Picked b1 b2 (Some pg) st \<or> pg_stdin pg \<le> p_inOff p)"

lemma in_client:
  assumes out: "out_inv s" and inv: "in_inv s" and k: "input_kept (s_ex s) ex" and fs: "no_input fs"
    and at: "fs \<noteq> [] \<Longrightarrow> e_conn (s_ex s) \<and> e_gen (s_ex s) = t"
    and hand: "\<And>u pg. c u = CFrame (FPing pg) \<Longrightarrow> s_chand s u = CFrame (FPing pg)"
  shows "in_inv (put_up t fs (s\<lparr>s_chand := c, s_ex := ex, s_creader := cr\<rparr>))"
proof (rule in_quiet [OF inv])
  fix u
  show "\<exists>gs. upstream (put_up t fs (s\<lparr>s_chand := c, s_ex := ex, s_creader := cr\<rparr>)) u = upstream s u @ gs \<and> no_input gs \<and>
      (gs \<noteq> [] \<longrightarrow> s_dial (put_up t fs (s\<lparr>s_chand := c, s_ex := ex, s_creader := cr\<rparr>)) = None \<and>
        lk_header (s_links (put_up t fs (s\<lparr>s_chand := c, s_ex := ex, s_creader := cr\<rparr>)) u) = None \<and> u < s_next s)"
    using fs at conn_facts [OF out] by (cases "u = t \<and> lk_open (s_links s t)") (auto simp: upstream_def)
qed (use k hand conn_facts [OF out] in \<open>auto simp: input_kept_def ack_at_def\<close>)

lemma in_agent:
  assumes inv: "in_inv s" and k: "queue_kept (s_pr s) p"
    and fs: "\<And>rep. FResume rep \<notin> set fs" "\<And>pg. FPing pg \<in> set fs \<Longrightarrow> pg_stdin pg \<le> p_inOff (s_pr s)"
  shows "in_inv (put_down t fs (s\<lparr>s_pr := p, s_areader := ar\<rparr>))" (is "in_inv ?s")
proof (rule in_quiet [OF inv])
  fix u pg assume "ack_at ?s u pg"
  then consider "FPing pg \<in> set (lk_down (s_links s u))" | "FPing pg \<in> set fs" | "s_chand s u = CFrame (FPing pg)"
    | b1 b2 st where "a_hand (p_atts p u) = Picked b1 b2 (Some pg) st"
    by (auto simp: ack_at_def split: if_splits)
  then show "ack_at s u pg \<or> pg_stdin pg \<le> p_inOff (s_pr s)"
  proof cases
    case 4
    then have "a_hand (p_atts (s_pr s) u) = Picked b1 b2 (Some pg) st \<or> pg_stdin pg \<le> p_inOff (s_pr s)"
      using k unfolding queue_kept_def by blast
    then show ?thesis by (auto simp: ack_at_def)
  qed (use fs(2) in \<open>auto simp: ack_at_def\<close>)
qed (use k fs(1) in \<open>auto simp: queue_kept_def upstream_def split: if_splits\<close>)

section \<open>Typing\<close>

lemma WriteData_bytes: "bytes_of False (WriteData FData p) = p" "bytes_of True (WriteData FData p) = []"
proof (induction "FData" p rule: WriteData.induct)
  case (1 p)
  { case 1
    show ?case using "1.hyps" by (subst WriteData.simps) simp }
  { case 2
    show ?case using "1.hyps" by (subst WriteData.simps) simp }
qed

lemma nothing_after_none: "(\<And>f. f \<in> set fs \<Longrightarrow> \<not> P f) \<Longrightarrow> nothing_after P fs"
  by (induction fs) auto

lemma list_ex_eof [simp]: "list_ex (\<lambda>f. is_eof f) fs \<longleftrightarrow> FEOF \<in> set fs"
  by (auto simp: list_ex_iff)

lemma WriteData_no_eof [simp]: "FEOF \<notin> set (WriteData FData p)" "FData [] \<notin> set (WriteData FData p)"
  using WriteData_frames [of _ FData p] by auto

lemma typed_sys:
  assumes "stdin_Write b e = Some (n, ex, fs)"
  shows "\<not> e_inEOF e" "e_inEOF ex = e_inEOF e" "e_conn ex = e_conn e" "e_gen ex = e_gen e" "e_resumable ex = e_resumable e"
    "e_inAcked ex = e_inAcked e" "e_inEnd ex = e_inEnd e + int (length (take n b))"
    "e_in ex = (if e_resumable e then ring_Append (take n b) (e_in e) else e_in e)" "e_outOff ex = e_outOff e" "e_errOff ex = e_errOff e"
    "fs = (if e_conn e then WriteData FData (take n b) else [])"
    "e_inEnd e - e_inAcked e \<le> int HoldBuffer \<Longrightarrow> e_inEnd ex - e_inAcked ex \<le> int HoldBuffer"
  using assms by (auto simp: stdin_Write_def Let_def split: if_splits)

lemma in_Type:
  assumes out: "out_inv s" and inv: "in_inv s" and w: "stdin_Write b (s_ex s) = Some (n, ex, fs)"
  shows "in_inv (put_up (e_gen (s_ex s)) fs (s\<lparr>s_ex := ex, g_typed := g_typed s @ take n b\<rparr>))" (is "in_inv ?s")
proof -
  note sys = typed_sys [OF w]
  have recv: "0 \<le> p_inRecv (s_pr s)" "p_inRecv (s_pr s) \<le> int (length (g_typed s))"
    using in_parts(2) [OF inv] by (simp_all add: taken_ok_def Let_def)
  have u: "untaken ?s = untaken s @ take n b" using recv by (simp add: untaken_def)
  have up: "upstream ?s t = upstream s t @ (if t = e_gen (s_ex s) \<and> lk_open (s_links s t) then fs else [])" for t
    by (auto simp: upstream_def)
  have "typed_ok ?s"
    using in_parts(1) [OF inv] sys(12) Append_keeps [of "e_in (s_ex s)" "g_typed s" "take n b"]
    by (simp add: typed_ok_def sys(5-8))
  moreover have "taken_ok ?s"
    using in_parts(2) [OF inv] recv sys(1) by (auto simp: taken_ok_def Let_def)
  moreover have "acks_ok ?s" using in_parts(3) [OF inv] by (simp add: acks_ok_def ack_at_def)
  moreover have "serving_ok ?s"
    unfolding serving_ok_def
  proof (intro allI impI)
    fix t assume "p_att (s_pr ?s) = Some t"
    then have h: "prefix (input (upstream s t)) (untaken s)"
      "e_conn (s_ex s) \<and> e_gen (s_ex s) = t \<and> lk_open (s_links s t) \<Longrightarrow> input (upstream s t) = untaken s"
      "FEOF \<notin> set (upstream s t)" "FData [] \<notin> set (upstream s t)" "t < s_next s"
      using in_parts(4) [OF inv] sys(1) by (auto simp: serving_ok_def)
    have "nothing_after (\<lambda>f. is_eof f) (upstream ?s t)" "FEOF \<notin> set (upstream ?s t)" "FData [] \<notin> set (upstream ?s t)"
      unfolding up using h(3,4) sys(11) by (auto intro!: nothing_after_none)
    moreover have "input (upstream ?s t) = untaken s @ take n b" if "e_conn (s_ex s)" "e_gen (s_ex s) = t" "lk_open (s_links s t)"
      unfolding up using h(2) that sys(11) by (simp add: WriteData_bytes)
    moreover have "prefix (input (upstream ?s t)) (untaken s @ take n b)"
      unfolding up using h(1,2) sys(11) by (auto simp: WriteData_bytes)
    ultimately show "prefix (input (upstream ?s t)) (untaken ?s) \<and>
        (e_conn (s_ex ?s) \<and> e_gen (s_ex ?s) = t \<and> lk_open (s_links ?s t) \<longrightarrow> input (upstream ?s t) = untaken ?s) \<and>
        (FEOF \<in> set (upstream ?s t) \<longrightarrow> e_inEOF (s_ex ?s) \<and> input (upstream ?s t) = untaken ?s) \<and>
        nothing_after (\<lambda>f. is_eof f) (upstream ?s t) \<and> FData [] \<notin> set (upstream ?s t) \<and> t < s_next ?s"
      using h(5) unfolding u by (auto simp: sys(3,4))
  qed
  moreover have "resuming_ok ?s"
    unfolding resuming_ok_def up using in_parts(5) [OF inv] sys(5,9,10,11) conn_facts [OF out] by (auto simp: resuming_ok_def)
  ultimately show ?thesis by (simp add: in_inv_def)
qed

lemma ended_sys:
  assumes "stdin_Close e = (ex, fs)"
  shows "ex = e \<and> fs = [] \<or> (ex = e\<lparr>e_inEOF := True\<rparr> \<and> fs = (if e_conn e then [FEOF] else []))"
  using assms by (auto simp: stdin_Close_def split: if_splits)

lemma in_TypeEnd:
  assumes out: "out_inv s" and inv: "in_inv s" and w: "stdin_Close (s_ex s) = (ex, fs)"
  shows "in_inv (put_up (e_gen (s_ex s)) fs (s\<lparr>s_ex := ex\<rparr>))" (is "in_inv ?s")
proof (cases "ex = s_ex s \<and> fs = []")
  case True
  then show ?thesis using inv by simp
next
  case False
  then have ex: "ex = (s_ex s)\<lparr>e_inEOF := True\<rparr>" and fs: "fs = (if e_conn (s_ex s) then [FEOF] else [])"
    using ended_sys [OF w] by auto
  have up: "upstream ?s t = upstream s t @ (if t = e_gen (s_ex s) \<and> lk_open (s_links s t) then fs else [])" for t
    by (auto simp: upstream_def)
  have u: "untaken ?s = untaken s" by (simp add: untaken_def)
  have "typed_ok ?s" using in_parts(1) [OF inv] by (simp add: typed_ok_def ex)
  moreover have "taken_ok ?s" using in_parts(2) [OF inv] by (simp add: taken_ok_def Let_def ex)
  moreover have "acks_ok ?s" using in_parts(3) [OF inv] by (simp add: acks_ok_def ack_at_def)
  moreover have "serving_ok ?s"
    unfolding serving_ok_def
  proof (intro allI impI)
    fix t assume "p_att (s_pr ?s) = Some t"
    then have h: "prefix (input (upstream s t)) (untaken s)"
      "e_conn (s_ex s) \<and> e_gen (s_ex s) = t \<and> lk_open (s_links s t) \<Longrightarrow> input (upstream s t) = untaken s"
      "FEOF \<in> set (upstream s t) \<Longrightarrow> input (upstream s t) = untaken s"
      "nothing_after (\<lambda>f. is_eof f) (upstream s t)" "FData [] \<notin> set (upstream s t)" "t < s_next s"
      using in_parts(4) [OF inv] by (auto simp: serving_ok_def)
    have "bytes_of err fs = []" "nothing_after (\<lambda>f. is_eof f) fs" "FData [] \<notin> set fs" for err
      by (cases err; simp add: fs)+
    then have "input (upstream ?s t) = input (upstream s t)" "nothing_after (\<lambda>f. is_eof f) (upstream ?s t)"
      "FData [] \<notin> set (upstream ?s t)"
      unfolding up using h(4,5) by (auto simp: nothing_after_append)
    then show "prefix (input (upstream ?s t)) (untaken ?s) \<and>
        (e_conn (s_ex ?s) \<and> e_gen (s_ex ?s) = t \<and> lk_open (s_links ?s t) \<longrightarrow> input (upstream ?s t) = untaken ?s) \<and>
        (FEOF \<in> set (upstream ?s t) \<longrightarrow> e_inEOF (s_ex ?s) \<and> input (upstream ?s t) = untaken ?s) \<and>
        nothing_after (\<lambda>f. is_eof f) (upstream ?s t) \<and> FData [] \<notin> set (upstream ?s t) \<and> t < s_next ?s"
      using h unfolding up u by (auto simp: ex fs split: if_splits)
  qed
  moreover have "resuming_ok ?s"
    unfolding resuming_ok_def up using in_parts(5) [OF inv] fs conn_facts [OF out] by (auto simp: resuming_ok_def ex)
  ultimately show ?thesis by (simp add: in_inv_def)
qed

text \<open>An acknowledgement moves the window, and never past what the agent took.\<close>

lemma in_ack:
  assumes inv: "in_inv s" and pg: "pg_stdin pg \<le> p_inOff (s_pr s)"
  shows "in_inv (s\<lparr>s_ex := exec_ping pg (s_ex s)\<rparr>)" (is "in_inv ?s")
proof -
  let ?e = "s_ex s"
  have same: "e_resumable (exec_ping pg ?e) = e_resumable ?e" "e_inEnd (exec_ping pg ?e) = e_inEnd ?e"
    "e_inEOF (exec_ping pg ?e) = e_inEOF ?e" "e_conn (exec_ping pg ?e) = e_conn ?e" "e_gen (exec_ping pg ?e) = e_gen ?e"
    "e_inAcked ?e \<le> e_inAcked (exec_ping pg ?e)" "e_inAcked (exec_ping pg ?e) = e_inAcked ?e \<or> e_inAcked (exec_ping pg ?e) = pg_stdin pg"
    "e_in (exec_ping pg ?e) = e_in ?e \<or> e_in (exec_ping pg ?e) = ring_Trim (pg_stdin pg) (e_in ?e)"
    "e_outOff (exec_ping pg ?e) = e_outOff ?e" "e_errOff (exec_ping pg ?e) = e_errOff ?e"
    by (auto simp: exec_ping_def)
  have up: "upstream ?s u = upstream s u" for u by (simp add: upstream_def)
  have le: "p_inOff (s_pr s) \<le> p_inRecv (s_pr s)" using in_parts(2) [OF inv] by (simp add: taken_ok_def Let_def)
  have "typed_ok ?s"
  proof -
    have t: "typed_ok s" by (rule in_parts(1) [OF inv])
    have "keeps_tail (e_in (exec_ping pg ?e)) (g_typed s) \<and> r_base (e_in (exec_ping pg ?e)) \<le> p_inRecv (s_pr s)" if "e_resumable ?e"
    proof -
      have k: "keeps_tail (e_in ?e) (g_typed s)" "r_base (e_in ?e) \<le> p_inRecv (s_pr s)" using t that by (simp_all add: typed_ok_def)
      then show ?thesis using same(8) Trim_keeps [OF k(1), of "pg_stdin pg"] Trim_base [OF k(1), of "pg_stdin pg"] pg le by auto
    qed
    then show ?thesis using t same(6,7) pg by (auto simp: typed_ok_def same(1,2))
  qed
  moreover have "taken_ok ?s" using in_parts(2) [OF inv] by (simp add: taken_ok_def Let_def same)
  moreover have "acks_ok ?s" using in_parts(3) [OF inv] by (simp add: acks_ok_def ack_at_def)
  moreover have "serving_ok ?s" using in_parts(4) [OF inv] by (simp add: serving_ok_def up untaken_def same)
  moreover have "resuming_ok ?s" using in_parts(5) [OF inv] unfolding resuming_ok_def up by (auto simp: same)
  ultimately show ?thesis by (simp add: in_inv_def)
qed

section \<open>Dialling again\<close>

lemma in_Dial:
  assumes inv: "in_inv s" and t: "t = s_next s" and r: "e_resumable (s_ex s)"
  shows "in_inv (set_link t (\<lambda>_. new_link h) (s\<lparr>s_next := Suc t, s_dial := Some t\<rparr>))" (is "in_inv ?s")
proof -
  have none: "upstream s t = []" using in_parts(5) [OF inv] t by (simp add: resuming_ok_def)
  then have up: "upstream ?s u = upstream s u" for u
    by (auto simp: upstream_def new_link_def)
  have new: "p_att (s_pr s) = Some u \<Longrightarrow> u \<noteq> t" for u using in_parts(4) [OF inv] t by (auto simp: serving_ok_def)
  have "typed_ok ?s" using in_parts(1) [OF inv] by (simp add: typed_ok_def)
  moreover have "taken_ok ?s" using in_parts(2) [OF inv] by (simp add: taken_ok_def Let_def)
  moreover have "acks_ok ?s" using in_parts(3) [OF inv] by (auto simp: acks_ok_def ack_at_def new_link_def split: if_splits)
  moreover have "serving_ok ?s"
    using in_parts(4) [OF inv] new unfolding serving_ok_def up untaken_def by (auto simp: t)
  moreover have "resuming_ok ?s"
  proof -
    have 1: "upstream s u = []" if "lk_header (s_links ?s u) \<noteq> None \<or> s_dial ?s = Some u \<or> s_next ?s \<le> u" for u
      using that none in_parts(5) [OF inv] by (cases "u = t") (auto simp: resuming_ok_def t)
    have "lk_down (s_links ?s t) = []" by (simp add: new_link_def)
    then show ?thesis unfolding resuming_ok_def up using 1 r by auto
  qed
  ultimately show ?thesis by (simp add: in_inv_def)
qed

text \<open>What a re-attach resends: the input the agent has not taken, then the end of input.\<close>

lemma exec_attach_resumed:
  assumes x: "\<not> e_exited e" and f: "ring_From (rr_stdin rep) (e_in e) = Some resend"
  obtains tail where "no_input tail"
    "exec_attach t (Some rep) e =
       (e\<lparr>e_in := ring_Trim (rr_stdin rep) (e_in e), e_gen := t, e_conn := True, e_detached := False\<rparr>,
        WriteData FData resend @ (if e_inEOF e then [FEOF] else []) @ tail)"
proof
  let ?tail = "(case e_size e of None \<Rightarrow> [] | Some (rows, cols) \<Rightarrow> if rows > 0 \<or> cols > 0 then [FResize rows cols] else [])
      @ (if e_closed e then [FAbort] else [])"
  show "no_input ?tail" by (auto simp: no_input_def split: option.splits)
  show "exec_attach t (Some rep) e =
       (e\<lparr>e_in := ring_Trim (rr_stdin rep) (e_in e), e_gen := t, e_conn := True, e_detached := False\<rparr>,
        WriteData FData resend @ (if e_inEOF e then [FEOF] else []) @ ?tail)"
    using assms by (simp add: exec_attach_def)
qed

lemma in_resumed:
  assumes out: "out_inv s" and inv: "in_inv s" and d: "s_dial s = Some t" and down: "lk_down (s_links s t) = FResume rep # fs"
    and x: "\<not> e_exited (s_ex s)" and r: "e_resumable (s_ex s)"
    and a: "exec_attach t (Some rep) (s_ex s) = (ex, put)"
  shows "in_inv (put_up t put (set_link t (\<lambda>l. l\<lparr>lk_down := fs\<rparr>) (s\<lparr>s_ex := ex, s_dial := None, s_creader := cr\<rparr>)))"
    (is "in_inv ?s")
proof -
  have rep: "rr_stdin rep = p_inRecv (s_pr s)" and none: "p_att (s_pr s) = Some u \<Longrightarrow> upstream s u = []" for u
    using in_parts(5) [OF inv] d down by (auto simp: resuming_ok_def)
  have recv: "0 \<le> p_inRecv (s_pr s)" "p_inRecv (s_pr s) \<le> int (length (g_typed s))"
    using in_parts(2) [OF inv] by (simp_all add: taken_ok_def Let_def)
  have k: "keeps_tail (e_in (s_ex s)) (g_typed s)" "r_base (e_in (s_ex s)) \<le> p_inRecv (s_pr s)"
    using in_parts(1) [OF inv] r by (simp_all add: typed_ok_def)
  have "ring_From (rr_stdin rep) (e_in (s_ex s)) = Some (untaken s)"
    unfolding rep untaken_def by (rule ring.resends [OF k recv(2)])
  from exec_attach_resumed [OF x this, of t] a obtain tail where tail: "no_input tail"
    and ex: "ex = (s_ex s)\<lparr>e_in := ring_Trim (p_inRecv (s_pr s)) (e_in (s_ex s)), e_gen := t, e_conn := True, e_detached := False\<rparr>"
    and p: "put = WriteData FData (untaken s) @ (if e_inEOF (s_ex s) then [FEOF] else []) @ tail"
    unfolding rep by auto
  have l: "t < s_next s" "lk_header (s_links s t) = None"
    using link_dialled [OF out_parts(5) [OF out] d] down by auto
  have ut: "upstream s t = []" using in_parts(5) [OF inv] d by (simp add: resuming_ok_def)
  have up: "upstream ?s u = (if u = t then if lk_open (s_links s t) then put else [] else upstream s u)" for u
    using ut by (auto simp: upstream_def)
  have u: "untaken ?s = untaken s" by (simp add: untaken_def)
  have put: "input put = untaken s" "nothing_after (\<lambda>f. is_eof f) put" "FData [] \<notin> set put" "FEOF \<in> set put \<Longrightarrow> e_inEOF (s_ex s)"
    using tail no_input_bytes [OF tail] no_input_after [OF tail]
    by (auto simp: p WriteData_bytes nothing_after_append no_input_def intro!: nothing_after_none split: if_splits)
  have "typed_ok ?s"
    using in_parts(1) [OF inv] Trim_keeps [OF k(1)] Trim_base [OF k(1), of "p_inRecv (s_pr s)"] k(2) by (simp add: typed_ok_def ex)
  moreover have "taken_ok ?s" using in_parts(2) [OF inv] by (simp add: taken_ok_def Let_def ex)
  moreover have "acks_ok ?s"
  proof -
    have "ack_at ?s v pg \<Longrightarrow> ack_at s v pg" for v pg using down by (auto simp: ack_at_def split: if_splits)
    then show ?thesis using in_parts(3) [OF inv] unfolding acks_ok_def by auto
  qed
  moreover have "serving_ok ?s"
    using in_parts(4) [OF inv] none put unfolding serving_ok_def up u by (auto simp: ex)
  moreover have "resuming_ok ?s"
    using in_parts(5) [OF inv] l unfolding resuming_ok_def up by (auto split: if_splits)
  ultimately show ?thesis by (simp add: in_inv_def)
qed

text \<open>The other answers to a re-attach end it; the client then keeps what it has.\<close>

lemma reattach_else:
  assumes "exec_reattach t f e = (ex, put)" and c: "\<not> e_conn e"
    and n: "\<And>rep. f = FResume rep \<Longrightarrow> e_resumable e \<Longrightarrow> \<not> e_exited e \<Longrightarrow> exec_attach t (Some rep) e \<noteq> (ex, put)"
  shows "input_kept e ex \<and> no_input put"
proof -
  have fin: "input_kept e (exec_finish st er e)" for st er
    using c by (simp add: input_kept_def exec_finish_def)
  show ?thesis
    using assms fin by (auto simp: exec_reattach_def input_kept_def exec_attach_def split: if_splits frame.splits)
qed

lemma in_Reattach:
  assumes out: "out_inv s" and inv: "in_inv s" and d: "s_dial s = Some t" and down: "lk_down (s_links s t) = f # fs"
    and r: "exec_reattach t f (s_ex s) = (ex, put)"
  shows "in_inv (put_up t put (set_link t (\<lambda>l. l\<lparr>lk_down := fs\<rparr>) (s\<lparr>s_ex := ex, s_dial := None, s_creader := cr\<rparr>)))"
    (is "in_inv ?s")
proof (cases "\<exists>rep. f = FResume rep \<and> e_resumable (s_ex s) \<and> \<not> e_exited (s_ex s) \<and> exec_attach t (Some rep) (s_ex s) = (ex, put)")
  case True
  then show ?thesis using in_resumed [OF out inv d] down by auto
next
  case False
  have c: "\<not> e_conn (s_ex s)" using out_parts(2) [OF out] d by (auto simp: client_ok_def)
  have l: "t < s_next s" "lk_header (s_links s t) = None"
    using link_dialled [OF out_parts(5) [OF out] d] down by auto
  have k: "input_kept (s_ex s) ex" and p: "no_input put" using reattach_else [OF r c] False by auto
  show ?thesis
  proof (rule in_quiet [OF inv])
    fix u
    show "\<exists>gs. upstream ?s u = upstream s u @ gs \<and> no_input gs \<and>
        (gs \<noteq> [] \<longrightarrow> s_dial ?s = None \<and> lk_header (s_links ?s u) = None \<and> u < s_next s)"
      using p l by (cases "u = t \<and> lk_open (s_links s t)") (auto simp: upstream_def)
  qed (use k down in \<open>auto simp: input_kept_def ack_at_def split: if_splits\<close>)
qed

section \<open>The agent\<close>

lemma in_Accept:
  assumes out: "out_inv s" and inv: "in_inv s" and h: "lk_header (s_links s t) = Some (o1, o2)"
    and p: "proc_attach t o1 o2 (s_pr s) = Inr (p, rep)"
  shows "in_inv (put_down t [FResume rep] (set_link t (\<lambda>l. l\<lparr>lk_header := None\<rparr>)
       (s\<lparr>s_pr := p, s_areader := (s_areader s)(t := True)\<rparr>)))" (is "in_inv ?s")
proof -
  have sys: "p_inQueue p = p_inQueue (s_pr s)" "p_inEOF p = p_inEOF (s_pr s)" "p_inClosed p = p_inClosed (s_pr s)"
    "p_inRecv p = p_inRecv (s_pr s)" "p_inOff p = p_inOff (s_pr s)" "p_att p = Some t"
    using p by (auto simp: proc_attach_def Let_def set_att_def split: if_splits option.splits)
  note at = attach_sys(8,9) [OF p]
  note lh = link_headed [OF out_parts(5) [OF out] h]
  have offs: "s_dial s = Some t \<Longrightarrow> o1 = e_outOff (s_ex s) \<and> o2 = e_errOff (s_ex s)"
    using out_parts(5) [OF out, of t] h by (simp add: link_ok_def out_off_def)
  have n: "t < s_next s" using out_parts(5) [OF out, of t] h by (force simp: link_ok_def no_link_def)
  have ut: "upstream s t = []" using in_parts(5) [OF inv] h by (simp add: resuming_ok_def)
  have up: "upstream ?s u = upstream s u" for u by (auto simp: upstream_def)
  have "typed_ok ?s" using in_parts(1) [OF inv] by (simp add: typed_ok_def sys)
  moreover have "taken_ok ?s" using in_parts(2) [OF inv] by (simp add: taken_ok_def Let_def sys)
  moreover have "acks_ok ?s"
  proof -
    have "ack_at ?s v pg \<Longrightarrow> ack_at s v pg" for v pg using lh(1) by (auto simp: ack_at_def at split: if_splits)
    then show ?thesis using in_parts(3) [OF inv] unfolding acks_ok_def by (auto simp: sys)
  qed
  moreover have "serving_ok ?s"
    unfolding serving_ok_def up using ut n lh(4) by (auto simp: sys)
  moreover have "resuming_ok ?s"
  proof -
    have "upstream s u = []" if "lk_header (s_links ?s u) \<noteq> None \<or> s_dial ?s = Some u \<or> s_next ?s \<le> u" for u
      using that ut in_parts(5) [OF inv] by (cases "u = t") (auto simp: resuming_ok_def)
    moreover have "rr_stdin rep' = p_inRecv (s_pr s) \<and> rr_stdout rep' = e_outOff (s_ex s) \<and> rr_stderr rep' = e_errOff (s_ex s)" if "s_dial s = Some u" "FResume rep' \<in> set (lk_down (s_links ?s u))" for u rep'
      using that lh(1) at(2) in_parts(5) [OF inv] offs by (auto simp: resuming_ok_def split: if_splits)
    ultimately show ?thesis unfolding resuming_ok_def up using ut in_parts(5) [OF inv] by (auto simp: sys resuming_ok_def)
  qed
  ultimately show ?thesis by (simp add: in_inv_def)
qed

lemma in_Refuse:
  assumes inv: "in_inv s"
  shows "in_inv (put_down t [FOpenGone] (set_link t (\<lambda>l. l\<lparr>lk_header := None\<rparr>) s))" (is "in_inv ?s")
  by (rule in_quiet [OF inv]) (auto simp: ack_at_def upstream_def split: if_splits)

text \<open>The command takes its input.\<close>

lemma in_fed:
  assumes inv: "in_inv s"
    and same: "p_inEOF p = p_inEOF (s_pr s)" "p_inRecv p = p_inRecv (s_pr s)" "p_att p = p_att (s_pr s)" "p_atts p = p_atts (s_pr s)"
    and off: "p_inOff (s_pr s) \<le> p_inOff p" and t: "taken_ok (s\<lparr>s_pr := p, g_eaten := ea\<rparr>)"
  shows "in_inv (s\<lparr>s_pr := p, g_eaten := ea\<rparr>)" (is "in_inv ?s")
proof -
  have up: "upstream ?s u = upstream s u" "untaken ?s = untaken s" "ack_at ?s v pg = ack_at s v pg" for u v pg
    by (simp_all add: upstream_def untaken_def ack_at_def same)
  have "typed_ok ?s" using in_parts(1) [OF inv] off by (auto simp: typed_ok_def same)
  moreover have "acks_ok ?s" using in_parts(3) [OF inv] off unfolding acks_ok_def up by (auto intro: order_trans)
  moreover have "serving_ok ?s" using in_parts(4) [OF inv] unfolding serving_ok_def up by (auto simp: same)
  moreover have "resuming_ok ?s" using in_parts(5) [OF inv] unfolding resuming_ok_def up by (auto simp: same)
  ultimately show ?thesis using t by (simp add: in_inv_def)
qed

lemma feed_counts:
  assumes "taken_ok s" "\<not> p_inClosed (s_pr s)"
  shows "int (length (g_eaten s)) + int (length (p_inQueue (s_pr s))) = p_inRecv (s_pr s)" "prefix (g_eaten s @ p_inQueue (s_pr s)) (g_typed s)"
proof -
  have e: "g_eaten s @ p_inQueue (s_pr s) = take (nat (p_inRecv (s_pr s))) (g_typed s)"
    and r: "0 \<le> p_inRecv (s_pr s)" "p_inRecv (s_pr s) \<le> int (length (g_typed s))"
    using assms by (simp_all add: taken_ok_def Let_def)
  have "length (g_eaten s @ p_inQueue (s_pr s)) = nat (p_inRecv (s_pr s))" unfolding e using r by simp
  then show "int (length (g_eaten s)) + int (length (p_inQueue (s_pr s))) = p_inRecv (s_pr s)" using r by simp
  show "prefix (g_eaten s @ p_inQueue (s_pr s)) (g_typed s)" unfolding e by (rule take_is_prefix)
qed

lemma in_Feed:
  assumes inv: "in_inv s" and c: "\<not> p_inClosed (s_pr s)" and n: "n \<le> length (feed_chunk (s_pr s))"
  shows "in_inv (s\<lparr>s_pr := feedStdin n failed (s_pr s), g_eaten := g_eaten s @ take n (p_inQueue (s_pr s))\<rparr>)"
proof -
  have t: "taken_ok s" by (rule in_parts(2) [OF inv])
  note fc = feed_counts [OF t c]
  have le: "n \<le> length (p_inQueue (s_pr s))" using n by (simp add: feed_chunk_def)
  have off: "p_inOff (s_pr s) = int (length (g_eaten s))" using t c by (simp add: taken_ok_def Let_def)
  have pre: "prefix (g_eaten s @ take n (p_inQueue (s_pr s))) (g_typed s)"
    using fc(2) by (rule prefix_order.trans [rotated]) (simp add: take_is_prefix)
  show ?thesis
  proof (rule in_fed [OF inv])
    show "taken_ok (s\<lparr>s_pr := feedStdin n failed (s_pr s), g_eaten := g_eaten s @ take n (p_inQueue (s_pr s))\<rparr>)"
      using t c le fc(1) off pre by (auto simp: taken_ok_def Let_def feedStdin_def close_input_def)
  qed (use le in \<open>simp_all add: feedStdin_def close_input_def Let_def\<close>)
qed

lemma in_FeedEnd:
  assumes inv: "in_inv s" and c: "\<not> p_inClosed (s_pr s)"
  shows "in_inv (s\<lparr>s_pr := close_input (s_pr s)\<rparr>)"
proof -
  have t: "taken_ok s" by (rule in_parts(2) [OF inv])
  note fc = feed_counts [OF t c]
  have "in_inv (s\<lparr>s_pr := close_input (s_pr s), g_eaten := g_eaten s\<rparr>)"
  proof (rule in_fed [OF inv])
    show "taken_ok (s\<lparr>s_pr := close_input (s_pr s), g_eaten := g_eaten s\<rparr>)"
      using t c fc append_prefixD [OF fc(2)] by (auto simp: taken_ok_def Let_def close_input_def)
  qed (simp_all add: close_input_def)
  then show ?thesis by simp
qed

lemma in_AgentNext:
  assumes inv: "in_inv s" and h: "s_ahand s t = None" and up: "lk_up (s_links s t) = f # fs"
  shows "in_inv (set_link t (\<lambda>l. l\<lparr>lk_up := fs\<rparr>) (s\<lparr>s_ahand := (s_ahand s)(t := Some f)\<rparr>))" (is "in_inv ?s")
proof -
  have "upstream ?s u = upstream s u" for u using h up by (simp add: upstream_def)
  then show ?thesis by (intro in_quiet [OF inv]) (auto simp: ack_at_def split: if_splits)
qed

section \<open>The agent takes a frame\<close>

lemma upstream_hand: "s_ahand s t = Some f \<Longrightarrow> upstream s t = f # lk_up (s_links s t)"
  by (simp add: upstream_def)

text \<open>The frame of the transport that serves the command is the input it has still to take, so it
  fits in the window, and no input follows the end of input.\<close>

lemma served_fits:
  assumes inv: "in_inv s" and h: "s_ahand s t = Some (FData b)" and a: "p_att (s_pr s) = Some t"
  shows "\<not> breaks b (s_pr s)" "b \<noteq> []" "prefix b (untaken s)" "length (p_inQueue (s_pr s)) + length b \<le> HoldBuffer"
proof -
  have sv: "prefix (input (upstream s t)) (untaken s)" "FData [] \<notin> set (upstream s t)"
    using in_parts(4) [OF inv] a by (simp_all add: serving_ok_def)
  then show b: "b \<noteq> []" "prefix b (untaken s)"
    by (auto simp: upstream_hand [OF h] dest: append_prefixD)
  have t: "taken_ok s" by (rule in_parts(2) [OF inv])
  have recv: "0 \<le> p_inRecv (s_pr s)" "p_inRecv (s_pr s) \<le> int (length (g_typed s))" using t by (simp_all add: taken_ok_def Let_def)
  have "int (length b) \<le> int (length (g_typed s)) - p_inRecv (s_pr s)"
    using prefix_length_le [OF b(2)] recv by (simp add: untaken_def)
  moreover have "int (length (p_inQueue (s_pr s))) = p_inRecv (s_pr s) - p_inOff (s_pr s)"
    using t feed_counts(1) [OF t] by (cases "p_inClosed (s_pr s)") (auto simp: taken_ok_def Let_def)
  moreover have "int (length (g_typed s)) - p_inOff (s_pr s) \<le> int HoldBuffer"
    using in_parts(1) [OF inv] by (simp add: typed_ok_def)
  ultimately show fit: "length (p_inQueue (s_pr s)) + length b \<le> HoldBuffer" by linarith
  moreover have "\<not> p_inEOF (s_pr s)" using t b recv by (auto simp: taken_ok_def Let_def untaken_def)
  ultimately show "\<not> breaks b (s_pr s)" by (simp add: breaks_def)
qed

lemma in_taken:
  assumes inv: "in_inv s" and a: "p_att (s_pr s) = Some t" and h: "s_ahand s t = Some f"
    and p: "p_att p = Some t \<or> p_att p = None" and hands: "\<And>u. a_hand (p_atts p u) = a_hand (p_atts (s_pr s) u)"
    and off: "p_inOff (s_pr s) \<le> p_inOff p" and recv: "p_inRecv p = p_inRecv (s_pr s) + int (length (frame_bytes False f))"
    and tk: "taken_ok (s\<lparr>s_pr := p, s_ahand := (s_ahand s)(t := None)\<rparr>)"
  shows "in_inv (s\<lparr>s_pr := p, s_ahand := (s_ahand s)(t := None)\<rparr>)" (is "in_inv ?s")
proof -
  have up: "upstream ?s u = (if u = t then lk_up (s_links s t) else upstream s u)" for u by (simp add: upstream_def)
  have hd: "upstream s t = f # lk_up (s_links s t)" by (rule upstream_hand [OF h])
  have ack: "ack_at ?s u pg = ack_at s u pg" for u pg by (simp add: ack_at_def hands)
  have pos: "0 \<le> p_inRecv (s_pr s)" using in_parts(2) [OF inv] by (simp add: taken_ok_def Let_def)
  have un: "untaken ?s = drop (length (frame_bytes False f)) (untaken s)"
    using pos by (simp add: untaken_def recv nat_add_distrib add.commute)
  have sv: "prefix (input (upstream s t)) (untaken s)"
      "e_conn (s_ex s) \<and> e_gen (s_ex s) = t \<and> lk_open (s_links s t) \<longrightarrow> input (upstream s t) = untaken s"
      "FEOF \<in> set (upstream s t) \<longrightarrow> e_inEOF (s_ex s) \<and> input (upstream s t) = untaken s"
      "nothing_after (\<lambda>f. is_eof f) (upstream s t)" "FData [] \<notin> set (upstream s t)" "t < s_next s"
    using in_parts(4) [OF inv] a by (simp_all add: serving_ok_def)
  have "typed_ok ?s" using in_parts(1) [OF inv] off recv by (auto simp: typed_ok_def)
  moreover have "acks_ok ?s" using in_parts(3) [OF inv] off unfolding acks_ok_def ack by (auto intro: order_trans)
  moreover have "serving_ok ?s"
  proof -
    have "prefix (input (lk_up (s_links s t))) (untaken ?s)" using sv(1) unfolding hd un by (auto simp: prefix_def)
    moreover have "input (lk_up (s_links s t)) = untaken ?s" if "input (upstream s t) = untaken s"
      unfolding un that [symmetric] hd by simp
    ultimately show ?thesis unfolding serving_ok_def up using p sv(2-6) unfolding hd by auto
  qed
  moreover have "resuming_ok ?s"
  proof -
    have ne: "upstream s t \<noteq> []" by (simp add: hd)
    have "upstream ?s u = []" if "lk_header (s_links s u) \<noteq> None \<or> s_dial s = Some u \<or> s_next s \<le> u" for u
      using that in_parts(5) [OF inv] ne unfolding up by (auto simp: resuming_ok_def)
    moreover have False if "s_dial s = Some u" "FResume rep \<in> set (lk_down (s_links s u))" for u rep
      using that in_parts(5) [OF inv] ne a by (auto simp: resuming_ok_def)
    ultimately show ?thesis unfolding resuming_ok_def using in_parts(5) [OF inv] by (auto simp: resuming_ok_def)
  qed
  ultimately show ?thesis using tk by (simp add: in_inv_def)
qed

lemma take_more: "prefix b (drop n k) \<Longrightarrow> n \<le> length k \<Longrightarrow> take (n + length b) k = take n k @ b"
  by (auto simp: prefix_def take_add)

lemma in_data:
  assumes inv: "in_inv s" and a: "p_att (s_pr s) = Some t" and h: "s_ahand s t = Some (FData b)"
  shows "in_inv (s\<lparr>s_pr := proc_read t (FData b) (s_pr s), s_ahand := (s_ahand s)(t := None)\<rparr>)"
proof -
  note fits = served_fits [OF inv h a]
  let ?p = "proc_read t (FData b) (s_pr s)"
  have t: "taken_ok s" by (rule in_parts(2) [OF inv])
  have p: "?p = (if p_inClosed (s_pr s) then (s_pr s)\<lparr>p_inOff := p_inOff (s_pr s) + int (length b), p_inRecv := p_inRecv (s_pr s) + int (length b)\<rparr>
      else (s_pr s)\<lparr>p_inQueue := p_inQueue (s_pr s) @ b, p_inRecv := p_inRecv (s_pr s) + int (length b)\<rparr>)"
    using fits(1) by (simp add: proc_read_def Let_def)
  have r: "0 \<le> p_inRecv (s_pr s)" "p_inRecv (s_pr s) \<le> int (length (g_typed s))" using t by (simp_all add: taken_ok_def Let_def)
  have len: "p_inRecv (s_pr s) + int (length b) \<le> int (length (g_typed s))"
    using prefix_length_le [OF fits(3)] r by (simp add: untaken_def)
  have more: "take (nat (p_inRecv (s_pr s) + int (length b))) (g_typed s) = take (nat (p_inRecv (s_pr s))) (g_typed s) @ b"
    using take_more [of b "nat (p_inRecv (s_pr s))" "g_typed s"] fits(3) r by (simp add: untaken_def nat_add_distrib)
  have eof: "\<not> p_inEOF (s_pr s)" using fits(1) by (simp add: breaks_def)
  have "taken_ok (s\<lparr>s_pr := ?p, s_ahand := (s_ahand s)(t := None)\<rparr>)"
  proof (cases "p_inClosed (s_pr s)")
    case True
    then show ?thesis unfolding p using t r len eof by (simp add: taken_ok_def Let_def)
  next
    case False
    then have "(g_eaten s @ p_inQueue (s_pr s)) @ b = take (nat (p_inRecv (s_pr s) + int (length b))) (g_typed s)"
      unfolding more using t by (simp add: taken_ok_def Let_def)
    with False show ?thesis unfolding p using t r len eof by (simp add: taken_ok_def Let_def)
  qed
  then show ?thesis using a by (intro in_taken [OF inv a h]) (simp_all add: p)
qed

lemma in_eof:
  assumes inv: "in_inv s" and a: "p_att (s_pr s) = Some t" and h: "s_ahand s t = Some FEOF"
  shows "in_inv (s\<lparr>s_pr := proc_read t FEOF (s_pr s), s_ahand := (s_ahand s)(t := None)\<rparr>)"
proof -
  have "e_inEOF (s_ex s)" "untaken s = []"
    using in_parts(4) [OF inv] a by (auto simp: serving_ok_def upstream_hand [OF h])
  then have "taken_ok (s\<lparr>s_pr := proc_read t FEOF (s_pr s), s_ahand := (s_ahand s)(t := None)\<rparr>)"
    using in_parts(2) [OF inv] by (auto simp: taken_ok_def Let_def proc_read_def untaken_def)
  then show ?thesis using a by (intro in_taken [OF inv a h]) (simp_all add: proc_read_def)
qed

lemma finish_input:
  "p_inQueue (proc_finish p) = p_inQueue p" "p_inEOF (proc_finish p) = p_inEOF p" "p_inClosed (proc_finish p) = p_inClosed p"
  "p_inRecv (proc_finish p) = p_inRecv p" "p_inOff (proc_finish p) = p_inOff p" "p_att (proc_finish p) = p_att p \<or> p_att (proc_finish p) = None"
  "a_hand (p_atts (proc_finish p) t) = a_hand (p_atts p t)"
  by (auto simp: proc_finish_def Let_def set_att_def split: option.split)

lemma in_AgentFrame:
  assumes inv: "in_inv s" and a: "p_att (s_pr s) = Some t" and h: "s_ahand s t = Some f"
  shows "in_inv (s\<lparr>s_pr := proc_read t f (s_pr s), s_ahand := (s_ahand s)(t := None)\<rparr>)"
proof (cases "(\<exists>b. f = FData b) \<or> f = FEOF")
  case True
  then show ?thesis using in_data [OF inv a] in_eof [OF inv a] h by auto
next
  case False
  let ?p = "proc_read t f (s_pr s)"
  have k: "p_inQueue ?p = p_inQueue (s_pr s)" "p_inEOF ?p = p_inEOF (s_pr s)" "p_inClosed ?p = p_inClosed (s_pr s)"
    "p_inRecv ?p = p_inRecv (s_pr s)" "p_inOff ?p = p_inOff (s_pr s)" "p_att ?p = p_att (s_pr s) \<or> p_att ?p = None"
    "a_hand (p_atts ?p u) = a_hand (p_atts (s_pr s) u)" "frame_bytes False f = []" for u
    using False finish_input [of "s_pr s"] by (cases f; simp add: proc_read_def proc_abort_def)+
  have "taken_ok (s\<lparr>s_pr := ?p, s_ahand := (s_ahand s)(t := None)\<rparr>)"
    using in_parts(2) [OF inv] by (simp add: taken_ok_def Let_def k)
  then show ?thesis using a k(6) by (intro in_taken [OF inv a h]) (simp_all add: k(1-5) k(7,8))
qed

section \<open>A loss\<close>

lemma resuming_less:
  assumes r: "resuming_ok s" and same: "s_dial s' = s_dial s" "s_next s' = s_next s" "s_pr s' = s_pr s" "s_ex s' = s_ex s"
    and up: "\<And>u. upstream s u = [] \<Longrightarrow> upstream s' u = []"
    and l: "\<And>u. lk_header (s_links s' u) \<noteq> None \<Longrightarrow> lk_header (s_links s u) \<noteq> None"
      "\<And>u rep. FResume rep \<in> set (lk_down (s_links s' u)) \<Longrightarrow> FResume rep \<in> set (lk_down (s_links s u))"
  shows "resuming_ok s'"
proof -
  have 1: "upstream s' t = []" if "lk_header (s_links s' t) \<noteq> None \<or> s_dial s = Some t \<or> s_next s \<le> t" for t
    using r that l(1) [of t] up [of t] unfolding resuming_ok_def by blast
  have 2: "rr_stdin rep = p_inRecv (s_pr s) \<and> rr_stdout rep = e_outOff (s_ex s) \<and> rr_stderr rep = e_errOff (s_ex s) \<and>
      (\<forall>u. p_att (s_pr s) = Some u \<longrightarrow> upstream s' u = [])"
    if "s_dial s = Some t" "FResume rep \<in> set (lk_down (s_links s' t))" for t rep
    using r that(1) l(2) [OF that(2)] up unfolding resuming_ok_def by blast
  have 3: "s_dial s \<noteq> None \<Longrightarrow> e_resumable (s_ex s)" using r unfolding resuming_ok_def by blast
  show ?thesis unfolding resuming_ok_def same using 1 2 3 by blast
qed

lemma in_Loss:
  assumes inv: "in_inv s"
  shows "in_inv (set_link t (\<lambda>l. l\<lparr>lk_open := False, lk_up := take n (lk_up l), lk_down := take m (lk_down l),
     lk_header := (if keep then lk_header l else None)\<rparr>) s)" (is "in_inv ?s")
proof -
  define k where "k = (\<lambda>u. if u = t then length (case s_ahand s t of None \<Rightarrow> [] | Some f \<Rightarrow> [f]) + n else length (upstream s u))"
  have up: "upstream ?s u = take (k u) (upstream s u)" for u by (simp add: upstream_def k_def)
  have u: "untaken ?s = untaken s" by (simp add: untaken_def)
  have ack: "ack_at ?s v pg \<Longrightarrow> ack_at s v pg" for v pg by (auto simp: ack_at_def dest: in_set_takeD split: if_splits)
  have "typed_ok ?s" using in_parts(1) [OF inv] by (simp add: typed_ok_def)
  moreover have "taken_ok ?s" using in_parts(2) [OF inv] by (simp add: taken_ok_def Let_def)
  moreover have "acks_ok ?s" using in_parts(3) [OF inv] ack unfolding acks_ok_def by auto
  moreover have "serving_ok ?s"
    unfolding serving_ok_def
  proof (intro allI impI)
    fix w assume "p_att (s_pr ?s) = Some w"
    then have h: "prefix (input (upstream s w)) (untaken s)"
      "e_conn (s_ex s) \<and> e_gen (s_ex s) = w \<and> lk_open (s_links s w) \<Longrightarrow> input (upstream s w) = untaken s"
      "FEOF \<in> set (upstream s w) \<Longrightarrow> e_inEOF (s_ex s) \<and> input (upstream s w) = untaken s"
      "nothing_after (\<lambda>f. is_eof f) (upstream s w)" "FData [] \<notin> set (upstream s w)" "w < s_next s"
      using in_parts(4) [OF inv] by (auto simp: serving_ok_def)
    have other: "w \<noteq> t \<Longrightarrow> upstream ?s w = upstream s w" by (simp add: upstream_def)
    have 1: "prefix (input (upstream ?s w)) (untaken s)"
      unfolding up using bytes_take_prefix h(1) by (rule prefix_order.trans)
    have 2: "e_inEOF (s_ex s) \<and> input (upstream ?s w) = untaken s" if e: "FEOF \<in> set (upstream ?s w)"
    proof -
      have "input (take (k w) (upstream s w)) = input (upstream s w)"
        using mark_take_all [OF h(4), of "k w"] e unfolding up list_ex_eof by blast
      then show ?thesis using h(3) e unfolding up by (auto dest: in_set_takeD)
    qed
    have 3: "nothing_after (\<lambda>f. is_eof f) (upstream ?s w)" "FData [] \<notin> set (upstream ?s w)"
      unfolding up using h(4,5) nothing_after_take by (auto dest: in_set_takeD)
    show "prefix (input (upstream ?s w)) (untaken ?s) \<and>
        (e_conn (s_ex ?s) \<and> e_gen (s_ex ?s) = w \<and> lk_open (s_links ?s w) \<longrightarrow> input (upstream ?s w) = untaken ?s) \<and>
        (FEOF \<in> set (upstream ?s w) \<longrightarrow> e_inEOF (s_ex ?s) \<and> input (upstream ?s w) = untaken ?s) \<and>
        nothing_after (\<lambda>f. is_eof f) (upstream ?s w) \<and> FData [] \<notin> set (upstream ?s w) \<and> w < s_next ?s"
      using 1 2 3 h(2,6) other unfolding u by (cases "w = t") auto
  qed
  moreover have "resuming_ok ?s"
    using up by (intro resuming_less [OF in_parts(5) [OF inv]]) (auto dest: in_set_takeD split: if_splits)
  ultimately show ?thesis by (simp add: in_inv_def)
qed

end
