(* ===== verification/ExecResume.thy ===== *)
theory ExecResume
  imports ExecIn
begin

text \<open>
  A resumable command over transports that are lost at any time: its input and its output arrive once
  and in order. The invariants of both directions hold in every state a strict run reaches; the
  properties follow. Two runs that are not strict show what the code risks: output delivered twice
  and input taken twice.
\<close>

section \<open>What the operations keep of the input\<close>

lemma kept_refl [simp]: "input_kept e e" "queue_kept p p"
  by (simp_all add: input_kept_def queue_kept_def)

lemma kept_finish [simp]: "input_kept e (exec_finish st er e)"
  by (simp add: input_kept_def exec_finish_def)

lemma kept_lost [simp]: "input_kept e (exec_lost t e)"
  by (simp add: input_kept_def exec_finish_def exec_lost_def Let_def)

lemma kept_Resize: "exec_Resize r c e = (ex, fs) \<Longrightarrow> input_kept e ex \<and> no_input fs \<and> (fs \<noteq> [] \<longrightarrow> e_conn e)"
  by (auto simp: exec_Resize_def input_kept_def split: if_splits)

lemma kept_Close: "exec_Close e = (ex, fs) \<Longrightarrow> input_kept e ex \<and> no_input fs \<and> (fs \<noteq> [] \<longrightarrow> e_conn e)"
  by (auto simp: exec_Close_def Let_def input_kept_def exec_finish_def split: if_splits)

lemma kept_received: "exec_received a1 a2 e = (ex, fs) \<Longrightarrow> e_conn e \<Longrightarrow> input_kept e ex \<and> no_input fs"
  by (auto simp: exec_received_def Let_def input_kept_def split: if_splits)

lemma kept_exit: "exec_exit st e = (ex, fs) \<Longrightarrow> input_kept e ex \<and> no_input fs"
  by (auto simp: exec_exit_def)

lemma kept_trans: "input_kept d e \<Longrightarrow> input_kept e f \<Longrightarrow> input_kept d f"
  by (auto simp: input_kept_def)

lemma kept_tick:
  assumes tick: "exec_tick silent t e = (ex, fs)"
  shows "input_kept e ex \<and> no_input fs \<and> (fs \<noteq> [] \<longrightarrow> e_conn e \<and> e_gen e = t)"
proof (cases "e_gen e \<noteq> t \<or> \<not> e_conn e")
  case True
  then show ?thesis using tick by (auto simp: exec_tick_def)
next
  case False
  define e1 where "e1 = (if e_resumable e then e\<lparr>e_ackOut := e_outOff e, e_ackErr := e_errOff e\<rparr> else e)"
  have k: "input_kept e e1" by (simp add: e1_def input_kept_def)
  have "ex = exec_lost t e1 \<and> fs = [] \<or> ex = e1 \<and> no_input fs"
    using tick False unfolding exec_tick_def Let_def e1_def [symmetric] by (auto split: if_splits)
  then show ?thesis using k kept_trans [OF k kept_lost, of t] False by auto
qed

lemma put_down_nothing [simp]: "put_down t [] s = s"
  by (simp add: put_down_def set_link_def fun_upd_idem_iff)

lemma in_client0:
  assumes "out_inv s" "in_inv s" "input_kept (s_ex s) ex" "no_input fs" "fs \<noteq> [] \<Longrightarrow> e_conn (s_ex s) \<and> e_gen (s_ex s) = t"
  shows "in_inv (put_up t fs (s\<lparr>s_ex := ex\<rparr>))"
  using in_client [OF assms, of "s_chand s" "s_creader s"] by simp

lemma in_client1: "out_inv s \<Longrightarrow> in_inv s \<Longrightarrow> input_kept (s_ex s) ex \<Longrightarrow> in_inv (s\<lparr>s_ex := ex\<rparr>)"
  using in_client0 [of s ex "[]" 0] by simp

lemma in_agent0: "in_inv s \<Longrightarrow> queue_kept (s_pr s) p \<Longrightarrow> in_inv (s\<lparr>s_pr := p\<rparr>)"
  using in_agent [of s p "[]" 0 "s_areader s"] by simp

lemma queue_kept_trans: "queue_kept p q \<Longrightarrow> queue_kept q r \<Longrightarrow> queue_kept p r"
  by (auto simp: queue_kept_def) metis+

lemma kept_proc_finish [simp]: "queue_kept p (proc_finish p)"
  using finish_input [of p] by (auto simp: queue_kept_def)

lemma kept_abort [simp]: "queue_kept p (proc_abort p)"
  by (simp add: queue_kept_def proc_abort_def)

lemma kept_wait: "queue_kept p (proc_wait st p)"
proof -
  have k: "queue_kept p (p\<lparr>p_exited := True, p_status := st\<rparr>)" by (simp add: queue_kept_def)
  show ?thesis using k queue_kept_trans [OF k kept_proc_finish] by (simp add: proc_wait_def Let_def)
qed

lemma kept_proc_lost: "queue_kept p (proc_lost t p)"
proof (cases "a_gone (p_atts p t)")
  case True
  then show ?thesis by (simp add: proc_lost_def)
next
  case False
  define p1 where "p1 = (set_att t (\<lambda>a. a\<lparr>a_gone := True\<rparr>) p)\<lparr>p_att := None\<rparr>"
  define p2 where "p2 = p1\<lparr>p_dropOutput := True\<rparr>"
  have k: "queue_kept p p1" "queue_kept p p2" by (auto simp: queue_kept_def p1_def p2_def set_att_def)
  have l: "proc_lost t p = (if p_finished p1 then p1 else if p_resumable p1 \<and> \<not> p_aborted p1 then p1
      else if p_exited p2 then proc_finish p2 else proc_abort p2)"
    using False by (simp only: proc_lost_def Let_def p1_def p2_def if_False)
  show ?thesis unfolding l
    using k queue_kept_trans [OF k(2) kept_proc_finish] queue_kept_trans [OF k(2) kept_abort] by (simp split: if_split)
qed

lemma kept_giveUp: "queue_kept p (giveUp p)"
proof -
  let ?p = "(proc_abort (p\<lparr>p_dropOutput := True\<rparr>))\<lparr>p_aborted := True\<rparr>"
  have 1: "queue_kept p ?p" by (simp add: queue_kept_def proc_abort_def)
  show ?thesis unfolding giveUp_def Let_def
    using 1 queue_kept_trans [OF 1 kept_proc_finish] by (simp split: if_split)
qed

lemma kept_pick: "queue_kept p (send_pick t p)"
  by (auto simp: queue_kept_def send_pick_def Let_def set_att_def split: if_splits)

lemma kept_written: "queue_kept p (send_written t p)"
  by (auto simp: queue_kept_def send_written_def set_att_def split: picked_output.split)

lemma kept_failed: "queue_kept p (send_failed t p)"
proof -
  have k: "queue_kept p (set_att t (\<lambda>a. a\<lparr>a_hand := Idle\<rparr>) p)" by (auto simp: queue_kept_def set_att_def)
  show ?thesis using queue_kept_trans [OF k kept_proc_lost] by (simp add: send_failed_def)
qed

lemma kept_done: "queue_kept p (send_done t p)"
proof (cases "a_hand (p_atts p t)")
  case (Written b1 b2 x)
  define p1 where "p1 = send_count t b1 b2 p"
  define p2 where "p2 = (if p_resumable p1 then p1
     else p1\<lparr>p_out := ring_Trim (a_sentOut (p_atts p1 t)) (p_out p1), p_errOut := ring_Trim (a_sentErr (p_atts p1 t)) (p_errOut p1)\<rparr>)"
  have d: "send_done t p = (if x \<and> \<not> p_resumable p2 then proc_finish p2 else p2)"
    using Written by (simp only: send_done_def p1_def p2_def send_count_def Let_def picked_output.case)
  have "queue_kept p p1" by (auto simp: queue_kept_def p1_def send_count_def set_att_def)
  then have k: "queue_kept p p2" by (simp add: queue_kept_def p2_def)
  show ?thesis using k queue_kept_trans [OF k kept_proc_finish] by (simp add: d)
qed (simp_all add: send_done_def)

section \<open>Every step\<close>

lemma in_ClientPipe: "in_inv s \<Longrightarrow> in_inv (client_pipe t err b n s)"
proof -
  assume inv: "in_inv s"
  obtain rest pp where w: "pipe_Write b (if err then e_stderr (s_ex s) else e_stdout (s_ex s)) = (rest, pp)"
    by (meson surj_pair)
  note sys = client_pipe_sys [OF w]
  have e: "e_in (s_ex (client_pipe t err b n s)) = e_in (s_ex s)" "e_inEnd (s_ex (client_pipe t err b n s)) = e_inEnd (s_ex s)"
    "e_inAcked (s_ex (client_pipe t err b n s)) = e_inAcked (s_ex s)" "e_inEOF (s_ex (client_pipe t err b n s)) = e_inEOF (s_ex s)"
    "e_outOff (s_ex (client_pipe t err b n s)) = e_outOff (s_ex s)" "e_errOff (s_ex (client_pipe t err b n s)) = e_errOff (s_ex s)"
    "g_typed (client_pipe t err b n s) = g_typed s" "g_eaten (client_pipe t err b n s) = g_eaten s"
    using w by (auto simp: client_pipe_def Let_def)
  show ?thesis
    by (rule in_quiet [OF inv]) (auto simp: e sys ack_at_def upstream_def split: if_splits)
qed

lemma in_ClientNext:
  assumes inv: "in_inv s" and down: "lk_down (s_links s t) = f # fs"
  shows "in_inv (set_link t (\<lambda>l. l\<lparr>lk_down := fs\<rparr>) (s\<lparr>s_chand := (s_chand s)(t := client_take f)\<rparr>))" (is "in_inv ?s")
proof (rule in_quiet [OF inv])
  fix u pg assume "ack_at ?s u pg"
  moreover have "client_take f = CFrame (FPing pg) \<Longrightarrow> f = FPing pg" by (cases f) (simp_all add: client_take_def)
  ultimately show "ack_at s u pg \<or> pg_stdin pg \<le> p_inOff (s_pr s)" using down by (auto simp: ack_at_def split: if_splits)
qed (use down in \<open>auto simp: upstream_def split: if_splits\<close>)

lemma in_ClientFrame:
  assumes out: "out_inv s" and inv: "in_inv s" and hand: "s_chand s t = CFrame f" and at: "e_conn (s_ex s)" "e_gen (s_ex s) = t"
  shows "in_inv (client_frame t f s)"
proof -
  let ?c = "(s_chand s)(t := CIdle)"
  have "in_inv (put_up t [] (s\<lparr>s_chand := ?c, s_ex := s_ex s, s_creader := s_creader s\<rparr>))"
    by (rule in_client [OF out inv]) (auto split: if_splits)
  then have i: "in_inv (s\<lparr>s_chand := ?c\<rparr>)" by simp
  have "in_inv (put_up t fs (s\<lparr>s_chand := ?c, s_ex := ex, s_creader := (s_creader s)(t := False)\<rparr>))" if "exec_exit st (s_ex s) = (ex, fs)" for st ex fs
    using kept_exit [OF that] at by (intro in_client [OF out inv]) (auto split: if_splits)
  moreover have "in_inv (s\<lparr>s_chand := ?c, s_ex := exec_ping pg (s_ex s)\<rparr>)" if "f = FPing pg" for pg
  proof -
    have "pg_stdin pg \<le> p_inOff (s_pr s)" using in_parts(3) [OF inv] hand that unfolding acks_ok_def ack_at_def by blast
    then show ?thesis using in_ack [OF i, of pg] by simp
  qed
  ultimately show ?thesis
    using i by (auto simp: client_frame_def Let_def split: frame.splits option.splits prod.splits)
qed

lemma in_Write:
  assumes inv: "in_inv s" and hand: "a_hand (p_atts (s_pr s) t) = Picked b1 b2 ack st"
  shows "in_inv (put_down t (picked_frames (a_hand (p_atts (s_pr s) t))) (s\<lparr>s_pr := send_written t (s_pr s)\<rparr>))"
proof -
  have "pg_stdin pg \<le> p_inOff (s_pr s)" if "ack = Some pg" for pg
    using in_parts(3) [OF inv] hand that unfolding acks_ok_def ack_at_def by blast
  then have "FPing pg \<in> set (picked_frames (a_hand (p_atts (s_pr s) t))) \<Longrightarrow> pg_stdin pg \<le> p_inOff (s_pr s)" for pg
    by (auto simp: hand split: option.splits if_splits)
  moreover have "FResume rep \<notin> set (picked_frames (a_hand (p_atts (s_pr s) t)))" for rep
    by (auto simp: hand split: option.splits)
  ultimately show ?thesis
    using in_agent [OF inv kept_written [of "s_pr s" t], of "picked_frames (a_hand (p_atts (s_pr s) t))" t "s_areader s"] by simp
qed

lemma in_undial: "in_inv s \<Longrightarrow> in_inv (s\<lparr>s_dial := None\<rparr>)"
  by (rule in_quiet [of s]) (auto simp: ack_at_def upstream_def)

lemma in_Output:
  assumes inv: "in_inv s"
  shows "in_inv (s\<lparr>s_pr := pump err b (s_pr s), g_dropped := dr, g_out := o1, g_err := o2\<rparr>)" (is "in_inv ?s")
  by (rule in_quiet [OF inv]) (auto simp: pump_def ack_at_def upstream_def split: if_splits)

lemma step_keeps_in:
  assumes "exec_step True s s'" "out_inv s" "in_inv s"
  shows "in_inv s'"
  using assms
proof (induction rule: exec_step.induct)
  case (Type b s n ex fs)
  then show ?case by (intro in_Type)
next
  case (TypeEnd s ex fs)
  then show ?case by (intro in_TypeEnd)
next
  case (UserRead s n m)
  then show ?case by (intro in_client1) (auto simp: input_kept_def)
next
  case (UserResize rows cols s ex fs)
  then show ?case using kept_Resize [OF UserResize(1)] by (intro in_client0) auto
next
  case (UserSignal sg s fs)
  then show ?case using in_client0 [of s "s_ex s" fs "e_gen (s_ex s)"] by (auto simp: exec_Signal_def split: if_splits)
next
  case (UserClose s ex fs)
  then show ?case using kept_Close [OF UserClose(1)] by (intro in_client0) auto
next
  case (UserFail s err)
  then show ?case by (intro in_client1) (auto simp: exec_Fail_def)
next
  case (AbortTimeout s t)
  then show ?case by (intro in_client1) auto
next
  case (ClientNext s t f fs)
  then show ?case by (intro in_ClientNext)
next
  case (ClientPipe s t err b n)
  then show ?case by (intro in_ClientPipe)
next
  case (ClientReceived s t err n ex fs)
  have "in_inv (put_up t fs (s\<lparr>s_chand := (s_chand s)(t := CIdle), s_ex := ex, s_creader := s_creader s\<rparr>))"
    using ClientReceived kept_received [OF ClientReceived(2)] by (intro in_client) (auto split: if_splits)
  moreover have "s\<lparr>s_ex := ex, s_chand := (s_chand s)(t := CIdle)\<rparr> = s\<lparr>s_chand := (s_chand s)(t := CIdle), s_ex := ex, s_creader := s_creader s\<rparr>"
    by simp
  ultimately show ?case by (simp only:)
next
  case (ClientFrame s t f)
  then show ?case by (intro in_ClientFrame) auto
next
  case (ClientReadError s t)
  have "in_inv (put_up t [] (s\<lparr>s_chand := s_chand s, s_ex := exec_lost t (s_ex s), s_creader := (s_creader s)(t := False)\<rparr>))"
    using ClientReadError by (intro in_client) auto
  then show ?case by simp
next
  case (Heartbeat silent t s ex fs)
  then show ?case using kept_tick [OF Heartbeat(1)] by (intro in_client0) auto
next
  case (Dial s t)
  then show ?case by (intro in_Dial)
next
  case (DialFails s t)
  then show ?case by (rule_tac in_undial)
next
  case (Reattach s t f fs ex out)
  then show ?case by (intro in_Reattach)
next
  case (Accept s t o1 o2 p rep)
  then show ?case by (intro in_Accept)
next
  case (Refuse s t o1 o2 msg)
  then show ?case by (intro in_Refuse)
next
  case (Output b err s)
  then show ?case by (intro in_Output)
next
  case (OutputEnd s err)
  then show ?case by (intro in_agent0) (auto simp: queue_kept_def pump_end_def)
next
  case (Feed s n failed)
  then show ?case by (intro in_Feed)
next
  case (FeedEnd s)
  then show ?case by (intro in_FeedEnd)
next
  case (Exit s st)
  then show ?case by (intro in_agent0 kept_wait)
next
  case (Pick s t)
  then show ?case by (intro in_agent0 kept_pick)
next
  case (Write s t b1 b2 ack st)
  then show ?case by (intro in_Write)
next
  case (WriteFails s t b1 b2 ack st)
  then show ?case by (intro in_agent0 kept_failed)
next
  case (Sent s t b1 b2 ex)
  then show ?case by (intro in_agent0 kept_done)
next
  case (AgentNext s t f fs)
  then show ?case by (intro in_AgentNext)
next
  case (AgentFrame s t f)
  then show ?case by (intro in_AgentFrame) auto
next
  case (AgentReadError s t fin)
  have "queue_kept (s_pr s) (if fin then proc_abort (s_pr s) else proc_lost t (s_pr s))" by (simp add: kept_proc_lost)
  then have "in_inv (put_down t [] (s\<lparr>s_pr := (if fin then proc_abort (s_pr s) else proc_lost t (s_pr s)), s_areader := (s_areader s)(t := False)\<rparr>))"
    using AgentReadError by (intro in_agent) auto
  then show ?case by simp
next
  case (GiveUp s)
  then show ?case by (intro in_agent0 kept_giveUp)
next
  case (GiveUpEnd s)
  then show ?case by (intro in_agent0 kept_proc_finish)
next
  case (Loss s t n m keep)
  then show ?case by (rule_tac in_Loss)
qed

lemma init_in: "in_inv (sys_init resumable tty rows cols)" (is "in_inv ?s")
proof -
  have up: "upstream ?s t = []" for t by (simp add: sys_init_def upstream_def no_link_def new_link_def)
  have a: "ack_at ?s t pg = False" for t pg
  proof -
    have "p_atts (s_pr ?s) t = no_attachment" by (simp add: init_sys startProc_def)
    then show ?thesis by (simp add: ack_at_def no_attachment_def) (simp add: sys_init_def no_link_def new_link_def)
  qed
  have g: "g_typed ?s = []" "g_eaten ?s = []" "s_dial ?s = None" "s_next ?s = 1" by (simp_all add: sys_init_def)
  have "typed_ok ?s" using keeps_tail_empty
    by (simp add: typed_ok_def g) (simp add: init_sys newExec_def startProc_def ring_empty_def)
  moreover have "taken_ok ?s" by (simp add: taken_ok_def Let_def g) (simp add: init_sys startProc_def)
  moreover have "acks_ok ?s" by (simp add: acks_ok_def a)
  moreover have "serving_ok ?s" by (simp add: serving_ok_def up untaken_def g) (simp add: init_sys startProc_def)
  moreover have "resuming_ok ?s" by (simp add: resuming_ok_def up g)
  ultimately show ?thesis by (simp add: in_inv_def)
qed

lemma reach_keeps_both: "exec_reach True s u \<Longrightarrow> out_inv s \<Longrightarrow> in_inv s \<Longrightarrow> out_inv u \<and> in_inv u"
  by (induction rule: exec_reach.induct) (blast intro: step_keeps_out step_keeps_in)+

lemma reach_both: "exec_reach True (sys_init resumable tty rows cols) s \<Longrightarrow> out_inv s \<and> in_inv s"
  by (rule reach_keeps_both [OF _ init_out init_in])

section \<open>What the agent holds of the output\<close>

definition held_ok :: "sys \<Rightarrow> bool" where
  "held_ok s \<longleftrightarrow> (\<forall>err. ring_Len (out_ring (s_pr s) err) \<le> int (HoldBuffer + DataChunk))"

lemma held_same: "held_ok s \<Longrightarrow> out_ring (s_pr s') = out_ring (s_pr s) \<Longrightarrow> held_ok s'"
  by (simp add: held_ok_def)

lemma held_quiet: "held_ok s \<Longrightarrow> agent_quiet (s_pr s) p \<Longrightarrow> s_pr s' = p \<Longrightarrow> held_ok s'"
  by (rule held_same) (simp_all add: agent_quiet_out(1))

lemma Trim_Len: "keeps_tail r k \<Longrightarrow> ring_Len (ring_Trim to r) \<le> ring_Len r"
  using keeps_tail_Len [of r k] keeps_tail_Len [OF Trim_keeps, of r k to] Trim_base [of r k to] by simp

lemma Append_Len: "keeps_tail r k \<Longrightarrow> ring_Len (ring_Append b r) = ring_Len r + int (length b)"
  using keeps_tail_Len [of r k] keeps_tail_Len [OF Append_keeps, of r k b] by simp

lemma held_trimmed:
  assumes "out_inv s" "held_ok s"
    and "\<And>err. \<exists>to. out_ring (s_pr s') err = ring_Trim to (out_ring (s_pr s) err) \<or> out_ring (s_pr s') err = out_ring (s_pr s) err"
  shows "held_ok s'"
  unfolding held_ok_def
proof
  fix err
  have "keeps_tail (out_ring (s_pr s) err) (kept s err)" using out_parts(1) [OF assms(1)] by (simp add: streams_ok_def)
  then have "ring_Len (out_ring (s_pr s') err) \<le> ring_Len (out_ring (s_pr s) err)"
    using assms(3) [of err] Trim_Len by fastforce
  also have "\<dots> \<le> int (HoldBuffer + DataChunk)" using assms(2) by (simp add: held_ok_def)
  finally show "ring_Len (out_ring (s_pr s') err) \<le> int (HoldBuffer + DataChunk)" .
qed

lemma held_pumped:
  assumes out: "out_inv s" and h: "held_ok s" and b: "length b \<le> DataChunk" and w: "\<not> pump_waits err (s_pr s)"
    and p: "s_pr s' = pump err b (s_pr s)"
  shows "held_ok s'"
  unfolding held_ok_def
proof
  fix e
  have "keeps_tail (out_ring (s_pr s) e) (kept s e)" using out_parts(1) [OF out] by (simp add: streams_ok_def)
  note len = Append_Len [OF this, of b]
  have bound: "ring_Len (out_ring (s_pr s) e) \<le> int (HoldBuffer + DataChunk)" using h by (simp add: held_ok_def)
  show "ring_Len (out_ring (s_pr s') e) \<le> int (HoldBuffer + DataChunk)"
  proof (cases "e = err \<and> \<not> p_dropOutput (s_pr s)")
    case True
    then have "ring_Len (out_ring (s_pr s) e) < int HoldBuffer" using w by (simp add: pump_waits_def out_ring_def)
    then show ?thesis using len b True unfolding p pump_sys by simp
  next
    case False
    then show ?thesis using bound unfolding p pump_sys by auto
  qed
qed

lemma done_rings:
  "\<exists>to. out_ring (send_done t p) err = ring_Trim to (out_ring p err) \<or> out_ring (send_done t p) err = out_ring p err"
proof (cases "a_hand (p_atts p t)")
  case (Written b1 b2 x)
  define p1 where "p1 = send_count t b1 b2 p"
  define p2 where "p2 = (if p_resumable p1 then p1
     else p1\<lparr>p_out := ring_Trim (a_sentOut (p_atts p1 t)) (p_out p1), p_errOut := ring_Trim (a_sentErr (p_atts p1 t)) (p_errOut p1)\<rparr>)"
  have d: "send_done t p = (if x \<and> \<not> p_resumable p2 then proc_finish p2 else p2)"
    using Written by (simp only: send_done_def p1_def p2_def send_count_def Let_def picked_output.case)
  have "p_out p1 = p_out p" "p_errOut p1 = p_errOut p" by (simp_all add: p1_def send_count_def set_att_def)
  then have "out_ring p2 err = ring_Trim (if err then a_sentErr (p_atts p1 t) else a_sentOut (p_atts p1 t)) (out_ring p err) \<or>
      out_ring p2 err = out_ring p err"
    by (simp add: p2_def out_ring_def)
  moreover have "out_ring (proc_finish p2) = out_ring p2" by (rule agent_quiet_out(1)) simp
  ultimately show ?thesis unfolding d by (auto split: if_split)
qed (auto simp: send_done_def)

lemma read_rings:
  "\<exists>to. out_ring (proc_read t f p) err = ring_Trim to (out_ring p err) \<or> out_ring (proc_read t f p) err = out_ring p err"
proof (cases "\<exists>pg. f = FPing pg")
  case True
  then show ?thesis by (auto simp: proc_read_def out_ring_def)
next
  case False
  then show ?thesis using agent_quiet_out(1) [OF read_quiet] by metis
qed

lemma step_keeps_held:
  assumes "exec_step True s s'" "out_inv s" "held_ok s"
  shows "held_ok s'"
  using assms
proof (induction rule: exec_step.induct)
  case (Accept s t o1 o2 p rep)
  show ?case using attach_sys(6) [OF Accept(2)] by (rule_tac held_trimmed [OF Accept(3,4)]) auto
next
  case (Output b err s)
  then show ?case by (rule_tac held_pumped [of s b err]) auto
next
  case (OutputEnd s err)
  then show ?case by (rule_tac held_quiet [OF _ quiet_pump_end]) auto
next
  case (Feed s n failed)
  then show ?case by (rule_tac held_same) (auto simp: feedStdin_def close_input_def Let_def out_ring_def)
next
  case (FeedEnd s)
  then show ?case by (rule_tac held_same) (auto simp: close_input_def out_ring_def)
next
  case (Exit s st)
  then show ?case by (rule_tac held_quiet [OF _ quiet_wait]) auto
next
  case (Pick s t)
  then show ?case by (rule_tac held_same) (auto simp: pick_sys)
next
  case (Write s t b1 b2 ack st)
  then show ?case by (rule_tac held_same) (auto simp: written_sys)
next
  case (WriteFails s t b1 b2 ack st)
  then show ?case by (rule_tac held_quiet [OF _ quiet_send_failed]) auto
next
  case (Sent s t b1 b2 ex)
  show ?case using done_rings by (rule_tac held_trimmed [OF Sent(2,3)]) simp
next
  case (AgentFrame s t f)
  show ?case using read_rings by (rule_tac held_trimmed [OF AgentFrame(3,4)]) simp
next
  case (AgentReadError s t fin)
  then show ?case by (rule_tac held_quiet [of s "if fin then proc_abort (s_pr s) else proc_lost t (s_pr s)"]) (auto simp: quiet_proc_lost)
next
  case (GiveUp s)
  then show ?case by (rule_tac held_quiet [OF _ quiet_giveUp]) auto
next
  case (GiveUpEnd s)
  then show ?case by (rule_tac held_quiet [OF _ quiet_proc_finish]) auto
next
  case (ClientPipe s t err b n)
  have "s_pr (client_pipe t err b n s) = s_pr s" by (simp add: client_pipe_def Let_def split: prod.splits)
  then show ?case using held_same [OF ClientPipe(6)] by simp
next
  case (ClientFrame s t f)
  have "s_pr (client_frame t f s) = s_pr s" by (simp add: client_frame_def Let_def split: frame.splits option.splits prod.splits)
  then show ?case using held_same [OF ClientFrame(4)] by simp
qed (rule_tac held_same; simp)+

lemma init_held: "held_ok (sys_init resumable tty rows cols)"
  by (simp add: held_ok_def init_sys startProc_def out_ring_def ring_Len_def ring_empty_def)

lemma reach_held: "exec_reach True (sys_init resumable tty rows cols) s \<Longrightarrow> held_ok s"
proof -
  have "exec_reach True u s \<Longrightarrow> out_inv u \<Longrightarrow> held_ok u \<Longrightarrow> out_inv s \<and> held_ok s" for u
    by (induction rule: exec_reach.induct) (blast intro: step_keeps_out step_keeps_held)+
  then show "exec_reach True (sys_init resumable tty rows cols) s \<Longrightarrow> held_ok s" using init_out init_held by blast
qed

end
