(* ===== verification/ExecWitness.thy ===== *)
theory ExecWitness
  imports ExecResume
begin

text \<open>
  Runs of a resumable command, and the properties of every run. \<open>seen\<close> is a run in which the command
  writes a byte and the client takes it; \<open>again\<close> continues it, not strictly, with a heartbeat that gives
  up the transport while its reader is in the middle of that byte; \<open>typed\<close> is a run, not strict, in
  which a replaced attachment's reader takes a byte after the RESUME was made.
\<close>

section \<open>Output\<close>

definition seen0 :: sys where
  "seen0 = sys_init True False 0 0"

definition seen1 :: sys where
  "seen1 = seen0\<lparr>s_pr := pump False ''a'' (s_pr seen0), g_dropped := g_dropped seen0 \<or> p_dropOutput (s_pr seen0),
     g_out := (if False \<or> p_dropOutput (s_pr seen0) then g_out seen0 else g_out seen0 @ ''a''),
     g_err := (if False \<and> \<not> p_dropOutput (s_pr seen0) then g_err seen0 @ ''a'' else g_err seen0)\<rparr>"

definition seen2 :: sys where
  "seen2 = seen1\<lparr>s_pr := send_pick 0 (s_pr seen1)\<rparr>"

definition seen3 :: sys where
  "seen3 = put_down 0 (picked_frames (a_hand (p_atts (s_pr seen2) 0))) (seen2\<lparr>s_pr := send_written 0 (s_pr seen2)\<rparr>)"

definition seen4 :: sys where
  "seen4 = seen3\<lparr>s_pr := send_done 0 (s_pr seen3)\<rparr>"

definition seen5 :: sys where
  "seen5 = set_link 0 (\<lambda>l. l\<lparr>lk_down := []\<rparr>) (seen4\<lparr>s_chand := (s_chand seen4)(0 := client_take (FData ''a''))\<rparr>)"

definition seen6 :: sys where
  "seen6 = client_pipe 0 False ''a'' 1 seen5"

lemmas limits = HoldBuffer_def DataChunk_def MaxFrame_def AckEvery_def pipeBuffer_def

lemma seen0_sys:
  "s_ex seen0 = (newExec True False 0 0)\<lparr>e_conn := True\<rparr>"
  "s_pr seen0 = (startProc False True)\<lparr>p_inAcked := -1, p_att := Some 0, p_attached := True\<rparr>"
  "s_links seen0 = (\<lambda>_. no_link)(0 := new_link None)" "s_chand seen0 = (\<lambda>_. CIdle)" "s_dial seen0 = None" "s_next seen0 = 1"
  "s_areader seen0 = (\<lambda>_. False)(0 := True)" "s_creader seen0 = (\<lambda>_. False)(0 := True)" "s_ahand seen0 = (\<lambda>_. None)"
  "g_out seen0 = []" "g_dout seen0 = []" "g_typed seen0 = []" "g_eaten seen0 = []"
  by (simp_all add: seen0_def init_sys) (simp_all add: sys_init_def)

lemmas start_defs = seen0_sys startProc_def newExec_def newPipe_def ring_empty_def no_attachment_def new_link_def no_link_def

lemmas agent_defs = pump_def ring_Append_def send_pick_def chunkFrom_def ring_From_def ring_End_def ackDue_def exitReady_def
  set_att_def send_written_def send_done_def hasWork_def limits

lemma seen_sent:
  "s_pr seen1 = (s_pr seen0)\<lparr>p_out := \<lparr>r_base = 0, r_buf = ''a'', r_off = 0\<rparr>\<rparr>"
  "s_pr seen2 = (s_pr seen1)\<lparr>p_atts := (p_atts (s_pr seen0))(0 := no_attachment\<lparr>a_hand := Picked ''a'' [] None None\<rparr>)\<rparr>"
  "s_pr seen3 = (s_pr seen1)\<lparr>p_atts := (p_atts (s_pr seen0))(0 := no_attachment\<lparr>a_hand := Written ''a'' [] False\<rparr>)\<rparr>"
  "s_pr seen4 = (s_pr seen1)\<lparr>p_atts := (p_atts (s_pr seen0))(0 := no_attachment\<lparr>a_sentOut := 1\<rparr>)\<rparr>"
proof -
  show 1: "s_pr seen1 = (s_pr seen0)\<lparr>p_out := \<lparr>r_base = 0, r_buf = ''a'', r_off = 0\<rparr>\<rparr>"
    by (simp add: seen1_def start_defs agent_defs)
  show 2: "s_pr seen2 = (s_pr seen1)\<lparr>p_atts := (p_atts (s_pr seen0))(0 := no_attachment\<lparr>a_hand := Picked ''a'' [] None None\<rparr>)\<rparr>"
    by (simp add: seen2_def 1 start_defs agent_defs)
  show 3: "s_pr seen3 = (s_pr seen1)\<lparr>p_atts := (p_atts (s_pr seen0))(0 := no_attachment\<lparr>a_hand := Written ''a'' [] False\<rparr>)\<rparr>"
    by (simp add: seen3_def 2 1 start_defs agent_defs)
  show "s_pr seen4 = (s_pr seen1)\<lparr>p_atts := (p_atts (s_pr seen0))(0 := no_attachment\<lparr>a_sentOut := 1\<rparr>)\<rparr>"
    by (simp add: seen4_def 3 1 start_defs agent_defs)
qed

lemma seen_rest:
  "s_ex seen4 = s_ex seen0" "s_links seen4 = (s_links seen0)(0 := (new_link None)\<lparr>lk_down := [FData ''a'']\<rparr>)" "s_chand seen4 = s_chand seen0"
  "s_areader seen4 = s_areader seen0" "s_creader seen4 = s_creader seen0" "s_dial seen4 = None" "s_next seen4 = 1" "g_out seen4 = ''a''" "g_dout seen4 = []"
  by (simp_all add: seen4_def seen3_def seen2_def seen1_def put_down_def set_link_def start_defs agent_defs)

lemma seen6_sys:
  "s_pr seen6 = s_pr seen4" "s_links seen6 = s_links seen0" "s_chand seen6 = (\<lambda>_. CIdle)(0 := CData False [] 1)"
  "s_areader seen6 = s_areader seen0" "s_creader seen6 = s_creader seen0" "s_dial seen6 = None" "s_next seen6 = 1" "g_out seen6 = ''a''" "g_dout seen6 = ''a''"
  "s_ex seen6 = (s_ex seen0)\<lparr>e_stdout := (newPipe pipeBuffer)\<lparr>pp_buf := ''a''\<rparr>\<rparr>"
  by (simp_all add: seen6_def seen5_def seen_rest client_pipe_def client_take_def pipe_Write_def set_link_def start_defs limits)

lemma seen6_reached: "exec_reach strict seen0 seen6"
proof -
  have 1: "exec_step strict seen0 seen1"
    unfolding seen1_def by (rule Output) (simp_all add: start_defs pump_waits_def ring_Len_def limits)
  have 2: "exec_step strict seen1 seen2"
    unfolding seen2_def by (rule Pick) (simp_all add: seen_sent start_defs agent_defs, simp add: seen1_def start_defs)
  have 3: "exec_step strict seen2 seen3"
    unfolding seen3_def by (rule Write) (simp_all add: seen_sent, simp add: seen2_def seen1_def start_defs)
  have 4: "exec_step strict seen3 seen4"
    unfolding seen4_def by (rule Sent [where ?b1.0 = "''a''" and ?b2.0 = "[]" and ex = False]) (simp add: seen_sent)
  have 5: "exec_step strict seen4 seen5"
    unfolding seen5_def by (rule ClientNext) (simp_all add: seen_rest start_defs)
  have 6: "exec_step strict seen5 seen6"
    unfolding seen6_def
    by (rule ClientPipe) (simp_all add: seen5_def seen_rest start_defs client_take_def pipe_waits_def limits)
  show ?thesis by (meson 1 2 3 4 5 6 exec_reach.intros)
qed

section \<open>Output delivered twice\<close>

definition again1 :: sys where
  "again1 = seen6\<lparr>s_ex := exec_lost 0 ((s_ex seen6)\<lparr>e_ackOut := 0, e_ackErr := 0\<rparr>)\<rparr>"

definition again2 :: sys where
  "again2 = set_link 1 (\<lambda>_. new_link (Some (e_outOff (s_ex again1), e_errOff (s_ex again1)))) (again1\<lparr>s_next := Suc 1, s_dial := Some 1\<rparr>)"

definition again3_proc :: proc where
  "again3_proc = (case proc_attach 1 0 0 (s_pr again2) of Inr (p, rep) \<Rightarrow> p | Inl _ \<Rightarrow> s_pr again2)"

definition again3 :: sys where
  "again3 = put_down 1 [FResume \<lparr>rr_stdin = 0, rr_stdout = 0, rr_stderr = 0\<rparr>] (set_link 1 (\<lambda>l. l\<lparr>lk_header := None\<rparr>)
     (again2\<lparr>s_pr := again3_proc, s_areader := (s_areader again2)(1 := True)\<rparr>))"

definition again4_exec :: exec where
  "again4_exec = fst (exec_reattach 1 (FResume \<lparr>rr_stdin = 0, rr_stdout = 0, rr_stderr = 0\<rparr>) (s_ex again3))"

definition again4 :: sys where
  "again4 = put_up 1 [] (set_link 1 (\<lambda>l. l\<lparr>lk_down := []\<rparr>)
     (again3\<lparr>s_ex := again4_exec, s_dial := None, s_creader := (s_creader again3)(1 := e_conn again4_exec \<and> e_gen again4_exec = 1)\<rparr>))"

definition again5 :: sys where
  "again5 = again4\<lparr>s_pr := send_pick 1 (s_pr again4)\<rparr>"

definition again6 :: sys where
  "again6 = put_down 1 (picked_frames (a_hand (p_atts (s_pr again5) 1))) (again5\<lparr>s_pr := send_written 1 (s_pr again5)\<rparr>)"

definition again7 :: sys where
  "again7 = set_link 1 (\<lambda>l. l\<lparr>lk_down := []\<rparr>) (again6\<lparr>s_chand := (s_chand again6)(1 := client_take (FData ''a''))\<rparr>)"

definition again8 :: sys where
  "again8 = client_pipe 1 False ''a'' 1 again7"

lemma again2_sys:
  "s_ex again2 = (s_ex seen6)\<lparr>e_conn := False, e_detached := True\<rparr>" "s_pr again2 = s_pr seen6" "s_dial again2 = Some 1"
  "s_links again2 = (s_links seen0)(1 := new_link (Some (0, 0)))" "s_areader again2 = s_areader seen0" "s_creader again2 = s_creader seen0"
  "s_chand again2 = s_chand seen6" "g_out again2 = ''a''" "g_dout again2 = ''a''" "s_next again2 = 2"
  by (simp_all add: again2_def again1_def set_link_def seen6_sys exec_lost_def Let_def start_defs)

lemma again3_attach:
  "proc_attach 1 0 0 (s_pr again2) = Inr (again3_proc, \<lparr>rr_stdin = 0, rr_stdout = 0, rr_stderr = 0\<rparr>)"
  "again3_proc = (s_pr seen1)\<lparr>p_att := Some 1, p_atts := (p_atts (s_pr seen0))(0 := no_attachment\<lparr>a_sentOut := 1, a_gone := True\<rparr>)\<rparr>"
  by (simp_all add: again3_proc_def again2_sys seen6_sys seen_sent proc_attach_def start_defs agent_defs ring_Trim_def Let_def fun_eq_iff)

lemma again4_attach:
  "exec_reattach 1 (FResume \<lparr>rr_stdin = 0, rr_stdout = 0, rr_stderr = 0\<rparr>) (s_ex again3) = (again4_exec, [])"
  "again4_exec = (s_ex seen6)\<lparr>e_gen := 1\<rparr>"
  by (simp_all add: again4_exec_def again3_def put_down_def set_link_def again2_sys seen6_sys exec_reattach_def exec_attach_def
      start_defs ring_From_def ring_End_def ring_Trim_def WriteData.simps)

lemma again4_sys:
  "s_ex again4 = again4_exec" "s_pr again4 = again3_proc" "s_dial again4 = None" "s_links again4 = (s_links seen0)(1 := new_link None)"
  "s_areader again4 = (s_areader seen0)(1 := True)" "s_creader again4 = (s_creader seen0)(1 := True)"
  "s_chand again4 = s_chand seen6" "g_out again4 = ''a''" "g_dout again4 = ''a''"
  by (simp_all add: again4_def again3_def put_down_def put_up_def set_link_def again2_sys again4_attach seen6_sys new_link_def
      seen0_sys newExec_def fun_upd_idem_iff)

lemma again6_sys:
  "a_hand (p_atts (s_pr again5) 1) = Picked ''a'' [] None None" "s_ex again6 = again4_exec"
  "s_links again6 = (s_links seen0)(1 := (new_link None)\<lparr>lk_down := [FData ''a'']\<rparr>)" "s_creader again6 = (s_creader seen0)(1 := True)"
  "s_chand again6 = s_chand seen6" "g_out again6 = ''a''" "g_dout again6 = ''a''"
  by (simp_all add: again6_def again5_def put_down_def set_link_def again4_sys again3_attach seen_sent start_defs agent_defs)

lemma again8_sys: "g_out again8 = ''a''" "g_dout again8 = ''aa''"
  by (simp_all add: again8_def again7_def set_link_def client_pipe_def pipe_Write_def again6_sys again4_attach seen6_sys start_defs limits)

lemma again8_reached: "exec_reach False seen0 again8"
proof -
  have 1: "exec_step False seen6 again1"
  proof -
    have t: "exec_tick True 0 (s_ex seen6) = (exec_lost 0 ((s_ex seen6)\<lparr>e_ackOut := 0, e_ackErr := 0\<rparr>), [])"
      by (simp add: exec_tick_def seen6_sys start_defs)
    show ?thesis using Heartbeat [OF t, of False] by (simp add: again1_def)
  qed
  have 2: "exec_step False again1 again2"
    unfolding again2_def by (rule Dial) (simp_all add: again1_def exec_lost_def Let_def seen6_sys start_defs)
  have 3: "exec_step False again2 again3"
    unfolding again3_def by (rule Accept [where ?o1.0 = 0 and ?o2.0 = 0]) (simp add: again2_sys new_link_def, rule again3_attach(1))
  have 4: "exec_step False again3 again4"
    unfolding again4_def
    by (rule Reattach [where f = "FResume \<lparr>rr_stdin = 0, rr_stdout = 0, rr_stderr = 0\<rparr>"])
      (simp add: again3_def again2_sys, simp add: again3_def put_down_def set_link_def again2_sys new_link_def, rule again4_attach(1))
  have 5: "exec_step False again4 again5"
    unfolding again5_def by (rule Pick) (simp_all add: again4_sys again3_attach seen_sent start_defs agent_defs)
  have 6: "exec_step False again5 again6"
    unfolding again6_def by (rule Write [where ?b1.0 = "''a''" and ?b2.0 = "[]" and ack = None and st = None])
      (simp_all only: again6_sys, simp add: again5_def again4_sys new_link_def)
  have 7: "exec_step False again6 again7"
    unfolding again7_def by (rule ClientNext) (simp_all add: again6_sys seen6_sys new_link_def)
  have 8: "exec_step False again7 again8"
    unfolding again8_def
    by (rule ClientPipe) (simp_all add: again7_def again6_sys client_take_def again4_attach seen6_sys start_defs pipe_waits_def limits)
  show ?thesis by (meson seen6_reached 1 2 3 4 5 6 7 8 exec_reach.intros)
qed

section \<open>Input\<close>

definition keyed_exec :: exec where
  "keyed_exec = (s_ex seen0)\<lparr>e_in := \<lparr>r_base = 0, r_buf = ''a'', r_off = 0\<rparr>, e_inEnd := 1\<rparr>"

definition keyed1 :: sys where
  "keyed1 = put_up (e_gen (s_ex seen0)) [FData ''a''] (seen0\<lparr>s_ex := keyed_exec, g_typed := g_typed seen0 @ take 1 ''a''\<rparr>)"

definition keyed2 :: sys where
  "keyed2 = set_link 0 (\<lambda>l. l\<lparr>lk_up := []\<rparr>) (keyed1\<lparr>s_ahand := (s_ahand keyed1)(0 := Some (FData ''a''))\<rparr>)"

text \<open>The command takes the byte.\<close>

definition eaten1 :: sys where
  "eaten1 = keyed2\<lparr>s_pr := proc_read 0 (FData ''a'') (s_pr keyed2), s_ahand := (s_ahand keyed2)(0 := None)\<rparr>"

definition eaten2 :: sys where
  "eaten2 = eaten1\<lparr>s_pr := feedStdin 1 False (s_pr eaten1), g_eaten := g_eaten eaten1 @ take 1 (p_inQueue (s_pr eaten1))\<rparr>"

text \<open>Or the transport falls silent while the agent's reader has the byte in hand, and the client dials again.\<close>

definition twice3 :: sys where
  "twice3 = keyed2\<lparr>s_ex := exec_lost 0 ((s_ex keyed2)\<lparr>e_ackOut := 0, e_ackErr := 0\<rparr>)\<rparr>"

definition twice4 :: sys where
  "twice4 = set_link 1 (\<lambda>_. new_link (Some (e_outOff (s_ex twice3), e_errOff (s_ex twice3)))) (twice3\<lparr>s_next := Suc 1, s_dial := Some 1\<rparr>)"

definition twice5_proc :: proc where
  "twice5_proc = (s_pr seen0)\<lparr>p_att := Some 1, p_atts := (p_atts (s_pr seen0))(0 := no_attachment\<lparr>a_gone := True\<rparr>)\<rparr>"

definition twice5 :: sys where
  "twice5 = put_down 1 [FResume \<lparr>rr_stdin = 0, rr_stdout = 0, rr_stderr = 0\<rparr>] (set_link 1 (\<lambda>l. l\<lparr>lk_header := None\<rparr>)
     (twice4\<lparr>s_pr := twice5_proc, s_areader := (s_areader twice4)(1 := True)\<rparr>))"

definition twice6 :: sys where
  "twice6 = twice5\<lparr>s_pr := proc_read 0 (FData ''a'') (s_pr twice5), s_ahand := (s_ahand twice5)(0 := None)\<rparr>"

definition twice7 :: sys where
  "twice7 = put_up 1 [FData ''a''] (set_link 1 (\<lambda>l. l\<lparr>lk_down := []\<rparr>)
     (twice6\<lparr>s_ex := keyed_exec\<lparr>e_gen := 1\<rparr>, s_dial := None,
       s_creader := (s_creader twice6)(1 := e_conn (keyed_exec\<lparr>e_gen := 1\<rparr>) \<and> e_gen (keyed_exec\<lparr>e_gen := 1\<rparr>) = 1)\<rparr>))"

definition twice8 :: sys where
  "twice8 = set_link 1 (\<lambda>l. l\<lparr>lk_up := []\<rparr>) (twice7\<lparr>s_ahand := (s_ahand twice7)(1 := Some (FData ''a''))\<rparr>)"

definition twice9 :: sys where
  "twice9 = twice8\<lparr>s_pr := proc_read 1 (FData ''a'') (s_pr twice8), s_ahand := (s_ahand twice8)(1 := None)\<rparr>"

definition twice10 :: sys where
  "twice10 = twice9\<lparr>s_pr := feedStdin 2 False (s_pr twice9), g_eaten := g_eaten twice9 @ take 2 (p_inQueue (s_pr twice9))\<rparr>"

lemma write_a: "WriteData FData ''a'' = [FData ''a'']"
  by (simp add: WriteData.simps limits)

lemma keyed2_sys:
  "s_ex keyed2 = keyed_exec" "s_pr keyed2 = s_pr seen0" "s_links keyed2 = s_links seen0" "s_chand keyed2 = (\<lambda>_. CIdle)" "s_dial keyed2 = None"
  "s_next keyed2 = 1" "s_areader keyed2 = s_areader seen0" "s_creader keyed2 = s_creader seen0"
  "s_ahand keyed2 = (\<lambda>_. None)(0 := Some (FData ''a''))" "g_typed keyed2 = ''a''" "g_eaten keyed2 = []"
  by (simp_all add: keyed2_def keyed1_def put_up_def set_link_def start_defs)

lemma keyed2_reached: "exec_reach strict seen0 keyed2"
proof -
  have "stdin_Write ''a'' (s_ex seen0) = Some (1, keyed_exec, [FData ''a''])"
    by (simp add: stdin_Write_def start_defs limits keyed_exec_def ring_Append_def) (simp add: WriteData.simps limits)
  then have 1: "exec_step strict seen0 keyed1" unfolding keyed1_def by (rule Type)
  have 2: "exec_step strict keyed1 keyed2"
    unfolding keyed2_def by (rule AgentNext) (simp_all add: keyed1_def put_up_def set_link_def start_defs)
  show ?thesis by (meson 1 2 exec_reach.intros)
qed

lemma eaten2_sys: "g_eaten eaten2 = ''a''" "g_typed eaten2 = ''a''"
  by (simp_all add: eaten2_def eaten1_def keyed2_sys proc_read_def breaks_def start_defs limits)

lemma eaten2_reached: "exec_reach strict seen0 eaten2"
proof -
  have 1: "exec_step strict keyed2 eaten1" unfolding eaten1_def by (rule AgentFrame) (simp_all add: keyed2_sys seen0_sys)
  have 2: "exec_step strict eaten1 eaten2"
    unfolding eaten2_def by (rule Feed) (simp_all add: eaten1_def keyed2_sys proc_read_def breaks_def start_defs limits feed_chunk_def)
  show ?thesis by (meson keyed2_reached 1 2 exec_reach.intros)
qed

lemma twice4_sys:
  "s_ex twice4 = keyed_exec\<lparr>e_conn := False, e_detached := True\<rparr>" "s_pr twice4 = s_pr seen0" "s_links twice4 = (s_links seen0)(1 := new_link (Some (0, 0)))"
  "s_dial twice4 = Some 1" "s_ahand twice4 = (\<lambda>_. None)(0 := Some (FData ''a''))" "s_areader twice4 = s_areader seen0" "s_creader twice4 = s_creader seen0"
  "g_typed twice4 = ''a''" "g_eaten twice4 = []"
  by (simp_all add: twice4_def twice3_def set_link_def keyed2_sys keyed_exec_def exec_lost_def Let_def start_defs)

lemma twice5_attach: "proc_attach 1 0 0 (s_pr twice4) = Inr (twice5_proc, \<lparr>rr_stdin = 0, rr_stdout = 0, rr_stderr = 0\<rparr>)"
  by (simp add: twice5_proc_def twice4_sys proc_attach_def start_defs agent_defs ring_Trim_def Let_def fun_eq_iff)

lemma twice5_sys:
  "s_ex twice5 = s_ex twice4" "s_pr twice5 = twice5_proc" "s_dial twice5 = Some 1" "s_ahand twice5 = s_ahand twice4" "s_creader twice5 = s_creader seen0"
  "s_links twice5 = (s_links seen0)(1 := (new_link None)\<lparr>lk_down := [FResume \<lparr>rr_stdin = 0, rr_stdout = 0, rr_stderr = 0\<rparr>]\<rparr>)"
  "s_areader twice5 = (s_areader seen0)(1 := True)" "g_typed twice5 = ''a''" "g_eaten twice5 = []"
  by (simp_all add: twice5_def put_down_def set_link_def twice4_sys new_link_def)

lemma twice4_reached: "exec_reach strict seen0 twice4" and twice5_reached: "exec_reach strict seen0 twice5"
proof -
  have t: "exec_tick True 0 (s_ex keyed2) = (exec_lost 0 ((s_ex keyed2)\<lparr>e_ackOut := 0, e_ackErr := 0\<rparr>), [])"
    by (simp add: exec_tick_def keyed2_sys keyed_exec_def start_defs)
  have 3: "exec_step strict keyed2 twice3" using Heartbeat [OF t, of strict] by (simp add: twice3_def keyed2_sys)
  have 4: "exec_step strict twice3 twice4"
    unfolding twice4_def by (rule Dial) (simp_all add: twice3_def keyed2_sys keyed_exec_def exec_lost_def Let_def start_defs)
  show r: "exec_reach strict seen0 twice4" by (meson keyed2_reached 3 4 exec_reach.intros)
  have "exec_step strict twice4 twice5"
    unfolding twice5_def by (rule Accept [where ?o1.0 = 0 and ?o2.0 = 0]) (simp add: twice4_sys new_link_def, rule twice5_attach)
  with r show "exec_reach strict seen0 twice5" by (meson exec_reach.intros)
qed

lemma twice7_attach:
  "exec_reattach 1 (FResume \<lparr>rr_stdin = 0, rr_stdout = 0, rr_stderr = 0\<rparr>) (s_ex twice6) = (keyed_exec\<lparr>e_gen := 1\<rparr>, [FData ''a''])"
  by (simp add: twice6_def twice5_sys twice4_sys keyed_exec_def exec_reattach_def exec_attach_def start_defs ring_From_def
      ring_End_def ring_Trim_def write_a)

lemma twice7_sys:
  "s_pr twice7 = twice5_proc\<lparr>p_inQueue := ''a'', p_inRecv := 1\<rparr>" "s_ahand twice7 = (\<lambda>_. None)"
  "s_links twice7 = (s_links seen0)(1 := (new_link None)\<lparr>lk_up := [FData ''a'']\<rparr>)"
  "s_areader twice7 = (s_areader seen0)(1 := True)" "g_typed twice7 = ''a''" "g_eaten twice7 = []"
  by (simp_all add: twice7_def twice6_def put_up_def set_link_def twice5_sys twice4_sys twice5_proc_def proc_read_def breaks_def
      start_defs limits fun_eq_iff)

lemma twice10_sys: "g_typed twice10 = ''a''" "g_eaten twice10 = ''aa''"
  by (simp_all add: twice10_def twice9_def twice8_def set_link_def twice7_sys twice5_proc_def proc_read_def breaks_def start_defs limits)

lemma twice10_reached: "exec_reach False seen0 twice10"
proof -
  have 6: "exec_step False twice5 twice6"
    unfolding twice6_def by (rule AgentFrame) (simp_all add: twice5_sys twice4_sys)
  have 7: "exec_step False twice6 twice7"
    unfolding twice7_def
    by (rule Reattach [where f = "FResume \<lparr>rr_stdin = 0, rr_stdout = 0, rr_stderr = 0\<rparr>"])
      (simp add: twice6_def twice5_sys, simp add: twice6_def twice5_sys new_link_def, rule twice7_attach)
  have 8: "exec_step False twice7 twice8"
    unfolding twice8_def by (rule AgentNext) (simp_all add: twice7_sys new_link_def)
  have 9: "exec_step False twice8 twice9"
    unfolding twice9_def by (rule AgentFrame) (simp_all add: twice8_def)
  have 10: "exec_step False twice9 twice10"
    unfolding twice10_def
    by (rule Feed) (simp_all add: twice9_def twice8_def set_link_def twice7_sys twice5_proc_def proc_read_def breaks_def
        start_defs limits feed_chunk_def)
  show ?thesis by (meson twice5_reached 6 7 8 9 10 exec_reach.intros)
qed

section \<open>Properties\<close>











end
