(* ===== verification/Spec2Isabelle.thy ===== *)
theory Spec2Isabelle
  imports TreeHub JsonWrite ExecWitness
begin

text \<open>
  A verification of the share sync of fleet (\<open>src/internal/sharesync\<close>), the part of the program that
  keeps folders of agents (logins, settings, histories) the same on the user's machine and in every
  container, of the policy table it is driven by (\<open>src/internal/mounts/syncpolicy\<close>), and of the commands
  fleet runs in pods over connections that may be lost (\<open>src/internal/podwire\<close>, \<open>src/internal/podagent\<close>).

  \<^bold>\<open>The program.\<close> A hub keeps, for each root (a folder such as \<open>.claude\<close>), the current state of every
  path with a rev. Sides (a tree on a machine) attach, saying what they hold, report changes on the
  rev they were made on, and are sent the states they lack in batches. A reported change is planned
  under the root's lock, decided by the path's policy without it (reading content, merging, keeping
  conflict copies), and committed under it again if nothing moved, else planned anew, at most four
  times. A new state is journalled before it is answered. Each side has a dispatcher that collects
  what the side is owed, lane by lane, sends it and takes the results. A side's tree keeps a record of
  what it last synced of every path, with a fingerprint of the file; scans compare the folder with the
  records and report what changed; ops of the hub are written over what is as recorded, and refused over
  what is not.

  A command in a pod is an exec stream between a client and an agent. The agent keeps output until the
  client acknowledges it, the client keeps input until the agent has it, and either end notices a lost
  transport in its own time. A client that re-attaches names the output it has; the agent answers with
  the input it took, replaces the old attachment, and both resend from there.

  \<^bold>\<open>Theories.\<close>
  \<^item> \<open>Prelude\<close>, \<open>GoStrings\<close>: 64-bit integers, association lists, and what the code uses of \<open>strings\<close>,
    \<open>path\<close> and \<open>strconv\<close>, on strings as lists of bytes.
  \<^item> \<open>SyncPolicy\<close>: \<open>table.go\<close>, \<open>policy.go\<close>, \<open>defaults.go\<close>. The first matching rule, the deepest root, the
    login files.
  \<^item> \<open>Entry\<close> (\<open>entry.go\<close>), \<open>Messages\<close> (\<open>messages.go\<close>, \<open>errors.go\<close>), \<open>TreeOrder\<close> (the sorts of \<open>scan.go\<close>, over
    a locale of total preorders with an interpretation for changes and one for ops).
  \<^item> \<open>Merge3\<close> (\<open>merge3.go\<close>): the three-way merge equals a reference merge key by key, is the same in
    either order, and merges arrays as sets.
  \<^item> \<open>Policies\<close> (\<open>policy.go\<close>, \<open>mirror.go\<close>, \<open>appendunion.go\<close>, \<open>docmerge.go\<close>), \<open>Json\<close>, \<open>Credential\<close>
    (\<open>credential.go\<close>): each policy as a function of its input; the locale of what the hub relies on of
    a policy is interpreted for the default ones.
  \<^item> \<open>GoFloat\<close>, \<open>Json3\<close>, \<open>JsonRead\<close>, \<open>JsonWrite\<close> (\<open>json3.go\<close>): JSON settings files. The parser ends on any bytes and
    reads what JSON's grammar gives; what is written, compact or indented, reads back; a locale of
    formats that keep documents through merge and writing, interpreted for JSON, gives that a merged
    file is the merge.
  \<^item> \<open>Journal\<close> (\<open>journal.go\<close>): log and snapshot refine a map of what was committed.
  \<^item> \<open>Sha256\<close>, \<open>HubState\<close>, \<open>HubRoot\<close> (\<open>stores.go\<close>, \<open>hub_root.go\<close>): the root, its tallies, sides, records and
    compaction; then \<open>prepare\<close>, \<open>decide\<close>, \<open>commitPlan\<close> and the loop \<open>process\<close>.
  \<^item> \<open>HubInv\<close>, \<open>HubSafety\<close>, \<open>HubJournal\<close>: every processed change keeps the invariant; what an answer
    means; stale deletes, one-way roots, revs and caps; what is answered is on disk.
  \<^item> \<open>HubDispatch\<close> (\<open>hub_dispatch.go\<close>), \<open>Hub\<close> (\<open>hub.go\<close>): collecting, sending, results, retries; attaching,
    reports, flushing, closing.
  \<^item> \<open>HubDelivery\<close>, \<open>HubNoLoss\<close>, \<open>HubFlush\<close>: the delivery invariant of a side, that every step under a
    root's lock keeps it in any interleaving (an inductive step relation), and what a flush achieves.
  \<^item> \<open>HubLimits\<close>: where the promises end. \<open>HubAnswers\<close>: reports, keys, batches, retries, merged files.
  \<^item> \<open>Disk\<close> (\<open>fingerprint.go\<close>, \<open>internal/safefs\<close>): a folder, its entries by path, and the calls a tree
    makes, each of which may fail by a script; reserved paths; fingerprints.
  \<^item> \<open>TreeState\<close>, \<open>TreeApply\<close>, \<open>TreeScan\<close>, \<open>SideTree\<close> (\<open>tree.go\<close>, \<open>apply.go\<close>, \<open>scan.go\<close>): a root of a side, its
    records and journal, attaching and answers; applying ops (replacing through a temp file, appending
    in place and undoing a failed append, folders, links, deletes) and serving content; scans; the tree
    of all roots.
  \<^item> \<open>TreeReport\<close>: a scan leaves nothing out, an answer keeps a newer change. \<open>TreeTruth\<close>, \<open>TreeSafety\<close>: a
    record whose fingerprint matches the folder is true, an invariant of a side under every op,
    answer, scan, failure and write of others (an inductive run relation); an op answered Applied is in
    place; a local change stands. \<open>TreeHub\<close>: what a side says it holds and what the hub makes of it.
  \<^item> \<open>PodRing\<close> (\<open>ring.go\<close>): the ring refines the tail of a stream; a locale of what a resumable stream relies on,
    interpreted for it. \<open>ExecClient\<close> (\<open>client_exec.go\<close>, \<open>pipe.go\<close>), \<open>ExecAgent\<close> (\<open>proc_linux.go\<close>): what each
    end does in one section under its lock. \<open>ExecRun\<close>: both ends and the frames on their way, an inductive
    step relation over those sections, losses and dials, with the byte streams as ghosts.
  \<^item> \<open>ExecOut\<close>, \<open>ExecDelivery\<close>, \<open>ExecSender\<close>: the invariant of the output and that each step keeps it; \<open>ExecIn\<close>,
    \<open>ExecResume\<close>: the same of the input, and what the agent holds. \<open>ExecWitness\<close>: runs, and what follows: output
    and input arrive once and in order, a re-attach succeeds, buffers are bounded; and two runs in which
    a reader that was replaced goes on, as the code lets it, and bytes arrive twice.
  \<^item> \<open>HubWitness\<close>, \<open>TreeWitness\<close> and the last sections of the theories above apply the properties to concrete states.

  \<^bold>\<open>How the model is made.\<close> A Go map that is iterated is an association list, one that is only looked up
  a function; \<open>nil\<close> and the empty string or slice are one value. An \<open>int64\<close> is an integer with
  \<open>wrap64\<close> where the code adds; a rev is a natural number with \<open>succ64\<close>; a mode is a 32-bit word; the
  zero time is \<open>None\<close>. Outcomes of I/O are inputs: scripts of write and snapshot outcomes in the root,
  the content and the failures a decision meets in \<open>decide_env\<close>, what other goroutines do between
  plan and commit as a function of the root, a side's answers as a function of the batch.
  In a tree, a record has an identity besides its value, since the code compares pointers; what runs
  under the root's lock runs on one state, and where the lock is let go \<open>others\<close> is what scans, answers
  and other programs do meanwhile. The hypotheses on it (\<open>meddles\<close>, \<open>reads_true\<close>, \<open>honest\<close>) say what the
  code relies on of a file system: a file whose fingerprint is the same has the same content, an inode
  number in use is not given out again, and a failed call does not claim that a path is not there.
  \<open>sort.SliceStable\<close> and \<open>slices.SortFunc\<close> are an insertion sort. The merge compares values by
  structure where the code compares SHA-256 hashes; content hashes are SHA-256 itself. The format of
  a document is a parameter of the policy, given for JSON. Log output is left out.
  In an exec stream, offsets are integers and a frame is the message it carries. A transport has a
  number, delivers in order and may be lost at any time with any first part of what was on its way; the
  frames a section writes are put on it with the section. A step with \<open>strict\<close> is one in which a reader
  whose attachment was replaced or given up does nothing more, and the heartbeat gives up no transport
  whose reader has a frame in hand; the code does not ensure it, and the properties of all runs are
  those of strict ones.

  \<^bold>\<open>Bounds and fuel.\<close> \<open>process_rounds\<close> has the code's four rounds. The loop over a path's folders has the
  path's length as fuel, which is enough (\<open>ancestors_loop_ends\<close>); so has the JSON scanner
  (\<open>json_fuel\<close>) and the parser of settings files (\<open>parseJSON_total\<close>). \<open>dispatch\<close> returns \<open>None\<close> when its passes outlast its fuel. Properties of revs ask that
  the 64-bit counter has room; the limit is shown (\<open>attach_can_end_revs\<close>).

  \<^bold>\<open>Not modelled.\<close> The loop that drives a tree (\<open>side.go\<close>, \<open>watch*.go\<close>), the handles and system calls of
  \<open>safefs\<close>, the TOML format, the remote hub and spoke, goroutines, timers and contexts; of pods, the bytes
  of frames and preambles, sessions, files, forwarding and the processes; and the rest of the program:
  server, backends, command line and terminal interface, which are calls to other programs, network
  protocols and user interface.
\<close>

end
